(* ===== verification/Prelude.thy ===== *)
theory Prelude
  imports Main "HOL-Library.Sublist" "HOL-Library.List_Lexorder" "HOL-Library.Char_ord"
begin

text \<open>
  What the component theories share: the exceptions of the program as values, the result
  type of an operation that may raise, the sequencing of such operations, the two
  collections of simp rules the component proofs use, and list lemmas.
\<close>

named_theorems result_simps \<open>sequencing and case analysis of fallible operations\<close>
named_theorems frame_simps \<open>what an operation leaves unchanged\<close>

subsection \<open>Exceptions\<close>

text \<open>
  One constructor per exception class the modelled code raises or catches, with its
  message. The library exceptions come first, then the classes the program declares
  (the module is named in the comment).
\<close>

datatype exn =
    ValueError string
  | KeyError string
  | TypeError string
  | RuntimeError string
  | ReError string
  | AttributeError string
  | IntegrityError string
  | OperationalError string
  | OSError string
  | TimeoutError
  | OtherError string
  \<comment> \<open>custos/audit.py\<close>
  | UnknownBindingVersion int
  | ChainForkError string
  | AuditStoreFull string
  \<comment> \<open>custos/audit\_persistence.py\<close>
  | AuditPersistenceRefused string
  \<comment> \<open>custos/retention.py, custos/content\_retention.py\<close>
  | PurgeRefused string
  | ContentPurged string
  | RetentionConfigRefused string
  \<comment> \<open>custos/scaling.py, custos/deployment\_binding.py, custos/execution.py\<close>
  | ScalingConfigError string
  | BindingError string
  | SSRFError string
  \<comment> \<open>PyJWT\<close>
  | ExpiredSignatureError
  | InvalidTokenError string
  \<comment> \<open>FastAPI\<close>
  | HTTPException nat string

type_synonym 'a result = "exn + 'a"

text \<open>\<open>try_bind\<close> runs the second operation on the first one's value unless it raised.\<close>

fun try_bind :: "'a result \<Rightarrow> ('a \<Rightarrow> 'b result) \<Rightarrow> 'b result" where
  "try_bind (Inl e) f = Inl e"
| "try_bind (Inr x) f = f x"

definition raised :: "'a result \<Rightarrow> bool" where
  "raised r = (case r of Inl _ \<Rightarrow> True | Inr _ \<Rightarrow> False)"

lemma raised_simps [simp, result_simps]: "raised (Inl e)" "\<not> raised (Inr x)"
  by (simp_all add: raised_def)

lemma try_bind_Inr [result_simps]:
  "try_bind r f = Inr y \<longleftrightarrow> (\<exists>x. r = Inr x \<and> f x = Inr y)"
  by (cases r) auto

lemma try_bind_Inl [result_simps]:
  "try_bind r f = Inl e \<longleftrightarrow> r = Inl e \<or> (\<exists>x. r = Inr x \<and> f x = Inl e)"
  by (cases r) auto

lemma try_bind_cong [fundef_cong]:
  "r = r' \<Longrightarrow> (\<And>x. r' = Inr x \<Longrightarrow> f x = g x) \<Longrightarrow> try_bind r f = try_bind r' g"
  by (cases r') auto

text \<open>Mapping a fallible operation over a list stops at the first exception.\<close>

fun try_map :: "('a \<Rightarrow> 'b result) \<Rightarrow> 'a list \<Rightarrow> 'b list result" where
  "try_map f [] = Inr []"
| "try_map f (x # xs) = try_bind (f x) (\<lambda>y. try_bind (try_map f xs) (\<lambda>ys. Inr (y # ys)))"

lemma try_map_length: "try_map f xs = Inr ys \<Longrightarrow> length ys = length xs"
  by (induction xs arbitrary: ys) (auto simp: result_simps)

lemma try_map_set: "try_map f xs = Inr ys \<Longrightarrow> x \<in> set xs \<Longrightarrow> \<exists>y \<in> set ys. f x = Inr y"
  by (induction xs arbitrary: ys) (auto simp: result_simps)

lemma try_map_Inr: "try_map (\<lambda>x. Inr (f x)) xs = Inr (map f xs)"
  by (induction xs) simp_all

subsection \<open>Lists and options\<close>

fun find_map :: "('a \<Rightarrow> 'b option) \<Rightarrow> 'a list \<Rightarrow> 'b option" where
  "find_map f [] = None"
| "find_map f (x # xs) = (case f x of None \<Rightarrow> find_map f xs | Some y \<Rightarrow> Some y)"

lemma find_map_None: "find_map f xs = None \<longleftrightarrow> (\<forall>x \<in> set xs. f x = None)"
  by (induction xs) (auto split: option.splits)

lemma find_append:
  "List.find P (xs @ ys) = (case List.find P xs of None \<Rightarrow> List.find P ys | Some x \<Rightarrow> Some x)"
  by (induction xs) auto

lemma find_None_iff_set: "List.find P xs = None \<longleftrightarrow> (\<forall>x \<in> set xs. \<not> P x)"
  by (induction xs) auto

lemma find_Some_set: "List.find P xs = Some x \<Longrightarrow> x \<in> set xs \<and> P x"
  by (induction xs) (auto split: if_splits)

lemma ex_split_Cons:
  "(\<exists>us r vs. q # rs = us @ r # vs \<and> P us r vs) \<longleftrightarrow>
     P [] q rs \<or> (\<exists>us r vs. rs = us @ r # vs \<and> P (q # us) r vs)"
  by (auto simp: Cons_eq_append_conv)

lemma prefix_nth: "prefix xs ys \<Longrightarrow> i < length xs \<Longrightarrow> xs ! i = ys ! i"
  by (auto simp: prefix_def nth_append)

lemma prefix_length_eq: "prefix xs ys \<Longrightarrow> length xs = length ys \<Longrightarrow> xs = ys"
  by (auto simp: prefix_def)

lemma prefix_snoc_self: "prefix xs (xs @ [x])"
  by simp

lemma last_take_Suc: "n < length xs \<Longrightarrow> last (take (Suc n) xs) = xs ! n"
  by (simp add: take_Suc_conv_app_nth)

text \<open>Association lists as insertion-ordered dictionaries: an update keeps the position.\<close>

fun dict_set :: "'k \<Rightarrow> 'v \<Rightarrow> ('k \<times> 'v) list \<Rightarrow> ('k \<times> 'v) list" where
  "dict_set k v [] = [(k, v)]"
| "dict_set k v ((k', w) # d) = (if k' = k then (k, v) # d else (k', w) # dict_set k v d)"

definition dict_del :: "'k \<Rightarrow> ('k \<times> 'v) list \<Rightarrow> ('k \<times> 'v) list" where
  "dict_del k d = filter (\<lambda>p. fst p \<noteq> k) d"

lemma map_of_dict_set [simp]: "map_of (dict_set k v d) = (map_of d)(k \<mapsto> v)"
  by (induction k v d rule: dict_set.induct) (auto simp: fun_eq_iff)

lemma map_of_dict_del [simp]: "map_of (dict_del k d) = (map_of d)(k := None)"
  by (induction d) (auto simp: dict_del_def fun_eq_iff)

lemma keys_dict_set: "fst ` set (dict_set k v d) = insert k (fst ` set d)"
  by (induction k v d rule: dict_set.induct) auto

lemma distinct_dict_set: "distinct (map fst d) \<Longrightarrow> distinct (map fst (dict_set k v d))"
proof (induction k v d rule: dict_set.induct)
  case (2 k v k' w d)
  then show ?case by (cases "k' = k") (simp_all add: keys_dict_set)
qed simp

lemma distinct_dict_del: "distinct (map fst d) \<Longrightarrow> distinct (map fst (dict_del k d))"
  by (induction d) (auto simp: dict_del_def)

lemma map_of_keys: "k \<in> fst ` set d \<longleftrightarrow> (\<exists>v. map_of d k = Some v)"
  by (metis domIff dom_map_of_conv_image_fst not_None_eq)

end
