(* ===== verification/PyText.thy ===== *)
theory PyText
  imports Prelude
begin

text \<open>
  The text operations of Python the program uses. A Python \<open>str\<close> is modelled as
  \<^typ>\<open>string\<close>: a list of code points below 256 (Latin-1); a \<open>bytes\<close> object is a
  \<^typ>\<open>string\<close> whose characters are the bytes. Character classes (\<open>isspace\<close>,
  \<open>isdecimal\<close>, \<open>isalnum\<close>) are those of Python restricted to these code points.
\<close>

abbreviation code :: "char \<Rightarrow> nat" where
  "code c \<equiv> of_char c"

lemma code_lt_256 [simp]: "code c < (256::nat)"
  by (metis nat_of_char_less_256)

lemma code_char_of: "n < 256 \<Longrightarrow> code (char_of n) = n"
  by simp

lemma code_inject: "code c = (code d :: nat) \<longleftrightarrow> c = d"
  by (metis char_of_char)

abbreviation nl :: char where "nl \<equiv> CHR 0x0A"
abbreviation dquote :: char where "dquote \<equiv> CHR 0x22"
abbreviation backslash :: char where "backslash \<equiv> CHR 0x5C"

subsection \<open>Character classes\<close>

definition is_space :: "char \<Rightarrow> bool" where
  "is_space c = (let n = code c in
     9 \<le> n \<and> n \<le> 13 \<or> 28 \<le> n \<and> n \<le> 32 \<or> n = 133 \<or> n = 160)"

definition is_digit :: "char \<Rightarrow> bool" where
  "is_digit c = (48 \<le> code c \<and> code c \<le> 57)"

definition is_lower_ascii :: "char \<Rightarrow> bool" where
  "is_lower_ascii c = (97 \<le> code c \<and> code c \<le> 122)"

definition is_upper_ascii :: "char \<Rightarrow> bool" where
  "is_upper_ascii c = (65 \<le> code c \<and> code c \<le> 90)"

definition is_alnum :: "char \<Rightarrow> bool" where
  "is_alnum c = (let n = code c in
     is_digit c \<or> is_lower_ascii c \<or> is_upper_ascii c \<or>
     n \<in> {170, 178, 179, 181, 185, 186, 188, 189, 190} \<or>
     192 \<le> n \<and> n \<noteq> 215 \<and> n \<noteq> 247)"

definition is_word :: "char \<Rightarrow> bool" where
  "is_word c = (is_alnum c \<or> c = CHR ''_'')"

subsection \<open>Case\<close>

definition lower_char :: "char \<Rightarrow> char" where
  "lower_char c = (let n = code c in
     if 65 \<le> n \<and> n \<le> 90 \<or> 192 \<le> n \<and> n \<le> 222 \<and> n \<noteq> 215 then char_of (n + 32) else c)"

definition upper_char :: "char \<Rightarrow> char" where
  "upper_char c = (let n = code c in
     if 97 \<le> n \<and> n \<le> 122 \<or> 224 \<le> n \<and> n \<le> 254 \<and> n \<noteq> 247 then char_of (n - 32) else c)"

definition lower :: "string \<Rightarrow> string" where
  "lower s = map lower_char s"

definition upper :: "string \<Rightarrow> string" where
  "upper s = map upper_char s"

lemma length_lower [simp]: "length (lower s) = length s"
  by (simp add: lower_def)

lemma lower_char_idem: "lower_char (lower_char c) = lower_char c"
proof (cases "65 \<le> code c \<and> code c \<le> 90 \<or> 192 \<le> code c \<and> code c \<le> 222 \<and> code c \<noteq> 215")
  case True
  have lt: "code c + 32 < 256" using True by auto
  have "code (lower_char c) = code c + 32"
    using True lt by (simp add: lower_char_def)
  then show ?thesis using True lt by (auto simp: lower_char_def Let_def)
next
  case False
  then show ?thesis by (auto simp: lower_char_def Let_def)
qed

lemma lower_idem: "lower (lower s) = lower s"
  by (simp add: lower_def lower_char_idem)

subsection \<open>strip, startswith, in\<close>

definition lstrip :: "string \<Rightarrow> string" where
  "lstrip s = dropWhile is_space s"

definition rstrip :: "string \<Rightarrow> string" where
  "rstrip s = rev (dropWhile is_space (rev s))"

definition strip :: "string \<Rightarrow> string" where
  "strip s = rstrip (lstrip s)"

text \<open>\<open>s.rstrip(chars)\<close> with a set of characters.\<close>

definition rstrip_chars :: "string \<Rightarrow> string \<Rightarrow> string" where
  "rstrip_chars cs s = rev (dropWhile (\<lambda>c. c \<in> set cs) (rev s))"

text \<open>\<open>re.sub(r"\s+", " ", s)\<close>.\<close>

fun squeeze :: "string \<Rightarrow> string" where
  "squeeze [] = []"
| "squeeze [c] = (if is_space c then '' '' else [c])"
| "squeeze (c # d # s) = (if is_space c then (if is_space d then squeeze (d # s) else CHR '' '' # squeeze (d # s))
     else c # squeeze (d # s))"

definition startswith :: "string \<Rightarrow> string \<Rightarrow> bool" where
  "startswith s p = (take (length p) s = p)"

fun contains :: "string \<Rightarrow> string \<Rightarrow> bool" where
  "contains [] p = (p = [])"
| "contains (c # s) p = (startswith (c # s) p \<or> contains s p)"

lemma startswith_prefix: "startswith s p \<longleftrightarrow> prefix p s"
  by (metis append_take_drop_id prefix_def startswith_def append_eq_conv_conj)

lemma contains_iff: "contains s p \<longleftrightarrow> (\<exists>u v. s = u @ p @ v)"
proof (induction s)
  case Nil
  show ?case by auto
next
  case (Cons c s)
  show ?case
  proof
    assume "contains (c # s) p"
    then show "\<exists>u v. c # s = u @ p @ v"
      using Cons by (auto simp: startswith_prefix prefix_def) (metis append_Cons append_Nil)+
  next
    assume "\<exists>u v. c # s = u @ p @ v"
    then obtain u v where uv: "c # s = u @ p @ v" by blast
    show "contains (c # s) p"
    proof (cases u)
      case Nil
      then have "prefix p (c # s)" by (simp add: uv)
      then show ?thesis by (simp add: startswith_prefix)
    next
      case (Cons d u')
      with uv have "s = u' @ p @ v" by simp
      then show ?thesis using Cons.IH by auto
    qed
  qed
qed

lemma strip_blank: "strip s = [] \<longleftrightarrow> (\<forall>c \<in> set s. is_space c)"
proof
  assume "strip s = []"
  then have "dropWhile is_space (rev (dropWhile is_space s)) = []"
    by (simp add: strip_def rstrip_def lstrip_def)
  then have all: "\<forall>c \<in> set (dropWhile is_space s). is_space c"
    by (simp add: dropWhile_eq_Nil_conv)
  have "dropWhile is_space s = []"
  proof (rule ccontr)
    assume ne: "dropWhile is_space s \<noteq> []"
    then have "\<not> is_space (hd (dropWhile is_space s))" by (rule hd_dropWhile)
    with all ne show False by (meson hd_in_set)
  qed
  then show "\<forall>c \<in> set s. is_space c" by (simp add: dropWhile_eq_Nil_conv)
next
  assume "\<forall>c \<in> set s. is_space c"
  then show "strip s = []" by (auto simp: strip_def rstrip_def lstrip_def dropWhile_eq_Nil_conv dest: set_dropWhileD)
qed

subsection \<open>split, join, partition\<close>

fun split_on :: "char \<Rightarrow> string \<Rightarrow> string list" where
  "split_on d [] = [[]]"
| "split_on d (c # s) =
     (if c = d then [] # split_on d s
      else (case split_on d s of [] \<Rightarrow> [[c]] | w # ws \<Rightarrow> (c # w) # ws))"

fun join :: "string \<Rightarrow> string list \<Rightarrow> string" where
  "join sep [] = []"
| "join sep [s] = s"
| "join sep (s # t # ts) = s @ sep @ join sep (t # ts)"

lemma split_on_nonempty [simp]: "split_on d s \<noteq> []"
  by (induction d s rule: split_on.induct) (auto split: list.splits)

lemma join_split_on: "join [d] (split_on d s) = s"
proof (induction d s rule: split_on.induct)
  case (2 d c s)
  show ?case
  proof (cases "c = d")
    case True
    with 2 show ?thesis by (cases "split_on d s") auto
  next
    case False
    with 2(2) show ?thesis
      by (cases "split_on d s"; cases "tl (split_on d s)") (auto split: list.splits)
  qed
qed simp

subsection \<open>Decimal rendering of integers\<close>

definition digit_char :: "nat \<Rightarrow> char" where
  "digit_char d = char_of (48 + d)"

fun nat_repr :: "nat \<Rightarrow> string" where
  "nat_repr n = (if n < 10 then [digit_char n] else nat_repr (n div 10) @ [digit_char (n mod 10)])"

declare nat_repr.simps [simp del]

definition int_repr :: "int \<Rightarrow> string" where
  "int_repr i = (if i < 0 then CHR ''-'' # nat_repr (nat (- i)) else nat_repr (nat i))"

lemma code_digit_char: "d < 10 \<Longrightarrow> code (digit_char d) = 48 + d"
  by (simp add: digit_char_def)

lemma is_digit_digit_char [simp]: "d < 10 \<Longrightarrow> is_digit (digit_char d)"
  by (simp add: is_digit_def code_digit_char)

lemma nat_repr_nonempty [simp]: "nat_repr n \<noteq> []"
  by (subst nat_repr.simps) simp

lemma nat_repr_digits: "\<forall>c \<in> set (nat_repr n). is_digit c"
proof (induction n rule: nat_repr.induct)
  case (1 n)
  then show ?case by (subst nat_repr.simps) auto
qed

text \<open>\<open>digits_val\<close> reads a decimal string back.\<close>

fun digits_val :: "nat \<Rightarrow> string \<Rightarrow> nat" where
  "digits_val a [] = a"
| "digits_val a (c # s) = digits_val (10 * a + (code c - 48)) s"

lemma digits_val_append: "digits_val a (s @ t) = digits_val (digits_val a s) t"
  by (induction a s rule: digits_val.induct) simp_all

lemma digits_val_nat_repr: "digits_val 0 (nat_repr n) = n"
proof (induction n rule: nat_repr.induct)
  case (1 n)
  show ?case
  proof (cases "n < 10")
    case True
    then show ?thesis by (subst nat_repr.simps) (simp add: code_digit_char)
  next
    case False
    with 1 have "digits_val 0 (nat_repr (n div 10)) = n div 10" by simp
    with False show ?thesis
      by (subst nat_repr.simps) (simp add: digits_val_append code_digit_char)
  qed
qed

lemma nat_repr_inject [simp]: "nat_repr m = nat_repr n \<longleftrightarrow> m = n"
  by (metis digits_val_nat_repr)

lemma not_digit_minus [simp]: "\<not> is_digit (CHR ''-'')"
  by (simp add: is_digit_def)

lemma nat_repr_no_minus [simp]: "nat_repr n \<noteq> CHR ''-'' # s"
  using nat_repr_digits [of n] by (cases "nat_repr n") auto

lemma int_repr_inject [simp]: "int_repr i = int_repr j \<longleftrightarrow> i = j"
  by (auto simp: int_repr_def nat_repr_no_minus [symmetric] split: if_splits)

subsection \<open>repr of a string\<close>

definition hex_nibble :: "nat \<Rightarrow> char" where
  "hex_nibble d = char_of (if d < 10 then 48 + d else 87 + d)"

definition repr_char :: "char \<Rightarrow> char \<Rightarrow> string" where
  "repr_char q c = (let n = code c in
     if c = q \<or> c = backslash then [backslash, c]
     else if c = nl then backslash # ''n''
     else if n = 13 then backslash # ''r''
     else if n = 9 then backslash # ''t''
     else if n < 32 \<or> 127 \<le> n \<and> n \<le> 160 \<or> n = 173
       then backslash # ''x'' @ [hex_nibble (n div 16), hex_nibble (n mod 16)]
     else [c])"

definition py_repr :: "string \<Rightarrow> string" where
  "py_repr s = (let q = (if CHR 0x27 \<in> set s \<and> dquote \<notin> set s then dquote else CHR 0x27) in
     q # concat (map (repr_char q) s) @ [q])"

subsection \<open>The text of an exception\<close>

definition quoted :: "string \<Rightarrow> string" where
  "quoted s = CHR 0x27 # s @ [CHR 0x27]"

fun exn_text :: "exn \<Rightarrow> string" where
  "exn_text (ValueError s) = s"
| "exn_text (KeyError s) = py_repr s"
| "exn_text (TypeError s) = s"
| "exn_text (RuntimeError s) = s"
| "exn_text (ReError s) = s"
| "exn_text (AttributeError s) = s"
| "exn_text (IntegrityError s) = s"
| "exn_text (OperationalError s) = s"
| "exn_text (OSError s) = s"
| "exn_text TimeoutError = []"
| "exn_text (OtherError s) = s"
| "exn_text (UnknownBindingVersion v) = int_repr v"
| "exn_text (ChainForkError s) = s"
| "exn_text (AuditStoreFull s) = s"
| "exn_text (AuditPersistenceRefused s) = s"
| "exn_text (PurgeRefused s) = s"
| "exn_text (ContentPurged s) = s"
| "exn_text (RetentionConfigRefused s) = s"
| "exn_text (ScalingConfigError s) = s"
| "exn_text (BindingError s) = s"
| "exn_text (SSRFError s) = s"
| "exn_text ExpiredSignatureError = ''Signature has expired''"
| "exn_text (InvalidTokenError s) = s"
| "exn_text (HTTPException c s) = int_repr (int c) @ '': '' @ s"

text \<open>\<open>type(exc).\_\_name\_\_\<close>.\<close>

fun exn_type :: "exn \<Rightarrow> string" where
  "exn_type (ValueError s) = ''ValueError''"
| "exn_type (KeyError s) = ''KeyError''"
| "exn_type (TypeError s) = ''TypeError''"
| "exn_type (RuntimeError s) = ''RuntimeError''"
| "exn_type (ReError s) = ''error''"
| "exn_type (AttributeError s) = ''AttributeError''"
| "exn_type (IntegrityError s) = ''IntegrityError''"
| "exn_type (OperationalError s) = ''OperationalError''"
| "exn_type (OSError s) = ''OSError''"
| "exn_type TimeoutError = ''TimeoutError''"
| "exn_type (OtherError s) = ''Exception''"
| "exn_type (UnknownBindingVersion v) = ''UnknownBindingVersion''"
| "exn_type (ChainForkError s) = ''ChainForkError''"
| "exn_type (AuditStoreFull s) = ''AuditStoreFull''"
| "exn_type (AuditPersistenceRefused s) = ''AuditPersistenceRefused''"
| "exn_type (PurgeRefused s) = ''PurgeRefused''"
| "exn_type (ContentPurged s) = ''ContentPurged''"
| "exn_type (RetentionConfigRefused s) = ''RetentionConfigRefused''"
| "exn_type (ScalingConfigError s) = ''ScalingConfigError''"
| "exn_type (BindingError s) = ''BindingError''"
| "exn_type (SSRFError s) = ''SSRFError''"
| "exn_type ExpiredSignatureError = ''ExpiredSignatureError''"
| "exn_type (InvalidTokenError s) = ''InvalidTokenError''"
| "exn_type (HTTPException c s) = ''HTTPException''"

subsection \<open>The process environment\<close>

text \<open>\<open>os.environ\<close> is a map; \<open>getenv env k d\<close> is \<open>os.getenv(k, d)\<close>.\<close>

type_synonym environment = "string \<Rightarrow> string option"

definition getenv :: "environment \<Rightarrow> string \<Rightarrow> string \<Rightarrow> string" where
  "getenv env k d = (case env k of Some v \<Rightarrow> v | None \<Rightarrow> d)"

definition env_or_empty :: "environment \<Rightarrow> string \<Rightarrow> string" where
  "env_or_empty env k = getenv env k []"

text \<open>\<open>a or b\<close> on optional strings, and their truth value.\<close>

definition truthy_str :: "string option \<Rightarrow> bool" where
  "truthy_str x = (x \<noteq> None \<and> x \<noteq> Some [])"

definition str_or :: "string option \<Rightarrow> string option \<Rightarrow> string option" where
  "str_or a b = (if truthy_str a then a else b)"

lemma truthy_str_simps [simp]: "\<not> truthy_str None" "truthy_str (Some s) = (s \<noteq> [])"
  by (simp_all add: truthy_str_def)

subsection \<open>Paths and integers\<close>

text \<open>\<open>os.path.join(a, b)\<close> on POSIX: an absolute \<open>b\<close> replaces \<open>a\<close>.\<close>

definition path_join :: "string \<Rightarrow> string \<Rightarrow> string" where
  "path_join a b =
     (if startswith b ''/'' then b
      else if a = [] \<or> last a = CHR ''/'' then a @ b else a @ ''/'' @ b)"

text \<open>
  \<open>int(text)\<close>: surrounding white space, a sign, and digits, between which single underscores
  may stand.
\<close>

fun int_digits :: "bool \<Rightarrow> string \<Rightarrow> string option" where
  "int_digits after [] = (if after then Some [] else None)"
| "int_digits after (c # s) =
     (if is_digit c then map_option ((#) c) (int_digits True s)
      else if c = CHR ''_'' \<and> after then int_digits False s else None)"

definition py_int :: "string \<Rightarrow> int result" where
  "py_int text = (let t = strip text;
      neg = startswith t ''-''; u = (if neg \<or> startswith t ''+'' then drop 1 t else t) in
      case int_digits False u of
        Some ds \<Rightarrow> Inr (if neg then - int (digits_val 0 ds) else int (digits_val 0 ds))
      | None \<Rightarrow> Inl (ValueError (''invalid literal for int() with base 10: '' @ py_repr text)))"

end
