(* ===== verification/Json.thy ===== *)
theory Json
  imports PyText
begin

text \<open>
  Python's \<open>json.dumps\<close> on the values the program serialises, with the options it passes:
  the separators, \<open>ensure_ascii\<close>, and \<open>sort_keys\<close>. A float is a clock reading, held as a
  whole number of microseconds and rendered as Python renders the double nearest to it
  (for readings between one and \<open>10^16\<close> seconds, where \<open>repr\<close> uses no exponent). The main
  result is that a dump determines the value it was made from.
\<close>

datatype json =
    JNull
  | JBool bool
  | JInt int
  | JFloat int
  | JStr string
  | JList "json list"
  | JObj "(string \<times> json) list"

subsection \<open>Floats\<close>

definition usec :: int where "usec = 1000000"

text \<open>The six decimals of a number of microseconds, and Python's shortest rendering of them.\<close>

fun pad_digits :: "nat \<Rightarrow> nat \<Rightarrow> string" where
  "pad_digits 0 n = []"
| "pad_digits (Suc k) n = pad_digits k (n div 10) @ [digit_char (n mod 10)]"

definition trim_zeros :: "string \<Rightarrow> string" where
  "trim_zeros s = rev (dropWhile (\<lambda>c. c = CHR ''0'') (rev s))"

definition frac_repr :: "nat \<Rightarrow> string" where
  "frac_repr n = (let f = trim_zeros (pad_digits 6 n) in if f = [] then ''0'' else f)"

definition float_repr :: "int \<Rightarrow> string" where
  "float_repr t = (if t < 0 then ''-'' else []) @
     nat_repr (nat \<bar>t\<bar> div 1000000) @ ''.'' @ frac_repr (nat \<bar>t\<bar> mod 1000000)"

lemma length_pad_digits [simp]: "length (pad_digits k n) = k"
  by (induction k arbitrary: n) simp_all

lemma pad_digits_digits: "\<forall>c \<in> set (pad_digits k n). is_digit c"
  by (induction k arbitrary: n) auto

lemma digits_val_pad: "n < 10 ^ k \<Longrightarrow> digits_val 0 (pad_digits k n) = n"
proof (induction k arbitrary: n)
  case (Suc k)
  then have "n div 10 < 10 ^ k" by (simp add: less_mult_imp_div_less mult.commute)
  then have "digits_val 0 (pad_digits k (n div 10)) = n div 10" by (rule Suc.IH)
  then show ?case by (simp add: digits_val_append code_digit_char)
qed simp

lemma trim_zeros_pad:
  "trim_zeros s @ replicate (length s - length (trim_zeros s)) (CHR ''0'') = s"
proof -
  define T where "T = takeWhile (\<lambda>c. c = CHR ''0'') (rev s)"
  define D where "D = dropWhile (\<lambda>c. c = CHR ''0'') (rev s)"
  have "rev s = T @ D" by (simp add: T_def D_def)
  then have s: "s = rev D @ rev T" by (metis rev_append rev_rev_ident)
  have "T = replicate (length T) (CHR ''0'')"
    by (rule replicate_eqI) (auto simp: T_def dest: set_takeWhileD)
  then have "rev T = replicate (length T) (CHR ''0'')" by (metis rev_replicate)
  moreover have "trim_zeros s = rev D" by (simp add: trim_zeros_def D_def)
  moreover have "length s = length D + length T" by (simp add: s)
  ultimately show ?thesis using s by simp
qed

lemma frac_repr_inject:
  assumes "m < 10 ^ 6" "n < 10 ^ 6" "frac_repr m = frac_repr n"
  shows "m = n"
proof -
  have decode: "digits_val 0 (take 6 (frac_repr k @ replicate 6 (CHR ''0''))) = k" if "k < 10 ^ 6" for k
  proof -
    let ?p = "pad_digits 6 k"
    have len: "length (trim_zeros ?p) \<le> 6"
      using length_dropWhile_le [of "\<lambda>c. c = CHR ''0''" "rev ?p"] by (simp add: trim_zeros_def)
    have pad: "trim_zeros ?p @ replicate (6 - length (trim_zeros ?p)) (CHR ''0'') = ?p"
      using trim_zeros_pad [of ?p] by simp
    have "take 6 (frac_repr k @ replicate 6 (CHR ''0'')) = ?p"
    proof (cases "trim_zeros ?p = []")
      case True
      with pad have p: "?p = replicate 6 (CHR ''0'')" by simp
      from True have f: "frac_repr k = ''0''" by (simp add: frac_repr_def)
      show ?thesis unfolding f p by (simp add: numeral_eq_Suc)
    next
      case False
      then have "frac_repr k = trim_zeros ?p" by (simp add: frac_repr_def Let_def)
      with len pad show ?thesis by (simp add: min_def)
    qed
    then show ?thesis using that by (simp only: digits_val_pad)
  qed
  from assms show ?thesis by (metis decode)
qed

lemma frac_repr_digits: "\<forall>c \<in> set (frac_repr n). is_digit c"
  using pad_digits_digits [of 6 n]
  by (auto simp: frac_repr_def Let_def trim_zeros_def is_digit_def dest: set_dropWhileD)

text \<open>Two strings whose common part is a maximal run of characters of one class agree.\<close>

lemma run_split:
  assumes "a @ s = b @ t" "\<forall>c \<in> set a. P c" "\<forall>c \<in> set b. P c"
    and "s = [] \<or> \<not> P (hd s)" "t = [] \<or> \<not> P (hd t)"
  shows "a = b \<and> s = t"
proof -
  have "takeWhile P (a @ s) = a" using assms(2,4)
    by (cases s) (simp_all add: takeWhile_append1)
  moreover have "takeWhile P (b @ t) = b" using assms(3,5)
    by (cases t) (simp_all add: takeWhile_append1)
  ultimately show ?thesis using assms(1) by simp
qed

lemma not_digit_dot [simp]: "\<not> is_digit (CHR ''.'')"
  by (simp add: is_digit_def)

lemma float_repr_inject [simp]: "float_repr s = float_repr t \<longleftrightarrow> s = t"
proof
  assume eq: "float_repr s = float_repr t"
  let ?w = "\<lambda>t::int. nat_repr (nat \<bar>t\<bar> div 1000000)" and ?f = "\<lambda>t::int. frac_repr (nat \<bar>t\<bar> mod 1000000)"
  have sgn: "(s < 0) = (t < 0)"
    using eq nat_repr_digits [of "nat \<bar>s\<bar> div 1000000"] nat_repr_digits [of "nat \<bar>t\<bar> div 1000000"]
    by (cases "?w s"; cases "?w t") (auto simp: float_repr_def split: if_splits)
  with eq have "?w s @ (CHR ''.'' # ?f s) = ?w t @ (CHR ''.'' # ?f t)"
    by (auto simp: float_repr_def split: if_splits)
  then have "?w s = ?w t \<and> CHR ''.'' # ?f s = CHR ''.'' # ?f t"
    by (rule run_split [where P = is_digit]) (simp_all add: nat_repr_digits)
  then have w: "nat \<bar>s\<bar> div 1000000 = nat \<bar>t\<bar> div 1000000" and f: "?f s = ?f t" by simp_all
  from f have "nat \<bar>s\<bar> mod 1000000 = nat \<bar>t\<bar> mod 1000000"
    by (rule frac_repr_inject [rotated 2]) simp_all
  with w have "nat \<bar>s\<bar> = nat \<bar>t\<bar>" by (metis div_mult_mod_eq)
  with sgn show "s = t" by auto
qed simp

subsection \<open>String escapes\<close>

definition hex_digit :: "nat \<Rightarrow> char" where
  "hex_digit d = char_of (if d < 10 then 48 + d else 87 + d)"

definition u_escape :: "char \<Rightarrow> string" where
  "u_escape c = [backslash, CHR ''u'', CHR ''0'', CHR ''0'',
     hex_digit (code c div 16), hex_digit (code c mod 16)]"

text \<open>The short escapes both encoders share.\<close>

definition short_escape :: "char \<Rightarrow> char option" where
  "short_escape c = (let n = code c in
     if n = 34 then Some (CHR 0x22) else if n = 92 then Some (CHR 0x5C)
     else if n = 10 then Some (CHR ''n'') else if n = 13 then Some (CHR ''r'')
     else if n = 9 then Some (CHR ''t'') else if n = 12 then Some (CHR ''f'')
     else if n = 8 then Some (CHR ''b'') else None)"

definition esc_ascii :: "char \<Rightarrow> string" where
  "esc_ascii c = (case short_escape c of Some e \<Rightarrow> [backslash, e]
     | None \<Rightarrow> if 32 \<le> code c \<and> code c \<le> 126 then [c] else u_escape c)"

definition esc_raw :: "char \<Rightarrow> string" where
  "esc_raw c = (case short_escape c of Some e \<Rightarrow> [backslash, e]
     | None \<Rightarrow> if 32 \<le> code c then [c] else u_escape c)"

text \<open>
  The interface the serialiser relies on: an escape is never empty, never begins with the
  closing quote, and one escape is not the beginning of another.
\<close>

locale json_escape =
  fixes esc :: "char \<Rightarrow> string"
  assumes esc_ne: "esc c \<noteq> []"
    and esc_hd: "hd (esc c) \<noteq> dquote"
    and esc_prefix_free: "esc c @ s = esc d @ t \<Longrightarrow> c = d \<and> s = t"
begin

definition str_body :: "string \<Rightarrow> string" where
  "str_body s = concat (map esc s) @ [dquote]"

lemma str_body_inject:
  "str_body x @ s = str_body y @ t \<Longrightarrow> x = y \<and> s = t"
proof (induction x arbitrary: y)
  case Nil
  then show ?case
  proof (cases y)
    case (Cons d ys)
    then have "dquote # s = esc d @ concat (map esc ys) @ dquote # t"
      using Nil by (simp add: str_body_def)
    then show ?thesis using esc_ne [of d] esc_hd [of d] by (cases "esc d") auto
  qed (simp add: str_body_def)
next
  case (Cons c x)
  show ?case
  proof (cases y)
    case Nil
    then have "dquote # t = esc c @ concat (map esc x) @ dquote # s"
      using Cons.prems by (simp add: str_body_def)
    then show ?thesis using esc_ne [of c] esc_hd [of c] by (cases "esc c") auto
  next
    case (Cons d ys)
    with Cons.prems have "esc c @ (str_body x @ s) = esc d @ (str_body ys @ t)"
      by (simp add: str_body_def)
    then have "c = d" "str_body x @ s = str_body ys @ t" by (auto dest: esc_prefix_free)
    with Cons.IH Cons show ?thesis by blast
  qed
qed

end

lemma short_escape_inj: "short_escape c = Some e \<Longrightarrow> short_escape d = Some e \<Longrightarrow> c = d"
  by (auto simp: short_escape_def Let_def split: if_splits) (metis code_inject)+

lemma short_escape_not_u: "short_escape c \<noteq> Some (CHR ''u'')"
  by (simp add: short_escape_def Let_def)

lemma short_escape_None: "short_escape c = None \<Longrightarrow> c \<noteq> backslash \<and> c \<noteq> dquote"
  by (auto simp: short_escape_def)

lemma code_hex_digit: "d < 16 \<Longrightarrow> code (hex_digit d) = (if d < 10 then 48 + d else 87 + d)"
  unfolding hex_digit_def by (rule code_char_of) auto

lemma hex_digit_inj:
  assumes "m < 16" "n < 16" "hex_digit m = hex_digit n"
  shows "m = n"
proof -
  have "(if m < 10 then 48 + m else 87 + m) = (if n < 10 then 48 + n else 87 + n)"
    using assms by (metis code_hex_digit)
  then show ?thesis by (auto split: if_splits)
qed

lemma hex_pair_inj:
  assumes "hex_digit (code c div 16) = hex_digit (code d div 16)"
    and "hex_digit (code c mod 16) = hex_digit (code d mod 16)"
  shows "c = d"
proof -
  have "code c div 16 < 16" "code d div 16 < 16"
    by (rule less_mult_imp_div_less, simp)+
  then have "code c div 16 = code d div 16" "code c mod 16 = code d mod 16"
    using assms by (auto intro: hex_digit_inj)
  then have "code c = code d" by (metis div_mult_mod_eq)
  then show ?thesis by (simp add: code_inject)
qed

lemma esc_cases:
  assumes "esc = esc_ascii \<or> esc = esc_raw"
  obtains e where "short_escape c = Some e" "esc c = [backslash, e]"
    | "short_escape c = None" "esc c = [c]"
    | "short_escape c = None" "esc c = u_escape c"
  using assms
  by (cases "short_escape c"; cases "32 \<le> code c"; cases "code c \<le> 126")
     (auto simp: esc_ascii_def esc_raw_def)

lemma esc_json_escape:
  assumes "esc = esc_ascii \<or> esc = esc_raw"
  shows "json_escape esc"
proof
  fix c d s t
  show "esc c \<noteq> []" by (rule esc_cases [OF assms, of c]) (simp_all add: u_escape_def)
  show "hd (esc c) \<noteq> dquote"
    by (rule esc_cases [OF assms, of c]) (simp_all add: u_escape_def short_escape_None)
  show "c = d \<and> s = t" if eq: "esc c @ s = esc d @ t"
    using eq short_escape_not_u [of c] short_escape_not_u [of d]
      short_escape_None [of c] short_escape_None [of d]
    by (rule_tac esc_cases [OF assms, of c]; rule_tac esc_cases [OF assms, of d])
       (auto simp: u_escape_def dest: short_escape_inj intro: hex_pair_inj)
qed

interpretation ascii: json_escape esc_ascii
  by (simp add: esc_json_escape)

interpretation raw: json_escape esc_raw
  by (simp add: esc_json_escape)

subsection \<open>dumps\<close>

text \<open>Formats: the separators and the escape, as \<open>json.dumps\<close> takes them.\<close>

record fmt =
  item_sep :: string
  key_sep :: string
  escape :: "char \<Rightarrow> string"

definition default_fmt :: fmt where
  "default_fmt = \<lparr>item_sep = '', '', key_sep = '': '', escape = esc_ascii\<rparr>"

definition compact_fmt :: fmt where
  "compact_fmt = \<lparr>item_sep = '','', key_sep = '':'', escape = esc_ascii\<rparr>"

definition compact_raw_fmt :: fmt where
  "compact_raw_fmt = \<lparr>item_sep = '','', key_sep = '':'', escape = esc_raw\<rparr>"

lemmas fmt_defs = default_fmt_def compact_fmt_def compact_raw_fmt_def

definition dump_str :: "fmt \<Rightarrow> string \<Rightarrow> string" where
  "dump_str f s = dquote # concat (map (escape f) s) @ [dquote]"

fun dump :: "fmt \<Rightarrow> json \<Rightarrow> string"
  and dump_list :: "fmt \<Rightarrow> bool \<Rightarrow> json list \<Rightarrow> string"
  and dump_obj :: "fmt \<Rightarrow> bool \<Rightarrow> (string \<times> json) list \<Rightarrow> string" where
  "dump f JNull = ''null''"
| "dump f (JBool b) = (if b then ''true'' else ''false'')"
| "dump f (JInt i) = int_repr i"
| "dump f (JFloat t) = float_repr t"
| "dump f (JStr s) = dump_str f s"
| "dump f (JList xs) = CHR ''['' # dump_list f True xs"
| "dump f (JObj kvs) = CHR ''{'' # dump_obj f True kvs"
| "dump_list f first [] = '']''"
| "dump_list f first (x # xs) =
     (if first then [] else item_sep f) @ dump f x @ dump_list f False xs"
| "dump_obj f first [] = ''}''"
| "dump_obj f first ((k, x) # kvs) =
     (if first then [] else item_sep f) @ dump_str f k @ key_sep f @ dump f x @ dump_obj f False kvs"

text \<open>\<open>sort_keys=True\<close>: the keys of every object in code-point order.\<close>

fun sort_keys :: "json \<Rightarrow> json" where
  "sort_keys (JList xs) = JList (map sort_keys xs)"
| "sort_keys (JObj kvs) = JObj (sort_key fst (map (\<lambda>kv. (fst kv, sort_keys (snd kv))) kvs))"
| "sort_keys j = j"

definition json_dumps :: "fmt \<Rightarrow> json \<Rightarrow> string" where
  "json_dumps f j = dump f (sort_keys j)"

subsection \<open>A dump determines its value\<close>

definition num_char :: "char \<Rightarrow> bool" where
  "num_char c = (is_digit c \<or> c = CHR ''-'' \<or> c = CHR ''.'')"

text \<open>What may follow a value: anything but more of a number.\<close>

definition ends_num :: "string \<Rightarrow> bool" where
  "ends_num s = (s = [] \<or> \<not> num_char (hd s))"

definition fmt_ok :: "fmt \<Rightarrow> bool" where
  "fmt_ok f = (json_escape (escape f) \<and> (\<exists>v. item_sep f = CHR '','' # v))"

lemma fmt_ok_formats: "fmt_ok default_fmt" "fmt_ok compact_fmt" "fmt_ok compact_raw_fmt"
  by (simp_all add: fmt_ok_def fmt_defs esc_json_escape)

lemma dump_str_inject:
  assumes "fmt_ok f" "dump_str f x @ s = dump_str f y @ t"
  shows "x = y \<and> s = t"
proof -
  from assms(1) have esc: "json_escape (escape f)" by (simp add: fmt_ok_def)
  from assms(2) have
    "json_escape.str_body (escape f) x @ s = json_escape.str_body (escape f) y @ t"
    by (simp add: dump_str_def json_escape.str_body_def [OF esc])
  then show ?thesis by (rule json_escape.str_body_inject [OF esc])
qed

text \<open>The first character tells the kind of a value.\<close>

datatype kind = Null_kind | Bool_kind | Num_kind | Str_kind | List_kind | Obj_kind | Other_kind

fun kind_of :: "json \<Rightarrow> kind" where
  "kind_of JNull = Null_kind"
| "kind_of (JBool _) = Bool_kind"
| "kind_of (JInt _) = Num_kind"
| "kind_of (JFloat _) = Num_kind"
| "kind_of (JStr _) = Str_kind"
| "kind_of (JList _) = List_kind"
| "kind_of (JObj _) = Obj_kind"

definition kind_of_char :: "char \<Rightarrow> kind" where
  "kind_of_char c = (if c = CHR ''n'' then Null_kind
     else if c = CHR ''t'' \<or> c = CHR ''f'' then Bool_kind
     else if c = dquote then Str_kind else if c = CHR ''['' then List_kind
     else if c = CHR ''{'' then Obj_kind else if num_char c then Num_kind else Other_kind)"

lemma kind_of_num_char: "num_char c \<Longrightarrow> kind_of_char c = Num_kind"
  by (auto simp: num_char_def is_digit_def kind_of_char_def)

lemma int_repr_chars: "c \<in> set (int_repr i) \<Longrightarrow> num_char c \<and> c \<noteq> CHR ''.''"
  using nat_repr_digits [of "nat i"] nat_repr_digits [of "nat (- i)"]
  by (auto simp: int_repr_def num_char_def split: if_splits)

lemma int_repr_ne [simp]: "int_repr i \<noteq> []"
  by (simp add: int_repr_def)

lemma float_repr_chars: "c \<in> set (float_repr t) \<Longrightarrow> num_char c"
  using nat_repr_digits [of "nat \<bar>t\<bar> div 1000000"] frac_repr_digits [of "nat \<bar>t\<bar> mod 1000000"]
  by (auto simp: float_repr_def num_char_def split: if_splits)

lemma float_repr_dot: "CHR ''.'' \<in> set (float_repr t)"
  by (simp add: float_repr_def)

lemma int_ne_float: "int_repr i \<noteq> float_repr t"
  by (metis float_repr_dot int_repr_chars)

lemma dump_ne [simp]: "dump f j \<noteq> []"
  by (cases j) (auto simp: dump_str_def float_repr_def)

lemma dump_hd: "kind_of_char (hd (dump f j)) = kind_of j"
proof (cases j)
  case (JInt i)
  have "num_char (hd (int_repr i))" by (meson hd_in_set int_repr_chars int_repr_ne)
  with JInt show ?thesis by (simp add: kind_of_num_char)
next
  case (JFloat t)
  have "float_repr t \<noteq> []" by (simp add: float_repr_def)
  then have "num_char (hd (float_repr t))" by (meson hd_in_set float_repr_chars)
  with JFloat show ?thesis by (simp add: kind_of_num_char)
qed (auto simp: kind_of_char_def dump_str_def)

lemma dump_same_kind: "dump f x @ s = dump f y @ t \<Longrightarrow> kind_of x = kind_of y"
  by (metis dump_hd dump_ne hd_append2)

lemma not_num_chars [simp]: "\<not> num_char (CHR '','')" "\<not> num_char (CHR '']'')" "\<not> num_char (CHR ''}'')"
  by (simp_all add: num_char_def is_digit_def)

lemma dump_hd_not_close: "hd (dump f j) \<noteq> CHR '']''"
proof
  assume "hd (dump f j) = CHR '']''"
  then have "kind_of j = Other_kind" using dump_hd [of f j] by (simp add: kind_of_char_def)
  then show False by (cases j) simp_all
qed

lemma dump_list_ends: "fmt_ok f \<Longrightarrow> ends_num (dump_list f False xs @ s)"
  by (cases xs) (auto simp: fmt_ok_def ends_num_def)

lemma dump_obj_ends: "fmt_ok f \<Longrightarrow> ends_num (dump_obj f False xs @ s)"
  by (cases xs) (auto simp: fmt_ok_def ends_num_def)

lemma num_run:
  assumes "a @ s = b @ t" "\<And>c. c \<in> set a \<Longrightarrow> num_char c" "\<And>c. c \<in> set b \<Longrightarrow> num_char c"
    and "ends_num s" "ends_num t"
  shows "a = b \<and> s = t"
  using assms by (intro run_split [where P = num_char]) (auto simp: ends_num_def)

lemma dump_num_inject:
  assumes "kind_of x = Num_kind" "kind_of y = Num_kind" "dump f x @ s = dump f y @ t"
    and "ends_num s" "ends_num t"
  shows "x = y \<and> s = t"
proof -
  have "\<And>c z. kind_of z = Num_kind \<Longrightarrow> c \<in> set (dump f z) \<Longrightarrow> num_char c"
    by (case_tac z) (auto dest: int_repr_chars float_repr_chars)
  with assms have "dump f x = dump f y \<and> s = t" by (intro num_run) auto
  with assms(1,2) show ?thesis
    by (cases x; cases y) (auto simp: int_ne_float int_ne_float [symmetric])
qed

lemma dump_unambiguous_mutual:
  shows "fmt_ok f \<longrightarrow> (\<forall>y s t. ends_num s \<longrightarrow> ends_num t \<longrightarrow> dump f x @ s = dump f y @ t \<longrightarrow> x = y \<and> s = t)"
    and "fmt_ok f \<longrightarrow> (\<forall>ys s t. dump_list f b xs @ s = dump_list f b ys @ t \<longrightarrow> xs = ys \<and> s = t)"
    and "fmt_ok f \<longrightarrow> (\<forall>ys s t. dump_obj f b kvs @ s = dump_obj f b ys @ t \<longrightarrow> kvs = ys \<and> s = t)"
proof (induction f x and f b xs and f b kvs rule: dump_dump_list_dump_obj.induct)
  case (1 f)
  show ?case by (intro impI allI, frule dump_same_kind) (case_tac y; auto)
next
  case (2 f b)
  show ?case by (intro impI allI, frule dump_same_kind) (case_tac y; auto split: if_splits)
next
  case (3 f i)
  show ?case using dump_same_kind dump_num_inject by (metis kind_of.simps(3))
next
  case (4 f t)
  show ?case using dump_same_kind dump_num_inject by (metis kind_of.simps(4))
next
  case (5 f s)
  show ?case by (intro impI allI, frule dump_same_kind) (case_tac y; auto dest: dump_str_inject)
next
  case (6 f xs)
  show ?case
  proof (intro impI allI)
    fix y s t
    assume ok: "fmt_ok f" and eq: "dump f (JList xs) @ s = dump f y @ t"
    from dump_same_kind [OF eq] obtain ys where y: "y = JList ys" by (cases y) simp_all
    with eq have "dump_list f True xs @ s = dump_list f True ys @ t" by simp
    with 6 ok y show "JList xs = y \<and> s = t" by blast
  qed
next
  case (7 f kvs)
  show ?case
  proof (intro impI allI)
    fix y s t
    assume ok: "fmt_ok f" and eq: "dump f (JObj kvs) @ s = dump f y @ t"
    from dump_same_kind [OF eq] obtain ys where y: "y = JObj ys" by (cases y) simp_all
    with eq have "dump_obj f True kvs @ s = dump_obj f True ys @ t" by simp
    with 7 ok y show "JObj kvs = y \<and> s = t" by blast
  qed
next
  case (8 f first)
  show ?case
  proof (intro impI allI)
    fix ys s t
    assume ok: "fmt_ok f" and eq: "dump_list f first [] @ s = dump_list f first ys @ t"
    show "[] = ys \<and> s = t"
    proof (cases ys)
      case (Cons y ys')
      have "hd (dump f y) \<noteq> CHR '']''" by (rule dump_hd_not_close)
      with eq ok Cons show ?thesis by (cases "dump f y"; cases first) (auto simp: fmt_ok_def)
    qed (use eq in simp)
  qed
next
  case (9 f first x xs)
  show ?case
  proof (intro impI allI)
    fix ys s t
    assume ok: "fmt_ok f" and eq: "dump_list f first (x # xs) @ s = dump_list f first ys @ t"
    show "x # xs = ys \<and> s = t"
    proof (cases ys)
      case Nil
      have "hd (dump f x) \<noteq> CHR '']''" by (rule dump_hd_not_close)
      with eq ok Nil show ?thesis by (cases "dump f x"; cases first) (auto simp: fmt_ok_def)
    next
      case (Cons y ys')
      with eq have *: "dump f x @ (dump_list f False xs @ s) = dump f y @ (dump_list f False ys' @ t)"
        by simp
      have "x = y \<and> dump_list f False xs @ s = dump_list f False ys' @ t"
        using 9(1) ok dump_list_ends [OF ok] * by blast
      with 9(2) ok Cons show ?thesis by blast
    qed
  qed
next
  case (10 f first)
  show ?case
  proof (intro impI allI)
    fix ys s t
    assume ok: "fmt_ok f" and eq: "dump_obj f first [] @ s = dump_obj f first ys @ t"
    show "[] = ys \<and> s = t"
    proof (cases ys)
      case (Cons p ys')
      obtain k y where "p = (k, y)" by (cases p)
      with eq ok Cons show ?thesis by (cases first) (auto simp: fmt_ok_def dump_str_def)
    qed (use eq in simp)
  qed
next
  case (11 f first k x kvs)
  show ?case
  proof (intro impI allI)
    fix ys s t
    assume ok: "fmt_ok f" and eq: "dump_obj f first ((k, x) # kvs) @ s = dump_obj f first ys @ t"
    show "(k, x) # kvs = ys \<and> s = t"
    proof (cases ys)
      case Nil
      with eq ok show ?thesis by (cases first) (auto simp: fmt_ok_def dump_str_def)
    next
      case (Cons p ys')
      obtain k' y where p: "p = (k', y)" by (cases p)
      from eq Cons p have "dump_str f k @ (key_sep f @ dump f x @ dump_obj f False kvs @ s) =
          dump_str f k' @ (key_sep f @ dump f y @ dump_obj f False ys' @ t)" by simp
      with ok have k: "k = k'"
        and *: "dump f x @ (dump_obj f False kvs @ s) = dump f y @ (dump_obj f False ys' @ t)"
        by (auto dest: dump_str_inject)
      have "x = y \<and> dump_obj f False kvs @ s = dump_obj f False ys' @ t"
        using 11(1) ok dump_obj_ends [OF ok] * by blast
      with 11(2) ok Cons p k show ?thesis by blast
    qed
  qed
qed

theorem dump_inject: "fmt_ok f \<Longrightarrow> dump f x = dump f y \<Longrightarrow> x = y"
  using dump_unambiguous_mutual(1) [of f x]
  by (metis ends_num_def)

lemma json_dumps_inject:
  "fmt_ok f \<Longrightarrow> json_dumps f x = json_dumps f y \<Longrightarrow> sort_keys x = sort_keys y"
  by (simp add: json_dumps_def dump_inject)

subsection \<open>Reading a parsed document\<close>

text \<open>
  \<open>d.get(k)\<close> on a parsed document, its truth value, \<open>list(x)\<close> and \<open>sep.join(xs)\<close>: a value
  of the wrong type raises as Python does.
\<close>

definition json_get :: "json \<Rightarrow> string \<Rightarrow> json result" where
  "json_get j k = (case j of
     JObj kvs \<Rightarrow> Inr (case map_of kvs k of Some v \<Rightarrow> v | None \<Rightarrow> JNull)
   | _ \<Rightarrow> Inl (AttributeError ''object has no attribute get''))"

fun truthy :: "json \<Rightarrow> bool" where
  "truthy JNull = False"
| "truthy (JBool b) = b"
| "truthy (JInt i) = (i \<noteq> 0)"
| "truthy (JFloat t) = (t \<noteq> 0)"
| "truthy (JStr s) = (s \<noteq> [])"
| "truthy (JList xs) = (xs \<noteq> [])"
| "truthy (JObj kvs) = (kvs \<noteq> [])"

definition json_or :: "json \<Rightarrow> json \<Rightarrow> json" where
  "json_or a b = (if truthy a then a else b)"

fun py_list :: "json \<Rightarrow> json list result" where
  "py_list (JStr s) = Inr (map (\<lambda>c. JStr [c]) s)"
| "py_list (JList xs) = Inr xs"
| "py_list (JObj kvs) = Inr (map (\<lambda>kv. JStr (fst kv)) kvs)"
| "py_list _ = Inl (TypeError ''object is not iterable'')"

fun as_str :: "json \<Rightarrow> string result" where
  "as_str (JStr s) = Inr s"
| "as_str _ = Inl (TypeError ''sequence item: expected str instance'')"

definition join_json :: "string \<Rightarrow> json list \<Rightarrow> string result" where
  "join_json sep xs = try_bind (try_map as_str xs) (\<lambda>ss. Inr (join sep ss))"

type_synonym dict = "(string \<times> json) list"

text \<open>\<open>d.get(k, x)\<close> on a dict.\<close>

definition lookup_or :: "dict \<Rightarrow> string \<Rightarrow> json \<Rightarrow> json" where
  "lookup_or d k x = (case map_of d k of Some v \<Rightarrow> v | None \<Rightarrow> x)"

subsection \<open>The text of a parsed value\<close>

text \<open>\<open>repr(x)\<close> and \<open>str(x)\<close> of a parsed JSON value.\<close>

fun json_repr :: "json \<Rightarrow> string"
  and json_reprs :: "json list \<Rightarrow> string list"
  and json_pair_reprs :: "dict \<Rightarrow> string list" where
  "json_repr JNull = ''None''"
| "json_repr (JBool b) = (if b then ''True'' else ''False'')"
| "json_repr (JInt i) = int_repr i"
| "json_repr (JFloat t) = float_repr t"
| "json_repr (JStr s) = py_repr s"
| "json_repr (JList xs) = ''['' @ join '', '' (json_reprs xs) @ '']''"
| "json_repr (JObj kvs) = ''{'' @ join '', '' (json_pair_reprs kvs) @ ''}''"
| "json_reprs [] = []"
| "json_reprs (x # xs) = json_repr x # json_reprs xs"
| "json_pair_reprs [] = []"
| "json_pair_reprs ((k, x) # kvs) = (py_repr k @ '': '' @ json_repr x) # json_pair_reprs kvs"

definition json_str :: "json \<Rightarrow> string" where
  "json_str j = (case j of JStr s \<Rightarrow> s | _ \<Rightarrow> json_repr j)"

subsection \<open>Sorting the keys keeps the lookups\<close>

lemma map_of_sort_key:
  fixes kvs :: "('a::linorder \<times> 'b) list"
  assumes "distinct (map fst kvs)"
  shows "map_of (sort_key fst kvs) = map_of kvs"
proof -
  have "distinct (map fst (sort_key fst kvs))" using assms by (simp add: distinct_map)
  then show ?thesis using assms by (simp add: map_of_inject_set)
qed

end
