(* ===== verification/Sha256.thy ===== *)
theory Sha256
  imports PyText "HOL-Library.Word"
begin

text \<open>
  \<open>hashlib.sha256\<close> (FIPS 180-4) on a list of bytes, and \<open>str.encode("utf-8")\<close> on the
  modelled code points. The definitions compute; the component proofs never unfold the
  compression function: what they say about digests is about the bytes that go in.
\<close>

unbundle bit_operations_syntax

type_synonym u32 = "32 word"

subsection \<open>UTF-8\<close>

definition utf8_char :: "char \<Rightarrow> string" where
  "utf8_char c = (if code c < 128 then [c]
     else [char_of (192 + code c div 64), char_of (128 + code c mod 64)])"

definition utf8 :: "string \<Rightarrow> string" where
  "utf8 s = concat (map utf8_char s)"

lemma utf8_char_prefix_free:
  assumes "utf8_char c @ s = utf8_char d @ t"
  shows "c = d \<and> s = t"
proof -
  have bounds: "192 + code x div 64 < 256" "128 + code x mod 64 < 256" for x
    using less_mult_imp_div_less [of "code x" 4 64] by simp_all
  have hi: "code (char_of (192 + code x div 64)) = 192 + code x div 64"
    "code (char_of (128 + code x mod 64)) = 128 + code x mod 64" for x
    by (rule code_char_of [OF bounds(1)], rule code_char_of [OF bounds(2)])
  consider "code c < 128" "code d < 128" | "\<not> code c < 128" "\<not> code d < 128"
    | "code c < 128" "\<not> code d < 128" | "\<not> code c < 128" "code d < 128" by blast
  then show ?thesis
  proof cases
    case 2
    with assms have *: "code (char_of (192 + code c div 64)) = code (char_of (192 + code d div 64))"
      "code (char_of (128 + code c mod 64)) = code (char_of (128 + code d mod 64))" and st: "s = t"
      by (simp_all add: utf8_char_def)
    then have "code c div 64 = code d div 64" "code c mod 64 = code d mod 64" by (simp_all only: hi)
    then have "code c = code d" by (metis div_mult_mod_eq)
    with st show ?thesis by (simp add: code_inject)
  next
    case 3
    with assms have "c = char_of (192 + code d div 64)" by (simp add: utf8_char_def)
    with 3 hi(1) [of d] show ?thesis by simp
  next
    case 4
    with assms have "d = char_of (192 + code c div 64)" by (simp add: utf8_char_def)
    with 4 hi(1) [of c] show ?thesis by simp
  qed (use assms in \<open>simp_all add: utf8_char_def\<close>)
qed

lemma utf8_char_ne [simp]: "utf8_char c \<noteq> []"
  by (simp add: utf8_char_def)

lemma utf8_inject [simp]: "utf8 s = utf8 t \<longleftrightarrow> s = t"
proof
  show "utf8 s = utf8 t \<Longrightarrow> s = t"
  proof (induction s arbitrary: t)
    case Nil
    then show ?case by (cases t) (simp_all add: utf8_def)
  next
    case (Cons c s)
    show ?case
    proof (cases t)
      case Nil
      with Cons.prems show ?thesis by (simp add: utf8_def)
    next
      case (Cons d t')
      with Cons.prems have "utf8_char c @ utf8 s = utf8_char d @ utf8 t'" by (simp add: utf8_def)
      then have "c = d" "utf8 s = utf8 t'" by (auto dest: utf8_char_prefix_free)
      with Cons.IH Cons show ?thesis by blast
    qed
  qed
qed simp

lemma length_utf8: "length s \<le> length (utf8 s)" "length (utf8 s) \<le> 2 * length s"
  by (induction s) (auto simp: utf8_def utf8_char_def)

subsection \<open>The compression function\<close>

definition k_table :: "u32 list" where
  "k_table = [
    1116352408, 1899447441, 3049323471, 3921009573, 961987163, 1508970993,
    2453635748, 2870763221, 3624381080, 310598401, 607225278, 1426881987,
    1925078388, 2162078206, 2614888103, 3248222580, 3835390401, 4022224774,
    264347078, 604807628, 770255983, 1249150122, 1555081692, 1996064986,
    2554220882, 2821834349, 2952996808, 3210313671, 3336571891, 3584528711,
    113926993, 338241895, 666307205, 773529912, 1294757372, 1396182291,
    1695183700, 1986661051, 2177026350, 2456956037, 2730485921, 2820302411,
    3259730800, 3345764771, 3516065817, 3600352804, 4094571909, 275423344,
    430227734, 506948616, 659060556, 883997877, 958139571, 1322822218,
    1537002063, 1747873779, 1955562222, 2024104815, 2227730452, 2361852424,
    2428436474, 2756734187, 3204031479, 3329325298]"

type_synonym hstate = "u32 \<times> u32 \<times> u32 \<times> u32 \<times> u32 \<times> u32 \<times> u32 \<times> u32"

definition h_init :: hstate where
  "h_init = (1779033703, 3144134277, 1013904242, 2773480762,
             1359893119, 2600822924, 528734635, 1541459225)"

definition rotr :: "nat \<Rightarrow> u32 \<Rightarrow> u32" where
  "rotr n w = drop_bit n w OR push_bit (32 - n) w"

definition big_sigma0 :: "u32 \<Rightarrow> u32" where
  "big_sigma0 x = rotr 2 x XOR rotr 13 x XOR rotr 22 x"
definition big_sigma1 :: "u32 \<Rightarrow> u32" where
  "big_sigma1 x = rotr 6 x XOR rotr 11 x XOR rotr 25 x"
definition small_sigma0 :: "u32 \<Rightarrow> u32" where
  "small_sigma0 x = rotr 7 x XOR rotr 18 x XOR drop_bit 3 x"
definition small_sigma1 :: "u32 \<Rightarrow> u32" where
  "small_sigma1 x = rotr 17 x XOR rotr 19 x XOR drop_bit 10 x"

definition choose32 :: "u32 \<Rightarrow> u32 \<Rightarrow> u32 \<Rightarrow> u32" where
  "choose32 x y z = (x AND y) XOR ((NOT x) AND z)"
definition majority32 :: "u32 \<Rightarrow> u32 \<Rightarrow> u32 \<Rightarrow> u32" where
  "majority32 x y z = (x AND y) XOR (x AND z) XOR (y AND z)"

text \<open>
  The message schedule keeps the last sixteen words as a window, the next word being
  computed from it; sixty-four rounds consume the words in order.
\<close>

definition next_word :: "u32 list \<Rightarrow> u32" where
  "next_word w = small_sigma1 (w ! 14) + w ! 9 + small_sigma0 (w ! 1) + w ! 0"

fun rounds :: "u32 list \<Rightarrow> u32 list \<Rightarrow> hstate \<Rightarrow> hstate" where
  "rounds [] w h = h"
| "rounds (k # ks) w (a, b, c, d, e, f, g, h) =
     (let t1 = h + big_sigma1 e + choose32 e f g + k + hd w;
          t2 = big_sigma0 a + majority32 a b c
      in rounds ks (tl w @ [next_word w]) (t1 + t2, a, b, c, d + t1, e, f, g))"

fun hadd :: "hstate \<Rightarrow> hstate \<Rightarrow> hstate" where
  "hadd (a, b, c, d, e, f, g, h) (a', b', c', d', e', f', g', h') =
     (a + a', b + b', c + c', d + d', e + e', f + f', g + g', h + h')"

definition word_of_bytes :: "string \<Rightarrow> int" where
  "word_of_bytes bs = foldl (\<lambda>a b. 256 * a + of_char b) 0 bs"

fun words_of_bytes :: "string \<Rightarrow> u32 list" where
  "words_of_bytes (a # b # c # d # bs) = word_of_int (word_of_bytes [a, b, c, d]) # words_of_bytes bs"
| "words_of_bytes _ = []"

definition compress :: "hstate \<Rightarrow> string \<Rightarrow> hstate" where
  "compress h block = hadd h (rounds k_table (words_of_bytes block) h)"

subsection \<open>Padding and the digest\<close>

fun be_bytes :: "nat \<Rightarrow> int \<Rightarrow> string" where
  "be_bytes 0 n = []"
| "be_bytes (Suc k) n = be_bytes k (n div 256) @ [char_of (n mod 256)]"

definition pad :: "string \<Rightarrow> string" where
  "pad bs = (let n = length bs in
     bs @ [char_of (128::nat)] @ replicate ((119 - n mod 64) mod 64) (char_of (0::nat)) @ be_bytes 8 (8 * int n))"

fun blocks :: "nat \<Rightarrow> string \<Rightarrow> string list" where
  "blocks 0 bs = []"
| "blocks (Suc k) bs = take 64 bs # blocks k (drop 64 bs)"

definition sha256_state :: "string \<Rightarrow> hstate" where
  "sha256_state bs = (let p = pad bs in foldl compress h_init (blocks (length p div 64) p))"

definition hex_byte :: "nat \<Rightarrow> string" where
  "hex_byte n = [char_of (if n div 16 < 10 then 48 + n div 16 else 87 + n div 16),
                 char_of (if n mod 16 < 10 then 48 + n mod 16 else 87 + n mod 16)]"

definition hex_word :: "u32 \<Rightarrow> string" where
  "hex_word w = concat (map (\<lambda>c. hex_byte (code c)) (be_bytes 4 (uint w)))"

text \<open>\<open>hashlib.sha256(data).digest()\<close> and \<open>.hexdigest()\<close>.\<close>

definition sha256_digest :: "string \<Rightarrow> string" where
  "sha256_digest bs = (case sha256_state bs of (a, b, c, d, e, f, g, h) \<Rightarrow>
     concat (map (\<lambda>w. be_bytes 4 (uint w)) [a, b, c, d, e, f, g, h]))"

definition sha256_hex :: "string \<Rightarrow> string" where
  "sha256_hex bs = (case sha256_state bs of (a, b, c, d, e, f, g, h) \<Rightarrow>
     concat (map hex_word [a, b, c, d, e, f, g, h]))"

text \<open>\<open>hashlib.sha256(text.encode("utf-8")).hexdigest()\<close>, the form the program uses most.\<close>

definition sha256_text :: "string \<Rightarrow> string" where
  "sha256_text s = sha256_hex (utf8 s)"

lemma length_be_bytes [simp]: "length (be_bytes k n) = k"
  by (induction k arbitrary: n) simp_all

lemma length_hex_word [simp]: "length (hex_word w) = 8"
proof -
  have "length (concat (map (\<lambda>c. hex_byte (code c)) bs)) = 2 * length bs" for bs
    by (induction bs) (simp_all add: hex_byte_def)
  then show ?thesis by (simp add: hex_word_def)
qed

lemma length_sha256_hex [simp]: "length (sha256_hex bs) = 64"
  by (simp add: sha256_hex_def split: prod.split)

lemma length_sha256_text [simp]: "length (sha256_text s) = 64"
  by (simp add: sha256_text_def)

lemma sha256_text_ne [simp]: "sha256_text s \<noteq> []"
  by (metis length_sha256_text list.size(3) zero_neq_numeral)

definition hex_char :: "char \<Rightarrow> bool" where
  "hex_char c = (c \<in> set ''0123456789abcdef'')"

lemma hex_digits: "d < 16 \<Longrightarrow> hex_char (char_of (if d < 10 then 48 + d else 87 + d :: nat))"
proof -
  have "list_all (\<lambda>d. hex_char (char_of (if d < 10 then 48 + d else 87 + d :: nat))) [0..<16]"
    by code_simp
  then show "d < 16 \<Longrightarrow> ?thesis" by (simp add: list_all_iff)
qed

lemma hex_byte_chars: "n < 256 \<Longrightarrow> c \<in> set (hex_byte n) \<Longrightarrow> hex_char c"
  using hex_digits [of "n div 16"] hex_digits [of "n mod 16"] by (auto simp: hex_byte_def)

lemma sha256_hex_chars: "c \<in> set (sha256_hex bs) \<Longrightarrow> hex_char c"
  by (auto simp: sha256_hex_def hex_word_def split: prod.splits dest!: hex_byte_chars [OF code_lt_256])

end
