(* ===== verification/Regex.thy ===== *)
theory Regex
  imports PyText
begin

text \<open>
  The part of Python's \<open>re\<close> module the program uses: patterns are parsed from their source
  text, and matched by backtracking with the priorities of the library (the first
  alternative and the greedy or lazy choice come first in the list of matches).
  Supported syntax: literals and escapes, \<open>.\<close>, classes with ranges and negation,
  \<open>\d \w \s \b\<close> and their complements, \<open>^\<close> and \<open>$\<close>, groups (named or not), lookahead,
  lookbehind of one character, alternation, the quantifiers with their lazy forms, and a
  leading \<open>(?i)\<close>. A pattern outside this syntax is refused with \<^const>\<open>ReError\<close>, as \<open>re.compile\<close> does for a malformed one.
\<close>

subsection \<open>Syntax\<close>

datatype cls_item =
    CChar char
  | CRange char char
  | CDigit bool
  | CSpace bool
  | CWord bool

datatype re =
    Eps
  | Cls bool "cls_item list"
  | AnyChar
  | Cat re re
  | Or re re
  | Rep re nat "nat option" bool
  | Bound bool
  | Bos
  | Eos
  | Look bool re
  | Behind bool bool "cls_item list"
  | Group nat re

text \<open>A position in the subject: its index, the character before it and the text after it.\<close>

record rpos =
  idx :: nat
  prev_char :: "char option"
  rest :: string
  caps :: "(nat \<times> string) list"

subsection \<open>Matching\<close>

fun item_match :: "cls_item \<Rightarrow> char \<Rightarrow> bool" where
  "item_match (CChar d) c = (c = d)"
| "item_match (CRange a b) c = (code a \<le> code c \<and> code c \<le> code b)"
| "item_match (CDigit b) c = (is_digit c = b)"
| "item_match (CSpace b) c = (is_space c = b)"
| "item_match (CWord b) c = (is_word c = b)"

text \<open>With \<open>(?i)\<close> a character matches when either of its cases does.\<close>

definition cls_match :: "bool \<Rightarrow> cls_item list \<Rightarrow> char \<Rightarrow> bool" where
  "cls_match ic items c = list_ex (\<lambda>it. item_match it c \<or>
     ic \<and> (item_match it (lower_char c) \<or> item_match it (upper_char c))) items"

definition step_pos :: "rpos \<Rightarrow> rpos" where
  "step_pos p = (case rest p of [] \<Rightarrow> p
     | c # cs \<Rightarrow> p\<lparr>idx := Suc (idx p), prev_char := Some c, rest := cs\<rparr>)"

definition at_boundary :: "rpos \<Rightarrow> bool" where
  "at_boundary p =
     ((case prev_char p of None \<Rightarrow> False | Some c \<Rightarrow> is_word c) \<noteq>
      (case rest p of [] \<Rightarrow> False | c # _ \<Rightarrow> is_word c))"

text \<open>
  Quantifiers: \<open>rep_exact n\<close> is the mandatory part; \<open>rep_more k\<close> is up to \<open>k\<close> further
  iterations, each of which must move the position.
\<close>

fun rep_exact :: "nat \<Rightarrow> (rpos \<Rightarrow> rpos list) \<Rightarrow> rpos \<Rightarrow> rpos list" where
  "rep_exact 0 f p = [p]"
| "rep_exact (Suc n) f p = concat (map (rep_exact n f) (f p))"

fun rep_more :: "nat \<Rightarrow> bool \<Rightarrow> (rpos \<Rightarrow> rpos list) \<Rightarrow> rpos \<Rightarrow> rpos list" where
  "rep_more 0 g f p = [p]"
| "rep_more (Suc k) g f p =
     (let more = concat (map (rep_more k g f) (filter (\<lambda>q. idx p < idx q) (f p)))
      in if g then more @ [p] else p # more)"

fun matches :: "bool \<Rightarrow> re \<Rightarrow> rpos \<Rightarrow> rpos list" where
  "matches ic Eps p = [p]"
| "matches ic (Cls b items) p = (case rest p of [] \<Rightarrow> []
     | c # _ \<Rightarrow> if cls_match ic items c = b then [step_pos p] else [])"
| "matches ic AnyChar p = (case rest p of [] \<Rightarrow> []
     | c # _ \<Rightarrow> if c = nl then [] else [step_pos p])"
| "matches ic (Cat r s) p = concat (map (matches ic s) (matches ic r p))"
| "matches ic (Or r s) p = matches ic r p @ matches ic s p"
| "matches ic (Rep r lo hi g) p = concat (map
     (\<lambda>q. rep_more (case hi of None \<Rightarrow> length (rest q) | Some h \<Rightarrow> h - lo) g (matches ic r) q)
     (rep_exact lo (matches ic r) p))"
| "matches ic (Bound b) p = (if at_boundary p = b then [p] else [])"
| "matches ic Bos p = (if prev_char p = None then [p] else [])"
| "matches ic Eos p = (if rest p = [] \<or> rest p = [nl] then [p] else [])"
| "matches ic (Look b r) p = (if (matches ic r p \<noteq> []) = b then [p] else [])"
| "matches ic (Behind b k items) p =
     (if (case prev_char p of None \<Rightarrow> False | Some c \<Rightarrow> cls_match ic items c = k) = b then [p] else [])"
| "matches ic (Group n r) p = map (\<lambda>q. q\<lparr>caps := (n, take (idx q - idx p) (rest p)) # caps q\<rparr>)
     (matches ic r p)"

record rmatch =
  m_start :: nat
  m_end :: nat
  m_text :: string
  m_groups :: "(nat \<times> string) list"

definition start_pos :: "char option \<Rightarrow> nat \<Rightarrow> string \<Rightarrow> rpos" where
  "start_pos b i s = \<lparr>idx = i, prev_char = b, rest = s, caps = []\<rparr>"

definition first_match :: "bool \<Rightarrow> re \<Rightarrow> rpos \<Rightarrow> rmatch option" where
  "first_match ic r p = (case matches ic r p of [] \<Rightarrow> None
     | q # _ \<Rightarrow> Some \<lparr>m_start = idx p, m_end = idx q,
         m_text = take (idx q - idx p) (rest p), m_groups = caps q\<rparr>)"

text \<open>\<open>search\<close>: the first position, from the left, at which the pattern matches.\<close>

fun search_from :: "bool \<Rightarrow> re \<Rightarrow> char option \<Rightarrow> nat \<Rightarrow> string \<Rightarrow> rmatch option" where
  "search_from ic r b i [] = first_match ic r (start_pos b i [])"
| "search_from ic r b i (c # s) = (case first_match ic r (start_pos b i (c # s)) of
     Some m \<Rightarrow> Some m
   | None \<Rightarrow> search_from ic r (Some c) (Suc i) s)"

definition search_re :: "bool \<Rightarrow> re \<Rightarrow> string \<Rightarrow> rmatch option" where
  "search_re ic r s = search_from ic r None 0 s"

subsection \<open>Facts about matching\<close>

text \<open>
  Every match lies inside the subject: the position only moves forward, and what it passes
  over is a prefix of the text that was left.
\<close>

definition moves :: "rpos \<Rightarrow> rpos \<Rightarrow> bool" where
  "moves p q = (idx p \<le> idx q \<and> idx q \<le> idx p + length (rest p) \<and> rest q = drop (idx q - idx p) (rest p))"

lemma moves_refl [simp]: "moves p p"
  by (simp add: moves_def)

lemma moves_caps [simp]: "moves p (q\<lparr>caps := c\<rparr>) = moves p q"
  by (simp add: moves_def)

lemma moves_trans [trans]: "moves p q \<Longrightarrow> moves q r \<Longrightarrow> moves p r"
  by (auto simp: moves_def)

lemma moves_step: "rest p \<noteq> [] \<Longrightarrow> moves p (step_pos p)"
  by (cases "rest p") (auto simp: moves_def step_pos_def)

lemma moves_rep_exact:
  assumes "\<And>p q. q \<in> set (f p) \<Longrightarrow> moves p q"
  shows "q \<in> set (rep_exact n f p) \<Longrightarrow> moves p q"
  using assms by (induction n f p rule: rep_exact.induct) (auto intro: moves_trans)

lemma moves_rep_more:
  assumes "\<And>p q. q \<in> set (f p) \<Longrightarrow> moves p q"
  shows "q \<in> set (rep_more k g f p) \<Longrightarrow> moves p q"
proof (induction k arbitrary: p)
  case (Suc k)
  then consider "q = p" | q' where "q' \<in> set (f p)" "q \<in> set (rep_more k g f q')"
    by (auto simp: Let_def split: if_splits)
  then show ?case
  proof cases
    case 2
    with assms Suc.IH have "moves p q'" "moves q' q" by blast+
    then show ?thesis by (rule moves_trans)
  qed simp
qed simp

lemma moves_step_Cons: "rest p = c # cs \<Longrightarrow> moves p (step_pos p)"
  by (rule moves_step) simp

lemma moves_matches: "q \<in> set (matches ic r p) \<Longrightarrow> moves p q"
proof (induction r arbitrary: p q)
  case (Cat r1 r2)
  from Cat.prems obtain m where "m \<in> set (matches ic r1 p)" "q \<in> set (matches ic r2 m)" by auto
  with Cat.IH show ?case by (blast intro: moves_trans)
next
  case (Rep r lo hi g)
  have r: "\<And>p q. q \<in> set (matches ic r p) \<Longrightarrow> moves p q" by (rule Rep.IH)
  from Rep.prems obtain m k where "m \<in> set (rep_exact lo (matches ic r) p)"
    "q \<in> set (rep_more k g (matches ic r) m)" by auto
  with moves_rep_exact [OF r] moves_rep_more [OF r] show ?case by (blast intro: moves_trans)
next
  case (Cls b items)
  then show ?case by (cases "rest p") (auto intro: moves_step_Cons split: if_splits)
next
  case AnyChar
  then show ?case by (cases "rest p") (auto intro: moves_step_Cons split: if_splits)
qed (auto split: if_splits)

lemma first_match_bounds:
  assumes "first_match ic r p = Some m"
  shows "m_start m = idx p \<and> m_start m \<le> m_end m \<and> m_end m \<le> idx p + length (rest p) \<and>
    m_text m = take (m_end m - m_start m) (rest p)"
  using assms moves_matches [of _ ic r p]
  by (auto simp: first_match_def moves_def split: list.splits)

lemma search_from_bounds:
  assumes "search_from ic r b i s = Some m"
  shows "i \<le> m_start m \<and> m_start m \<le> m_end m \<and> m_end m \<le> i + length s \<and>
    m_text m = take (m_end m - m_start m) (drop (m_start m - i) s)"
  using assms
proof (induction s arbitrary: b i)
  case Nil
  then show ?case by (auto dest: first_match_bounds simp: start_pos_def)
next
  case (Cons c s)
  show ?case
  proof (cases "first_match ic r (start_pos b i (c # s))")
    case None
    with Cons.prems have "search_from ic r (Some c) (Suc i) s = Some m" by simp
    from Cons.IH [OF this] show ?thesis
      by (auto simp: Suc_diff_le [symmetric] drop_Cons' Suc_le_eq)
  next
    case (Some m')
    with Cons.prems show ?thesis by (auto dest: first_match_bounds simp: start_pos_def)
  qed
qed

lemma search_re_text: "search_re ic r s = Some m \<Longrightarrow> sublist (m_text m) s"
  unfolding search_re_def
  by (drule search_from_bounds) (metis sublist_take sublist_drop sublist_order.order_trans)

text \<open>\<open>search\<close> finds nothing exactly when no position has a match.\<close>

fun suffix_positions :: "char option \<Rightarrow> nat \<Rightarrow> string \<Rightarrow> rpos list" where
  "suffix_positions b i [] = [start_pos b i []]"
| "suffix_positions b i (c # s) = start_pos b i (c # s) # suffix_positions (Some c) (Suc i) s"

lemma search_from_None:
  "search_from ic r b i s = None \<longleftrightarrow> (\<forall>p \<in> set (suffix_positions b i s). matches ic r p = [])"
  by (induction ic r b i s rule: search_from.induct)
     (auto simp: first_match_def split: list.splits)

definition prev_of :: "char option \<Rightarrow> string \<Rightarrow> char option" where
  "prev_of b u = (if u = [] then b else Some (last u))"

lemma suffix_positions_append:
  "start_pos (prev_of b u) (i + length u) w \<in> set (suffix_positions b i (u @ w))"
proof (induction u arbitrary: b i)
  case Nil
  show ?case by (cases w) (simp_all add: prev_of_def)
next
  case (Cons c u)
  have "prev_of b (c # u) = prev_of (Some c) u" by (simp add: prev_of_def)
  with Cons.IH [of "Some c" "Suc i"] show ?case by simp
qed

lemma search_re_found:
  assumes "matches ic r (start_pos (prev_of None u) (length u) w) \<noteq> []"
  shows "search_re ic r (u @ w) \<noteq> None"
  unfolding search_re_def search_from_None
  using assms suffix_positions_append [of None u 0 w] by auto

subsection \<open>Parsing a pattern\<close>

text \<open>
  The source text of a pattern is read by recursive descent; \<open>n\<close> is the number of groups
  opened so far, and the fuel, one more than four times the length of the text, is never
  exhausted because every round of the three functions consumes a character.
  A character above 255 cannot occur in a subject, so its escape matches nothing.
\<close>

definition escape_cls :: "char \<Rightarrow> cls_item option" where
  "escape_cls c =
     (if c = CHR ''d'' then Some (CDigit True) else if c = CHR ''D'' then Some (CDigit False)
      else if c = CHR ''s'' then Some (CSpace True) else if c = CHR ''S'' then Some (CSpace False)
      else if c = CHR ''w'' then Some (CWord True) else if c = CHR ''W'' then Some (CWord False)
      else None)"

definition escape_char :: "char \<Rightarrow> char option" where
  "escape_char c =
     (if c = CHR ''n'' then Some nl else if c = CHR ''t'' then Some (CHR 0x09)
      else if c = CHR ''r'' then Some (CHR 0x0D) else if c = CHR ''f'' then Some (CHR 0x0C)
      else if c = CHR ''v'' then Some (CHR 0x0B) else if c = CHR ''a'' then Some (CHR 0x07)
      else if is_alnum c then None else Some c)"

definition hex_val :: "char \<Rightarrow> nat option" where
  "hex_val c = (let n = code c in
     if is_digit c then Some (n - 48)
     else if 97 \<le> n \<and> n \<le> 102 then Some (n - 87)
     else if 65 \<le> n \<and> n \<le> 70 then Some (n - 55) else None)"

text \<open>\<open>u\<close> and four hexadecimal digits: the inner option is \<open>None\<close> for a code point above 255.\<close>

definition unicode_escape :: "string \<Rightarrow> (char option \<times> string) option" where
  "unicode_escape s = (case s of
     a # b # c # d # t \<Rightarrow> (case (hex_val a, hex_val b, hex_val c, hex_val d) of
       (Some i, Some j, Some k, Some l) \<Rightarrow>
         (let v = ((i * 16 + j) * 16 + k) * 16 + l in
          Some (if v < 256 then Some (char_of v) else None, t))
     | _ \<Rightarrow> None)
   | _ \<Rightarrow> None)"

text \<open>One member of a class, before a possible \<open>-\<close>; \<open>Inr None\<close> is a member that never matches.\<close>

definition class_atom :: "string \<Rightarrow> ((cls_item + char option) \<times> string) option" where
  "class_atom s = (case s of [] \<Rightarrow> None
   | c # t \<Rightarrow>
     if c \<noteq> backslash then Some (Inr (Some c), t)
     else (case t of [] \<Rightarrow> None
       | d # u \<Rightarrow>
         if d = CHR ''u'' then map_option (\<lambda>(x, r). (Inr x, r)) (unicode_escape u)
         else if d = CHR ''b'' then Some (Inr (Some (CHR 0x08)), u)
         else (case escape_cls d of Some i \<Rightarrow> Some (Inl i, u)
           | None \<Rightarrow> map_option (\<lambda>x. (Inr (Some x), u)) (escape_char d))))"

fun parse_class :: "nat \<Rightarrow> bool \<Rightarrow> cls_item list \<Rightarrow> string \<Rightarrow> (cls_item list \<times> string) option" where
  "parse_class 0 is_first acc s = None"
| "parse_class (Suc f) is_first acc s =
     (if s = [] then None
      else if hd s = CHR '']'' \<and> \<not> is_first then Some (acc, tl s)
      else (case class_atom s of None \<Rightarrow> None
        | Some (Inl i, t) \<Rightarrow> parse_class f False (acc @ [i]) t
        | Some (Inr x, t) \<Rightarrow>
          if take 1 t = ''-'' \<and> take 1 (tl t) \<noteq> '']'' then
            (case class_atom (tl t) of
               Some (Inr y, u) \<Rightarrow> (case (x, y) of
                   (Some a, Some b) \<Rightarrow>
                     if code a \<le> code b then parse_class f False (acc @ [CRange a b]) u else None
                 | (Some a, None) \<Rightarrow> parse_class f False (acc @ [CRange a (CHR 0xFF)]) u
                 | (None, _) \<Rightarrow> (if y = None then parse_class f False acc u else None))
             | _ \<Rightarrow> None)
          else parse_class f False (acc @ (case x of None \<Rightarrow> [] | Some a \<Rightarrow> [CChar a])) t))"

fun read_digits :: "string \<Rightarrow> string \<times> string" where
  "read_digits [] = ([], [])"
| "read_digits (c # s) = (if is_digit c then (let (d, r) = read_digits s in (c # d, r)) else ([], c # s))"

text \<open>
  A quantifier: \<open>Some (lo, hi, rest)\<close>; a brace that does not open a well-formed counted
  repetition is a literal, so the answer is \<open>None\<close>.
\<close>

definition read_quant :: "string \<Rightarrow> (nat \<times> nat option \<times> string) option" where
  "read_quant s = (case s of [] \<Rightarrow> None
   | c # t \<Rightarrow>
     if c = CHR ''*'' then Some (0, None, t)
     else if c = CHR ''+'' then Some (1, None, t)
     else if c = CHR ''?'' then Some (0, Some 1, t)
     else if c = CHR ''{'' then
       (let (lo, u) = read_digits t in
        if take 1 u = ''}'' \<and> lo \<noteq> [] then Some (digits_val 0 lo, Some (digits_val 0 lo), tl u)
        else if take 1 u = '','' then
          (let (hi, v) = read_digits (tl u) in
           if take 1 v = ''}'' then
             Some (digits_val 0 lo, if hi = [] then None else Some (digits_val 0 hi), tl v)
           else None)
        else None)
     else None)"

definition parse_quant :: "re \<Rightarrow> string \<Rightarrow> (re \<times> string) option" where
  "parse_quant r s = (case read_quant s of None \<Rightarrow> Some (r, s)
   | Some (lo, hi, t) \<Rightarrow>
     (let lazy = (take 1 t = ''?''); u = (if lazy then tl t else t) in
      if (case hi of None \<Rightarrow> False | Some h \<Rightarrow> h < lo) then None
      else if read_quant u \<noteq> None then None
      else Some (Rep r lo hi (\<not> lazy), u)))"

definition parse_escape :: "string \<Rightarrow> (re \<times> string) option" where
  "parse_escape s = (case s of [] \<Rightarrow> None
   | c # t \<Rightarrow>
     if c = CHR ''b'' then Some (Bound True, t)
     else if c = CHR ''B'' then Some (Bound False, t)
     else if c = CHR ''u'' then
       map_option (\<lambda>(x, r). (Cls True (case x of None \<Rightarrow> [] | Some a \<Rightarrow> [CChar a]), r)) (unicode_escape t)
     else (case escape_cls c of Some i \<Rightarrow> Some (Cls True [i], t)
       | None \<Rightarrow> map_option (\<lambda>x. (Cls True [CChar x], t)) (escape_char c)))"

fun parse_alt :: "nat \<Rightarrow> nat \<Rightarrow> string \<Rightarrow> (re \<times> nat \<times> string) option"
  and parse_seq :: "nat \<Rightarrow> nat \<Rightarrow> string \<Rightarrow> (re \<times> nat \<times> string) option"
  and parse_atom :: "nat \<Rightarrow> nat \<Rightarrow> string \<Rightarrow> (re \<times> nat \<times> string) option" where
  "parse_alt 0 n s = None"
| "parse_alt (Suc f) n s = (case parse_seq f n s of None \<Rightarrow> None
   | Some (r, n', t) \<Rightarrow>
     if take 1 t = ''|'' then
       (case parse_alt f n' (tl t) of None \<Rightarrow> None | Some (r', m, u) \<Rightarrow> Some (Or r r', m, u))
     else Some (r, n', t))"
| "parse_seq 0 n s = None"
| "parse_seq (Suc f) n s =
     (if s = [] \<or> take 1 s = ''|'' \<or> take 1 s = '')'' then Some (Eps, n, s)
      else (case parse_atom f n s of None \<Rightarrow> None
        | Some (r, n', t) \<Rightarrow> (case parse_quant r t of None \<Rightarrow> None
          | Some (r', u) \<Rightarrow> (case parse_seq f n' u of None \<Rightarrow> None
            | Some (r'', m, v) \<Rightarrow> Some (if r'' = Eps then r' else Cat r' r'', m, v)))))"
| "parse_atom 0 n s = None"
| "parse_atom (Suc f) n s = (case s of [] \<Rightarrow> None
   | c # t \<Rightarrow>
     if c = CHR ''('' then
       if take 3 t = ''?<!'' \<or> take 3 t = ''?<='' then
         (case parse_atom f n (drop 3 t) of
            Some (Cls k items, m, v) \<Rightarrow>
              if take 1 v = '')'' then Some (Behind (take 3 t = ''?<='') k items, m, tl v) else None
          | _ \<Rightarrow> None)
       else
       (let named = (take 3 t = ''?P<''); cap = (take 1 t \<noteq> ''?'' \<or> named); kind = take 2 t;
            u = (if named then tl (dropWhile (\<lambda>c. c \<noteq> CHR ''>'') t) else if cap then t else drop 2 t);
            wrap = (if cap then Some (Group (Suc n)) else if kind = ''?:'' then Some id
                    else if kind = ''?='' then Some (Look True)
                    else if kind = ''?!'' then Some (Look False) else None) in
        (case wrap of None \<Rightarrow> None
         | Some g \<Rightarrow> (case parse_alt f (if cap then Suc n else n) u of None \<Rightarrow> None
             | Some (r, m, v) \<Rightarrow> if take 1 v = '')'' then Some (g r, m, tl v) else None)))
     else if c = CHR ''['' then
       (let neg = (take 1 t = [CHR 0x5E]); u = (if neg then tl t else t) in
        map_option (\<lambda>(items, v). (Cls (\<not> neg) items, n, v)) (parse_class (Suc (length u)) True [] u))
     else if c = CHR ''.'' then Some (AnyChar, n, t)
     else if c = CHR 0x5E then Some (Bos, n, t)
     else if c = CHR ''$'' then Some (Eos, n, t)
     else if c = backslash then map_option (\<lambda>(r, u). (r, n, u)) (parse_escape t)
     else if read_quant s \<noteq> None then None
     else Some (Cls True [CChar c], n, t))"

text \<open>\<open>re.compile\<close>: the pattern and whether it ignores case.\<close>

definition re_compile :: "string \<Rightarrow> (bool \<times> re) result" where
  "re_compile s =
     (let ic = (take 4 s = ''(?i)''); t = (if ic then drop 4 s else s) in
      case parse_alt (4 * length t + 4) 0 t of
        Some (r, _, []) \<Rightarrow> Inr (ic, r)
      | _ \<Rightarrow> Inl (ReError ''invalid pattern''))"

text \<open>\<open>re.search\<close>: a malformed pattern raises before the text is read.\<close>

definition py_search :: "string \<Rightarrow> string \<Rightarrow> rmatch option result" where
  "py_search pattern text = try_bind (re_compile pattern) (\<lambda>(ic, r). Inr (search_re ic r text))"

text \<open>
  Pattern literals of the source: the character \<open>~\<close>, which no pattern of the program
  contains, stands for the backslash, which a HOL string literal cannot hold.
\<close>

definition rx :: "string \<Rightarrow> string" where
  "rx s = map (\<lambda>c. if c = CHR 0x7E then backslash else c) s"

subsection \<open>Iterating over matches\<close>

text \<open>
  \<open>finditer\<close>: after a match the search goes on at its end. No pattern the program iterates matches
  the empty text, the case in which Python's rule for the next start differs.
\<close>

function find_iter :: "bool \<Rightarrow> re \<Rightarrow> char option \<Rightarrow> nat \<Rightarrow> string \<Rightarrow> rmatch list" where
  "find_iter ic r b i s = (case search_from ic r b i s of
     None \<Rightarrow> []
   | Some m \<Rightarrow> (let n = max 1 (m_end m - i) in
       m # (if n < length s then find_iter ic r (Some (s ! (n - 1))) (i + n) (drop n s) else [])))"
  by pat_completeness auto
termination by (relation "measure (\<lambda>(ic, r, b, i, s). length s)") auto

declare find_iter.simps [simp del]

definition finditer :: "string \<Rightarrow> string \<Rightarrow> rmatch list result" where
  "finditer pat content = try_bind (re_compile pat) (\<lambda>(ic, r). Inr (find_iter ic r None 0 content))"

lemma find_iter_Nil: "find_iter ic r b i s = [] \<longleftrightarrow> search_from ic r b i s = None"
  by (subst find_iter.simps) (simp add: Let_def split: option.split)

lemma finditer_Nil: "finditer pat content = Inr [] \<longleftrightarrow> py_search pat content = Inr None"
  by (auto simp: finditer_def py_search_def result_simps find_iter_Nil search_re_def split: prod.splits)

lemma py_search_text:
  assumes "py_search pattern text = Inr (Some m)"
  shows "sublist (m_text m) text"
  using assms by (auto simp: py_search_def result_simps intro: search_re_text split: prod.splits)

lemma py_search_raises:
  "py_search pattern text = Inl e \<Longrightarrow> py_search pattern text' = Inl e"
  by (auto simp: py_search_def result_simps split: prod.splits)

subsection \<open>Anchored classes\<close>

text \<open>What a repeated class passes over consists of its characters.\<close>

definition consumes :: "(char \<Rightarrow> bool) \<Rightarrow> rpos \<Rightarrow> rpos \<Rightarrow> bool" where
  "consumes P p q \<longleftrightarrow> (\<exists>u. rest p = u @ rest q \<and> (\<forall>c \<in> set u. P c))"

lemma consumes_refl [simp]: "consumes P p p"
  by (simp add: consumes_def)

lemma consumes_trans: "consumes P p q \<Longrightarrow> consumes P q r \<Longrightarrow> consumes P p r"
  by (fastforce simp: consumes_def)

lemma consumes_Cls: "q \<in> set (matches ic (Cls True items) p) \<Longrightarrow> consumes (cls_match ic items) p q"
  by (auto simp: consumes_def step_pos_def split: list.splits if_splits)

lemma consumes_rep_exact:
  assumes "\<And>p q. q \<in> set (f p) \<Longrightarrow> consumes P p q"
  shows "q \<in> set (rep_exact n f p) \<Longrightarrow> consumes P p q"
proof (induction n arbitrary: p)
  case (Suc n)
  then show ?case using assms by (auto intro: consumes_trans)
qed simp

lemma consumes_rep_more:
  assumes "\<And>p q. q \<in> set (f p) \<Longrightarrow> consumes P p q"
  shows "q \<in> set (rep_more k g f p) \<Longrightarrow> consumes P p q"
proof (induction k arbitrary: p)
  case (Suc k)
  then show ?case using assms by (auto simp: Let_def intro: consumes_trans split: if_splits)
qed simp

lemma consumes_Rep:
  assumes "q \<in> set (matches ic (Rep (Cls True items) lo hi g) p)"
  shows "consumes (cls_match ic items) p q"
proof -
  let ?f = "matches ic (Cls True items)"
  have f: "consumes (cls_match ic items) x y" if "y \<in> set (?f x)" for x y using that by (rule consumes_Cls)
  obtain x k where "x \<in> set (rep_exact lo ?f p)" "q \<in> set (rep_more k g ?f x)"
    using assms unfolding matches.simps(6) set_concat set_map by blast
  then show ?thesis using consumes_rep_exact [OF f] consumes_rep_more [OF f] by (blast intro: consumes_trans)
qed

lemma search_from_Bos: "search_from ic (Cat Bos r) (Some d) i s = None"
  by (induction s arbitrary: d i) (simp_all add: first_match_def start_pos_def)

lemma search_re_Bos:
  assumes "search_re ic (Cat Bos r) s = Some m"
  shows "\<exists>q. q \<in> set (matches ic r (start_pos None 0 s))"
proof -
  have "first_match ic (Cat Bos r) (start_pos None 0 s) \<noteq> None"
    using assms by (cases s) (auto simp: search_re_def search_from_Bos split: option.splits)
  then show ?thesis
    by (cases "matches ic r (start_pos None 0 s)") (auto simp: first_match_def start_pos_def)
qed

end
