(* ===== verification/Policy_Engine.thy ===== *)
theory Policy_Engine
  imports Regex
begin

text \<open>
  \<open>src/custos/policy\_engine.py\<close>: policy actions, rules and results, the Luhn checksum, the
  hardened default rules and the regex engine. \<open>evaluate\<close> is the loop of
  \<open>PolicyEngine.evaluate\<close> with its early return on DENY; a malformed pattern raises. The
  digest cache of the engine is a field of the record; the cached property
  \<open>rules\_digest\<close> is in theory Policy\_Citation, which defines the digest.
\<close>

subsection \<open>Actions, rules and results\<close>

datatype policy_action = ALLOW | DENY | AUDIT

record policy_rule =
  name :: string
  pattern :: string
  action :: policy_action
  reason :: string

record policy_result =
  allowed :: bool
  res_action :: policy_action
  triggered_rule :: "string option"
  res_reason :: string

text \<open>The value of an action, as \<open>PolicyAction.X.value\<close> and \<open>PolicyAction(value)\<close>.\<close>

fun action_value :: "policy_action \<Rightarrow> string" where
  "action_value ALLOW = ''allow''"
| "action_value DENY = ''deny''"
| "action_value AUDIT = ''audit''"

definition action_of :: "string \<Rightarrow> policy_action result" where
  "action_of s =
     (if s = ''allow'' then Inr ALLOW else if s = ''deny'' then Inr DENY
      else if s = ''audit'' then Inr AUDIT
      else Inl (ValueError (s @ '' is not a valid PolicyAction'')))"

lemma action_of_value [simp]: "action_of (action_value a) = Inr a"
  by (cases a) (simp_all add: action_of_def)

lemma action_value_inject [simp]: "action_value a = action_value b \<longleftrightarrow> a = b"
  by (cases a; cases b) simp_all

text \<open>How strict an action is: what the monotonicity of a rule set is stated with.\<close>

fun severity :: "policy_action \<Rightarrow> nat" where
  "severity ALLOW = 0"
| "severity AUDIT = 1"
| "severity DENY = 2"

subsection \<open>The Luhn checksum\<close>

text \<open>\<open>str.isdigit\<close> also accepts the superscripts, on which \<open>int\<close> raises.\<close>

definition py_isdigit :: "char \<Rightarrow> bool" where
  "py_isdigit c = (is_digit c \<or> code c \<in> {178, 179, 185})"

definition int_of_digit :: "char \<Rightarrow> nat result" where
  "int_of_digit c =
     (if is_digit c then Inr (code c - 48) else Inl (ValueError ''invalid literal for int()''))"

fun luhn_sum :: "nat \<Rightarrow> nat \<Rightarrow> nat list \<Rightarrow> nat" where
  "luhn_sum parity i [] = 0"
| "luhn_sum parity i (d # ds) =
     (let d1 = (if i mod 2 = parity then (let d2 = d * 2 in if d2 > 9 then d2 - 9 else d2) else d)
      in d1 + luhn_sum parity (Suc i) ds)"

definition luhn_digits_valid :: "nat list \<Rightarrow> bool" where
  "luhn_digits_valid ds =
     (if length ds < 13 \<or> length ds > 19 then False
      else luhn_sum (length ds mod 2) 0 ds mod 10 = 0)"

definition luhn_valid :: "string \<Rightarrow> bool result" where
  "luhn_valid card_digits = try_bind (try_map int_of_digit (filter py_isdigit card_digits))
     (\<lambda>ds. Inr (luhn_digits_valid ds))"

subsection \<open>Default rules\<close>

definition rule_ssn :: policy_rule where
  "rule_ssn = \<lparr>name = ''block_pii_ssn'',
    pattern = rx (''~b(?!000|666|9~d{2})'' @ ''~d{3}[- .]~d{2}[- .]~d{4}~b''),
    action = DENY, reason = ''SSN pattern detected''\<rparr>"

definition rule_ssn_compact :: policy_rule where
  "rule_ssn_compact = \<lparr>name = ''block_pii_ssn_compact'',
    pattern = rx ''(?i)~b(?:ssn|social~s+security)~s*(?:#|no~.?|number)?~s*:?~s*~d{9}~b'',
    action = DENY, reason = ''SSN pattern detected (compact format)''\<rparr>"

definition rule_card :: policy_rule where
  "rule_card = \<lparr>name = ''block_pii_credit_card'',
    pattern = rx ''~b(?:~d[ ~-.~n]*?){13,19}~b'',
    action = DENY, reason = ''Credit card pattern detected''\<rparr>"

definition rule_injection :: policy_rule where
  "rule_injection = \<lparr>name = ''block_prompt_injection'',
    pattern = rx (''(?i)('' @
      ''ignore~s+(?:previous|prior|all|the~s+above)~s+instructions?'' @
      ''|disregard~s+(?:your|the|all|previous)~s+(?:instructions?|rules?|guidelines?)'' @
      ''|forget~s+(?:your|all|previous)~s+(?:instructions?|rules?|prompt)'' @
      ''|override~s+(?:your|the|system)~s+(?:system~s+)?(?:instructions?|prompt|rules?)'' @
      ''|you~s+are~s+now~s+(?:a|an|in)'' @
      ''|act~s+as~s+(?:if~s+you~s+are|a|an)'' @
      ''|pretend~s+(?:you~s+are|to~s+be)'' @
      ''|jailbreak|dan~s+mode|developer~s+mode'' @
      ''|system~s*:~s*(?:new|override|ignore)'' @
      ''|new~s+instructions?~s*:'' @
      ''|stop~s+following~s+(?:your|the|all)~s+rules?'' @
      ''|reveal~s+(?:your|the|all)~s+(?:system~s+)?(?:prompt|instructions?|rules?)'' @
      ''|(?:you~s+are|you'' @ [CHR 0x27] @ ''?re|your)~s+(?:a|an)~s+(?:principal|distinguished|chief|senior|staff|expert|world[-~s]class|elite)~s+(?:engineer|fellow|analyst|scientist|architect|researcher)s?'' @
      ''|(?:respond|reply)~s+to~s+(?:this|the)~s+other~s+(?:model|ai|assistant)'' @
      ''|relay~s+(?:this|it|that)~s+to~s+(?:another|the~s+other|a~s+different)~s+(?:model|ai|assistant)'' @
      ''|forward~s+(?:this|it|that)~s+to~s+(?:another|the~s+other)~s+(?:model|ai|assistant)'' @
      ''|show~s+(?:me~s+)?(?:your|the)~s+(?:system~s+)?prompt'' @
      '')''),
    action = DENY, reason = ''Prompt injection attempt detected''\<rparr>"

definition rule_keywords :: policy_rule where
  "rule_keywords = \<lparr>name = ''audit_sensitive_keywords'',
    pattern = rx ''(?i)~b(password|passwd|secret|token|api[_~s-]?key|credentials?|private[_~s-]?key)~b'',
    action = AUDIT, reason = ''Sensitive keyword flagged for audit''\<rparr>"

definition default_rules :: "policy_rule list" where
  "default_rules = [rule_ssn, rule_ssn_compact, rule_card, rule_injection, rule_keywords]"

definition post_validation_rules :: "string list" where
  "post_validation_rules = [''block_pii_credit_card'']"

subsection \<open>The engine\<close>

record policy_engine =
  pe_rules :: "policy_rule list"
  pe_digest_cache :: "string option"

definition new_policy_engine :: "policy_rule list option \<Rightarrow> policy_engine" where
  "new_policy_engine rs =
     \<lparr>pe_rules = (case rs of None \<Rightarrow> default_rules | Some l \<Rightarrow> l), pe_digest_cache = None\<rparr>"

text \<open>
  Whether a rule counts as hit: it matches, and its first match passes the post-match
  validation when its name is in \<open>_POST_VALIDATION_RULES\<close>.
\<close>

definition rule_hit :: "policy_rule \<Rightarrow> string \<Rightarrow> bool result" where
  "rule_hit r content = try_bind (py_search (pattern r) content) (\<lambda>m. case m of
     None \<Rightarrow> Inr False
   | Some m \<Rightarrow>
       if name r \<in> set post_validation_rules then
         luhn_valid (filter is_digit (m_text m))
       else Inr True)"

definition deny_result :: "policy_rule \<Rightarrow> policy_result" where
  "deny_result r = \<lparr>allowed = False, res_action = DENY,
     triggered_rule = Some (name r), res_reason = reason r\<rparr>"

definition audit_result :: "policy_rule \<Rightarrow> policy_result" where
  "audit_result r = \<lparr>allowed = True, res_action = AUDIT,
     triggered_rule = Some (name r), res_reason = reason r\<rparr>"

definition allow_result :: policy_result where
  "allow_result = \<lparr>allowed = True, res_action = ALLOW,
     triggered_rule = None, res_reason = ''No policy violations detected''\<rparr>"

fun eval_rules :: "policy_rule list \<Rightarrow> string \<Rightarrow> policy_rule option \<Rightarrow> policy_result result" where
  "eval_rules [] content audit_hit =
     Inr (case audit_hit of Some r \<Rightarrow> audit_result r | None \<Rightarrow> allow_result)"
| "eval_rules (r # rs) content audit_hit =
     try_bind (rule_hit r content) (\<lambda>hit.
       if hit \<and> action r = DENY then Inr (deny_result r)
       else if hit \<and> action r = AUDIT \<and> audit_hit = None then eval_rules rs content (Some r)
       else eval_rules rs content audit_hit)"

definition evaluate :: "policy_engine \<Rightarrow> string \<Rightarrow> policy_result result" where
  "evaluate e content = eval_rules (pe_rules e) content None"

definition add_rule :: "policy_rule \<Rightarrow> policy_engine \<Rightarrow> policy_engine" where
  "add_rule r e = e\<lparr>pe_rules := pe_rules e @ [r], pe_digest_cache := None\<rparr>"

definition rule_count :: "policy_engine \<Rightarrow> nat" where
  "rule_count e = length (pe_rules e)"

subsection \<open>The decision is the first DENY, else the first AUDIT, else ALLOW\<close>

definition first_with :: "(policy_rule \<Rightarrow> bool) \<Rightarrow> policy_action \<Rightarrow> policy_rule list \<Rightarrow> policy_rule option" where
  "first_with hit a rs = List.find (\<lambda>r. hit r \<and> action r = a) rs"

definition decide :: "policy_rule option \<Rightarrow> policy_rule option \<Rightarrow> policy_result" where
  "decide denied audited = (case denied of
     Some r \<Rightarrow> deny_result r
   | None \<Rightarrow> (case audited of Some r \<Rightarrow> audit_result r | None \<Rightarrow> allow_result))"

definition policy_spec :: "(policy_rule \<Rightarrow> bool) \<Rightarrow> policy_rule list \<Rightarrow> policy_result" where
  "policy_spec hit rs = decide (first_with hit DENY rs) (first_with hit AUDIT rs)"

definition hits :: "string \<Rightarrow> policy_rule \<Rightarrow> bool" where
  "hits content r = (rule_hit r content = Inr True)"

fun or_else :: "'a option \<Rightarrow> 'a option \<Rightarrow> 'a option" where
  "or_else None b = b"
| "or_else (Some x) b = Some x"

lemma or_else_simps [simp]: "or_else a None = a" "or_else a b = None \<longleftrightarrow> a = None \<and> b = None"
  by (cases a; simp)+

lemma first_with_Cons:
  "first_with hit a (r # rs) = (if hit r \<and> action r = a then Some r else first_with hit a rs)"
  by (simp add: first_with_def)

lemma first_with_Nil: "first_with hit a [] = None"
  by (simp add: first_with_def)

lemma eval_rules_spec:
  assumes "\<forall>r \<in> set rs. \<not> raised (rule_hit r content)"
  shows "eval_rules rs content a = Inr
     (decide (first_with (hits content) DENY rs) (or_else a (first_with (hits content) AUDIT rs)))"
  using assms
proof (induction rs arbitrary: a)
  case Nil
  show ?case by (cases a) (simp_all add: first_with_Nil decide_def)
next
  case (Cons r rs)
  obtain h where h: "rule_hit r content = Inr h"
    using Cons.prems by (cases "rule_hit r content") auto
  have IH: "eval_rules rs content a = Inr
     (decide (first_with (hits content) DENY rs) (or_else a (first_with (hits content) AUDIT rs)))" for a
    using Cons.IH Cons.prems by simp
  have hit: "hits content r = h" by (simp add: hits_def h)
  show ?case
    by (cases a) (simp_all add: h IH first_with_Cons hit, auto simp: decide_def)
qed

lemma eval_rules_denies:
  "eval_rules rs content a = Inr res \<Longrightarrow>
     res_action res = DENY \<longleftrightarrow> (\<exists>r \<in> set rs. hits content r \<and> action r = DENY)"
proof (induction rs arbitrary: a)
  case Nil
  then show ?case by (auto simp: audit_result_def allow_result_def split: option.splits)
next
  case (Cons r rs)
  then obtain h where h: "rule_hit r content = Inr h" by (auto simp: result_simps)
  show ?case
  proof (cases "h \<and> action r = DENY")
    case True
    with Cons.prems h show ?thesis by (auto simp: deny_result_def hits_def)
  next
    case False
    with Cons.prems h obtain a' where "eval_rules rs content a' = Inr res"
      by (auto split: if_splits)
    from Cons.IH [OF this] False h show ?thesis by (auto simp: hits_def)
  qed
qed

lemma eval_rules_coherent:
  "eval_rules rs content a = Inr res \<Longrightarrow> allowed res \<longleftrightarrow> res_action res \<noteq> DENY"
proof (induction rs arbitrary: a)
  case Nil
  then show ?case by (auto simp: audit_result_def allow_result_def split: option.splits)
next
  case (Cons r rs)
  then show ?case by (auto simp: result_simps deny_result_def split: if_splits)
qed

lemma eval_rules_append:
  assumes "eval_rules rs content a = Inr res" "eval_rules (rs @ [r]) content a = Inr res'"
  shows "severity (res_action res) \<le> severity (res_action res') \<and> (res_action res = DENY \<longrightarrow> res' = res)"
  using assms
proof (induction rs arbitrary: a)
  case Nil
  then show ?case
    by (auto simp: result_simps audit_result_def allow_result_def deny_result_def
        split: option.splits if_splits)
next
  case (Cons q rs)
  then show ?case by (auto simp: result_simps split: if_splits)
qed

lemma eval_rules_raises:
  "eval_rules rs content a = Inl e \<longleftrightarrow>
     (\<exists>us r vs. rs = us @ r # vs \<and> rule_hit r content = Inl e \<and>
        (\<forall>u \<in> set us. \<exists>h. rule_hit u content = Inr h \<and> \<not> (h \<and> action u = DENY)))"
proof (induction rs arbitrary: a)
  case Nil
  show ?case by simp
next
  case (Cons q rs)
  show ?case
  proof (cases "rule_hit q content")
    case (Inl d)
    then show ?thesis unfolding ex_split_Cons by simp
  next
    case (Inr h)
    with Cons.IH show ?thesis unfolding ex_split_Cons by simp
  qed
qed

definition digit_of :: "char \<Rightarrow> nat" where
  "digit_of c = code c - 48"

lemma digit_of_inj: "is_digit c \<Longrightarrow> is_digit d \<Longrightarrow> digit_of c = digit_of d \<Longrightarrow> c = d"
proof -
  assume "is_digit c" "is_digit d" "digit_of c = digit_of d"
  moreover have "code x = 48 + digit_of x" if "is_digit x" for x
    using that by (simp add: digit_of_def is_digit_def)
  ultimately have "code c = (code d :: nat)" by metis
  then show "c = d" by (simp add: code_inject)
qed

lemma digit_of_lt: "is_digit c \<Longrightarrow> digit_of c < 10"
  by (auto simp: digit_of_def is_digit_def)

lemma luhn_valid_digits:
  assumes "\<forall>c \<in> set s. is_digit c"
  shows "luhn_valid s = Inr (luhn_digits_valid (map digit_of s))"
proof -
  have "filter py_isdigit s = s" using assms by (simp add: py_isdigit_def filter_id_conv)
  moreover have "try_map int_of_digit s = Inr (map digit_of s)"
    using assms by (induction s) (simp_all add: int_of_digit_def digit_of_def)
  ultimately show ?thesis by (simp add: luhn_valid_def)
qed

lemma luhn_valid_filter [simp]:
  "luhn_valid (filter is_digit s) = Inr (luhn_digits_valid (map digit_of (filter is_digit s)))"
  by (rule luhn_valid_digits) simp

lemma rule_hit_raises_iff:
  "raised (rule_hit r content) \<longleftrightarrow> raised (re_compile (pattern r))"
  by (cases "re_compile (pattern r)") (auto simp: rule_hit_def py_search_def split: option.splits if_splits)

subsection \<open>The Luhn loop computes the Luhn checksum\<close>

text \<open>
  The checksum as it is usually stated: from the right, every second digit is doubled and
  the digits of the products are added.
\<close>

definition digit_sum :: "nat \<Rightarrow> nat" where
  "digit_sum n = n div 10 + n mod 10"

definition luhn_checksum :: "nat list \<Rightarrow> nat" where
  "luhn_checksum ds =
     (\<Sum>k < length ds. if odd k then digit_sum (2 * rev ds ! k) else rev ds ! k)"

definition luhn_term :: "bool \<Rightarrow> nat \<Rightarrow> nat" where
  "luhn_term doubled d = (if doubled then digit_sum (2 * d) else d)"

lemma luhn_term_step:
  "d < 10 \<Longrightarrow> (if b then (let d2 = d * 2 in if d2 > 9 then d2 - 9 else d2) else d) = luhn_term b d"
proof -
  assume "d < 10"
  then have "d * 2 - 9 = digit_sum (2 * d)" if "d * 2 > 9"
  proof -
    have "d \<in> {5, 6, 7, 8, 9}" using that \<open>d < 10\<close> by auto
    then show ?thesis by (auto simp: digit_sum_def)
  qed
  moreover have "d * 2 = digit_sum (2 * d)" if "\<not> d * 2 > 9"
    using that by (simp add: digit_sum_def)
  ultimately show ?thesis by (simp add: luhn_term_def Let_def)
qed

lemma luhn_sum_as_sum:
  assumes "\<forall>d \<in> set ds. d < 10"
  shows "luhn_sum par i ds = (\<Sum>k < length ds. luhn_term ((i + k) mod 2 = par) (ds ! k))"
  using assms
proof (induction ds arbitrary: i)
  case Nil
  show ?case by simp
next
  case (Cons d ds)
  have "luhn_sum par i (d # ds) = luhn_term (i mod 2 = par) d + luhn_sum par (Suc i) ds"
    using Cons.prems by (simp only: luhn_sum.simps luhn_term_step [symmetric]) (simp add: Let_def luhn_term_step [symmetric])
  also have "\<dots> = (\<Sum>k < length (d # ds). luhn_term ((i + k) mod 2 = par) ((d # ds) ! k))"
    using Cons by (simp add: sum.lessThan_Suc_shift del: sum.lessThan_Suc)
  finally show ?case .
qed

lemma luhn_sum_checksum:
  assumes "\<forall>d \<in> set ds. d < 10"
  shows "luhn_sum (length ds mod 2) 0 ds = luhn_checksum ds"
proof -
  let ?n = "length ds"
  have "luhn_sum (?n mod 2) 0 ds = (\<Sum>k < ?n. luhn_term (k mod 2 = ?n mod 2) (ds ! k))"
    using luhn_sum_as_sum [OF assms] by simp
  also have "\<dots> = (\<Sum>k < ?n. luhn_term ((?n - Suc k) mod 2 = ?n mod 2) (ds ! (?n - Suc k)))"
    by (rule sum.nat_diff_reindex [symmetric])
  also have "\<dots> = luhn_checksum ds"
    unfolding luhn_checksum_def
  proof (rule sum.cong [OF refl])
    fix k assume "k \<in> {..< ?n}"
    then have k: "k < ?n" by simp
    then obtain j where j: "?n = Suc (k + j)" using less_imp_Suc_add by blast
    then have "((?n - Suc k) mod 2 = ?n mod 2) = odd k" by (simp add: mod2_eq_if)
    with k show "luhn_term ((?n - Suc k) mod 2 = ?n mod 2) (ds ! (?n - Suc k)) =
      (if odd k then digit_sum (2 * rev ds ! k) else rev ds ! k)"
      by (simp add: luhn_term_def rev_nth)
  qed
  finally show ?thesis .
qed

lemma luhn_term_inj:
  assumes "d < 10" "d' < 10" "luhn_term b d mod 10 = luhn_term b d' mod 10"
  shows "d = d'"
proof -
  have "d \<in> {0,1,2,3,4,5,6,7,8,9}" "d' \<in> {0,1,2,3,4,5,6,7,8,9}" using assms(1,2) by auto
  with assms(3) show ?thesis by (cases b) (auto simp: luhn_term_def digit_sum_def)
qed

lemma luhn_sum_update:
  assumes ds: "\<forall>d \<in> set ds. d < 10" and i: "i < length ds" and d: "d < 10" "d \<noteq> ds ! i"
  shows "luhn_sum par 0 (ds[i := d]) mod 10 \<noteq> luhn_sum par 0 ds mod 10"
proof -
  let ?f = "\<lambda>xs k. luhn_term (k mod 2 = par) (xs ! k)"
  let ?S = "\<Sum>k \<in> {..< length ds} - {i}. ?f ds k"
  have ds': "\<forall>x \<in> set (ds[i := d]). x < 10"
    using ds d(1) by (metis in_set_conv_nth length_list_update nth_list_update_eq nth_list_update_neq nth_mem)
  have "luhn_sum par 0 ds = ?f ds i + ?S"
    using luhn_sum_as_sum [OF ds] i by (simp add: sum.remove [of "{..< length ds}" i])
  moreover have "luhn_sum par 0 (ds[i := d]) = ?f (ds[i := d]) i + ?S"
    using luhn_sum_as_sum [OF ds'] i by (simp add: sum.remove [of "{..< length ds}" i])
  moreover have "(a + s) mod 10 \<noteq> (b + s) mod 10" if "a mod 10 \<noteq> b mod 10" for a b s :: nat
    using that by (simp add: nat_mod_eq_iff)
  ultimately show ?thesis
    using luhn_term_inj [of d "ds ! i" "i mod 2 = par"] ds i d by auto
qed

subsection \<open>A formatted SSN anywhere in the text is found\<close>

text \<open>The first default rule, as \<open>re.compile\<close> reads it.\<close>

definition ssn_area :: re where
  "ssn_area =
     Or (Cat (Cls True [CChar CHR ''0'']) (Cat (Cls True [CChar CHR ''0'']) (Cls True [CChar CHR ''0''])))
    (Or (Cat (Cls True [CChar CHR ''6'']) (Cat (Cls True [CChar CHR ''6'']) (Cls True [CChar CHR ''6''])))
        (Cat (Cls True [CChar CHR ''9'']) (Rep (Cls True [CDigit True]) 2 (Some 2) True)))"

definition ssn_re :: re where
  "ssn_re = (let d = Cls True [CDigit True]; sep = Cls True [CChar CHR ''-'', CChar CHR '' '', CChar CHR ''.''] in
     Cat (Bound True) (Cat (Look False ssn_area)
     (Cat (Rep d 3 (Some 3) True) (Cat sep (Cat (Rep d 2 (Some 2) True) (Cat sep
       (Cat (Rep d 4 (Some 4) True) (Bound True))))))))"

lemma ssn_compiles: "re_compile (pattern rule_ssn) = Inr (False, ssn_re)"
  by code_simp

definition ssn_sep :: "char \<Rightarrow> bool" where
  "ssn_sep c = (c \<in> {CHR ''-'', CHR '' '', CHR ''.''})"

lemma step_start [simp]: "step_pos (start_pos b i (c # s)) = start_pos (Some c) (Suc i) s"
  by (simp add: step_pos_def start_pos_def)

lemma rest_start [simp]: "rest (start_pos b i s) = s"
  by (simp add: start_pos_def)

lemma matches_digits:
  assumes "list_all is_digit ds" "length ds = n"
  shows "matches ic (Rep (Cls True [CDigit True]) n (Some n) g) (start_pos b i (ds @ s)) =
     [start_pos (prev_of b ds) (i + length ds) s]"
proof -
  have "rep_exact (length ds) (matches ic (Cls True [CDigit True])) (start_pos b i (ds @ s)) =
     [start_pos (prev_of b ds) (i + length ds) s]" using assms(1)
    by (induction ds arbitrary: b i) (simp_all add: prev_of_def cls_match_def)
  with assms(2) show ?thesis by simp
qed

lemma matches_ssn_sep:
  assumes "ssn_sep c"
  shows "matches ic (Cls True [CChar CHR ''-'', CChar CHR '' '', CChar CHR ''.'']) (start_pos b i (c # s)) =
     [start_pos (Some c) (Suc i) s]"
  using assms by (auto simp: ssn_sep_def cls_match_def)

lemma ssn_area_ok:
  assumes "length a = 3" "a \<noteq> ''000''" "a \<noteq> ''666''" "hd a \<noteq> CHR ''9''"
  shows "matches False ssn_area (start_pos b i (a @ s)) = []"
proof -
  obtain x y z where "a = [x, y, z]"
    using assms(1) by (auto simp: length_Suc_conv eval_nat_numeral)
  with assms(2-) show ?thesis by (auto simp: ssn_area_def cls_match_def)
qed

lemma digit_word: "is_digit c \<Longrightarrow> is_word c"
  by (simp add: is_word_def is_alnum_def Let_def)

lemma at_boundary_start:
  "at_boundary (start_pos b i s) = ((case b of None \<Rightarrow> False | Some d \<Rightarrow> is_word d) \<noteq> (s \<noteq> [] \<and> is_word (hd s)))"
  by (simp add: at_boundary_def start_pos_def split: list.splits)

lemma matches_cat:
  "matches ic r p = [q] \<Longrightarrow> matches ic s q \<noteq> [] \<Longrightarrow> matches ic (Cat r s) p \<noteq> []"
  by simp

lemma ssn_matches:
  assumes a: "length a = 3" "a \<noteq> ''000''" "a \<noteq> ''666''" "hd a \<noteq> CHR ''9''"
    and len: "length b = 2" "length c = 4"
    and dig: "list_all is_digit a" "list_all is_digit b" "list_all is_digit c"
    and sep: "ssn_sep s" "ssn_sep t"
    and left: "\<not> (case p of None \<Rightarrow> False | Some d \<Rightarrow> is_word d)"
    and right: "v = [] \<or> \<not> is_word (hd v)"
  shows "matches False ssn_re (start_pos p i (a @ s # b @ t # c @ v)) \<noteq> []"
proof -
  have ne: "a \<noteq> []" "b \<noteq> []" "c \<noteq> []" using a(1) len by auto
  have "is_word (hd a)" using dig(1) ne(1) by (cases a) (auto intro: digit_word)
  with left ne have b1: "at_boundary (start_pos p i (a @ s # b @ t # c @ v))"
    by (simp add: at_boundary_start)
  have "is_word (last c)" using dig(3) ne(3) by (simp add: list_all_iff digit_word)
  with right have b2: "at_boundary (start_pos (prev_of q c) j v)" for q j
    using ne by (auto simp: at_boundary_start prev_of_def)
  have bound: "matches False (Bound True) (start_pos p i (a @ s # b @ t # c @ v)) =
    [start_pos p i (a @ s # b @ t # c @ v)]" by (simp add: b1)
  have look: "matches False (Look False ssn_area) (start_pos p i (a @ s # b @ t # c @ v)) =
    [start_pos p i (a @ s # b @ t # c @ v)]" by (simp add: ssn_area_ok [OF a])
  show ?thesis
    unfolding ssn_re_def Let_def
    by (rule matches_cat [OF bound], rule matches_cat [OF look],
        rule matches_cat [OF matches_digits [OF dig(1) a(1)]], rule matches_cat [OF matches_ssn_sep [OF sep(1)]],
        rule matches_cat [OF matches_digits [OF dig(2) len(1)]], rule matches_cat [OF matches_ssn_sep [OF sep(2)]],
        rule matches_cat [OF matches_digits [OF dig(3) len(2)]]) (simp add: b2)
qed

subsection \<open>Properties\<close>

definition demo_rules :: "policy_rule list" where
  "demo_rules =
    [\<lparr>name = ''watch'', pattern = ''key'', action = AUDIT, reason = ''r1''\<rparr>,
     \<lparr>name = ''skip'', pattern = ''a'', action = ALLOW, reason = ''r2''\<rparr>,
     \<lparr>name = ''stop'', pattern = rx ''~bdrop~b'', action = DENY, reason = ''r3''\<rparr>]"

lemma demo_rules_compile: "\<forall>r \<in> set demo_rules. \<not> raised (re_compile (pattern r))"
  by code_simp

text \<open>C23: when every pattern compiles, \<open>PolicyEngine.evaluate\<close> returns, and what it returns is
  decided by the first DENY rule that hits, wherever it stands, else by the first AUDIT rule
  that hits, else it is ALLOW: the loop with its running \<open>audit_hit\<close> and its early return
  computes this specification.\<close>

theorem evaluate_spec:
  assumes "\<forall>r \<in> set (pe_rules e). \<not> raised (re_compile (pattern r))"
  shows "evaluate e content = Inr (policy_spec (hits content) (pe_rules e))"
  using assms by (simp add: evaluate_def policy_spec_def eval_rules_spec rule_hit_raises_iff)

theorem evaluate_spec_witness:
  "evaluate (new_policy_engine (Some demo_rules)) ''key: drop it'' =
     Inr (policy_spec (hits ''key: drop it'') demo_rules) \<and>
   map_sum id res_action (evaluate (new_policy_engine (Some demo_rules)) ''key: drop it'') = Inr DENY"
proof
  show "evaluate (new_policy_engine (Some demo_rules)) ''key: drop it'' =
     Inr (policy_spec (hits ''key: drop it'') demo_rules)"
    using evaluate_spec [of "new_policy_engine (Some demo_rules)"] demo_rules_compile
    by (simp add: new_policy_engine_def)
  show "map_sum id res_action (evaluate (new_policy_engine (Some demo_rules)) ''key: drop it'') = Inr DENY"
    by code_simp
qed

text \<open>\<open>evaluate\<close> raises exactly when a rule with a malformed pattern is reached, that is
  when no rule before it is a DENY rule that hits; a malformed pattern after such a rule is
  never seen. The exception is that of the first such rule.\<close>

theorem evaluate_raises_iff:
  "evaluate e content = Inl err \<longleftrightarrow>
     (\<exists>us r vs. pe_rules e = us @ r # vs \<and> rule_hit r content = Inl err \<and>
        (\<forall>u \<in> set us. \<not> raised (rule_hit u content) \<and> \<not> (hits content u \<and> action u = DENY)))"
proof -
  have "(\<exists>h. rule_hit u content = Inr h \<and> \<not> (h \<and> action u = DENY)) \<longleftrightarrow>
    \<not> raised (rule_hit u content) \<and> \<not> (hits content u \<and> action u = DENY)" for u
    by (cases "rule_hit u content") (auto simp: hits_def)
  then show ?thesis by (simp add: evaluate_def eval_rules_raises)
qed

definition bad_rule :: policy_rule where
  "bad_rule = \<lparr>name = ''bad'', pattern = ''(drop'', action = DENY, reason = ''r4''\<rparr>"

theorem evaluate_raises_iff_witness:
  "evaluate (new_policy_engine (Some [hd demo_rules, bad_rule])) ''drop'' =
     Inl (ReError ''invalid pattern'')"
proof -
  have "rule_hit bad_rule ''drop'' = Inl (ReError ''invalid pattern'')"
    "rule_hit (hd demo_rules) ''drop'' = Inr False" by code_simp+
  then show ?thesis
    unfolding evaluate_raises_iff
    by (intro exI [of _ "[hd demo_rules]"] exI [of _ bad_rule] exI [of _ "[]"])
       (simp add: new_policy_engine_def hits_def)
qed

text \<open>Adding rules only tightens a policy: if the engine returns a decision before and after
  \<open>add_rule\<close>, the decision after is at least as strict (ALLOW below AUDIT below DENY), and a
  content denied before is denied by the same rule.\<close>

theorem add_rule_tightens:
  assumes "evaluate e content = Inr before" and "evaluate (add_rule r e) content = Inr after"
  shows "severity (res_action before) \<le> severity (res_action after) \<and>
     (res_action before = DENY \<longrightarrow> after = before)"
  using assms eval_rules_append [of "pe_rules e" content None before r after]
  by (simp add: evaluate_def add_rule_def)

theorem add_rule_tightens_witness:
  "severity (res_action (audit_result (hd demo_rules))) \<le> severity (res_action (deny_result (last demo_rules)))"
proof -
  let ?e = "new_policy_engine (Some (butlast demo_rules))"
  have "evaluate ?e ''key: drop it'' = Inr (audit_result (hd demo_rules))" by code_simp
  moreover have "evaluate (add_rule (last demo_rules) ?e) ''key: drop it'' = Inr (deny_result (last demo_rules))"
    by code_simp
  ultimately show ?thesis using add_rule_tightens by blast
qed

lemma luhn_checksum_4111: "luhn_checksum (map digit_of ''4111111111111111'') mod 10 = 0"
  by code_simp

text \<open>C38: For a string of ASCII digits \<open>_luhn_valid\<close> never raises and answers whether there are
  13 to 19 digits whose Luhn checksum (from the right, every second digit doubled and the
  digits of the product added) is a multiple of ten.\<close>

theorem luhn_valid_reference:
  assumes "\<forall>c \<in> set s. is_digit c"
  shows "luhn_valid s = Inr (13 \<le> length s \<and> length s \<le> 19 \<and>
     luhn_checksum (map digit_of s) mod 10 = 0)"
proof -
  have "\<forall>d \<in> set (map digit_of s). d < 10" using assms by (auto intro: digit_of_lt)
  from luhn_sum_checksum [OF this] show ?thesis
    by (auto simp: luhn_valid_digits [OF assms] luhn_digits_valid_def)
qed

theorem luhn_valid_reference_witness:
  "luhn_valid ''4111111111111111'' = Inr True"
proof -
  have "\<forall>c \<in> set ''4111111111111111''. is_digit c" by (simp add: is_digit_def)
  from luhn_valid_reference [OF this] show ?thesis
    unfolding luhn_checksum_4111 by simp
qed

text \<open>\<open>_luhn_valid\<close> detects every single-digit error: replacing one digit of a valid number by
  another digit makes it invalid.\<close>

theorem luhn_detects_single_error:
  assumes "\<forall>c \<in> set s. is_digit c" and "luhn_valid s = Inr True"
    and "i < length s" and "is_digit c" and "c \<noteq> s ! i"
  shows "luhn_valid (s[i := c]) = Inr False"
proof -
  have s': "\<forall>x \<in> set (s[i := c]). is_digit x"
    using assms(1,4) by (metis in_set_conv_nth length_list_update nth_list_update_eq nth_list_update_neq nth_mem)
  have lt: "\<forall>d \<in> set (map digit_of s). d < 10" using assms(1) by (auto intro: digit_of_lt)
  have "digit_of c \<noteq> map digit_of s ! i"
    using digit_of_inj [of c "s ! i"] assms(1,3-5) by auto
  with luhn_sum_update [OF lt _ digit_of_lt [OF assms(4)] this, of "length s mod 2"] assms(2,3)
  show ?thesis
    by (simp add: luhn_valid_digits [OF s'] luhn_valid_digits [OF assms(1)] luhn_digits_valid_def
        map_update split: if_splits)
qed

theorem luhn_detects_single_error_witness:
  "luhn_valid ''4111111111111112'' = Inr False"
proof -
  have "luhn_valid ''4111111111111111'' = Inr True" by code_simp
  from luhn_detects_single_error [OF _ this, of 15 "CHR ''2''"] show ?thesis
    by (simp add: is_digit_def eval_nat_numeral)
qed

text \<open>With the default rules, a text holding a social security number in the dashed, spaced
  or dotted form, with an area other than 000, 666 and 9xx and not glued to a word on either
  side, is denied by the SSN rule whatever surrounds it.\<close>

theorem ssn_denied:
  assumes "length a = 3" "a \<noteq> ''000''" "a \<noteq> ''666''" "hd a \<noteq> CHR ''9''"
    and "length b = 2" "length c = 4"
    and "list_all is_digit a" "list_all is_digit b" "list_all is_digit c"
    and "ssn_sep s" "ssn_sep t"
    and "u = [] \<or> \<not> is_word (last u)" "v = [] \<or> \<not> is_word (hd v)"
  shows "evaluate (new_policy_engine None) (u @ a @ s # b @ t # c @ v) = Inr
     \<lparr>allowed = False, res_action = DENY, triggered_rule = Some ''block_pii_ssn'',
      res_reason = ''SSN pattern detected''\<rparr>"
proof -
  have "\<not> (case prev_of None u of None \<Rightarrow> False | Some d \<Rightarrow> is_word d)"
    using assms(12) by (auto simp: prev_of_def)
  from search_re_found [OF ssn_matches [OF assms(1-11) this assms(13)]]
  obtain m where m: "search_re False ssn_re (u @ a @ s # b @ t # c @ v) = Some m" by blast
  have "rule_hit rule_ssn (u @ a @ s # b @ t # c @ v) = Inr True"
    by (simp add: rule_hit_def py_search_def ssn_compiles m)
       (simp add: rule_ssn_def post_validation_rules_def)
  moreover have "action rule_ssn = DENY" by (simp add: rule_ssn_def)
  ultimately have "eval_rules default_rules (u @ a @ s # b @ t # c @ v) None = Inr (deny_result rule_ssn)"
    by (simp add: default_rules_def)
  then show ?thesis
    by (simp add: evaluate_def new_policy_engine_def deny_result_def rule_ssn_def)
qed

theorem ssn_denied_witness:
  "evaluate (new_policy_engine None) ''id 123-45-6789.'' = Inr
     \<lparr>allowed = False, res_action = DENY, triggered_rule = Some ''block_pii_ssn'',
      res_reason = ''SSN pattern detected''\<rparr>"
  using ssn_denied [of "''123''" "''45''" "''6789''" "CHR ''-''" "CHR ''-''" "''id ''" "''.''"]
  by (simp add: ssn_sep_def is_digit_def is_word_def is_alnum_def is_lower_ascii_def is_upper_ascii_def)

subsection \<open>The checksum is applied to the first match only\<close>

text \<open>
  The engine looks at the first match of a rule. A digit run that fails the checksum
  therefore hides a valid card number behind it.
\<close>

definition card_engine :: policy_engine where
  "card_engine = new_policy_engine (Some [rule_card])"

lemma luhn_decoy_hides_card:
  "map_sum id allowed (evaluate card_engine ''4111111111111111'') = Inr False"
  "map_sum id allowed (evaluate card_engine ''1234567890123 or 4111111111111111'') = Inr True"
  by code_simp+

end
