(* ===== verification/Policy_Store.thy ===== *)
theory Policy_Store
  imports Policy_Engine Json
begin

text \<open>
  \<open>src/custos/policy\_store.py\<close>: the rules of a tenant, kept in memory, in SQLite or in
  PostgreSQL. A table is the list of its rows with the id counter of its key; a transaction
  that raises leaves the rows as they were (the PostgreSQL sequence keeps its advance). An
  operation that changes the store returns the store and the value or exception. What the
  clients rely on is the locale \<open>rule\_storage\<close>, interpreted on each backend.
\<close>

subsection \<open>Serialization helpers\<close>

definition rule_to_dict :: "policy_rule \<Rightarrow> (string \<times> json) list" where
  "rule_to_dict r =
     [(''name'', JStr (name r)), (''pattern'', JStr (pattern r)),
      (''action'', JStr (action_value (action r))), (''reason'', JStr (reason r))]"

definition dict_get :: "(string \<times> json) list \<Rightarrow> string \<Rightarrow> json result" where
  "dict_get d k = (case map_of d k of Some v \<Rightarrow> Inr v | None \<Rightarrow> Inl (KeyError k))"

definition json_str :: "json \<Rightarrow> string result" where
  "json_str j = (case j of JStr s \<Rightarrow> Inr s | _ \<Rightarrow> Inl (ValueError ''not a string''))"

definition rule_from_dict :: "(string \<times> json) list \<Rightarrow> policy_rule result" where
  "rule_from_dict d =
     try_bind (try_bind (dict_get d ''name'') json_str) (\<lambda>n.
     try_bind (try_bind (dict_get d ''pattern'') json_str) (\<lambda>p.
     try_bind (try_bind (try_bind (dict_get d ''action'') json_str) action_of) (\<lambda>a.
     try_bind (try_bind (dict_get d ''reason'') json_str) (\<lambda>r.
       Inr \<lparr>name = n, pattern = p, action = a, reason = r\<rparr>))))"

lemma rule_from_to_dict [simp]: "rule_from_dict (rule_to_dict r) = Inr r"
  by (simp add: rule_from_dict_def rule_to_dict_def dict_get_def json_str_def)

lemma try_map_from_to_dict [simp]: "try_map rule_from_dict (map rule_to_dict rs) = Inr rs"
  by (induction rs) simp_all

subsection \<open>In-memory backend\<close>

type_synonym mem_rules = "(string \<times> (string \<times> json) list list) list"

definition mem_save :: "string \<Rightarrow> policy_rule list \<Rightarrow> mem_rules \<Rightarrow> mem_rules \<times> unit result" where
  "mem_save t rs m = (dict_set t (map rule_to_dict rs) m, Inr ())"

definition mem_load :: "string \<Rightarrow> mem_rules \<Rightarrow> policy_rule list result" where
  "mem_load t m = try_map rule_from_dict (case map_of m t of Some l \<Rightarrow> l | None \<Rightarrow> [])"

definition mem_delete :: "string \<Rightarrow> mem_rules \<Rightarrow> mem_rules" where
  "mem_delete t m = dict_del t m"

definition mem_list :: "mem_rules \<Rightarrow> string list" where
  "mem_list m = map fst m"

subsection \<open>The SQL table policy_rules\<close>

record rule_row =
  row_id :: nat
  row_tenant :: string
  row_name :: string
  row_pattern :: string
  row_action :: string
  row_reason :: string

record rule_table =
  rt_rows :: "rule_row list"
  rt_next :: nat

definition empty_rule_table :: rule_table where
  "empty_rule_table = \<lparr>rt_rows = [], rt_next = 1\<rparr>"

definition mk_row :: "nat \<Rightarrow> string \<Rightarrow> policy_rule \<Rightarrow> rule_row" where
  "mk_row i t r = \<lparr>row_id = i, row_tenant = t, row_name = name r, row_pattern = pattern r,
     row_action = action_value (action r), row_reason = reason r\<rparr>"

definition row_to_rule :: "rule_row \<Rightarrow> policy_rule result" where
  "row_to_rule w = try_bind (action_of (row_action w)) (\<lambda>a.
     Inr \<lparr>name = row_name w, pattern = row_pattern w, action = a, reason = row_reason w\<rparr>)"

text \<open>\<open>INSERT\<close> under \<open>UNIQUE(tenant\_id, name)\<close>; an insert that is refused has drawn its id.\<close>

fun insert_rules :: "string \<Rightarrow> policy_rule list \<Rightarrow> rule_table \<Rightarrow> rule_table \<times> unit result" where
  "insert_rules t [] tab = (tab, Inr ())"
| "insert_rules t (r # rs) tab =
     (if list_ex (\<lambda>w. row_tenant w = t \<and> row_name w = name r) (rt_rows tab)
      then (tab\<lparr>rt_next := Suc (rt_next tab)\<rparr>, Inl (IntegrityError ''UNIQUE constraint failed''))
      else insert_rules t rs
        \<lparr>rt_rows = rt_rows tab @ [mk_row (rt_next tab) t r], rt_next = Suc (rt_next tab)\<rparr>)"

definition delete_rows :: "string \<Rightarrow> rule_table \<Rightarrow> rule_table" where
  "delete_rows t tab = tab\<lparr>rt_rows := filter (\<lambda>w. row_tenant w \<noteq> t) (rt_rows tab)\<rparr>"

text \<open>
  \<open>save\_rules\<close>: delete and insert in one transaction. On an exception the rows are those
  before it; \<open>keeps\_seq\<close> is true for PostgreSQL, whose sequence is not rolled back.
\<close>

definition sql_save :: "bool \<Rightarrow> string \<Rightarrow> policy_rule list \<Rightarrow> rule_table \<Rightarrow> rule_table \<times> unit result" where
  "sql_save keeps_seq t rs tab = (case insert_rules t rs (delete_rows t tab) of
     (tab', Inr u) \<Rightarrow> (tab', Inr u)
   | (tab', Inl e) \<Rightarrow> (if keeps_seq then tab\<lparr>rt_next := rt_next tab'\<rparr> else tab, Inl e))"

definition sql_load :: "string \<Rightarrow> rule_table \<Rightarrow> policy_rule list result" where
  "sql_load t tab = try_map row_to_rule
     (sort_key row_id (filter (\<lambda>w. row_tenant w = t) (rt_rows tab)))"

definition sql_list :: "rule_table \<Rightarrow> string list" where
  "sql_list tab = remdups (map row_tenant (rt_rows tab))"

text \<open>The PostgreSQL backend runs the same statements through its own driver.\<close>

definition pg_save_rules :: "string \<Rightarrow> policy_rule list \<Rightarrow> rule_table \<Rightarrow> rule_table \<times> unit result" where
  [simp]: "pg_save_rules t rs tab = sql_save True t rs tab"

definition pg_load_rules :: "string \<Rightarrow> rule_table \<Rightarrow> policy_rule list result" where
  [simp]: "pg_load_rules t tab = sql_load t tab"

definition pg_delete_tenant :: "string \<Rightarrow> rule_table \<Rightarrow> rule_table" where
  [simp]: "pg_delete_tenant t tab = delete_rows t tab"

definition pg_list_tenants :: "rule_table \<Rightarrow> string list" where
  [simp]: "pg_list_tenants tab = sql_list tab"

text \<open>\<open>CREATE TABLE IF NOT EXISTS\<close>: a table that is there is kept.\<close>

definition pg_policy_init :: "rule_table option \<Rightarrow> rule_table" where
  "pg_policy_init old = (case old of Some tab \<Rightarrow> tab | None \<Rightarrow> empty_rule_table)"

subsection \<open>The store\<close>

datatype rule_backend =
    InMemoryPolicyBackend mem_rules
  | SQLitePolicyBackend rule_table
  | PostgreSQLPolicyBackend rule_table

text \<open>
  \<open>_build\_policy\_backend\<close>: the arguments before the environment, the URL before the path.
  The durable tables are what the file or database holds already.
\<close>

definition build_policy_backend ::
  "(string \<Rightarrow> string option) \<Rightarrow> rule_table \<Rightarrow> rule_table \<Rightarrow> string option \<Rightarrow> string option \<Rightarrow> rule_backend" where
  "build_policy_backend env sqlite_file pg_db db_path database_url =
     (let truthy = (\<lambda>x. x \<noteq> None \<and> x \<noteq> Some []);
          url = (if truthy database_url then database_url else env ''DATABASE_URL'');
          path = (if truthy db_path then db_path else env ''POLICY_DB_PATH'') in
      if truthy url then PostgreSQLPolicyBackend pg_db
      else if truthy path then SQLitePolicyBackend sqlite_file
      else InMemoryPolicyBackend [])"

fun store_save :: "string \<Rightarrow> policy_rule list \<Rightarrow> rule_backend \<Rightarrow> rule_backend \<times> unit result" where
  "store_save t rs (InMemoryPolicyBackend m) = map_prod InMemoryPolicyBackend id (mem_save t rs m)"
| "store_save t rs (SQLitePolicyBackend b) = map_prod SQLitePolicyBackend id (sql_save False t rs b)"
| "store_save t rs (PostgreSQLPolicyBackend b) = map_prod PostgreSQLPolicyBackend id (pg_save_rules t rs b)"

fun store_load :: "string \<Rightarrow> rule_backend \<Rightarrow> policy_rule list result" where
  "store_load t (InMemoryPolicyBackend m) = mem_load t m"
| "store_load t (SQLitePolicyBackend b) = sql_load t b"
| "store_load t (PostgreSQLPolicyBackend b) = pg_load_rules t b"

fun store_delete :: "string \<Rightarrow> rule_backend \<Rightarrow> rule_backend" where
  "store_delete t (InMemoryPolicyBackend m) = InMemoryPolicyBackend (mem_delete t m)"
| "store_delete t (SQLitePolicyBackend b) = SQLitePolicyBackend (delete_rows t b)"
| "store_delete t (PostgreSQLPolicyBackend b) = PostgreSQLPolicyBackend (pg_delete_tenant t b)"

fun store_list :: "rule_backend \<Rightarrow> string list" where
  "store_list (InMemoryPolicyBackend m) = mem_list m"
| "store_list (SQLitePolicyBackend b) = sql_list b"
| "store_list (PostgreSQLPolicyBackend b) = pg_list_tenants b"

fun backend_type :: "rule_backend \<Rightarrow> string" where
  "backend_type (InMemoryPolicyBackend m) = ''InMemoryPolicyBackend''"
| "backend_type (SQLitePolicyBackend b) = ''SQLitePolicyBackend''"
| "backend_type (PostgreSQLPolicyBackend b) = ''PostgreSQLPolicyBackend''"

subsection \<open>What a store of rules promises\<close>

text \<open>
  \<open>ok\<close> is the backend's own invariant, \<open>fits\<close> the rule lists it accepts. A list that fits
  is saved and read back, other tenants are untouched, and a refused save changes no tenant.
\<close>

locale rule_storage =
  fixes save :: "string \<Rightarrow> policy_rule list \<Rightarrow> 'b \<Rightarrow> 'b \<times> unit result"
    and load :: "string \<Rightarrow> 'b \<Rightarrow> policy_rule list result"
    and del :: "string \<Rightarrow> 'b \<Rightarrow> 'b"
    and ok :: "'b \<Rightarrow> bool"
    and fits :: "'b \<Rightarrow> policy_rule list \<Rightarrow> bool"
  assumes save_ok: "ok b \<Longrightarrow> ok (fst (save t rs b))"
    and save_fits: "ok b \<Longrightarrow> snd (save t rs b) = Inr () \<longleftrightarrow> fits b rs"
    and fits_save: "fits (fst (save t rs b)) = fits b"
    and fits_del: "fits (del t b) = fits b"
    and load_save: "ok b \<Longrightarrow> fits b rs \<Longrightarrow> load u (fst (save t rs b)) = (if u = t then Inr rs else load u b)"
    and load_refused: "ok b \<Longrightarrow> \<not> fits b rs \<Longrightarrow> load u (fst (save t rs b)) = load u b"
    and del_ok: "ok b \<Longrightarrow> ok (del t b)"
    and load_del: "ok b \<Longrightarrow> load u (del t b) = (if u = t then Inr [] else load u b)"
begin

text \<open>A sequence of saves: each tenant reads back the last list saved for it that fits.\<close>

definition saves :: "(string \<times> policy_rule list) list \<Rightarrow> 'b \<Rightarrow> 'b" where
  "saves ops b = fold (\<lambda>(t, rs) s. fst (save t rs s)) ops b"

lemma saves_ok: "ok b \<Longrightarrow> ok (saves ops b)"
  unfolding saves_def by (induction ops arbitrary: b) (auto simp: save_ok)

lemma saves_last:
  assumes "ok b"
  shows "load u (saves ops b) =
    (case List.find (\<lambda>(t, rs). t = u \<and> fits b rs) (rev ops) of Some (_, rs) \<Rightarrow> Inr rs | None \<Rightarrow> load u b)"
proof (induction ops rule: rev_induct)
  case Nil
  show ?case by (simp add: saves_def)
next
  case (snoc op ops)
  obtain t rs where op: "op = (t, rs)" by force
  have eq: "saves (ops @ [(t, rs)]) b = fst (save t rs (saves ops b))" by (simp add: saves_def)
  have "fits (saves ops c) = fits c" for c
    unfolding saves_def by (induction ops arbitrary: c) (auto simp: fits_save)
  then show ?case
    using saves_ok [OF assms, of ops] snoc
    by (cases "fits b rs") (auto simp: eq op load_save load_refused)
qed

end

subsection \<open>The backends keep the promise\<close>

lemma map_of_dict_set_same: "map_of (dict_set k v d) u = (if u = k then Some v else map_of d u)"
  by simp

interpretation mem: rule_storage mem_save mem_load mem_delete "\<lambda>_. True" "\<lambda>_ _. True"
  by unfold_locales (auto simp: mem_save_def mem_load_def mem_delete_def)

definition table_ok :: "rule_table \<Rightarrow> bool" where
  "table_ok tab = (sorted_wrt (<) (map row_id (rt_rows tab)) \<and>
     (\<forall>w \<in> set (rt_rows tab). row_id w < rt_next tab))"

lemma pg_policy_init_ok: "(\<forall>tab. old = Some tab \<longrightarrow> table_ok tab) \<Longrightarrow> table_ok (pg_policy_init old)"
  by (cases old) (auto simp: pg_policy_init_def empty_rule_table_def table_ok_def)

definition names_distinct :: "policy_rule list \<Rightarrow> bool" where
  "names_distinct rs = distinct (map name rs)"

fun number_rows :: "nat \<Rightarrow> string \<Rightarrow> policy_rule list \<Rightarrow> rule_row list" where
  "number_rows i t [] = []"
| "number_rows i t (r # rs) = mk_row i t r # number_rows (Suc i) t rs"

lemma row_to_rule_mk [simp]: "row_to_rule (mk_row i t r) = Inr r"
  by (simp add: row_to_rule_def mk_row_def)

lemma mk_row_simps [simp]:
  "row_id (mk_row i t r) = i" "row_tenant (mk_row i t r) = t" "row_name (mk_row i t r) = name r"
  by (simp_all add: mk_row_def)

lemma number_rows_tenant: "w \<in> set (number_rows i t rs) \<Longrightarrow> row_tenant w = t"
  by (induction i t rs rule: number_rows.induct) auto

lemma number_rows_ids: "map row_id (number_rows i t rs) = [i ..< i + length rs]"
  by (induction i t rs rule: number_rows.induct) (simp_all add: upt_conv_Cons del: upt_Suc)

lemma number_rows_rules: "try_map row_to_rule (number_rows i t rs) = Inr rs"
  by (induction i t rs rule: number_rows.induct) simp_all

lemma number_rows_id_range:
  assumes "w \<in> set (number_rows i t rs)"
  shows "i \<le> row_id w \<and> row_id w < i + length rs"
proof -
  have "row_id w \<in> set (map row_id (number_rows i t rs))" using assms by simp
  then show ?thesis unfolding number_rows_ids by simp
qed

lemma insert_rules_ok:
  assumes "names_distinct rs"
    and "\<forall>w \<in> set (rt_rows tab). row_tenant w = t \<longrightarrow> row_name w \<notin> name ` set rs"
  shows "insert_rules t rs tab =
    (\<lparr>rt_rows = rt_rows tab @ number_rows (rt_next tab) t rs, rt_next = rt_next tab + length rs\<rparr>, Inr ())"
  using assms
  by (induction t rs tab rule: insert_rules.induct) (auto simp: names_distinct_def list_ex_iff)

lemma insert_rules_refused:
  assumes "\<not> names_distinct rs \<or>
    (\<exists>w \<in> set (rt_rows tab). row_tenant w = t \<and> row_name w \<in> name ` set rs)"
  shows "\<exists>e. snd (insert_rules t rs tab) = Inl e"
  using assms
proof (induction t rs tab rule: insert_rules.induct)
  case (2 t r rs tab)
  show ?case
  proof (cases "list_ex (\<lambda>w. row_tenant w = t \<and> row_name w = name r) (rt_rows tab)")
    case False
    with 2 show ?thesis by (auto simp: names_distinct_def list_ex_iff image_iff)
  qed simp
qed (simp add: names_distinct_def)

lemma insert_rules_next: "rt_next tab \<le> rt_next (fst (insert_rules t rs tab))"
  by (induction t rs tab rule: insert_rules.induct) auto

lemma delete_rows_fresh: "w \<in> set (rt_rows (delete_rows t tab)) \<Longrightarrow> row_tenant w \<noteq> t"
  by (simp add: delete_rows_def)

lemma sql_save_fits:
  assumes "names_distinct rs"
  shows "sql_save ks t rs tab =
    (\<lparr>rt_rows = rt_rows (delete_rows t tab) @ number_rows (rt_next tab) t rs,
      rt_next = rt_next tab + length rs\<rparr>, Inr ())"
proof -
  have "insert_rules t rs (delete_rows t tab) =
    (\<lparr>rt_rows = rt_rows (delete_rows t tab) @ number_rows (rt_next (delete_rows t tab)) t rs,
      rt_next = rt_next (delete_rows t tab) + length rs\<rparr>, Inr ())"
    by (rule insert_rules_ok [OF assms]) (auto dest: delete_rows_fresh)
  then show ?thesis by (simp add: sql_save_def delete_rows_def)
qed

lemma sql_save_refused:
  assumes "\<not> names_distinct rs"
  obtains e n where "rt_next tab \<le> n" "sql_save ks t rs tab = (tab\<lparr>rt_next := n\<rparr>, Inl e)"
proof -
  let ?i = "insert_rules t rs (delete_rows t tab)"
  obtain tab' e where "?i = (tab', Inl e)"
    using insert_rules_refused [of rs "delete_rows t tab" t] assms by (metis prod.collapse)
  moreover from this have "rt_next tab \<le> rt_next tab'"
    using insert_rules_next [of "delete_rows t tab" t rs] by (simp add: delete_rows_def)
  ultimately show ?thesis
    using that [of "rt_next tab'" e] that [of "rt_next tab" e] by (cases ks) (simp_all add: sql_save_def)
qed

lemma sort_key_sorted: "sorted (map f xs) \<Longrightarrow> sort_key f xs = xs"
  by (rule sort_key_id_if_sorted)

lemma table_ok_sort:
  assumes "table_ok tab"
  shows "sort_key row_id (filter P (rt_rows tab)) = filter P (rt_rows tab)"
proof -
  have "sorted (map row_id (rt_rows tab))"
    using assms by (simp add: table_ok_def strict_sorted_imp_sorted)
  then show ?thesis by (intro sort_key_sorted sorted_filter)
qed

lemma sql_load_ok: "table_ok tab \<Longrightarrow>
   sql_load t tab = try_map row_to_rule (filter (\<lambda>w. row_tenant w = t) (rt_rows tab))"
  by (simp add: sql_load_def table_ok_sort)

lemma table_ok_delete:
  assumes "table_ok tab"
  shows "table_ok (delete_rows t tab)"
  using assms by (auto simp: table_ok_def delete_rows_def sorted_wrt_map intro: sorted_wrt_filter)

lemma table_ok_save:
  assumes "table_ok tab"
  shows "table_ok (fst (sql_save ks t rs tab))"
proof (cases "names_distinct rs")
  case True
  have "sorted_wrt (<) (map row_id (number_rows (rt_next tab) t rs))"
    by (simp add: number_rows_ids)
  with table_ok_delete [OF assms, of t] assms show ?thesis
    by (auto simp: sql_save_fits [OF True] table_ok_def sorted_wrt_append delete_rows_def
        dest!: number_rows_id_range intro: less_le_trans)
next
  case False
  then obtain e n where "rt_next tab \<le> n" "sql_save ks t rs tab = (tab\<lparr>rt_next := n\<rparr>, Inl e)"
    by (rule sql_save_refused)
  with assms show ?thesis by (auto simp: table_ok_def)
qed

lemma sql_load_save:
  assumes "table_ok tab" "names_distinct rs"
  shows "sql_load u (fst (sql_save ks t rs tab)) = (if u = t then Inr rs else sql_load u tab)"
proof -
  have "filter (\<lambda>w. row_tenant w = u) (number_rows i t rs) = (if u = t then number_rows i t rs else [])" for i
    by (auto simp: filter_empty_conv filter_id_conv dest: number_rows_tenant)
  moreover have "filter (\<lambda>w. row_tenant w = u) (rt_rows (delete_rows t tab)) =
    (if u = t then [] else filter (\<lambda>w. row_tenant w = u) (rt_rows tab))"
    by (auto simp: delete_rows_def filter_empty_conv intro: filter_cong)
  ultimately show ?thesis
    using assms table_ok_save [OF assms(1), of ks t rs]
    by (cases "u = t") (simp_all add: sql_load_ok, simp_all add: sql_save_fits number_rows_rules)
qed

lemma sql_load_next [simp]: "sql_load u (tab\<lparr>rt_next := n\<rparr>) = sql_load u tab"
  by (simp add: sql_load_def)

lemma sql_save_result: "snd (sql_save ks t rs tab) = Inr () \<longleftrightarrow> names_distinct rs"
  by (cases "names_distinct rs") (auto simp: sql_save_fits elim: sql_save_refused [of rs tab ks t])

lemma sql_load_refused: "\<not> names_distinct rs \<Longrightarrow> sql_load u (fst (sql_save ks t rs tab)) = sql_load u tab"
  by (rule sql_save_refused [of rs tab ks t]) auto

lemma sql_load_delete:
  assumes "table_ok tab"
  shows "sql_load u (delete_rows t tab) = (if u = t then Inr [] else sql_load u tab)"
proof -
  have "filter (\<lambda>w. row_tenant w = u) (rt_rows (delete_rows t tab)) =
    (if u = t then [] else filter (\<lambda>w. row_tenant w = u) (rt_rows tab))"
    by (auto simp: delete_rows_def filter_empty_conv intro: filter_cong)
  then show ?thesis
    by (simp add: sql_load_ok [OF assms] sql_load_ok [OF table_ok_delete [OF assms]])
qed

interpretation sql: rule_storage "sql_save ks" sql_load delete_rows table_ok "\<lambda>_. names_distinct"
  for ks
  by unfold_locales (auto simp: table_ok_save sql_save_result sql_load_save sql_load_refused
      table_ok_delete sql_load_delete)

fun backend_ok :: "rule_backend \<Rightarrow> bool" where
  "backend_ok (InMemoryPolicyBackend m) = True"
| "backend_ok (SQLitePolicyBackend b) = table_ok b"
| "backend_ok (PostgreSQLPolicyBackend b) = table_ok b"

fun backend_fits :: "rule_backend \<Rightarrow> policy_rule list \<Rightarrow> bool" where
  "backend_fits (InMemoryPolicyBackend m) rs = True"
| "backend_fits (SQLitePolicyBackend b) rs = names_distinct rs"
| "backend_fits (PostgreSQLPolicyBackend b) rs = names_distinct rs"

interpretation store: rule_storage store_save store_load store_delete backend_ok backend_fits
proof
  fix b t u rs
  show "backend_ok b \<Longrightarrow> backend_ok (fst (store_save t rs b))"
    by (cases b) (simp_all add: sql.save_ok)
  show "backend_ok b \<Longrightarrow> snd (store_save t rs b) = Inr () \<longleftrightarrow> backend_fits b rs"
    by (cases b) (simp_all add: sql.save_fits mem.save_fits)
  show "backend_fits (fst (store_save t rs b)) = backend_fits b"
    by (cases b) (simp_all add: fun_eq_iff)
  show "backend_fits (store_delete t b) = backend_fits b"
    by (cases b) (simp_all add: fun_eq_iff)
  show "backend_ok b \<Longrightarrow> backend_fits b rs \<Longrightarrow>
    store_load u (fst (store_save t rs b)) = (if u = t then Inr rs else store_load u b)"
    by (cases b) (simp_all add: sql.load_save mem.load_save)
  show "backend_ok b \<Longrightarrow> \<not> backend_fits b rs \<Longrightarrow> store_load u (fst (store_save t rs b)) = store_load u b"
    by (cases b) (simp_all add: sql.load_refused)
  show "backend_ok b \<Longrightarrow> backend_ok (store_delete t b)"
    by (cases b) (simp_all add: sql.del_ok)
  show "backend_ok b \<Longrightarrow> store_load u (store_delete t b) = (if u = t then Inr [] else store_load u b)"
    by (cases b) (simp_all add: sql.load_del mem.load_del)
qed

text \<open>After any sequence of \<open>PolicyStore.save\<close> calls on any backend whose table is well
  formed, loading a tenant returns the list of the last call for it that the backend accepts
  (SQLite and PostgreSQL refuse a list with a repeated rule name, memory accepts all), and what
  was stored before when there is none: saves replace, never mix tenants, and a refused save
  leaves nothing half-written.\<close>

theorem store_last_save:
  assumes "backend_ok b"
  shows "store_load t (fold (\<lambda>(u, rs) s. fst (store_save u rs s)) ops b) =
    (case List.find (\<lambda>(u, rs). u = t \<and> backend_fits b rs) (rev ops) of
       Some (_, rs) \<Rightarrow> Inr rs | None \<Rightarrow> store_load t b)"
  using store.saves_last [OF assms, of t ops] by (simp add: store.saves_def)

theorem store_last_save_witness:
  "store_load ''t1'' (fold (\<lambda>(u, rs) s. fst (store_save u rs s))
     [(''t1'', demo_rules), (''t2'', [rule_card]), (''t1'', [rule_card, rule_card])]
     (SQLitePolicyBackend empty_rule_table)) = Inr demo_rules"
  using store_last_save [of "SQLitePolicyBackend empty_rule_table" "''t1''"
      "[(''t1'', demo_rules), (''t2'', [rule_card]), (''t1'', [rule_card, rule_card])]"]
  by (simp add: empty_rule_table_def table_ok_def names_distinct_def demo_rules_def)

end
