(* ===== verification/Policy_Citation.thy ===== *)
theory Policy_Citation
  imports Policy_Store Sha256 "HOL-Library.Multiset"
begin

text \<open>
  \<open>src/custos/policy\_citation.py\<close> and the cached \<open>rules\_digest\<close> of the regex engine: the
  canonical bytes of a policy set and the digests records cite. The theorems say what a
  citation commits to: the bytes determine the tools and the rules up to order.
\<close>

subsection \<open>Canonical bytes\<close>

definition rule_to_canonical :: "policy_rule \<Rightarrow> string" where
  "rule_to_canonical r = json_dumps compact_fmt (JObj (rule_to_dict r))"

definition canonical_rules :: "policy_rule list \<Rightarrow> json" where
  "canonical_rules rs = JList (map JStr (sort (map rule_to_canonical rs)))"

definition canonical_tools :: "string list \<Rightarrow> json" where
  "canonical_tools ts = JList (map JStr (sort ts))"

definition canonical_policy_bytes :: "string list \<Rightarrow> policy_rule list \<Rightarrow> string" where
  "canonical_policy_bytes tools rules = utf8 (json_dumps compact_fmt
     (JObj [(''tools'', canonical_tools tools), (''rules'', canonical_rules rules)]))"

definition rules_canonical_digest :: "policy_rule list \<Rightarrow> string" where
  "rules_canonical_digest rules = sha256_hex (utf8 (json_dumps compact_fmt (canonical_rules rules)))"

definition policy_digest :: "string list \<Rightarrow> policy_rule list \<Rightarrow> string" where
  "policy_digest tools rules = sha256_hex (canonical_policy_bytes tools rules)"

definition REGEX_ENGINE :: string where
  "REGEX_ENGINE = ''regex''"

definition json_opt_str :: "string option \<Rightarrow> json" where
  "json_opt_str x = (case x of None \<Rightarrow> JNull | Some s \<Rightarrow> JStr s)"

definition engine_citation_bytes ::
  "string list \<Rightarrow> policy_rule list \<Rightarrow> string \<Rightarrow> string option \<Rightarrow> string" where
  "engine_citation_bytes tools rules kind pin =
     (if kind = REGEX_ENGINE then canonical_policy_bytes tools rules
      else utf8 (json_dumps compact_fmt (JObj
        [(''tools'', canonical_tools tools), (''engine'', JStr kind),
         (''rules'', canonical_rules rules), (''opa_policy'', json_opt_str pin)])))"

definition engine_policy_digest ::
  "string list \<Rightarrow> policy_rule list \<Rightarrow> string \<Rightarrow> string option \<Rightarrow> string option" where
  "engine_policy_digest tools rules kind pin =
     (if kind \<noteq> REGEX_ENGINE \<and> (pin = None \<or> pin = Some []) then None
      else Some (sha256_hex (engine_citation_bytes tools rules kind pin)))"

definition empty_policy_digest :: string where
  "empty_policy_digest =
     sha256_hex (utf8 (json_dumps compact_fmt (JObj [(''tools'', JList []), (''rules'', JList [])])))"

subsection \<open>The cached digest of the engine's rules\<close>

definition rules_digest :: "policy_engine \<Rightarrow> string \<times> policy_engine" where
  "rules_digest e = (case pe_digest_cache e of
     Some d \<Rightarrow> (d, e)
   | None \<Rightarrow> (let d = rules_canonical_digest (pe_rules e) in (d, e\<lparr>pe_digest_cache := Some d\<rparr>)))"

text \<open>A run of an engine: \<open>Some r\<close> adds a rule, \<open>None\<close> reads the digest.\<close>

definition engine_after :: "policy_rule list option \<Rightarrow> policy_rule option list \<Rightarrow> policy_engine" where
  "engine_after rs ops = fold (\<lambda>op e. case op of Some r \<Rightarrow> add_rule r e | None \<Rightarrow> snd (rules_digest e)) ops
     (new_policy_engine rs)"

definition cache_ok :: "policy_engine \<Rightarrow> bool" where
  "cache_ok e = (case pe_digest_cache e of None \<Rightarrow> True | Some d \<Rightarrow> d = rules_canonical_digest (pe_rules e))"

lemma cache_ok_add [simp]: "cache_ok (add_rule r e)"
  by (simp add: cache_ok_def add_rule_def)

lemma pe_rules_add [simp]: "pe_rules (add_rule r e) = pe_rules e @ [r]"
  by (simp add: add_rule_def)

lemma cache_ok_read [simp]: "cache_ok e \<Longrightarrow> cache_ok (snd (rules_digest e))"
  by (simp add: cache_ok_def rules_digest_def Let_def split: option.splits)

lemma rules_digest_frame [frame_simps, simp]: "pe_rules (snd (rules_digest e)) = pe_rules e"
  by (simp add: rules_digest_def Let_def split: option.splits)

lemma rules_digest_cached: "cache_ok e \<Longrightarrow> fst (rules_digest e) = rules_canonical_digest (pe_rules e)"
  by (simp add: cache_ok_def rules_digest_def Let_def split: option.splits)

lemma map_filter_append: "List.map_filter f (xs @ ys) = List.map_filter f xs @ List.map_filter f ys"
  by (simp add: map_filter_def)

subsection \<open>The bytes determine the policy\<close>

lemma compact_ok [simp]: "fmt_ok compact_fmt"
  by (rule fmt_ok_formats)

lemma sort_keys_strs [simp]: "map (sort_keys \<circ> JStr) xs = map JStr xs"
  by simp

lemma map_JStr_inject [simp]: "map JStr xs = map JStr ys \<longleftrightarrow> xs = ys"
  by (simp add: inj_map_eq_map inj_on_def)

lemma rule_to_canonical_inject [simp]: "rule_to_canonical r = rule_to_canonical s \<longleftrightarrow> r = s"
proof
  assume "rule_to_canonical r = rule_to_canonical s"
  then have "sort_keys (JObj (rule_to_dict r)) = sort_keys (JObj (rule_to_dict s))"
    unfolding rule_to_canonical_def by (rule json_dumps_inject [OF compact_ok])
  then show "r = s"
    by (simp add: rule_to_dict_def insort_key.simps policy_rule.equality)
qed simp

lemma sort_eq_iff: "sort xs = sort ys \<longleftrightarrow> mset xs = mset ys"
  by (metis mset_sort properties_for_sort sorted_sort)

lemma canonical_tools_eq: "canonical_tools ts = canonical_tools ts' \<longleftrightarrow> mset ts = mset ts'"
  by (simp add: canonical_tools_def sort_eq_iff)

lemma canonical_rules_eq: "canonical_rules rs = canonical_rules rs' \<longleftrightarrow> mset rs = mset rs'"
proof -
  have "inj rule_to_canonical" by (simp add: inj_on_def)
  then have "image_mset rule_to_canonical (mset rs) = image_mset rule_to_canonical (mset rs') \<longleftrightarrow>
    mset rs = mset rs'"
    by (rule inj_eq [OF multiset.inj_map])
  then show ?thesis by (simp add: canonical_rules_def sort_eq_iff del: mset_map) simp
qed

lemma sort_keys_canonical [simp]:
  "sort_keys (canonical_tools ts) = canonical_tools ts"
  "sort_keys (canonical_rules rs) = canonical_rules rs"
  by (simp_all add: canonical_tools_def canonical_rules_def)

definition citation_json :: "string list \<Rightarrow> policy_rule list \<Rightarrow> string \<Rightarrow> string option \<Rightarrow> json" where
  "citation_json tools rules kind pin =
     (if kind = REGEX_ENGINE then JObj [(''rules'', canonical_rules rules), (''tools'', canonical_tools tools)]
      else JObj [(''engine'', JStr kind), (''opa_policy'', json_opt_str pin),
        (''rules'', canonical_rules rules), (''tools'', canonical_tools tools)])"

lemma sort_keys_opt_str [simp]: "sort_keys (json_opt_str p) = json_opt_str p"
  by (simp add: json_opt_str_def split: option.splits)

lemma json_opt_str_inject [simp]: "json_opt_str p = json_opt_str q \<longleftrightarrow> p = q"
  by (auto simp: json_opt_str_def split: option.splits)

lemma citation_bytes_json:
  "engine_citation_bytes tools rules kind pin = utf8 (dump compact_fmt (citation_json tools rules kind pin))"
  by (simp add: engine_citation_bytes_def canonical_policy_bytes_def citation_json_def json_dumps_def)

lemma citation_json_eq:
  "citation_json ts rs k p = citation_json ts' rs' k' p' \<longleftrightarrow>
     mset ts = mset ts' \<and> mset rs = mset rs' \<and> k = k' \<and> (k \<noteq> REGEX_ENGINE \<longrightarrow> p = p')"
  by (auto simp: citation_json_def canonical_tools_eq canonical_rules_eq)

lemma citation_bytes_eq:
  "engine_citation_bytes ts rs k p = engine_citation_bytes ts' rs' k' p' \<longleftrightarrow>
     mset ts = mset ts' \<and> mset rs = mset rs' \<and> k = k' \<and> (k \<noteq> REGEX_ENGINE \<longrightarrow> p = p')"
  unfolding citation_bytes_json utf8_inject citation_json_eq [symmetric]
  using dump_inject [OF compact_ok] by metis

lemma policy_digest_regex: "engine_policy_digest ts rs REGEX_ENGINE p = Some (policy_digest ts rs)"
  by (simp add: engine_policy_digest_def policy_digest_def engine_citation_bytes_def)

subsection \<open>Properties\<close>

text \<open>The canonical bytes a citation hashes determine what the engine consulted: two policy
  sets have the same bytes exactly when they have the same tools and the same rules, each up
  to order but with multiplicity, the same engine kind and, for an engine other than the regex
  one, the same Rego pin. The order of the rules, which does not change a regex verdict,
  is not part of the citation; everything else is.\<close>

theorem citation_bytes_determine_policy:
  "engine_citation_bytes ts rs k p = engine_citation_bytes ts' rs' k' p' \<longleftrightarrow>
     mset ts = mset ts' \<and> mset rs = mset rs' \<and> k = k' \<and> (k = REGEX_ENGINE \<or> p = p')"
  by (auto simp: citation_bytes_eq)

text \<open>A digest is cited only when it covers the whole policy: \<open>engine_policy_digest\<close> answers
  None exactly for a non-regex engine without a pin, and two cited digests that agree are of
  the same policy set, unless the two byte strings they hash are a SHA-256 collision.\<close>

theorem engine_digest_binds:
  assumes "engine_policy_digest ts rs k p = Some d" and "engine_policy_digest ts' rs' k' p' = Some d"
  shows "(k \<noteq> REGEX_ENGINE \<longrightarrow> p \<noteq> None) \<and>
    (mset ts = mset ts' \<and> mset rs = mset rs' \<and> k = k' \<and> (k \<noteq> REGEX_ENGINE \<longrightarrow> p = p') \<or>
     (let x = engine_citation_bytes ts rs k p; y = engine_citation_bytes ts' rs' k' p'
      in x \<noteq> y \<and> sha256_hex x = sha256_hex y))"
  using assms citation_bytes_eq [of ts rs k p ts' rs' k' p']
  by (auto simp: engine_policy_digest_def Let_def split: if_splits)

theorem engine_digest_binds_witness:
  "mset demo_rules = mset (rev demo_rules) \<or>
   (let x = engine_citation_bytes [''read''] demo_rules ''opa'' (Some ''ab'');
        y = engine_citation_bytes [''read''] (rev demo_rules) ''opa'' (Some ''ab'')
    in x \<noteq> y \<and> sha256_hex x = sha256_hex y)"
proof -
  have y: "engine_citation_bytes [''read''] (rev demo_rules) ''opa'' (Some ''ab'') =
    engine_citation_bytes [''read''] demo_rules ''opa'' (Some ''ab'')"
    by (simp add: citation_bytes_eq)
  have "engine_policy_digest [''read''] demo_rules ''opa'' (Some ''ab'') =
    Some (sha256_hex (engine_citation_bytes [''read''] demo_rules ''opa'' (Some ''ab'')))"
    "engine_policy_digest [''read''] (rev demo_rules) ''opa'' (Some ''ab'') =
    Some (sha256_hex (engine_citation_bytes [''read''] demo_rules ''opa'' (Some ''ab'')))"
    by (simp_all add: engine_policy_digest_def y REGEX_ENGINE_def)
  from engine_digest_binds [OF this] show ?thesis by blast
qed

text \<open>The cached rules digest is never stale: from a new engine, after any sequence of
  \<open>add_rule\<close> calls and digest reads, reading \<open>rules_digest\<close> gives the digest of the rules in
  force, and reading it does not change them.\<close>

theorem rules_digest_fresh:
  "let e = engine_after rs ops in
    fst (rules_digest e) = rules_canonical_digest (pe_rules e) \<and>
    pe_rules (snd (rules_digest e)) = pe_rules e \<and>
    pe_rules e = (case rs of None \<Rightarrow> default_rules | Some l \<Rightarrow> l) @ List.map_filter id ops"
proof -
  have "cache_ok (engine_after rs ops) \<and> pe_rules (engine_after rs ops) = (case rs of None \<Rightarrow> default_rules | Some l \<Rightarrow> l) @ List.map_filter id ops"
  proof (induction ops rule: rev_induct)
    case Nil
    show ?case by (simp add: engine_after_def new_policy_engine_def cache_ok_def)
  next
    case (snoc op ops)
    then show ?case
      by (cases op) (auto simp: engine_after_def map_filter_append map_filter_simps)
  qed
  then show ?thesis by (simp add: Let_def rules_digest_cached)
qed

end
