(* ===== verification/Opa_Engine.thy ===== *)
theory Opa_Engine
  imports Policy_Engine Json
begin

text \<open>
  \<open>src/custos/opa\_engine.py\<close>: the engine that asks an OPA server. The server is the
  parameter \<open>post\<close>: given the URL and the input document it answers the parsed JSON body or
  the exception of the request (connection, status, decoding). Rules added at run time are
  a local regex engine whose DENY is terminal. \<open>triggered\_rule\<close> is declared
  \<open>Optional[str]\<close>: an answer of the server with another type there is read as None.
\<close>

type_synonym opa_server = "string \<Rightarrow> json \<Rightarrow> json result"
record opa_engine =
  opa_url :: string
  custom_rules :: policy_engine

definition new_opa_engine :: "environment \<Rightarrow> string option \<Rightarrow> opa_engine" where
  "new_opa_engine env url =
     \<lparr>opa_url = rstrip_chars ''/'' (if url = None \<or> url = Some []
        then getenv env ''CUSTOS_OPA_URL'' ''http://localhost:8181'' else the url),
      custom_rules = new_policy_engine (Some [])\<rparr>"

definition governance_url :: "opa_engine \<Rightarrow> string" where
  "governance_url e = opa_url e @ ''/v1/data/custos/governance/allow''"

text \<open>The server's answer as both evaluations read it.\<close>

record opa_answer =
  oa_allowed :: bool
  oa_reasons :: "json list"
  oa_triggered :: json
  oa_audit :: json

definition read_reasons :: "json \<Rightarrow> json list result" where
  "read_reasons r =
     try_bind (json_get r ''deny'') (\<lambda>d.
     try_bind (json_get r ''deny_messages'') (\<lambda>m. py_list (json_or d (json_or m (JList [])))))"

definition read_answer :: "json \<Rightarrow> opa_answer result" where
  "read_answer data = try_bind (json_get data ''result'') (\<lambda>r. case r of
     JObj kvs \<Rightarrow>
       try_bind (json_get r ''allow'') (\<lambda>a.
       try_bind (read_reasons r) (\<lambda>rs.
       try_bind (json_get r ''triggered_rule'') (\<lambda>t.
       try_bind (json_get r ''audit'') (\<lambda>au.
         Inr \<lparr>oa_allowed = (a = JBool True), oa_reasons = rs, oa_triggered = t, oa_audit = au\<rparr>))))
   | JBool b \<Rightarrow>
       try_bind (json_get data ''deny'') (\<lambda>d.
       try_bind (py_list (json_or d (JList []))) (\<lambda>rs.
       try_bind (json_get data ''triggered_rule'') (\<lambda>t.
         Inr \<lparr>oa_allowed = b, oa_reasons = rs, oa_triggered = t, oa_audit = JNull\<rparr>)))
   | _ \<Rightarrow> Inr \<lparr>oa_allowed = False, oa_reasons = [JStr ''OPA returned unexpected response format''],
       oa_triggered = JStr ''opa_parse_error'', oa_audit = JNull\<rparr>)"

definition opt_str :: "json \<Rightarrow> string option" where
  "opt_str j = (case j of JStr s \<Rightarrow> Some s | _ \<Rightarrow> None)"

definition opt_or :: "string option \<Rightarrow> string \<Rightarrow> string option" where
  "opt_or x d = (if x = None \<or> x = Some [] then Some d else x)"

definition reasons_or :: "json list \<Rightarrow> string \<Rightarrow> string result" where
  "reasons_or rs d = (if rs = [] then Inr d else join_json ''; '' rs)"

definition opa_unavailable :: "exn \<Rightarrow> policy_result" where
  "opa_unavailable e = \<lparr>allowed = False, res_action = DENY, triggered_rule = Some ''opa_unavailable'',
     res_reason = ''OPA policy server unavailable - failing closed: '' @ exn_text e\<rparr>"

definition opa_denied :: "opa_answer \<Rightarrow> policy_result result" where
  "opa_denied a = try_bind (reasons_or (oa_reasons a) ''Denied by OPA policy'') (\<lambda>reason.
     Inr \<lparr>allowed = False, res_action = DENY,
       triggered_rule = opt_or (opt_str (oa_triggered a)) ''opa_deny'',
       res_reason = (if oa_audit a = JBool True then reason @ '' (audit flag also set)'' else reason)\<rparr>)"

definition opa_audited :: "opa_answer \<Rightarrow> policy_result result" where
  "opa_audited a = try_bind (reasons_or (oa_reasons a) ''Flagged for audit by OPA'') (\<lambda>reason.
     Inr \<lparr>allowed = True, res_action = AUDIT,
       triggered_rule = opt_or (opt_str (oa_triggered a)) ''opa_audit'', res_reason = reason\<rparr>)"

definition rule_text :: "string option \<Rightarrow> string" where
  "rule_text x = (case x of Some s \<Rightarrow> s | None \<Rightarrow> ''None'')"

definition custom_audited :: "policy_result \<Rightarrow> policy_result" where
  "custom_audited c = \<lparr>allowed = True, res_action = AUDIT, triggered_rule = triggered_rule c,
     res_reason = ''Custom rule '' @ quoted (rule_text (triggered_rule c)) @
       '' flagged for audit: '' @ res_reason c\<rparr>"

definition opa_allowed_result :: "opa_answer \<Rightarrow> policy_result" where
  "opa_allowed_result a = \<lparr>allowed = True, res_action = ALLOW,
     triggered_rule = opt_str (oa_triggered a), res_reason = ''Allowed by OPA policy''\<rparr>"

text \<open>\<open>OPAPolicyEngine.evaluate\<close>.\<close>

definition opa_evaluate :: "opa_server \<Rightarrow> opa_engine \<Rightarrow> string \<Rightarrow> policy_result result" where
  "opa_evaluate post e content =
     try_bind (evaluate (custom_rules e) content) (\<lambda>custom.
       if res_action custom = DENY then Inr custom
       else (case post (governance_url e) (JObj [(''input'', JObj
              [(''content'', JStr content), (''action_type'', JStr ''custos_evaluate'')])]) of
           Inl exc \<Rightarrow> Inr (opa_unavailable exc)
         | Inr data \<Rightarrow> try_bind (read_answer data) (\<lambda>a.
             if \<not> oa_allowed a then opa_denied a
             else if oa_audit a = JBool True then opa_audited a
             else if res_action custom = AUDIT then Inr (custom_audited custom)
             else Inr (opa_allowed_result a))))"

text \<open>\<open>evaluate\_with\_metadata\<close>, which has no branch for the audit flag of an allow.\<close>

definition opa_evaluate_meta ::
  "opa_server \<Rightarrow> opa_engine \<Rightarrow> string \<Rightarrow> string \<Rightarrow> string \<Rightarrow> policy_result result" where
  "opa_evaluate_meta post e content client_id action_type =
     try_bind (evaluate (custom_rules e) content) (\<lambda>custom.
       if res_action custom = DENY then Inr custom
       else (case post (governance_url e) (JObj [(''input'', JObj
              [(''content'', JStr content), (''client_id'', JStr client_id),
               (''action_type'', JStr action_type)])]) of
           Inl exc \<Rightarrow> Inr (opa_unavailable exc)
         | Inr data \<Rightarrow> try_bind (read_answer data) (\<lambda>a.
             if \<not> oa_allowed a then opa_denied a
             else if res_action custom = AUDIT then Inr (custom_audited custom)
             else Inr (opa_allowed_result a))))"

definition hex_digits :: string where
  "hex_digits = ''0123456789abcdef''"

definition opa_policy_digest :: "environment \<Rightarrow> string option" where
  "opa_policy_digest env =
     (let raw = lower (strip (env_or_empty env ''CUSTOS_OPA_POLICY_DIGEST'')) in
      if raw = [] then None
      else if length raw \<noteq> 64 \<or> list_ex (\<lambda>c. c \<notin> set hex_digits) raw then None
      else Some raw)"

definition opa_add_rule :: "policy_rule \<Rightarrow> opa_engine \<Rightarrow> opa_engine" where
  "opa_add_rule r e = e\<lparr>custom_rules := add_rule r (custom_rules e)\<rparr>"

definition opa_citation_rules :: "opa_engine \<Rightarrow> policy_rule list" where
  "opa_citation_rules e = pe_rules (custom_rules e)"

subsection \<open>Facts\<close>

lemma read_answer_allowed:
  assumes "read_answer data = Inr a" "oa_allowed a"
  shows "\<exists>kvs. data = JObj kvs \<and>
    (map_of kvs ''result'' = Some (JBool True) \<or>
     (\<exists>r. map_of kvs ''result'' = Some (JObj r) \<and> map_of r ''allow'' = Some (JBool True)))"
  using assms
  by (cases data)
     (auto simp: read_answer_def json_get_def result_simps split: option.splits json.splits)

lemma opa_denied_not_allowed: "opa_denied a = Inr r \<Longrightarrow> \<not> allowed r \<and> res_action r = DENY"
  by (auto simp: opa_denied_def result_simps)

lemma opa_audited_action: "opa_audited a = Inr r \<Longrightarrow> allowed r \<and> res_action r = AUDIT"
  by (auto simp: opa_audited_def result_simps)

lemma evaluate_denies:
  "evaluate e content = Inr res \<Longrightarrow>
     res_action res = DENY \<longleftrightarrow> (\<exists>r \<in> set (pe_rules e). hits content r \<and> action r = DENY)"
  unfolding evaluate_def by (rule eval_rules_denies)

lemma evaluate_coherent: "evaluate e content = Inr res \<Longrightarrow> allowed res \<longleftrightarrow> res_action res \<noteq> DENY"
  unfolding evaluate_def by (rule eval_rules_coherent)

lemmas opa_result_defs = opa_unavailable_def custom_audited_def opa_allowed_result_def

lemma opa_evaluate_coherent:
  assumes "opa_evaluate post e content = Inr r"
  shows "allowed r \<longleftrightarrow> res_action r \<noteq> DENY"
  using assms
  by (auto simp: opa_evaluate_def result_simps opa_result_defs
      dest: opa_denied_not_allowed opa_audited_action evaluate_coherent
      split: if_splits sum.splits)

lemma opa_evaluate_meta_coherent:
  assumes "opa_evaluate_meta post e content c t = Inr r"
  shows "allowed r \<longleftrightarrow> res_action r \<noteq> DENY"
  using assms
  by (auto simp: opa_evaluate_meta_def result_simps opa_result_defs
      dest: opa_denied_not_allowed evaluate_coherent split: if_splits sum.splits)

end
