(* ===== verification/Hybrid_Engine.thy ===== *)
theory Hybrid_Engine
  imports Opa_Engine
begin

text \<open>
  \<open>src/custos/hybrid\_engine.py\<close>: the regex engine first, then the OPA server. A regex DENY is
  final; when the server cannot be reached, or answers in an unexpected form, the regex
  verdict stands. The hybrid \<open>evaluate\<close> reads \<open>allow\<close> by its truth value.
\<close>

record hybrid_engine =
  hy_regex :: policy_engine
  hy_opa :: opa_engine

text \<open>\<open>regex\_engine or RegexEngine()\<close>: an engine object is always true.\<close>

definition new_hybrid_engine ::
  "environment \<Rightarrow> policy_engine option \<Rightarrow> opa_engine option \<Rightarrow> hybrid_engine" where
  "new_hybrid_engine env regex_engine opa =
     \<lparr>hy_regex = (case regex_engine of Some e \<Rightarrow> e | None \<Rightarrow> new_policy_engine None),
      hy_opa = (case opa of Some e \<Rightarrow> e
        | None \<Rightarrow> new_opa_engine env (Some (getenv env ''CUSTOS_OPA_URL'' ''http://localhost:8181'')))\<rparr>"

definition hybrid_input :: "string \<Rightarrow> policy_result \<Rightarrow> json" where
  "hybrid_input content r = JObj [(''input'', JObj
     [(''content'', JStr content),
      (''regex_result'', JObj
        [(''allowed'', JBool (allowed r)), (''action'', JStr (action_value (res_action r))),
         (''triggered_rule'', (case triggered_rule r of None \<Rightarrow> JNull | Some s \<Rightarrow> JStr s)),
         (''reason'', JStr (res_reason r))]),
      (''action_type'', JStr ''custos_evaluate'')])]"

text \<open>The server's answer; \<open>None\<close> is the unexpected form.\<close>

definition read_hybrid :: "json \<Rightarrow> opa_answer option result" where
  "read_hybrid data = try_bind (json_get data ''result'') (\<lambda>r. case r of
     JObj kvs \<Rightarrow>
       try_bind (json_get r ''allow'') (\<lambda>a.
       try_bind (read_reasons r) (\<lambda>rs.
       try_bind (json_get r ''triggered_rule'') (\<lambda>t.
       try_bind (json_get r ''audit'') (\<lambda>au.
         Inr (Some \<lparr>oa_allowed = truthy a, oa_reasons = rs, oa_triggered = t, oa_audit = au\<rparr>)))))
   | JBool b \<Rightarrow> map_sum id Some (read_answer data)
   | _ \<Rightarrow> Inr None)"

definition hybrid_denied :: "opa_answer \<Rightarrow> policy_result result" where
  "hybrid_denied a = try_bind (reasons_or (oa_reasons a) ''Denied by OPA policy'') (\<lambda>reason.
     Inr \<lparr>allowed = False, res_action = DENY,
       triggered_rule = opt_or (opt_str (oa_triggered a)) ''opa_deny'', res_reason = reason\<rparr>)"

definition hybrid_allowed :: "opa_answer \<Rightarrow> policy_result \<Rightarrow> policy_result" where
  "hybrid_allowed a rr = \<lparr>allowed = True, res_action = ALLOW,
     triggered_rule = (case opt_str (oa_triggered a) of
        None \<Rightarrow> triggered_rule rr | Some s \<Rightarrow> if s = [] then triggered_rule rr else Some s),
     res_reason = ''Allowed by regex + OPA''\<rparr>"

definition hybrid_evaluate :: "opa_server \<Rightarrow> hybrid_engine \<Rightarrow> string \<Rightarrow> policy_result result" where
  "hybrid_evaluate post e content =
     try_bind (evaluate (hy_regex e) content) (\<lambda>rr.
       if \<not> allowed rr then Inr rr
       else (case post (governance_url (hy_opa e)) (hybrid_input content rr) of
           Inl exc \<Rightarrow> Inr rr
         | Inr data \<Rightarrow> try_bind (read_hybrid data) (\<lambda>x. case x of
             None \<Rightarrow> Inr rr
           | Some a \<Rightarrow>
               if res_action rr = AUDIT \<and> oa_allowed a then Inr rr
               else if oa_allowed a \<and> oa_audit a = JBool True then opa_audited a
               else if \<not> oa_allowed a then hybrid_denied a
               else Inr (hybrid_allowed a rr))))"

definition hybrid_evaluate_meta ::
  "opa_server \<Rightarrow> hybrid_engine \<Rightarrow> string \<Rightarrow> string \<Rightarrow> string \<Rightarrow> policy_result result" where
  "hybrid_evaluate_meta post e content client_id action_type =
     try_bind (evaluate (hy_regex e) content) (\<lambda>rr.
       if \<not> allowed rr then Inr rr
       else try_bind (opa_evaluate_meta post (hy_opa e) content client_id action_type) (\<lambda>oref.
         if triggered_rule oref = Some ''opa_unavailable'' then Inr rr
         else if res_action rr = AUDIT \<and> allowed oref then Inr rr
         else Inr oref))"

definition hybrid_add_rule :: "policy_rule \<Rightarrow> hybrid_engine \<Rightarrow> hybrid_engine" where
  "hybrid_add_rule r e = e\<lparr>hy_regex := add_rule r (hy_regex e)\<rparr>"

definition hybrid_citation_rules :: "hybrid_engine \<Rightarrow> policy_rule list" where
  "hybrid_citation_rules e = pe_rules (hy_regex e)"

subsection \<open>Facts\<close>

lemma hybrid_denied_action: "hybrid_denied a = Inr r \<Longrightarrow> \<not> allowed r \<and> res_action r = DENY"
  by (auto simp: hybrid_denied_def result_simps)

lemma hybrid_evaluate_coherent:
  assumes ev: "hybrid_evaluate post e content = Inr r"
  shows "allowed r \<longleftrightarrow> res_action r \<noteq> DENY"
proof -
  obtain rr where rr: "evaluate (hy_regex e) content = Inr rr"
    using ev by (auto simp: hybrid_evaluate_def result_simps)
  note rr_ok = evaluate_coherent [OF rr]
  show ?thesis
  proof (cases "r = rr")
    case False
    then have "allowed rr" using ev rr by (cases "allowed rr") (simp_all add: hybrid_evaluate_def)
    with ev rr False obtain data where data: "post (governance_url (hy_opa e)) (hybrid_input content rr) = Inr data"
      by (cases "post (governance_url (hy_opa e)) (hybrid_input content rr)") (auto simp: hybrid_evaluate_def)
    with ev rr \<open>allowed rr\<close> False obtain a where "read_hybrid data = Inr (Some a)"
      by (cases "read_hybrid data") (auto simp: hybrid_evaluate_def split: option.splits)
    with ev rr \<open>allowed rr\<close> False data
    have "opa_audited a = Inr r \<or> hybrid_denied a = Inr r \<or> r = hybrid_allowed a rr"
      by (auto simp: hybrid_evaluate_def split: if_splits)
    then show ?thesis
      using hybrid_denied_action opa_audited_action by (auto simp: hybrid_allowed_def)
  qed (simp add: rr_ok)
qed

lemma hybrid_regex_deny_final:
  assumes "evaluate (hy_regex e) content = Inr rr" "\<not> allowed rr"
  shows "hybrid_evaluate post e content = Inr rr" "hybrid_evaluate_meta post e content c t = Inr rr"
  using assms by (simp_all add: hybrid_evaluate_def hybrid_evaluate_meta_def)

lemma hybrid_unreachable:
  assumes "\<And>u d. \<exists>x. post u d = Inl x" "evaluate (hy_regex e) content = Inr rr"
  shows "hybrid_evaluate post e content = Inr rr"
proof -
  obtain x where "post (governance_url (hy_opa e)) (hybrid_input content rr) = Inl x"
    using assms(1) by blast
  with assms(2) show ?thesis by (simp add: hybrid_evaluate_def)
qed

end
