(* ===== verification/Policy_Factory.thy ===== *)
theory Policy_Factory
  imports Hybrid_Engine Policy_Citation
begin

text \<open>
  \<open>src/custos/policy\_factory.py\<close>: the engine the environment selects, and the attributes the
  rest of the program reads from an engine without knowing its kind. \<open>decision\_engine\<close> is the
  contract the tenant manager and the action gate rely on; every kind of engine keeps it.
\<close>

datatype engine =
    RegexE policy_engine
  | OpaE opa_engine
  | HybridE hybrid_engine

definition create_policy_engine :: "environment \<Rightarrow> engine" where
  "create_policy_engine env =
     (let kind = strip (lower (getenv env ''CUSTOS_POLICY_ENGINE'' ''regex'')) in
      if kind = ''opa'' then OpaE (new_opa_engine env None)
      else if kind = ''hybrid'' then HybridE (new_hybrid_engine env None None)
      else RegexE (new_policy_engine None))"

fun engine_kind :: "engine \<Rightarrow> string" where
  "engine_kind (RegexE e) = ''regex''"
| "engine_kind (OpaE e) = ''opa''"
| "engine_kind (HybridE e) = ''hybrid''"

fun engine_evaluate :: "opa_server \<Rightarrow> engine \<Rightarrow> string \<Rightarrow> policy_result result" where
  "engine_evaluate post (RegexE e) c = evaluate e c"
| "engine_evaluate post (OpaE e) c = opa_evaluate post e c"
| "engine_evaluate post (HybridE e) c = hybrid_evaluate post e c"

fun engine_add_rule :: "policy_rule \<Rightarrow> engine \<Rightarrow> engine" where
  "engine_add_rule r (RegexE e) = RegexE (add_rule r e)"
| "engine_add_rule r (OpaE e) = OpaE (opa_add_rule r e)"
| "engine_add_rule r (HybridE e) = HybridE (hybrid_add_rule r e)"

fun citation_rules :: "engine \<Rightarrow> policy_rule list" where
  "citation_rules (RegexE e) = pe_rules e"
| "citation_rules (OpaE e) = opa_citation_rules e"
| "citation_rules (HybridE e) = hybrid_citation_rules e"

fun engine_rule_count :: "engine \<Rightarrow> nat" where
  "engine_rule_count (RegexE e) = rule_count e"
| "engine_rule_count (OpaE e) = rule_count (custom_rules e)"
| "engine_rule_count (HybridE e) = rule_count (hy_regex e)"

text \<open>The Rego pin; the regex engine has none whatever the environment says.\<close>

fun engine_opa_pin :: "environment \<Rightarrow> engine \<Rightarrow> string option" where
  "engine_opa_pin env (RegexE e) = None"
| "engine_opa_pin env (OpaE e) = opa_policy_digest env"
| "engine_opa_pin env (HybridE e) = opa_policy_digest env"

text \<open>\<open>custos.policy\_citation.content\_engine\_digest\<close>.\<close>

definition content_engine_digest :: "environment \<Rightarrow> engine \<Rightarrow> string option" where
  "content_engine_digest env e =
     engine_policy_digest [] (citation_rules e) (engine_kind e) (engine_opa_pin env e)"

subsection \<open>What every engine promises\<close>

text \<open>
  A verdict's two fields agree, the rules cited are those in force plus each rule added, and a
  cited DENY rule that hits forbids the content whatever any server answers.
\<close>

locale decision_engine =
  fixes eval :: "'e \<Rightarrow> string \<Rightarrow> policy_result result"
    and add :: "policy_rule \<Rightarrow> 'e \<Rightarrow> 'e"
    and cited :: "'e \<Rightarrow> policy_rule list"
  assumes coherent: "eval e c = Inr r \<Longrightarrow> allowed r \<longleftrightarrow> res_action r \<noteq> DENY"
    and cited_add: "cited (add q e) = cited e @ [q]"
    and cited_deny: "eval e c = Inr r \<Longrightarrow> q \<in> set (cited e) \<Longrightarrow> action q = DENY \<Longrightarrow> hits c q \<Longrightarrow> res_action r = DENY"
begin

lemma allowed_no_deny:
  "eval e c = Inr r \<Longrightarrow> allowed r \<Longrightarrow> q \<in> set (cited e) \<Longrightarrow> action q = DENY \<Longrightarrow> \<not> hits c q"
  using cited_deny coherent by blast

lemma cited_fold: "cited (fold add qs e) = cited e @ qs"
  by (induction qs arbitrary: e) (simp_all add: cited_add)

lemma added_deny:
  assumes "eval (fold add qs e) c = Inr r" "q \<in> set qs" "action q = DENY" "hits c q"
  shows "\<not> allowed r"
  using assms cited_deny [of "fold add qs e" c r q] coherent [OF assms(1)] by (simp add: cited_fold)

end

lemma citation_rules_add: "citation_rules (engine_add_rule q e) = citation_rules e @ [q]"
  by (cases e) (simp_all add: opa_citation_rules_def hybrid_citation_rules_def
      opa_add_rule_def hybrid_add_rule_def)

lemma regex_cited_deny:
  "evaluate e c = Inr r \<Longrightarrow> q \<in> set (pe_rules e) \<Longrightarrow> action q = DENY \<Longrightarrow> hits c q \<Longrightarrow> res_action r = DENY"
  using evaluate_denies by blast

lemma opa_custom_deny:
  assumes "opa_evaluate post e c = Inr r" "q \<in> set (opa_citation_rules e)" "action q = DENY" "hits c q"
  shows "res_action r = DENY"
proof -
  obtain cu where cu: "evaluate (custom_rules e) c = Inr cu"
    using assms(1) by (auto simp: opa_evaluate_def result_simps)
  with assms have "res_action cu = DENY"
    by (intro regex_cited_deny) (auto simp: opa_citation_rules_def)
  with cu assms(1) show ?thesis by (simp add: opa_evaluate_def)
qed

lemma hybrid_regex_deny:
  assumes "hybrid_evaluate post e c = Inr r" "q \<in> set (hybrid_citation_rules e)" "action q = DENY" "hits c q"
  shows "res_action r = DENY"
proof -
  obtain rr where rr: "evaluate (hy_regex e) c = Inr rr"
    using assms(1) by (auto simp: hybrid_evaluate_def result_simps)
  with assms have "res_action rr = DENY"
    by (intro regex_cited_deny) (auto simp: hybrid_citation_rules_def)
  moreover with rr have "\<not> allowed rr" using evaluate_coherent by blast
  ultimately show ?thesis using hybrid_regex_deny_final(1) [OF rr, of post] assms(1) by simp
qed

interpretation engine: decision_engine "engine_evaluate post" engine_add_rule citation_rules for post
proof
  fix e c r q
  show "engine_evaluate post e c = Inr r \<Longrightarrow> allowed r \<longleftrightarrow> res_action r \<noteq> DENY"
    by (cases e) (simp_all add: evaluate_coherent opa_evaluate_coherent hybrid_evaluate_coherent)
  show "citation_rules (engine_add_rule q e) = citation_rules e @ [q]"
    by (rule citation_rules_add)
  show "engine_evaluate post e c = Inr r \<Longrightarrow> q \<in> set (citation_rules e) \<Longrightarrow> action q = DENY \<Longrightarrow>
    hits c q \<Longrightarrow> res_action r = DENY"
    by (cases e) (simp_all add: regex_cited_deny opa_custom_deny hybrid_regex_deny)
qed

subsection \<open>Properties\<close>

text \<open>Whatever the server answers and whichever engine the deployment selected, content hit by
  a DENY rule added at run time is refused: \<open>add\_rule\<close> can only restrict. If the evaluation
  returns, its \<open>allowed\<close> and \<open>action\<close> fields agree.\<close>

theorem runtime_deny_rules_bind:
  assumes "engine_evaluate post (fold engine_add_rule qs e) c = Inr r"
  shows "(allowed r \<longleftrightarrow> res_action r \<noteq> DENY) \<and> (\<forall>q \<in> set qs. action q = DENY \<longrightarrow> hits c q \<longrightarrow> \<not> allowed r)"
  using assms engine.coherent [OF assms] engine.added_deny [OF assms] by blast

theorem runtime_deny_rules_bind_witness:
  "\<exists>r. engine_evaluate (\<lambda>_ _. Inr (JObj [(''result'', JBool True)]))
     (fold engine_add_rule demo_rules (OpaE (new_opa_engine (\<lambda>_. None) None))) ''drop'' = Inr r \<and> \<not> allowed r"
proof -
  let ?e = "fold engine_add_rule demo_rules (OpaE (new_opa_engine (\<lambda>_. None) None))"
  have ev: "engine_evaluate (\<lambda>_ _. Inr (JObj [(''result'', JBool True)])) ?e ''drop'' =
    Inr (deny_result (demo_rules ! 2))" by code_simp
  have "demo_rules ! 2 \<in> set demo_rules" "action (demo_rules ! 2) = DENY" "hits ''drop'' (demo_rules ! 2)"
    by (simp_all add: demo_rules_def, code_simp)
  with runtime_deny_rules_bind [OF ev] ev show ?thesis by blast
qed

text \<open>The OPA engine allows content only when the server answered and its answer is the literal
  true, either as the result itself or as the \<open>allow\<close> member of the result object: any exception,
  any other value (a string, a number, null) and any other shape of answer denies, or raises.\<close>

theorem opa_fails_closed:
  assumes "opa_evaluate post e content = Inr r" and "allowed r"
  shows "\<exists>kvs. post (governance_url e) (JObj [(''input'', JObj
        [(''content'', JStr content), (''action_type'', JStr ''custos_evaluate'')])]) = Inr (JObj kvs) \<and>
     (map_of kvs ''result'' = Some (JBool True) \<or>
      (\<exists>res. map_of kvs ''result'' = Some (JObj res) \<and> map_of res ''allow'' = Some (JBool True)))"
proof -
  obtain cu where cu: "evaluate (custom_rules e) content = Inr cu"
    using assms(1) by (auto simp: opa_evaluate_def result_simps)
  have "res_action cu \<noteq> DENY"
    using assms cu evaluate_coherent [OF cu] by (auto simp: opa_evaluate_def)
  with assms cu obtain data a where
    "post (governance_url e) (JObj [(''input'', JObj
        [(''content'', JStr content), (''action_type'', JStr ''custos_evaluate'')])]) = Inr data"
    "read_answer data = Inr a" "oa_allowed a"
    by (auto simp: opa_evaluate_def opa_unavailable_def result_simps split: sum.splits if_splits
        dest: opa_denied_not_allowed)
  with read_answer_allowed [of data a] show ?thesis by blast
qed

theorem opa_fails_closed_witness:
  "\<exists>kvs. Inr (JObj [(''result'', JObj [(''allow'', JBool True)])]) = (Inr (JObj kvs) :: json result) \<and>
     (map_of kvs ''result'' = Some (JBool True) \<or>
      (\<exists>res. map_of kvs ''result'' = Some (JObj res) \<and> map_of res ''allow'' = Some (JBool True)))"
proof -
  let ?post = "\<lambda>_ _. Inr (JObj [(''result'', JObj [(''allow'', JBool True)])])"
  let ?r = "\<lparr>allowed = True, res_action = ALLOW, triggered_rule = None, res_reason = ''Allowed by OPA policy''\<rparr>"
  have "opa_evaluate ?post (new_opa_engine (\<lambda>_. None) None) ''hello'' = Inr ?r" by code_simp
  from opa_fails_closed [OF this] show ?thesis by simp
qed

text \<open>The hybrid engine never weakens the regex verdict: a regex DENY is returned as it is and
  the server is not consulted, and with the server unreachable the verdict is the regex one.\<close>

theorem hybrid_keeps_regex_verdict:
  assumes "evaluate (hy_regex e) content = Inr rr"
  shows "(\<not> allowed rr \<longrightarrow> hybrid_evaluate post e content = Inr rr) \<and>
     hybrid_evaluate (\<lambda>_ _. Inl exc) e content = Inr rr \<and>
     (\<forall>r. hybrid_evaluate post e content = Inr r \<longrightarrow> allowed r \<longrightarrow> allowed rr)"
  using hybrid_regex_deny_final(1) [OF assms] hybrid_unreachable [OF _ assms, of "\<lambda>_ _. Inl exc"]
  by (cases "allowed rr") auto

theorem hybrid_keeps_regex_verdict_witness:
  "hybrid_evaluate (\<lambda>_ _. Inr (JObj [(''result'', JBool True)]))
     (new_hybrid_engine (\<lambda>_. None) (Some (new_policy_engine (Some demo_rules))) None) ''drop'' =
   Inr (deny_result (demo_rules ! 2))"
proof -
  let ?e = "new_hybrid_engine (\<lambda>_. None) (Some (new_policy_engine (Some demo_rules))) None"
  have "evaluate (hy_regex ?e) ''drop'' = Inr (deny_result (demo_rules ! 2))" by code_simp
  from hybrid_keeps_regex_verdict [OF this, of "\<lambda>_ _. Inr (JObj [(''result'', JBool True)])"]
  show ?thesis by (simp add: deny_result_def)
qed

subsection \<open>Where the engines differ\<close>

text \<open>
  The hybrid engine reads \<open>allow\<close> by truth value, so the string \<open>false\<close> authorizes; the OPA engine
  refuses the same answer. The OPA engine's metadata variant loses the audit flag of an allow.
\<close>

definition stringly_server :: opa_server where
  "stringly_server url input = Inr (JObj [(''result'', JObj [(''allow'', JStr ''false'')])])"

definition auditing_server :: opa_server where
  "auditing_server url input =
     Inr (JObj [(''result'', JObj [(''allow'', JBool True), (''audit'', JBool True)])])"

lemma hybrid_authorizes_truthy:
  "map_sum id allowed (hybrid_evaluate stringly_server
     (new_hybrid_engine (\<lambda>_. None) (Some (new_policy_engine (Some []))) None) ''x'') = Inr True"
  "map_sum id allowed (opa_evaluate stringly_server (new_opa_engine (\<lambda>_. None) None) ''x'') = Inr False"
  by code_simp+

lemma opa_metadata_drops_audit:
  "map_sum id res_action (opa_evaluate auditing_server (new_opa_engine (\<lambda>_. None) None) ''x'') = Inr AUDIT"
  "map_sum id res_action (opa_evaluate_meta auditing_server (new_opa_engine (\<lambda>_. None) None) ''x'' c t) = Inr ALLOW"
proof -
  show "map_sum id res_action (opa_evaluate auditing_server (new_opa_engine (\<lambda>_. None) None) ''x'') = Inr AUDIT"
    by code_simp
  have "evaluate (custom_rules (new_opa_engine (\<lambda>_. None) None)) ''x'' = Inr allow_result" by code_simp
  then show "map_sum id res_action (opa_evaluate_meta auditing_server (new_opa_engine (\<lambda>_. None) None) ''x'' c t) = Inr ALLOW"
    by (simp add: opa_evaluate_meta_def allow_result_def auditing_server_def read_answer_def
        json_get_def read_reasons_def json_or_def opa_allowed_result_def)
qed

end
