(* ===== verification/Validation.thy ===== *)
theory Validation
  imports Json Sha256
begin

text \<open>
  \<open>src/custos/validation.py\<close>: the request validator. Its arguments are Python values whose
  type it checks itself, so they are modelled as parsed JSON values.
\<close>

record validation_result =
  valid :: bool
  error :: "string option"

definition invalid :: "string \<Rightarrow> validation_result" where
  "invalid msg = \<lparr>valid = False, error = Some msg\<rparr>"

definition valid_result :: validation_result where
  "valid_result = \<lparr>valid = True, error = None\<rparr>"

definition MAX_CONTENT_BYTES :: int where "MAX_CONTENT_BYTES = 32768"
definition MAX_CLIENT_ID_LEN :: int where "MAX_CLIENT_ID_LEN = 128"

definition blank :: "string \<Rightarrow> bool" where
  "blank s = (s = [] \<or> strip s = [])"

definition validate_content :: "json \<Rightarrow> validation_result" where
  "validate_content content = (case content of
     JStr s \<Rightarrow>
       if blank s then invalid ''content must not be empty or blank''
       else (let byte_size = int (length (utf8 s)) in
         if byte_size > MAX_CONTENT_BYTES then
           invalid (''content exceeds maximum size of '' @ int_repr MAX_CONTENT_BYTES @
             '' bytes (received '' @ int_repr byte_size @ '' bytes)'')
         else valid_result)
   | _ \<Rightarrow> invalid ''content must be a string'')"

definition validate_client_id :: "json \<Rightarrow> validation_result" where
  "validate_client_id client_id = (case client_id of
     JStr s \<Rightarrow>
       if blank s then invalid ''client_id must not be empty or blank''
       else if int (length s) > MAX_CLIENT_ID_LEN then
         invalid (''client_id exceeds maximum length of '' @ int_repr MAX_CLIENT_ID_LEN @ '' characters'')
       else if s \<noteq> strip s then invalid ''client_id must not have leading or trailing whitespace''
       else valid_result
   | _ \<Rightarrow> invalid ''client_id must be a string'')"

definition validate_token_count :: "json \<Rightarrow> validation_result" where
  "validate_token_count token_count = (case token_count of
     JInt n \<Rightarrow>
       if n < 1 then invalid ''token_count must be at least 1''
       else if n > 100000 then invalid ''token_count must not exceed 100,000 per request''
       else valid_result
   | _ \<Rightarrow> invalid ''token_count must be an integer'')"

fun first_failure :: "validation_result list \<Rightarrow> validation_result" where
  "first_failure [] = valid_result"
| "first_failure (r # rs) = (if \<not> valid r then r else first_failure rs)"

definition validate_request :: "json \<Rightarrow> json \<Rightarrow> json \<Rightarrow> validation_result" where
  "validate_request client_id content token_count = first_failure
     [validate_client_id client_id, validate_content content, validate_token_count token_count]"

lemma valid_simps [simp]: "\<not> valid (invalid m)" "valid valid_result"
  by (simp_all add: invalid_def valid_result_def)

lemma first_failure_valid [simp]: "valid (first_failure rs) \<longleftrightarrow> (\<forall>r \<in> set rs. valid r)"
  by (induction rs) auto

text \<open>A request is accepted exactly when the client id is a string of at most 128 characters
  that is not blank and not padded, the content is a string that is not blank and whose UTF-8
  encoding is at most 32768 bytes, and the token count is an integer, not a Boolean, from 1 to
  100000; otherwise the answer carries the error of the first field that fails, in the order
  client id, content, token count.\<close>

theorem validate_request_spec:
  "(valid (validate_request cid con tok) \<longleftrightarrow>
     (\<exists>c s n. cid = JStr c \<and> con = JStr s \<and> tok = JInt n \<and>
        c \<noteq> [] \<and> c = strip c \<and> length c \<le> 128 \<and>
        (\<exists>x \<in> set s. \<not> is_space x) \<and> length (utf8 s) \<le> 32768 \<and> 1 \<le> n \<and> n \<le> 100000)) \<and>
   validate_request cid con tok =
     (if \<not> valid (validate_client_id cid) then validate_client_id cid
      else if \<not> valid (validate_content con) then validate_content con
      else validate_token_count tok)"
proof
  have c: "valid (validate_client_id cid) \<longleftrightarrow> (\<exists>c. cid = JStr c \<and> c \<noteq> [] \<and> c = strip c \<and> length c \<le> 128)"
    by (cases cid) (auto simp: validate_client_id_def blank_def MAX_CLIENT_ID_LEN_def)
  have s: "valid (validate_content con) \<longleftrightarrow>
    (\<exists>s. con = JStr s \<and> (\<exists>x \<in> set s. \<not> is_space x) \<and> length (utf8 s) \<le> 32768)"
    by (cases con) (auto simp: validate_content_def blank_def MAX_CONTENT_BYTES_def strip_blank Let_def)
  have t: "valid (validate_token_count tok) \<longleftrightarrow> (\<exists>n. tok = JInt n \<and> 1 \<le> n \<and> n \<le> 100000)"
    by (cases tok) (auto simp: validate_token_count_def)
  have "valid (validate_request cid con tok) \<longleftrightarrow>
    valid (validate_client_id cid) \<and> valid (validate_content con) \<and> valid (validate_token_count tok)"
    by (simp add: validate_request_def)
  then show "valid (validate_request cid con tok) \<longleftrightarrow>
     (\<exists>c s n. cid = JStr c \<and> con = JStr s \<and> tok = JInt n \<and>
        c \<noteq> [] \<and> c = strip c \<and> length c \<le> 128 \<and>
        (\<exists>x \<in> set s. \<not> is_space x) \<and> length (utf8 s) \<le> 32768 \<and> 1 \<le> n \<and> n \<le> 100000)"
    unfolding c s t by blast
  show "validate_request cid con tok =
     (if \<not> valid (validate_client_id cid) then validate_client_id cid
      else if \<not> valid (validate_content con) then validate_content con
      else validate_token_count tok)"
    by (cases tok) (simp_all add: validate_request_def validate_token_count_def valid_result_def invalid_def)
qed

theorem validate_request_spec_witness:
  "valid (validate_request (JStr ''acme'') (JStr ''hi'') (JInt 5)) \<and>
   \<not> valid (validate_request (JStr ''acme'') (JStr ''hi'') (JBool True))"
  unfolding validate_request_spec [THEN conjunct1]
  by (simp add: strip_def lstrip_def rstrip_def is_space_def utf8_def utf8_char_def)

end
