(* ===== verification/Rate_Limiter.thy ===== *)
theory Rate_Limiter
  imports Json
begin

text \<open>
  \<open>src/custos/rate\_limiter.py\<close>: quotas per client over a minute and an hour. A time is an
  integer number of microseconds, and every operation that reads the clock takes the reading
  as an argument. Counters are Python integers.
\<close>

record quota_config =
  requests_per_minute :: int
  requests_per_hour :: int
  tokens_per_minute :: int

record quota_state =
  minute_count :: int
  hour_count :: int
  token_count :: int
  minute_window_start :: int
  hour_window_start :: int

record rate_limiter =
  rl_quotas :: "(string \<times> quota_config) list"
  rl_state :: "(string \<times> quota_state) list"

definition new_rate_limiter :: rate_limiter where
  "new_rate_limiter = \<lparr>rl_quotas = [], rl_state = []\<rparr>"

definition minute :: int where "minute = 60 * usec"
definition hour :: int where "hour = 3600 * usec"

definition new_quota_state :: "int \<Rightarrow> quota_state" where
  "new_quota_state now = \<lparr>minute_count = 0, hour_count = 0, token_count = 0,
     minute_window_start = now, hour_window_start = now\<rparr>"

definition register :: "string \<Rightarrow> quota_config \<Rightarrow> int \<Rightarrow> rate_limiter \<Rightarrow> rate_limiter" where
  "register c cfg now rl =
     \<lparr>rl_quotas = dict_set c cfg (rl_quotas rl), rl_state = dict_set c (new_quota_state now) (rl_state rl)\<rparr>"

text \<open>The resets at the head of \<open>check\_and\_consume\<close>.\<close>

definition reset_minute :: "int \<Rightarrow> quota_state \<Rightarrow> quota_state" where
  "reset_minute now s = (if now - minute_window_start s \<ge> minute
     then s\<lparr>minute_count := 0, token_count := 0, minute_window_start := now\<rparr> else s)"

definition reset_hour :: "int \<Rightarrow> quota_state \<Rightarrow> quota_state" where
  "reset_hour now s = (if now - hour_window_start s \<ge> hour
     then s\<lparr>hour_count := 0, hour_window_start := now\<rparr> else s)"

definition quota_step :: "quota_config \<Rightarrow> int \<Rightarrow> int \<Rightarrow> quota_state \<Rightarrow> quota_state \<times> bool \<times> string" where
  "quota_step cfg now tokens s0 =
     (let s = reset_hour now (reset_minute now s0) in
      if minute_count s \<ge> requests_per_minute cfg then (s, False, ''Minute request quota exceeded'')
      else if hour_count s \<ge> requests_per_hour cfg then (s, False, ''Hour request quota exceeded'')
      else if token_count s + tokens > tokens_per_minute cfg then (s, False, ''Token quota exceeded'')
      else (s\<lparr>minute_count := minute_count s + 1, hour_count := hour_count s + 1,
              token_count := token_count s + tokens\<rparr>, True, ''OK''))"

definition check_and_consume ::
  "string \<Rightarrow> int \<Rightarrow> int \<Rightarrow> rate_limiter \<Rightarrow> rate_limiter \<times> (bool \<times> string) result" where
  "check_and_consume c tokens now rl = (case map_of (rl_quotas rl) c of
     None \<Rightarrow> (rl, Inr (False, ''Unknown client: '' @ c))
   | Some cfg \<Rightarrow> (case map_of (rl_state rl) c of
       None \<Rightarrow> (rl, Inl (KeyError c))
     | Some s \<Rightarrow> (let (s', ok) = quota_step cfg now tokens s in
         (rl\<lparr>rl_state := dict_set c s' (rl_state rl)\<rparr>, Inr ok))))"

text \<open>\<open>math.ceil\<close> of a time in seconds.\<close>

definition ceil_seconds :: "int \<Rightarrow> int" where
  "ceil_seconds t = - ((- t) div usec)"

definition retry_after_seconds :: "string \<Rightarrow> int \<Rightarrow> int \<Rightarrow> rate_limiter \<Rightarrow> int option" where
  "retry_after_seconds c tokens now rl =
     (case (map_of (rl_quotas rl) c, map_of (rl_state rl) c) of
        (Some cfg, Some s) \<Rightarrow>
          (let minute_left = minute - (now - minute_window_start s);
               hour_left = hour - (now - hour_window_start s);
               minute_elapsed = minute_left \<le> 0;
               hour_elapsed = hour_left \<le> 0;
               mc = (if minute_elapsed then 0 else minute_count s);
               tc = (if minute_elapsed then 0 else token_count s);
               hc = (if hour_elapsed then 0 else hour_count s) in
           if mc \<ge> requests_per_minute cfg then Some (max 1 (ceil_seconds minute_left))
           else if hc \<ge> requests_per_hour cfg then Some (max 1 (ceil_seconds hour_left))
           else if tc + tokens > tokens_per_minute cfg then Some (max 1 (ceil_seconds minute_left))
           else None)
      | _ \<Rightarrow> None)"

definition get_quota :: "string \<Rightarrow> rate_limiter \<Rightarrow> quota_config option" where
  "get_quota c rl = map_of (rl_quotas rl) c"

definition quota_view :: "rate_limiter \<Rightarrow> string \<times> quota_config \<Rightarrow> (string \<times> json) result" where
  "quota_view rl q = (case map_of (rl_state rl) (fst q) of
     None \<Rightarrow> Inl (KeyError (fst q))
   | Some s \<Rightarrow> Inr (fst q, JObj
       [(''requests_per_minute'', JInt (requests_per_minute (snd q))),
        (''requests_per_hour'', JInt (requests_per_hour (snd q))),
        (''tokens_per_minute'', JInt (tokens_per_minute (snd q))),
        (''current_minute_count'', JInt (minute_count s)),
        (''current_hour_count'', JInt (hour_count s)),
        (''current_token_count'', JInt (token_count s))]))"

definition get_all_quotas :: "rate_limiter \<Rightarrow> (string \<times> json) list result" where
  "get_all_quotas rl = try_map (quota_view rl) (rl_quotas rl)"

definition unregister :: "string \<Rightarrow> rate_limiter \<Rightarrow> rate_limiter \<times> bool" where
  "unregister c rl =
     (if c \<in> fst ` set (rl_quotas rl)
      then (\<lparr>rl_quotas = dict_del c (rl_quotas rl), rl_state = dict_del c (rl_state rl)\<rparr>, True)
      else (rl, False))"

subsection \<open>The two tables hold the same clients\<close>

definition limiter_ok :: "rate_limiter \<Rightarrow> bool" where
  "limiter_ok rl = (dom (map_of (rl_quotas rl)) = dom (map_of (rl_state rl)))"

lemma limiter_ok_ops [simp]:
  "limiter_ok new_rate_limiter"
  "limiter_ok rl \<Longrightarrow> limiter_ok (register c cfg now rl)"
  "limiter_ok rl \<Longrightarrow> limiter_ok (fst (check_and_consume c tokens now rl))"
  "limiter_ok rl \<Longrightarrow> limiter_ok (fst (unregister c rl))"
  by (auto simp: limiter_ok_def new_rate_limiter_def register_def check_and_consume_def
      unregister_def Let_def split: option.splits prod.splits)

lemma limiter_ok_known: "limiter_ok rl \<Longrightarrow> map_of (rl_quotas rl) c = None \<longleftrightarrow> map_of (rl_state rl) c = None"
  unfolding limiter_ok_def by (metis domIff)

lemma check_no_error: "limiter_ok rl \<Longrightarrow> \<exists>b m. snd (check_and_consume c tokens now rl) = Inr (b, m)"
  using limiter_ok_known [of rl c]
  by (auto simp: check_and_consume_def Let_def split: option.splits prod.splits)

subsection \<open>A fixed window, abstractly\<close>

text \<open>
  What the minute and the hour counter share. A step at time \<open>t\<close> first restarts the window if
  it has lasted \<open>len\<close>; it is accepted only if the count is below the limit, and then counts.
  Any interval of length \<open>len\<close> meets at most two windows, hence the factor two.
\<close>

definition window_start_at :: "int \<Rightarrow> int \<Rightarrow> int \<Rightarrow> int" where
  "window_start_at len t w = (if t - w \<ge> len then t else w)"

lemma length_filter_cover:
  "\<forall>e \<in> set L. P e \<or> Q e \<Longrightarrow> length (filter (\<lambda>e. \<not> P e) L) \<le> length (filter Q L)"
  by (induction L) auto

locale fixed_window =
  fixes step :: "'c \<Rightarrow> 's \<Rightarrow> 's \<times> bool"
    and time :: "'c \<Rightarrow> int"
    and start :: "'s \<Rightarrow> int"
    and count :: "'s \<Rightarrow> int"
    and len :: int
    and limit :: int
  assumes len_pos: "0 < len"
    and start_step: "start (fst (step c s)) = window_start_at len (time c) (start s)"
    and count_step: "count (fst (step c s)) =
      (if time c - start s \<ge> len then 0 else count s) + (if snd (step c s) then 1 else 0)"
    and accepted: "snd (step c s) \<Longrightarrow> (if time c - start s \<ge> len then 0 else count s) < limit"
begin

text \<open>The accepted calls of a run, each with its time and the window it fell in.\<close>

fun log :: "'c list \<Rightarrow> 's \<Rightarrow> (int \<times> int) list" where
  "log [] s = []"
| "log (c # cs) s = (let (s', ok) = step c s in
     (if ok then [(time c, start s')] else []) @ log cs s')"

definition in_window :: "int \<Rightarrow> 'c list \<Rightarrow> 's \<Rightarrow> nat" where
  "in_window w cs s = length (filter (\<lambda>e. snd e = w) (log cs s))"

lemma log_windows:
  assumes "sorted_wrt (\<le>) (start s # map time cs)" "e \<in> set (log cs s)"
  shows "(snd e = start s \<or> start s + len \<le> snd e) \<and> snd e \<le> fst e \<and> fst e < snd e + len"
  using assms
proof (induction cs arbitrary: s)
  case (Cons c cs)
  obtain s' ok where st: "step c s = (s', ok)" by force
  have s': "start s' = window_start_at len (time c) (start s)" using start_step [of c s] st by simp
  have srt: "sorted_wrt (\<le>) (start s' # map time cs)"
    using Cons.prems(1) by (auto simp: s' window_start_at_def)
  from Cons.prems(2) st consider "e = (time c, start s')" | "e \<in> set (log cs s')"
    by (auto split: if_splits)
  then show ?case
  proof cases
    case 1
    then show ?thesis using Cons.prems(1) len_pos by (auto simp: s' window_start_at_def)
  next
    case 2
    from Cons.IH [OF srt 2] Cons.prems(1) len_pos show ?thesis
      by (auto simp: s' window_start_at_def split: if_splits)
  qed
qed simp

lemma log_apart:
  assumes "sorted_wrt (\<le>) (start s # map time cs)" "e \<in> set (log cs s)" "e' \<in> set (log cs s)"
    "snd e < snd e'"
  shows "snd e + len \<le> snd e'"
  using assms
proof (induction cs arbitrary: s)
  case (Cons c cs)
  obtain s' ok where st: "step c s = (s', ok)" by force
  have s': "start s' = window_start_at len (time c) (start s)" using start_step [of c s] st by simp
  have srt: "sorted_wrt (\<le>) (start s' # map time cs)"
    using Cons.prems(1) by (auto simp: s' window_start_at_def)
  note later = log_windows [OF srt]
  from Cons.prems(2,3) st
  have "e = (time c, start s') \<or> e \<in> set (log cs s')" "e' = (time c, start s') \<or> e' \<in> set (log cs s')"
    by (auto split: if_splits)
  with Cons.IH [OF srt] Cons.prems(4) later [of e] later [of e'] len_pos show ?case by fastforce
qed simp

lemma window_count:
  assumes "sorted_wrt (\<le>) (start s # map time cs)" "0 \<le> count s"
  shows "int (in_window w cs s) \<le> max 0 (limit - (if w = start s then count s else 0))"
  using assms
proof (induction cs arbitrary: s)
  case (Cons c cs)
  obtain s' ok where st: "step c s = (s', ok)" by force
  have s': "start s' = window_start_at len (time c) (start s)" using start_step [of c s] st by simp
  have c': "count s' = (if time c - start s \<ge> len then 0 else count s) + (if ok then 1 else 0)"
    using count_step [of c s] st by simp
  have acc: "ok \<Longrightarrow> (if time c - start s \<ge> len then 0 else count s) < limit"
    using accepted [of c s] st by simp
  have srt: "sorted_wrt (\<le>) (start s' # map time cs)"
    using Cons.prems(1) by (auto simp: s' window_start_at_def)
  have "0 \<le> count s'" using c' Cons.prems(2) by simp
  note IH = Cons.IH [OF srt this]
  have split: "in_window w (c # cs) s = (if ok \<and> w = start s' then 1 else 0) + in_window w cs s'"
    by (auto simp: in_window_def st)
  have none: "in_window w cs s' = 0" if "w < start s'"
  proof -
    have "snd e \<noteq> w" if "e \<in> set (log cs s')" for e
      using log_windows [OF srt that] \<open>w < start s'\<close> len_pos by auto
    then show ?thesis by (auto simp: in_window_def filter_empty_conv)
  qed
  show ?case
  proof (cases "time c - start s \<ge> len")
    case True
    then have "start s < start s'" using len_pos by (auto simp: s' window_start_at_def)
    then show ?thesis unfolding split using IH none acc c' True by (cases "w = start s'") auto
  next
    case False
    then have "start s' = start s" by (simp add: s' window_start_at_def)
    then show ?thesis unfolding split using IH acc c' False by auto
  qed
qed (simp add: in_window_def)

lemma two_windows:
  assumes srt: "sorted_wrt (\<le>) (start s # map time cs)" and "0 \<le> count s"
  shows "int (length (filter (\<lambda>e. t \<le> fst e \<and> fst e < t + len) (log cs s))) \<le> 2 * max 0 limit"
proof -
  let ?L = "filter (\<lambda>e. t \<le> fst e \<and> fst e < t + len) (log cs s)"
  have per: "int (length (filter (\<lambda>e. snd e = w) ?L)) \<le> max 0 limit" for w
  proof -
    have "length (filter (\<lambda>e. snd e = w) ?L) \<le> in_window w cs s"
      unfolding in_window_def filter_filter
      by (metis (no_types, lifting) filter_filter length_filter_le filter_cong conj_commute)
    moreover have "int (in_window w cs s) \<le> max 0 limit"
      using window_count [OF srt assms(2), of w] assms(2) by (auto split: if_splits)
    ultimately show ?thesis by linarith
  qed
  show ?thesis
  proof (cases ?L)
    case (Cons e0 es)
    let ?w0 = "Min (snd ` set ?L)"
    have fin: "finite (snd ` set ?L)" "snd ` set ?L \<noteq> {}" using Cons by auto
    obtain m where m: "m \<in> set ?L" "snd m = ?w0" using Min_in [OF fin] by auto
    have win: "snd e = ?w0 \<or> (\<forall>e' \<in> set ?L. snd e' \<noteq> ?w0 \<longrightarrow> snd e' = snd e)" if e: "e \<in> set ?L" for e
    proof (rule ccontr)
      assume "\<not> ?thesis"
      then obtain e' where e': "e' \<in> set ?L" "snd e \<noteq> ?w0" "snd e' \<noteq> ?w0" "snd e' \<noteq> snd e" by blast
      have "?w0 \<le> snd x" if "x \<in> set ?L" for x
        using that by (intro Min_le [OF fin(1)] imageI)
      with e e' m(2) have lt: "snd m < snd e" "snd m < snd e'"
        by (metis le_neq_trans)+
      have logs: "m \<in> set (log cs s)" "e \<in> set (log cs s)" "e' \<in> set (log cs s)" using m e e' by auto
      have "snd m + len \<le> snd e" "snd m + len \<le> snd e'"
        using log_apart [OF srt] logs lt by blast+
      moreover have "snd e + len \<le> snd e' \<or> snd e' + len \<le> snd e"
        using log_apart [OF srt] logs e'(4) by (metis linorder_neqE)
      moreover have "fst m < snd m + len" "snd e \<le> fst e" "snd e' \<le> fst e'"
        using log_windows [OF srt] logs by blast+
      moreover have "t \<le> fst m" "fst e < t + len" "fst e' < t + len" using m e e' by auto
      ultimately show False by linarith
    qed
    obtain w1 where w1: "\<forall>e \<in> set ?L. snd e = ?w0 \<or> snd e = w1"
    proof (cases "\<exists>e \<in> set ?L. snd e \<noteq> ?w0")
      case True
      then obtain e1 where "e1 \<in> set ?L" "snd e1 \<noteq> ?w0" by blast
      with win [of e1] that [of "snd e1"] show ?thesis by blast
    qed (use that in blast)
    have "length ?L = length (filter (\<lambda>e. snd e = ?w0) ?L) + length (filter (\<lambda>e. snd e \<noteq> ?w0) ?L)"
      by (rule sum_length_filter_compl [symmetric])
    moreover have "length (filter (\<lambda>e. snd e \<noteq> ?w0) ?L) \<le> length (filter (\<lambda>e. snd e = w1) ?L)"
      using w1 by (intro length_filter_cover) blast
    ultimately show ?thesis using per [of ?w0] per [of w1] by linarith
  qed simp
qed

end

subsection \<open>The minute and the hour window\<close>

text \<open>One client's counters under a sequence of \<open>(time, tokens)\<close> calls.\<close>

definition call_step :: "quota_config \<Rightarrow> int \<times> int \<Rightarrow> quota_state \<Rightarrow> quota_state \<times> bool" where
  "call_step cfg c s = (let (s', ok, msg) = quota_step cfg (fst c) (snd c) s in (s', ok))"

lemma usec_pos [simp]: "0 < usec" by (simp add: usec_def)

lemma window_pos [simp]: "0 < minute" "0 < hour"
  by (simp_all add: minute_def hour_def)

lemmas call_step_defs = call_step_def quota_step_def reset_minute_def reset_hour_def window_start_at_def Let_def

interpretation minute_window: fixed_window "call_step cfg" fst minute_window_start minute_count minute
  "requests_per_minute cfg" for cfg
  by unfold_locales (auto simp: call_step_defs split: if_splits)

interpretation hour_window: fixed_window "call_step cfg" fst hour_window_start hour_count hour
  "requests_per_hour cfg" for cfg
  by unfold_locales (auto simp: call_step_defs split: if_splits)

text \<open>A run of the limiter: the calls of all clients in order, and the accepted ones.\<close>

type_synonym call = "string \<times> int \<times> int"

fun accepted_calls :: "call list \<Rightarrow> rate_limiter \<Rightarrow> call list" where
  "accepted_calls [] rl = []"
| "accepted_calls ((c, t, n) # cs) rl =
     (let (rl', r) = check_and_consume c n t rl in
      (if \<exists>m. r = Inr (True, m) then [(c, t, n)] else []) @ accepted_calls cs rl')"

definition calls_of :: "string \<Rightarrow> call list \<Rightarrow> (int \<times> int) list" where
  "calls_of u cs = map snd (filter (\<lambda>c. fst c = u) cs)"

lemma check_other:
  "c \<noteq> u \<Longrightarrow> map_of (rl_state (fst (check_and_consume c n t rl))) u = map_of (rl_state rl) u"
  "rl_quotas (fst (check_and_consume c n t rl)) = rl_quotas rl"
  by (auto simp: check_and_consume_def Let_def split: option.splits prod.splits)

lemma check_self:
  assumes "map_of (rl_quotas rl) u = Some cfg" "map_of (rl_state rl) u = Some s"
  shows "map_of (rl_state (fst (check_and_consume u n t rl))) u = Some (fst (call_step cfg (t, n) s))"
    and "(\<exists>m. snd (check_and_consume u n t rl) = Inr (True, m)) \<longleftrightarrow> snd (call_step cfg (t, n) s)"
  using assms by (auto simp: check_and_consume_def call_step_def split: prod.splits)

lemma accepted_log:
  assumes "map_of (rl_quotas rl) u = Some cfg" "map_of (rl_state rl) u = Some s"
  shows "map fst (calls_of u (accepted_calls cs rl)) = map fst (minute_window.log cfg (calls_of u cs) s)"
    and "map fst (calls_of u (accepted_calls cs rl)) = map fst (hour_window.log cfg (calls_of u cs) s)"
proof -
  have "map fst (calls_of u (accepted_calls cs rl)) = map fst (minute_window.log cfg (calls_of u cs) s) \<and>
    map fst (calls_of u (accepted_calls cs rl)) = map fst (hour_window.log cfg (calls_of u cs) s)"
    using assms
  proof (induction cs rl arbitrary: s rule: accepted_calls.induct)
    case (1 rl)
    show ?case by (simp add: calls_of_def)
  next
    case (2 c t n cs rl)
    obtain rl' r where st: "check_and_consume c n t rl = (rl', r)" by force
    have q: "map_of (rl_quotas rl') u = Some cfg" using check_other(2) [of c n t rl] st 2(2) by simp
    show ?case
    proof (cases "c = u")
      case True
      obtain s' ok where cs: "call_step cfg (t, n) s = (s', ok)" by force
      have s': "map_of (rl_state rl') u = Some s'" and ok: "(\<exists>m. r = Inr (True, m)) \<longleftrightarrow> ok"
        using check_self [OF 2(2,3), of n t] st True cs by simp_all
      from "2.IH" [OF st [symmetric] refl q s'] True ok cs st show ?thesis
        by (auto simp: calls_of_def)
    next
      case False
      have s': "map_of (rl_state rl') u = Some s" using check_other(1) [OF False, of n t rl] st 2(3) by simp
      from "2.IH" [OF st [symmetric] refl q s'] False st show ?thesis
        by (auto simp: calls_of_def)
    qed
  qed
  then show "map fst (calls_of u (accepted_calls cs rl)) = map fst (minute_window.log cfg (calls_of u cs) s)"
    "map fst (calls_of u (accepted_calls cs rl)) = map fst (hour_window.log cfg (calls_of u cs) s)" by auto
qed

lemma count_by_fst:
  fixes xs :: "('x \<times> 'y) list" and ys :: "('x \<times> 'z) list"
  assumes eq: "map fst xs = map fst ys"
  shows "length (filter (\<lambda>e. P (fst e)) xs) = length (filter (\<lambda>e. P (fst e)) ys)"
proof -
  have "length (filter (\<lambda>e. P (fst e)) zs) = length (filter P (map fst zs))" for zs :: "('x \<times> 'y) list"
    by (simp add: filter_map comp_def)
  moreover have "length (filter (\<lambda>e. P (fst e)) zs) = length (filter P (map fst zs))" for zs :: "('x \<times> 'z) list"
    by (simp add: filter_map comp_def)
  ultimately show ?thesis using eq by metis
qed

text \<open>C39: a client never gets more than twice its quota in any interval: whatever calls of whatever
  clients are interleaved, for a client registered at time \<open>t0\<close> and called at times that do not go
  back, the calls accepted in any 60 seconds are at most twice its requests per minute, and
  those accepted in any 3600 seconds at most twice its requests per hour. (The windows are
  fixed, so the factor two is real: a full window can be followed by another.)\<close>

theorem rate_limit_bound:
  assumes "rl = register u cfg t0 rl0"
    and "sorted_wrt (\<le>) (t0 # map fst (calls_of u calls))"
  shows "int (length (filter (\<lambda>c. t \<le> fst c \<and> fst c < t + minute) (calls_of u (accepted_calls calls rl))))
           \<le> 2 * max 0 (requests_per_minute cfg) \<and>
         int (length (filter (\<lambda>c. t \<le> fst c \<and> fst c < t + hour) (calls_of u (accepted_calls calls rl))))
           \<le> 2 * max 0 (requests_per_hour cfg)"
proof -
  have q: "map_of (rl_quotas rl) u = Some cfg" "map_of (rl_state rl) u = Some (new_quota_state t0)"
    by (simp_all add: assms(1) register_def)
  have srt: "sorted_wrt (\<le>) (minute_window_start (new_quota_state t0) # map fst (calls_of u calls))"
    "sorted_wrt (\<le>) (hour_window_start (new_quota_state t0) # map fst (calls_of u calls))"
    "0 \<le> minute_count (new_quota_state t0)" "0 \<le> hour_count (new_quota_state t0)"
    using assms(2) by (simp_all add: new_quota_state_def)
  show ?thesis
    using minute_window.two_windows [OF srt(1,3), of t cfg] hour_window.two_windows [OF srt(2,4), of t cfg]
      count_by_fst [OF accepted_log(1) [OF q, of calls], of "\<lambda>x. t \<le> x \<and> x < t + minute"]
      count_by_fst [OF accepted_log(2) [OF q, of calls], of "\<lambda>x. t \<le> x \<and> x < t + hour"]
    by simp
qed

definition demo_quota :: quota_config where
  "demo_quota = \<lparr>requests_per_minute = 1, requests_per_hour = 5, tokens_per_minute = 10\<rparr>"

theorem rate_limit_bound_witness:
  "int (length (filter (\<lambda>c. 0 \<le> fst c \<and> fst c < minute)
     (calls_of ''a'' (accepted_calls [(''a'', 1, 1), (''b'', 2, 1), (''a'', 3, 1)]
       (register ''a'' demo_quota 0 new_rate_limiter))))) \<le> 2"
  using rate_limit_bound [of "register ''a'' demo_quota 0 new_rate_limiter" "''a''" demo_quota 0
      new_rate_limiter "[(''a'', 1, 1), (''b'', 2, 1), (''a'', 3, 1)]" 0]
  by (simp add: calls_of_def demo_quota_def)

lemma ceil_seconds_ge: "x \<le> ceil_seconds x * usec"
proof -
  have "(- x) div usec * usec + (- x) mod usec = - x" by (rule div_mult_mod_eq)
  moreover have "0 \<le> (- x) mod usec" by (rule pos_mod_sign) (rule usec_pos)
  ultimately show ?thesis unfolding ceil_seconds_def mult_minus_left by linarith
qed

text \<open>\<open>retry\_after\_seconds\<close> mirrors \<open>check\_and\_consume\<close>: at the same clock reading and for a
  registered client it answers None exactly when the call would be accepted; otherwise it is a
  whole number of seconds, at least one, after which the window behind the refusal is over: a
  call then is not refused for the same reason unless its quota is not positive or its tokens
  alone exceed the quota.\<close>

theorem retry_after_mirrors_check:
  assumes "map_of (rl_quotas rl) u = Some cfg" and "map_of (rl_state rl) u = Some s"
    and "snd (check_and_consume u n now rl) = Inr (ok, msg)"
  shows "(retry_after_seconds u n now rl = None \<longleftrightarrow> ok) \<and>
    (\<forall>k. retry_after_seconds u n now rl = Some k \<longrightarrow> 1 \<le> k \<and>
      (\<forall>t ok' msg'. now + k * usec \<le> t \<longrightarrow> snd (check_and_consume u n t rl) = Inr (ok', msg') \<longrightarrow>
         msg' = msg \<longrightarrow> requests_per_minute cfg \<le> 0 \<or> requests_per_hour cfg \<le> 0 \<or> tokens_per_minute cfg < n))"
proof -
  have ceil: "now + max 1 (ceil_seconds x) * usec \<le> t \<Longrightarrow> x \<le> t - now" for x t
    using ceil_seconds_ge [of x] mult_right_mono [of "ceil_seconds x" "max 1 (ceil_seconds x)" usec]
    by (smt (verit) max.cobounded2 usec_pos)
  have m: "now + max 1 (ceil_seconds (minute - (now - minute_window_start s))) * usec \<le> t \<Longrightarrow>
      minute \<le> t - minute_window_start s"
    and h: "now + max 1 (ceil_seconds (hour - (now - hour_window_start s))) * usec \<le> t \<Longrightarrow>
      hour \<le> t - hour_window_start s" for t
    using ceil [of "minute - (now - minute_window_start s)" t] ceil [of "hour - (now - hour_window_start s)" t]
    by linarith+
  show ?thesis
    using assms m h
    by (auto simp: check_and_consume_def retry_after_seconds_def quota_step_def reset_minute_def
        reset_hour_def Let_def split: if_splits)
qed

theorem retry_after_mirrors_check_witness:
  "retry_after_seconds ''a'' 1 3 (fst (check_and_consume ''a'' 1 1 (register ''a'' demo_quota 0 new_rate_limiter))) \<noteq> None"
proof -
  let ?rl = "fst (check_and_consume ''a'' 1 1 (register ''a'' demo_quota 0 new_rate_limiter))"
  have "map_of (rl_quotas ?rl) ''a'' = Some demo_quota" by code_simp
  moreover have "map_of (rl_state ?rl) ''a'' =
    Some \<lparr>minute_count = 1, hour_count = 1, token_count = 1, minute_window_start = 0, hour_window_start = 0\<rparr>"
    by code_simp
  moreover have "snd (check_and_consume ''a'' 1 3 ?rl) = Inr (False, ''Minute request quota exceeded'')"
    by code_simp
  ultimately show ?thesis using retry_after_mirrors_check by blast
qed

end
