(* ===== verification/Audit_Chain.thy ===== *)
theory Audit_Chain
  imports Json Sha256
begin

text \<open>
  \<open>src/custos/audit.py\<close>, the records: fields, canonical preimage, record hash and the
  verification of a list of records. A timestamp is an integer of microseconds. The theorems
  say what a record hash commits to and what a verified chain with a known head excludes;
  where that rests on SHA-256, the alternative is an explicit collision between two of the
  preimages of the chains compared.
\<close>

subsection \<open>Records\<close>

definition RECORD_BINDING_CURRENT :: int where "RECORD_BINDING_CURRENT = 2"

definition COMMITMENT_NONE :: string where "COMMITMENT_NONE = ''none''"
definition COMMITMENT_UNSALTED_V0 :: string where "COMMITMENT_UNSALTED_V0 = ''unsalted-v0''"
definition COMMITMENT_SALTED_V1 :: string where "COMMITMENT_SALTED_V1 = ''salted-v1''"
definition COMMITMENT_PURGED_V1 :: string where "COMMITMENT_PURGED_V1 = ''purged-v1''"

definition COMMITMENT_FORMS :: "string list" where
  "COMMITMENT_FORMS = [COMMITMENT_NONE, COMMITMENT_UNSALTED_V0, COMMITMENT_SALTED_V1, COMMITMENT_PURGED_V1]"

lemmas commitment_defs = COMMITMENT_NONE_def COMMITMENT_UNSALTED_V0_def COMMITMENT_SALTED_V1_def
  COMMITMENT_PURGED_V1_def COMMITMENT_FORMS_def

record audit_record =
  timestamp :: int
  client_id :: string
  ar_action :: string
  ar_rule :: "string option"
  ar_reason :: string
  content_hash :: string
  record_hash :: string
  previous_hash :: string
  trace_id :: "string option"
  ar_policy_digest :: "string option"
  tenant_id :: "string option"
  binding_version :: int
  commitment :: string

definition opt_json :: "string option \<Rightarrow> json" where
  "opt_json x = (case x of None \<Rightarrow> JNull | Some s \<Rightarrow> JStr s)"

text \<open>\<open>AuditRecord.to\_dict\<close>.\<close>

definition record_to_dict :: "audit_record \<Rightarrow> (string \<times> json) list" where
  "record_to_dict r =
     [(''timestamp'', JFloat (timestamp r)), (''client_id'', JStr (client_id r)),
      (''action'', JStr (ar_action r)), (''triggered_rule'', opt_json (ar_rule r)),
      (''reason'', JStr (ar_reason r)), (''content_hash'', JStr (content_hash r)),
      (''record_hash'', JStr (record_hash r)), (''previous_hash'', JStr (previous_hash r)),
      (''trace_id'', opt_json (trace_id r)), (''policy_digest'', opt_json (ar_policy_digest r)),
      (''tenant_id'', opt_json (tenant_id r)), (''binding_version'', JInt (binding_version r)),
      (''commitment'', JStr (commitment r))]"

text \<open>A value that is missing or empty is left out of the preimage.\<close>

definition given :: "string option \<Rightarrow> string option" where
  "given x = (if x = Some [] then None else x)"

definition if_given :: "string \<Rightarrow> string option \<Rightarrow> (string \<times> json) list" where
  "if_given k x = (case given x of None \<Rightarrow> [] | Some s \<Rightarrow> [(k, JStr s)])"

text \<open>\<open>preimage\_fields\<close>.\<close>

definition preimage_fields :: "audit_record \<Rightarrow> string \<Rightarrow> (string \<times> json) list result" where
  "preimage_fields r prev =
     (let v = binding_version r in
      if v > RECORD_BINDING_CURRENT then Inl (UnknownBindingVersion v)
      else Inr (
        [(''timestamp'', JFloat (timestamp r)), (''client_id'', JStr (client_id r)),
         (''action'', JStr (ar_action r)), (''triggered_rule'', opt_json (ar_rule r)),
         (''reason'', JStr (ar_reason r)), (''content_hash'', JStr (content_hash r)),
         (''previous_hash'', JStr prev)]
        @ if_given ''policy_digest'' (ar_policy_digest r)
        @ if_given ''tenant_id'' (tenant_id r)
        @ (if v \<ge> 1 then (''binding'', JStr (CHR ''v'' # int_repr v)) # if_given ''trace_id'' (trace_id r) else [])
        @ (if v \<ge> 2 then [(''commitment'', JStr (if commitment r = [] then COMMITMENT_NONE else commitment r))]
           else [])))"

definition preimage_text :: "(string \<times> json) list \<Rightarrow> string" where
  "preimage_text fs = json_dumps default_fmt (JObj fs)"

definition compute_record_hash :: "audit_record \<Rightarrow> string \<Rightarrow> string result" where
  "compute_record_hash r prev = try_bind (preimage_fields r prev) (\<lambda>fs. Inr (sha256_text (preimage_text fs)))"

definition hash_content :: "string \<Rightarrow> string" where
  "hash_content content = sha256_text content"

definition GENESIS_HASH :: string where
  "GENESIS_HASH = replicate 64 (CHR ''0'')"

subsection \<open>Verification of a list of records\<close>

definition mismatch_msg :: "nat \<Rightarrow> string" where
  "mismatch_msg i = ''Chain broken at record '' @ int_repr (int i) @ '': previous_hash mismatch''"

definition version_msg :: "nat \<Rightarrow> int \<Rightarrow> string" where
  "version_msg i v = ''Record '' @ int_repr (int i) @ '' claims binding version '' @ int_repr v @
     '', which this build does not implement (up to '' @ int_repr RECORD_BINDING_CURRENT @
     ''). This is not a tampering finding: verify with a build that implements version '' @ int_repr v @ ''.''"

definition tamper_msg :: "nat \<Rightarrow> string" where
  "tamper_msg i = ''Record '' @ int_repr (int i) @ '' hash invalid -- tampering detected''"

fun verify_loop :: "nat \<Rightarrow> string \<Rightarrow> audit_record list \<Rightarrow> (bool \<times> string) result" where
  "verify_loop i prev [] = Inr (True, ''OK'')"
| "verify_loop i prev (r # rs) =
     (if previous_hash r \<noteq> prev then Inr (False, mismatch_msg i)
      else if binding_version r > RECORD_BINDING_CURRENT then Inr (False, version_msg i (binding_version r))
      else try_bind (compute_record_hash r prev) (\<lambda>expected.
        if record_hash r \<noteq> expected then Inr (False, tamper_msg i)
        else verify_loop (Suc i) (record_hash r) rs))"

definition verify_records :: "audit_record list \<Rightarrow> (bool \<times> string) result" where
  "verify_records rs = (if rs = [] then Inr (True, ''Empty chain -- OK'')
     else verify_loop 0 GENESIS_HASH rs)"

definition head_of :: "audit_record list \<Rightarrow> nat \<times> string" where
  "head_of rs = (if rs = [] then (0, GENESIS_HASH) else (length rs, record_hash (last rs)))"

subsection \<open>A well-formed chain, abstractly\<close>

text \<open>Each record names its predecessor's hash and carries its own.\<close>

fun well_linked :: "string \<Rightarrow> audit_record list \<Rightarrow> bool" where
  "well_linked prev [] = True"
| "well_linked prev (r # rs) =
     (previous_hash r = prev \<and> compute_record_hash r prev = Inr (record_hash r) \<and>
      well_linked (record_hash r) rs)"

lemma compute_hash_total:
  "binding_version r \<le> RECORD_BINDING_CURRENT \<Longrightarrow> \<exists>h. compute_record_hash r prev = Inr h"
  by (simp add: compute_record_hash_def preimage_fields_def Let_def)

lemma compute_hash_version:
  "compute_record_hash r prev = Inr h \<Longrightarrow> binding_version r \<le> RECORD_BINDING_CURRENT"
  by (auto simp: compute_record_hash_def preimage_fields_def Let_def split: if_splits)

lemma verify_loop_total: "\<exists>b m. verify_loop i prev rs = Inr (b, m)"
proof (induction rs arbitrary: i prev)
  case (Cons r rs)
  show ?case
  proof (cases "previous_hash r \<noteq> prev \<or> binding_version r > RECORD_BINDING_CURRENT")
    case False
    with compute_hash_total [of r prev] Cons show ?thesis by auto
  qed auto
qed auto

lemma verify_loop_ok: "(\<exists>m. verify_loop i prev rs = Inr (True, m)) \<longleftrightarrow> well_linked prev rs"
proof (induction rs arbitrary: i prev)
  case (Cons r rs)
  show ?case
  proof (cases "previous_hash r \<noteq> prev \<or> binding_version r > RECORD_BINDING_CURRENT")
    case True
    then show ?thesis by (auto dest: compute_hash_version)
  next
    case False
    then obtain h where "compute_record_hash r prev = Inr h" using compute_hash_total [of r prev] by auto
    with False Cons show ?thesis by auto
  qed
qed simp

lemma verify_records_ok: "(\<exists>m. verify_records rs = Inr (True, m)) \<longleftrightarrow> well_linked GENESIS_HASH rs"
  by (simp add: verify_records_def verify_loop_ok)

lemma verify_records_total: "\<exists>b m. verify_records rs = Inr (b, m)"
  using verify_loop_total [of 0 GENESIS_HASH rs] by (auto simp: verify_records_def)

lemma well_linked_append:
  "well_linked prev (xs @ ys) \<longleftrightarrow>
     well_linked prev xs \<and> well_linked (if xs = [] then prev else record_hash (last xs)) ys"
  by (induction xs arbitrary: prev) auto

lemma well_linked_snoc:
  "well_linked prev (xs @ [r]) \<longleftrightarrow> well_linked prev xs \<and>
     (let p = (if xs = [] then prev else record_hash (last xs)) in
      previous_hash r = p \<and> compute_record_hash r p = Inr (record_hash r))"
  by (simp add: well_linked_append Let_def)

lemma compute_hash_length: "compute_record_hash r prev = Inr h \<Longrightarrow> length h = 64"
  by (auto simp: compute_record_hash_def result_simps)

lemma well_linked_hash_length: "well_linked prev rs \<Longrightarrow> r \<in> set rs \<Longrightarrow> length (record_hash r) = 64"
  by (induction rs arbitrary: prev) (auto dest: compute_hash_length)

subsection \<open>What the preimage determines\<close>

text \<open>Two records are the same evidence when they agree on every field their version binds.\<close>

definition same_evidence :: "audit_record \<Rightarrow> audit_record \<Rightarrow> bool" where
  "same_evidence r s =
     (timestamp r = timestamp s \<and> client_id r = client_id s \<and> ar_action r = ar_action s \<and>
      ar_rule r = ar_rule s \<and> ar_reason r = ar_reason s \<and> content_hash r = content_hash s \<and>
      given (ar_policy_digest r) = given (ar_policy_digest s) \<and>
      given (tenant_id r) = given (tenant_id s) \<and>
      max 0 (binding_version r) = max 0 (binding_version s) \<and>
      (binding_version r \<ge> 1 \<longrightarrow> given (trace_id r) = given (trace_id s)) \<and>
      (binding_version r \<ge> 2 \<longrightarrow>
        (if commitment r = [] then COMMITMENT_NONE else commitment r) =
        (if commitment s = [] then COMMITMENT_NONE else commitment s)))"

lemma map_of_if_given [simp]: "map_of (if_given k x) k' = (if k' = k then map_option JStr (given x) else None)"
  by (simp add: if_given_def split: option.splits)

lemma fst_if_given: "fst ` set (if_given k x) \<subseteq> {k}" "distinct (map fst (if_given k x))"
  by (auto simp: if_given_def split: option.splits)

lemma keys_if_given: "k' \<in> fst ` set (if_given k x) \<Longrightarrow> k' = k"
  using fst_if_given(1) [of k x] by auto

lemma opt_json_inject [simp]: "opt_json x = opt_json y \<longleftrightarrow> x = y"
  by (auto simp: opt_json_def split: option.splits)

lemma sort_keys_opt_json [simp]: "sort_keys (opt_json x) = opt_json x"
  by (simp add: opt_json_def split: option.splits)

lemma preimage_keys_distinct:
  assumes "preimage_fields r prev = Inr fs"
  shows "distinct (map fst fs)"
  using assms
  by (cases "given (ar_policy_digest r)"; cases "given (tenant_id r)"; cases "given (trace_id r)")
     (auto simp: preimage_fields_def Let_def if_given_def split: if_splits)

lemma preimage_plain:
  assumes "preimage_fields r prev = Inr fs"
  shows "map (\<lambda>kv. (fst kv, sort_keys (snd kv))) fs = fs"
  using assms
  by (auto simp: preimage_fields_def Let_def if_given_def split: if_splits option.splits)

lemma preimage_text_lookup:
  assumes "preimage_fields r p = Inr fs" "preimage_fields s q = Inr gs"
    and "preimage_text fs = preimage_text gs"
  shows "map_of fs = map_of gs"
proof -
  have "sort_keys (JObj fs) = sort_keys (JObj gs)"
    using assms(3) unfolding preimage_text_def by (rule json_dumps_inject [OF fmt_ok_formats(1)])
  then have "sort_key fst fs = sort_key fst gs"
    by (simp add: preimage_plain [OF assms(1)] preimage_plain [OF assms(2)])
  then show ?thesis
    by (metis map_of_sort_key preimage_keys_distinct [OF assms(1)] preimage_keys_distinct [OF assms(2)])
qed

lemma version_text_inject:
  assumes "v \<le> RECORD_BINDING_CURRENT" "w \<le> RECORD_BINDING_CURRENT"
    and "(if v \<ge> 1 then Some (JStr (CHR ''v'' # int_repr v)) else None) =
         (if w \<ge> 1 then Some (JStr (CHR ''v'' # int_repr w)) else None)"
  shows "max 0 v = max 0 w"
  using assms by (auto split: if_splits)

lemma preimage_lookups:
  assumes "preimage_fields r p = Inr fs"
  shows "map_of fs ''timestamp'' = Some (JFloat (timestamp r))"
    "map_of fs ''client_id'' = Some (JStr (client_id r))"
    "map_of fs ''action'' = Some (JStr (ar_action r))"
    "map_of fs ''triggered_rule'' = Some (opt_json (ar_rule r))"
    "map_of fs ''reason'' = Some (JStr (ar_reason r))"
    "map_of fs ''content_hash'' = Some (JStr (content_hash r))"
    "map_of fs ''previous_hash'' = Some (JStr p)"
    "map_of fs ''policy_digest'' = map_option JStr (given (ar_policy_digest r))"
    "map_of fs ''tenant_id'' = map_option JStr (given (tenant_id r))"
    "map_of fs ''binding'' = (if binding_version r \<ge> 1 then Some (JStr (CHR ''v'' # int_repr (binding_version r))) else None)"
    "map_of fs ''trace_id'' = (if binding_version r \<ge> 1 then map_option JStr (given (trace_id r)) else None)"
    "map_of fs ''commitment'' = (if binding_version r \<ge> 2
       then Some (JStr (if commitment r = [] then COMMITMENT_NONE else commitment r)) else None)"
    "binding_version r \<le> RECORD_BINDING_CURRENT"
  using assms
  by (auto simp: preimage_fields_def Let_def map_add_def split: if_splits option.splits)

lemma map_option_JStr_inject [simp]: "map_option JStr x = map_option JStr y \<longleftrightarrow> x = y"
  by (cases x; cases y) auto

lemma preimage_inject:
  assumes "preimage_fields r p = Inr fs" "preimage_fields s q = Inr gs"
    and "preimage_text fs = preimage_text gs"
  shows "p = q \<and> same_evidence r s"
proof -
  have eq: "map_of fs k = map_of gs k" for k using preimage_text_lookup [OF assms] by simp
  note L = preimage_lookups [OF assms(1)] and M = preimage_lookups [OF assms(2)]
  have v: "max 0 (binding_version r) = max 0 (binding_version s)"
    using version_text_inject [OF L(13) M(13)] eq [of "''binding''"] by (simp only: L(10) M(10))
  then have ge: "binding_version r \<ge> 1 \<longleftrightarrow> binding_version s \<ge> 1" "binding_version r \<ge> 2 \<longleftrightarrow> binding_version s \<ge> 2"
    by auto
  have "timestamp r = timestamp s" using eq [of "''timestamp''"] by (simp add: L(1) M(1))
  moreover have "client_id r = client_id s" using eq [of "''client_id''"] by (simp add: L(2) M(2))
  moreover have "ar_action r = ar_action s" using eq [of "''action''"] by (simp add: L(3) M(3))
  moreover have "ar_rule r = ar_rule s" using eq [of "''triggered_rule''"] by (simp add: L(4) M(4))
  moreover have "ar_reason r = ar_reason s" using eq [of "''reason''"] by (simp add: L(5) M(5))
  moreover have "content_hash r = content_hash s" using eq [of "''content_hash''"] by (simp add: L(6) M(6))
  moreover have "p = q" using eq [of "''previous_hash''"] by (simp add: L(7) M(7))
  moreover have "given (ar_policy_digest r) = given (ar_policy_digest s)"
    using eq [of "''policy_digest''"] by (simp add: L(8) M(8))
  moreover have "given (tenant_id r) = given (tenant_id s)"
    using eq [of "''tenant_id''"] by (simp add: L(9) M(9))
  moreover have "binding_version r \<ge> 1 \<longrightarrow> given (trace_id r) = given (trace_id s)"
    using eq [of "''trace_id''"] ge(1) unfolding L(11) M(11) by (simp split: if_splits)
  moreover have "binding_version r \<ge> 2 \<longrightarrow>
        (if commitment r = [] then COMMITMENT_NONE else commitment r) =
        (if commitment s = [] then COMMITMENT_NONE else commitment s)"
    using eq [of "''commitment''"] ge(2) unfolding L(12) M(12) by (simp split: if_splits)
  ultimately show ?thesis using v by (simp only: same_evidence_def)
qed

text \<open>The texts hashed in a list of records, and a collision between two of them.\<close>

definition preimages :: "audit_record list \<Rightarrow> string list" where
  "preimages rs = concat (map (\<lambda>r. case preimage_fields r (previous_hash r) of
     Inr fs \<Rightarrow> [preimage_text fs] | Inl e \<Rightarrow> []) rs)"

definition hash_collision :: "audit_record list \<Rightarrow> audit_record list \<Rightarrow> bool" where
  "hash_collision xs ys \<longleftrightarrow> (\<exists>x \<in> set (preimages xs). \<exists>y \<in> set (preimages ys).
     x \<noteq> y \<and> sha256_text x = sha256_text y)"

lemma preimages_mono: "set xs \<subseteq> set ys \<Longrightarrow> set (preimages xs) \<subseteq> set (preimages ys)"
  unfolding preimages_def by auto

lemma hash_collision_mono:
  "hash_collision xs ys \<Longrightarrow> set xs \<subseteq> set xs' \<Longrightarrow> set ys \<subseteq> set ys' \<Longrightarrow> hash_collision xs' ys'"
  unfolding hash_collision_def by (meson preimages_mono subsetD)

lemma same_hash_cases:
  assumes "compute_record_hash r (previous_hash r) = Inr h" "compute_record_hash s (previous_hash s) = Inr h"
  shows "previous_hash r = previous_hash s \<and> same_evidence r s \<or> hash_collision [r] [s]"
proof -
  obtain fs gs where fs: "preimage_fields r (previous_hash r) = Inr fs" "sha256_text (preimage_text fs) = h"
    and gs: "preimage_fields s (previous_hash s) = Inr gs" "sha256_text (preimage_text gs) = h"
    using assms by (auto simp: compute_record_hash_def result_simps)
  show ?thesis
  proof (cases "preimage_text fs = preimage_text gs")
    case True
    then show ?thesis using preimage_inject [OF fs(1) gs(1)] by blast
  next
    case False
    then show ?thesis using fs gs by (auto simp: hash_collision_def preimages_def)
  qed
qed

lemma same_head_same_chain:
  assumes "well_linked p xs" "well_linked p ys" "length xs = length ys"
    and "xs \<noteq> [] \<Longrightarrow> record_hash (last xs) = record_hash (last ys)"
  shows "list_all2 (\<lambda>r s. same_evidence r s \<and> record_hash r = record_hash s) xs ys \<or> hash_collision xs ys"
  using assms
proof (induction xs arbitrary: ys rule: rev_induct)
  case Nil
  then show ?case by simp
next
  case (snoc x xs)
  obtain zs y where ys: "ys = zs @ [y]" "length xs = length zs"
    using snoc.prems(3) by (cases ys rule: rev_exhaust) auto
  have hx: "compute_record_hash x (previous_hash x) = Inr (record_hash x)"
    and hy: "compute_record_hash y (previous_hash y) = Inr (record_hash y)"
    using snoc.prems(1,2) by (auto simp: ys well_linked_snoc Let_def)
  have eq: "record_hash x = record_hash y" using snoc.prems(4) by (simp add: ys)
  from same_hash_cases [OF hx] hy eq
  have "previous_hash x = previous_hash y \<and> same_evidence x y \<or> hash_collision [x] [y]" by simp
  then show ?case
  proof
    assume "hash_collision [x] [y]"
    then show ?thesis by (intro disjI2, rule hash_collision_mono) (auto simp: ys)
  next
    assume same: "previous_hash x = previous_hash y \<and> same_evidence x y"
    have "xs \<noteq> [] \<Longrightarrow> record_hash (last xs) = record_hash (last zs)"
      using same snoc.prems(1,2) ys(2) by (cases zs) (auto simp: ys(1) well_linked_snoc Let_def split: if_splits)
    with snoc.IH [of zs] snoc.prems(1,2) ys
    have "list_all2 (\<lambda>r s. same_evidence r s \<and> record_hash r = record_hash s) xs zs \<or> hash_collision xs zs"
      by (simp add: well_linked_append)
    then show ?thesis
    proof
      assume "hash_collision xs zs"
      then show ?thesis by (intro disjI2, rule hash_collision_mono) (auto simp: ys)
    next
      assume "list_all2 (\<lambda>r s. same_evidence r s \<and> record_hash r = record_hash s) xs zs"
      with same eq ys show ?thesis by (auto simp: list_all2_appendI)
    qed
  qed
qed

lemma verify_loop_refused:
  "verify_loop k p rs = Inr (False, m) \<longleftrightarrow>
     (\<exists>us r vs. rs = us @ r # vs \<and> well_linked p us \<and>
       (let q = (if us = [] then p else record_hash (last us)); i = k + length us in
        previous_hash r \<noteq> q \<and> m = mismatch_msg i \<or>
        previous_hash r = q \<and> binding_version r > RECORD_BINDING_CURRENT \<and> m = version_msg i (binding_version r) \<or>
        previous_hash r = q \<and> binding_version r \<le> RECORD_BINDING_CURRENT \<and>
          compute_record_hash r q \<noteq> Inr (record_hash r) \<and> m = tamper_msg i))"
proof (induction rs arbitrary: k p)
  case Nil
  show ?case by simp
next
  case (Cons q rs)
  consider "previous_hash q \<noteq> p" | "previous_hash q = p" "binding_version q > RECORD_BINDING_CURRENT"
    | h where "previous_hash q = p" "binding_version q \<le> RECORD_BINDING_CURRENT" "compute_record_hash q p = Inr h"
    using compute_hash_total [of q p] by fastforce
  then show ?case
  proof cases
    case 1
    then show ?thesis unfolding ex_split_Cons by auto
  next
    case 2
    then show ?thesis unfolding ex_split_Cons by (auto dest: compute_hash_version)
  next
    case 3
    show ?thesis
    proof (cases "record_hash q = h")
      case True
      have "(if us = [] then record_hash q else record_hash (last us)) = record_hash (last (q # us))" for us
        by simp
      with 3 True Cons.IH [of "Suc k" "record_hash q"] show ?thesis
        unfolding ex_split_Cons by (auto simp: Let_def)
    next
      case False
      with 3 show ?thesis unfolding ex_split_Cons by auto
    qed
  qed
qed

subsection \<open>Properties\<close>

definition sealed :: "audit_record \<Rightarrow> audit_record" where
  "sealed r = (case compute_record_hash r (previous_hash r) of
     Inr h \<Rightarrow> r\<lparr>record_hash := h\<rparr> | Inl e \<Rightarrow> r)"

definition demo_record :: audit_record where
  "demo_record = sealed \<lparr>timestamp = 1000000, client_id = ''a'', ar_action = ''ALLOW'', ar_rule = None,
     ar_reason = ''ok'', content_hash = hash_content ''hi'', record_hash = [], previous_hash = GENESIS_HASH,
     trace_id = Some ''t'', ar_policy_digest = None, tenant_id = None, binding_version = 2,
     commitment = ''none''\<rparr>"

lemma preimage_ignores_hash: "preimage_fields (r\<lparr>record_hash := h\<rparr>) p = preimage_fields r p"
  by (simp add: preimage_fields_def Let_def)

lemma compute_ignores_hash [simp]: "compute_record_hash (r\<lparr>record_hash := h\<rparr>) p = compute_record_hash r p"
  by (simp add: compute_record_hash_def preimage_ignores_hash)

lemma sealed_linked:
  assumes "binding_version r \<le> RECORD_BINDING_CURRENT"
  shows "well_linked (previous_hash r) [sealed r]"
proof -
  obtain h where "compute_record_hash r (previous_hash r) = Inr h" using compute_hash_total [OF assms] by blast
  then show ?thesis by (simp add: sealed_def)
qed

lemma demo_record_verifies: "\<exists>m. verify_records [demo_record] = Inr (True, m)"
  unfolding verify_records_ok demo_record_def
  using sealed_linked [of "\<lparr>timestamp = 1000000, client_id = ''a'', ar_action = ''ALLOW'', ar_rule = None,
     ar_reason = ''ok'', content_hash = hash_content ''hi'', record_hash = [], previous_hash = GENESIS_HASH,
     trace_id = Some ''t'', ar_policy_digest = None, tenant_id = None, binding_version = 2,
     commitment = ''none''\<rparr>"] by (simp add: RECORD_BINDING_CURRENT_def)

text \<open>C2: the head of a verified chain determines the whole history: if two chains both verify and
  have the same \<open>head()\<close> (length and hash), then record by record they carry the same evidence
  (every bound field: time, client, action, rule, reason, content hash, and policy digest,
  tenant, trace and commitment as far as the record's version binds them) and the same hashes,
  unless two different preimages among the two chains collide under SHA-256. So a history
  rewritten under an anchored head either does not verify or exhibits a collision.\<close>

theorem head_determines_history:
  assumes "verify_records xs = Inr (True, m)" and "verify_records ys = Inr (True, m')"
    and "head_of xs = head_of ys"
  shows "list_all2 (\<lambda>r s. same_evidence r s \<and> record_hash r = record_hash s) xs ys \<or> hash_collision xs ys"
proof -
  have "well_linked GENESIS_HASH xs" "well_linked GENESIS_HASH ys"
    using assms(1,2) verify_records_ok by blast+
  moreover have "length xs = length ys" "xs \<noteq> [] \<Longrightarrow> record_hash (last xs) = record_hash (last ys)"
    using assms(3) by (auto simp: head_of_def split: if_splits)
  ultimately show ?thesis by (rule same_head_same_chain)
qed

theorem head_determines_history_witness:
  "list_all2 (\<lambda>r s. same_evidence r s \<and> record_hash r = record_hash s) [demo_record] [demo_record] \<or>
     hash_collision [demo_record] [demo_record]"
  using demo_record_verifies head_determines_history by blast

text \<open>C12: an edit in place is found: if a record of a verified chain is replaced by one that keeps
  its stored hash but differs in the evidence it carries, \<open>verify\<close> does not report OK, unless
  the old and the new preimage collide.\<close>

theorem edit_is_detected:
  assumes "verify_records rs = Inr (True, m)" and "i < length rs"
    and "record_hash r' = record_hash (rs ! i)" and "\<not> same_evidence (rs ! i) r'"
  shows "(\<exists>msg. verify_records (rs[i := r']) = Inr (False, msg)) \<or> hash_collision [rs ! i] [r']"
proof (rule disjCI)
  assume "\<not> hash_collision [rs ! i] [r']"
  have wl: "well_linked GENESIS_HASH rs" using assms(1) verify_records_ok by blast
  have nth: "compute_record_hash (xs ! i) (previous_hash (xs ! i)) = Inr (record_hash (xs ! i))"
    if "well_linked p xs" "i < length xs" for p xs i
    using that by (induction xs arbitrary: i p) (auto simp: nth_Cons split: nat.splits)
  show "\<exists>msg. verify_records (rs[i := r']) = Inr (False, msg)"
  proof (rule ccontr)
    assume "\<not> ?thesis"
    then have "\<exists>msg. verify_records (rs[i := r']) = Inr (True, msg)"
      using verify_records_total [of "rs[i := r']"] by (metis (full_types))
    then have "well_linked GENESIS_HASH (rs[i := r'])" by (simp add: verify_records_ok)
    from nth [OF this, of i] nth [OF wl assms(2)] assms(2,3)
    have "compute_record_hash r' (previous_hash r') = Inr (record_hash (rs ! i))"
      "compute_record_hash (rs ! i) (previous_hash (rs ! i)) = Inr (record_hash (rs ! i))" by simp_all
    with same_hash_cases assms(4) \<open>\<not> hash_collision [rs ! i] [r']\<close> show False by blast
  qed
qed

theorem edit_is_detected_witness:
  "(\<exists>msg. verify_records [demo_record\<lparr>ar_reason := ''no''\<rparr>] = Inr (False, msg)) \<or>
     hash_collision [demo_record] [demo_record\<lparr>ar_reason := ''no''\<rparr>]"
proof -
  have "ar_reason demo_record = ''ok''"
    by (simp add: demo_record_def sealed_def split: sum.splits)
  then have "\<not> same_evidence demo_record (demo_record\<lparr>ar_reason := ''no''\<rparr>)"
    by (simp add: same_evidence_def)
  with demo_record_verifies edit_is_detected [of "[demo_record]" _ 0 "demo_record\<lparr>ar_reason := ''no''\<rparr>"]
  show ?thesis by auto
qed

text \<open>What a failed verification reports is the first defect, with its kind: the records before
  it are well linked, and it is a predecessor mismatch, or a record of a version this build does
  not implement (never called tampering), or a hash that does not recompute. \<open>verify\<close> never
  raises.\<close>

theorem verify_reports_first_defect:
  "verify_records rs = Inr (False, m) \<longleftrightarrow>
     (\<exists>us r vs. rs = us @ r # vs \<and> well_linked GENESIS_HASH us \<and>
       (let p = snd (head_of us); i = length us in
        previous_hash r \<noteq> p \<and> m = mismatch_msg i \<or>
        previous_hash r = p \<and> binding_version r > RECORD_BINDING_CURRENT \<and> m = version_msg i (binding_version r) \<or>
        previous_hash r = p \<and> binding_version r \<le> RECORD_BINDING_CURRENT \<and>
          compute_record_hash r p \<noteq> Inr (record_hash r) \<and> m = tamper_msg i))"
proof -
  have "(if us = [] then GENESIS_HASH else record_hash (last us)) = snd (head_of us)" for us
    by (simp add: head_of_def)
  then show ?thesis
    using verify_loop_refused [of 0 GENESIS_HASH rs m] by (simp add: verify_records_def Let_def)
qed

end
