(* ===== verification/Audit_Store.thy ===== *)
theory Audit_Store
  imports Audit_Chain
begin

text \<open>
  \<open>src/custos/audit.py\<close>, the chain and its backends, and \<open>src/custos/audit\_persistence.py\<close>.
  The table \<open>audit\_records\<close> is the list of its rows in id order. A chain is one process's view:
  the records it holds in memory, its tenant and its backend. Operations take the store and
  return it. \<open>fault\<close> is what the database itself raises at an insert (a full disk, a lost
  connection), with its SQLSTATE when it has one; None is an insert the database carries out.
  What a chain needs of the store is the locale \<open>chain\_storage\<close>; with it, any number of
  writers in any interleaving never fork a chain.
\<close>

subsection \<open>Backends\<close>

type_synonym audit_store = "audit_record list"

datatype audit_backend =
    InMemoryBackend
  | SQLiteBackend "string option"
  | PostgreSQLBackend "string option"

record store_fault =
  sf_sqlstate :: "string option"
  sf_exn :: exn

definition full_store_sqlstates :: "string list" where
  "full_store_sqlstates = [''53100'', ''53200'']"

definition full_store_text :: "string list" where
  "full_store_text = [''database or disk is full'', ''no space left on device'', ''disk full'',
     ''could not extend file'', ''insufficient space'']"

definition is_full_store_error :: "store_fault \<Rightarrow> bool" where
  "is_full_store_error f =
     ((case sf_sqlstate f of Some c \<Rightarrow> c \<in> set full_store_sqlstates | None \<Rightarrow> False) \<or>
      list_ex (contains (lower (exn_text (sf_exn f)))) full_store_text)"

text \<open>\<open>COALESCE(tenant\_id, '')\<close>, the key of the unique index together with the predecessor.\<close>

definition scope_of :: "audit_record \<Rightarrow> string" where
  "scope_of r = (case tenant_id r of None \<Rightarrow> [] | Some t \<Rightarrow> t)"

definition index_key :: "audit_record \<Rightarrow> string \<times> string" where
  "index_key r = (scope_of r, previous_hash r)"

definition fork_exn :: exn where
  "fork_exn = ChainForkError ''another writer extended this chain after this process loaded it. The predecessor this record would append after is already claimed in the store, so appending would fork the chain. Two writers must not share one store: reload the chain before appending.''"

definition full_exn :: exn where
  "full_exn = AuditStoreFull ''the audit store is full, so this decision was not recorded and the chain was not advanced''"

definition forked_store_exn :: exn where
  "forked_store_exn = ChainForkError ''this store already contains a fork: more than one record claims the same predecessor within one tenant, which is the state two writers produce. Refusing to open it, because appending to a store that no longer verifies would extend a chain nobody can check. Preserve the store and investigate.''"

text \<open>Opening builds the unique index; only the SQLite backend translates its failure.\<close>

fun open_backend :: "audit_backend \<Rightarrow> audit_store \<Rightarrow> unit result" where
  "open_backend InMemoryBackend st = Inr ()"
| "open_backend (SQLiteBackend t) st =
     (if distinct (map index_key st) then Inr () else Inl forked_store_exn)"
| "open_backend (PostgreSQLBackend t) st =
     (if distinct (map index_key st) then Inr () else Inl (IntegrityError ''could not create unique index''))"

definition sqlite_save_error :: "store_fault \<Rightarrow> exn" where
  "sqlite_save_error f = (case sf_exn f of
     IntegrityError m \<Rightarrow> fork_exn
   | OperationalError m \<Rightarrow> if is_full_store_error f then full_exn else sf_exn f
   | e \<Rightarrow> e)"

definition pg_save_error :: "store_fault \<Rightarrow> exn" where
  "pg_save_error f =
     (if contains (lower (exn_text (sf_exn f))) ''duplicate key'' \<or> (\<exists>m. sf_exn f = IntegrityError m) then fork_exn
      else if is_full_store_error f then full_exn
      else sf_exn f)"

definition sqlite_save :: "store_fault option \<Rightarrow> audit_record \<Rightarrow> audit_store \<Rightarrow> audit_store \<times> unit result" where
  [simp]: "sqlite_save fault r st = (case fault of
     Some f \<Rightarrow> (st, Inl (sqlite_save_error f))
   | None \<Rightarrow> if index_key r \<in> set (map index_key st)
       then (st, Inl (sqlite_save_error \<lparr>sf_sqlstate = None, sf_exn = IntegrityError ''UNIQUE constraint failed''\<rparr>))
       else (st @ [r], Inr ()))"

definition pg_save :: "store_fault option \<Rightarrow> audit_record \<Rightarrow> audit_store \<Rightarrow> audit_store \<times> unit result" where
  [simp]: "pg_save fault r st = (case fault of
     Some f \<Rightarrow> (st, Inl (pg_save_error f))
   | None \<Rightarrow> if index_key r \<in> set (map index_key st)
       then (st, Inl (pg_save_error \<lparr>sf_sqlstate = Some ''23505'',
              sf_exn = IntegrityError ''duplicate key value violates unique constraint''\<rparr>))
       else (st @ [r], Inr ()))"

fun backend_save :: "audit_backend \<Rightarrow> store_fault option \<Rightarrow> audit_record \<Rightarrow> audit_store \<Rightarrow> audit_store \<times> unit result" where
  "backend_save InMemoryBackend fault r st = (st, Inr ())"
| "backend_save (SQLiteBackend t) fault r st = sqlite_save fault r st"
| "backend_save (PostgreSQLBackend t) fault r st = pg_save fault r st"

definition load_row :: "audit_record \<Rightarrow> audit_record" where
  "load_row r = (if commitment r = [] then r\<lparr>commitment := COMMITMENT_NONE\<rparr> else r)"

definition scoped_rows :: "string \<Rightarrow> audit_store \<Rightarrow> audit_record list" where
  "scoped_rows t st = map load_row (filter (\<lambda>r. scope_of r = t) st)"

definition sqlite_load :: "string option \<Rightarrow> audit_store \<Rightarrow> audit_record list" where
  [simp]: "sqlite_load t st = (case t of Some u \<Rightarrow> scoped_rows u st | None \<Rightarrow> map load_row st)"

definition pg_load :: "string option \<Rightarrow> audit_store \<Rightarrow> audit_record list" where
  [simp]: "pg_load t st = (case t of Some u \<Rightarrow> scoped_rows u st | None \<Rightarrow> map load_row st)"

fun load_all :: "audit_backend \<Rightarrow> audit_store \<Rightarrow> audit_record list" where
  "load_all InMemoryBackend st = []"
| "load_all (SQLiteBackend t) st = sqlite_load t st"
| "load_all (PostgreSQLBackend t) st = pg_load t st"

definition build_backend ::
  "environment \<Rightarrow> string option \<Rightarrow> string option \<Rightarrow> string option \<Rightarrow> audit_backend" where
  "build_backend env db_path database_url tenant =
     (let url = str_or database_url (env ''DATABASE_URL''); path = str_or db_path (env ''AUDIT_DB_PATH'') in
      if truthy_str url then PostgreSQLBackend tenant
      else if truthy_str path then SQLiteBackend tenant
      else InMemoryBackend)"

fun audit_backend_type :: "audit_backend \<Rightarrow> string" where
  "audit_backend_type InMemoryBackend = ''InMemoryBackend''"
| "audit_backend_type (SQLiteBackend t) = ''SQLiteBackend''"
| "audit_backend_type (PostgreSQLBackend t) = ''PostgreSQLBackend''"

definition bound_evidence_required :: "environment \<Rightarrow> bool" where
  "bound_evidence_required env =
     (lower (strip (env_or_empty env ''CUSTOS_AUDIT_REQUIRE_BOUND'')) \<in> set [''1'', ''true'', ''yes'', ''on''] \<or>
      lower (strip (env_or_empty env ''CUSTOS_ENV'')) = ''production'')"

subsection \<open>The chain of one process\<close>

record audit_chain =
  ac_records :: "audit_record list"
  ac_tenant :: "string option"
  ac_backend :: audit_backend
  ac_db_path :: "string option"

definition chain_scopes :: "audit_record list \<Rightarrow> string list" where
  "chain_scopes rs = remdups (map scope_of rs)"

definition mixed_store_exn :: "string list \<Rightarrow> exn" where
  "mixed_store_exn scopes = ChainForkError (''this store holds records for more than one tenant ('' @
     join '', '' (sort scopes) @ ''), so it cannot be opened as a single chain. Open it with tenant_id set to the tenant whose chain you mean, or use one store per tenant.'')"

text \<open>\<open>AuditChain.\_\_init\_\_\<close> on the store its backend names.\<close>

definition new_chain ::
  "environment \<Rightarrow> string option \<Rightarrow> string option \<Rightarrow> string option \<Rightarrow> audit_backend option \<Rightarrow> audit_store \<Rightarrow> audit_chain result" where
  "new_chain env db_path database_url tenant backend st =
     (let b = (case backend of Some b \<Rightarrow> b | None \<Rightarrow> build_backend env db_path database_url tenant) in
      try_bind (open_backend b st) (\<lambda>_.
      let rs = load_all b st; scopes = chain_scopes rs in
      if tenant = None \<and> length scopes > 1 then Inl (mixed_store_exn scopes)
      else Inr \<lparr>ac_records = rs, ac_tenant = tenant, ac_backend = b,
                ac_db_path = str_or db_path (env ''AUDIT_DB_PATH'')\<rparr>))"

record record_args =
  ra_client :: string
  ra_action :: string
  ra_reason :: string
  ra_content :: string
  ra_rule :: "string option"
  ra_trace :: "string option"
  ra_digest :: "string option"
  ra_tenant :: "string option"
  ra_commitment :: string

definition call_args :: "string \<Rightarrow> string \<Rightarrow> string \<Rightarrow> string \<Rightarrow> record_args" where
  "call_args client act reason content = \<lparr>ra_client = client, ra_action = act, ra_reason = reason,
     ra_content = content, ra_rule = None, ra_trace = None, ra_digest = None, ra_tenant = None,
     ra_commitment = COMMITMENT_NONE\<rparr>"

definition record_tenant :: "audit_chain \<Rightarrow> string option \<Rightarrow> string option result" where
  "record_tenant c t = (case t of
     None \<Rightarrow> Inr (ac_tenant c)
   | Some u \<Rightarrow> (case ac_tenant c of
       Some own \<Rightarrow> if u \<noteq> own then Inl (ValueError (''this chain is scoped to tenant '' @ py_repr own @
           '' and cannot record for tenant '' @ py_repr u @ ''; open the other tenant'' @ [CHR 0x27] @ ''s chain''))
         else Inr (Some u)
     | None \<Rightarrow> Inr (Some u)))"

definition latest_hash :: "audit_chain \<Rightarrow> string" where
  "latest_hash c = (if ac_records c = [] then GENESIS_HASH else record_hash (last (ac_records c)))"

definition new_entry :: "audit_chain \<Rightarrow> int \<Rightarrow> string option \<Rightarrow> record_args \<Rightarrow> audit_record" where
  "new_entry c now tenant a = \<lparr>timestamp = now, client_id = ra_client a, ar_action = ra_action a,
     ar_rule = ra_rule a, ar_reason = ra_reason a, content_hash = hash_content (ra_content a),
     record_hash = [], previous_hash = latest_hash c, trace_id = ra_trace a,
     ar_policy_digest = ra_digest a, tenant_id = tenant, binding_version = RECORD_BINDING_CURRENT,
     commitment = ra_commitment a\<rparr>"

definition missing_evidence :: "record_args \<Rightarrow> string list" where
  "missing_evidence a = (if truthy_str (ra_digest a) then [] else [''policy_digest'']) @
     (if truthy_str (ra_trace a) then [] else [''trace_id''])"

text \<open>The checks of \<open>record\<close> up to the sealed entry.\<close>

definition seal_entry :: "environment \<Rightarrow> audit_chain \<Rightarrow> int \<Rightarrow> record_args \<Rightarrow> audit_record result" where
  "seal_entry env c now a =
     (if ra_commitment a \<notin> set COMMITMENT_FORMS then
        Inl (ValueError (''unknown commitment form '' @ py_repr (ra_commitment a) @ ''; expected one of '' @
          join '', '' COMMITMENT_FORMS))
      else try_bind (record_tenant c (ra_tenant a)) (\<lambda>tenant.
        let entry = new_entry c now tenant a in
        if bound_evidence_required env \<and> missing_evidence a \<noteq> [] then
          Inl (ValueError (''CUSTOS_AUDIT_REQUIRE_BOUND is set but the record is missing '' @
            join '', '' (missing_evidence a) @ '' -- the preimage would carry an unbound record''))
        else try_bind (compute_record_hash entry (previous_hash entry)) (\<lambda>h. Inr (entry\<lparr>record_hash := h\<rparr>))))"

text \<open>\<open>AuditChain.record\<close>: persist first, then append.\<close>

definition chain_record ::
  "environment \<Rightarrow> int \<Rightarrow> store_fault option \<Rightarrow> record_args \<Rightarrow> audit_chain \<times> audit_store \<Rightarrow>
   (audit_chain \<times> audit_store) \<times> audit_record result" where
  "chain_record env now fault a cs = (case cs of (c, st) \<Rightarrow>
     (case seal_entry env c now a of
        Inl e \<Rightarrow> ((c, st), Inl e)
      | Inr entry \<Rightarrow> (case backend_save (ac_backend c) fault entry st of
          (st', Inl e) \<Rightarrow> ((c, st'), Inl e)
        | (st', Inr _) \<Rightarrow> ((c\<lparr>ac_records := ac_records c @ [entry]\<rparr>, st'), Inr entry))))"

definition append_reconciliation ::
  "environment \<Rightarrow> int \<Rightarrow> store_fault option \<Rightarrow> string \<Rightarrow> string \<Rightarrow> string \<Rightarrow> string \<Rightarrow> string \<Rightarrow>
   string option \<Rightarrow> string option \<Rightarrow> audit_chain \<times> audit_store \<Rightarrow>
   (audit_chain \<times> audit_store) \<times> audit_record result" where
  "append_reconciliation env now fault client trace rule content reason digest tenant cs =
     (if trace = [] then (cs, Inl (ValueError ''a reconciliation record needs the trace_id it reconciles''))
      else if rule = [] then (cs, Inl (ValueError ''a reconciliation record needs the rule that identifies it''))
      else chain_record env now fault ((call_args client ''DENY'' reason content)
        \<lparr>ra_rule := Some rule, ra_trace := Some trace, ra_digest := digest, ra_tenant := tenant\<rparr>) cs)"

definition chain_verify :: "audit_chain \<Rightarrow> (bool \<times> string) result" where
  "chain_verify c = verify_records (ac_records c)"

definition chain_head :: "audit_chain \<Rightarrow> nat \<times> string" where
  "chain_head c = head_of (ac_records c)"

definition get_records :: "string option \<Rightarrow> audit_chain \<Rightarrow> (string \<times> json) list list" where
  "get_records client c = map record_to_dict
     (if truthy_str client then filter (\<lambda>r. Some (client_id r) = client) (ac_records c) else ac_records c)"

definition chain_length :: "audit_chain \<Rightarrow> nat" where
  "chain_length c = length (ac_records c)"

subsection \<open>Persistence of the audit trail\<close>

definition normalise_backend :: "string \<Rightarrow> string" where
  "normalise_backend b = lower (filter (\<lambda>c. c \<noteq> CHR ''-'' \<and> c \<noteq> CHR ''_'') b)"

definition is_durable :: "string \<Rightarrow> bool" where
  "is_durable b = (normalise_backend b \<notin> set [''inmemorybackend''])"

definition audit_store_source :: "environment \<Rightarrow> string" where
  "audit_store_source env =
     (if truthy_str (env ''DATABASE_URL'') then ''DATABASE_URL''
      else if truthy_str (env ''AUDIT_DB_PATH'') then ''AUDIT_DB_PATH'' else ''none'')"

definition require_durable_audit :: "environment \<Rightarrow> string \<Rightarrow> string option \<Rightarrow> (string \<times> json) list result" where
  "require_durable_audit env btype env_arg =
     (let raw = (case env_arg of Some e \<Rightarrow> e | None \<Rightarrow> getenv env ''CUSTOS_ENV'' ''development'');
          environment = lower (if raw = [] then ''development'' else raw);
          durable = is_durable btype;
          source = audit_store_source env in
      if environment = ''production'' \<and> \<not> durable then
        Inl (AuditPersistenceRefused
          (if source \<noteq> ''none'' then source @ '' is set but the chain in force is '' @ btype @
             ''. The store configuration was read before the variable was, so the chain was built in-memory anyway. Configure the store in the process environment (before import) rather than at runtime.''
           else ''CUSTOS_ENV=production with audit_backend='' @ btype @
             '', which keeps no records once this process exits. A production process must not serve an audit trail it cannot keep. Set AUDIT_DB_PATH (SQLite) or DATABASE_URL (PostgreSQL) so the records survive a restart, or unset CUSTOS_ENV to run as development. This refusal exists because the alternative is a service that reports a backend and loses the records it names.''))
      else Inr [(''audit_backend'', JStr btype), (''audit_durable'', JBool durable),
        (''audit_store_source'', JStr source), (''environment'', JStr environment),
        (''audit_durability_note'', JStr (if durable
          then ''records survive this process; per-tenant scoping keeps each tenant'' @ [CHR 0x27] @ ''s chain separate''
          else ''records do not survive a restart, and the previous_hash constraint that prevents a forked chain does not apply, because no store is shared. Development default, refused in production.''))])"

subsection \<open>What a chain needs of a store\<close>

text \<open>
  \<open>rows t s\<close> is what loading the chain of tenant \<open>t\<close> returns. A save that returns has appended
  its record to the rows of its tenant and to no others, and its predecessor was not
  claimed before; a save that raises has changed nothing.
\<close>

locale chain_storage =
  fixes save :: "'f \<Rightarrow> audit_record \<Rightarrow> 's \<Rightarrow> 's \<times> unit result"
    and rows :: "string \<Rightarrow> 's \<Rightarrow> audit_record list"
  assumes saved: "snd (save f r s) = Inr u \<Longrightarrow> commitment r \<noteq> [] \<Longrightarrow>
      rows t (fst (save f r s)) = (if scope_of r = t then rows t s @ [r] else rows t s)"
    and claimed: "snd (save f r s) = Inr u \<Longrightarrow> previous_hash r \<notin> previous_hash ` set (rows (scope_of r) s)"
    and refused: "snd (save f r s) = Inl e \<Longrightarrow> fst (save f r s) = s"
begin

text \<open>A writer that holds a prefix of the rows and extends its own last record can only have
  been saved if it held all of them.\<close>

lemma no_fork:
  assumes "well_linked GENESIS_HASH (rows (scope_of r) s)" and "prefix mem (rows (scope_of r) s)"
    and "previous_hash r = snd (head_of mem)" and "snd (save f r s) = Inr u"
  shows "mem = rows (scope_of r) s"
proof (rule ccontr)
  assume "mem \<noteq> rows (scope_of r) s"
  with assms(2) obtain q qs where rest: "rows (scope_of r) s = mem @ q # qs"
    by (metis append_Nil2 neq_Nil_conv prefix_def)
  with assms(1) have "previous_hash q = snd (head_of mem)"
    by (auto simp: well_linked_append head_of_def split: if_splits)
  moreover have "q \<in> set (rows (scope_of r) s)" by (simp add: rest)
  ultimately show False using claimed [OF assms(4)] assms(3) by (metis imageI)
qed

lemma save_extends:
  assumes "well_linked GENESIS_HASH (rows (scope_of r) s)" and "prefix mem (rows (scope_of r) s)"
    and "previous_hash r = snd (head_of mem)" and "compute_record_hash r (previous_hash r) = Inr (record_hash r)"
    and "commitment r \<noteq> []" and "snd (save f r s) = Inr u"
  shows "rows (scope_of r) (fst (save f r s)) = mem @ [r] \<and>
    well_linked GENESIS_HASH (rows (scope_of r) (fst (save f r s)))"
proof -
  have mem: "mem = rows (scope_of r) s" by (rule no_fork [OF assms(1-3,6)])
  have new: "rows (scope_of r) (fst (save f r s)) = rows (scope_of r) s @ [r]"
    using saved [OF assms(6,5)] by simp
  from assms(1,3,4) have "well_linked GENESIS_HASH (rows (scope_of r) s @ [r])"
    by (auto simp: well_linked_snoc mem head_of_def Let_def split: if_splits)
  with mem new show ?thesis by simp
qed

end

fun durable :: "audit_backend \<Rightarrow> bool" where
  "durable InMemoryBackend = False"
| "durable (SQLiteBackend t) = True"
| "durable (PostgreSQLBackend t) = True"

lemma backend_save_durable:
  assumes "durable b" and "snd (backend_save b fault r st) = Inr u"
  shows "fst (backend_save b fault r st) = st @ [r] \<and> index_key r \<notin> set (map index_key st)"
  using assms by (cases b) (auto split: option.splits if_splits)

lemma backend_save_stored:
  assumes "backend_save b fault r st = (st', Inr u)"
  shows "if durable b then st' = st @ [r] \<and> index_key r \<notin> set (map index_key st) else st' = st"
proof (cases b)
  case InMemoryBackend
  with assms show ?thesis by simp
qed (use assms backend_save_durable [of b fault r st u] in simp_all)

lemma backend_save_refused: "snd (backend_save b fault r st) = Inl e \<Longrightarrow> fst (backend_save b fault r st) = st"
  by (cases b) (auto split: option.splits if_splits)

lemma load_row_simps [simp]:
  "scope_of (load_row r) = scope_of r" "previous_hash (load_row r) = previous_hash r"
  "commitment r \<noteq> [] \<Longrightarrow> load_row r = r"
  by (simp_all add: load_row_def scope_of_def)

lemma scoped_rows_snoc:
  "scoped_rows t (st @ [r]) = scoped_rows t st @ (if scope_of r = t then [load_row r] else [])"
  by (simp add: scoped_rows_def)

lemma scoped_rows_claimed:
  assumes "index_key r \<notin> set (map index_key st)"
  shows "previous_hash r \<notin> previous_hash ` set (scoped_rows (scope_of r) st)"
  using assms by (auto simp: scoped_rows_def index_key_def image_iff)

text \<open>Any durable backend, of either engine and of any scope, on one shared store.\<close>

definition durable_save :: "audit_backend \<times> store_fault option \<Rightarrow> audit_record \<Rightarrow> audit_store \<Rightarrow> audit_store \<times> unit result" where
  "durable_save bf r st = (if durable (fst bf) then backend_save (fst bf) (snd bf) r st
     else (st, Inl (OtherError ''not a durable backend'')))"

interpretation store_chain: chain_storage durable_save scoped_rows
proof
  fix f r s t and u :: unit and e
  show "snd (durable_save f r s) = Inr u \<Longrightarrow> commitment r \<noteq> [] \<Longrightarrow>
      scoped_rows t (fst (durable_save f r s)) = (if scope_of r = t then scoped_rows t s @ [r] else scoped_rows t s)"
    using backend_save_durable [of "fst f" "snd f" r s u]
    by (auto simp: durable_save_def scoped_rows_snoc split: if_splits)
  show "snd (durable_save f r s) = Inr u \<Longrightarrow> previous_hash r \<notin> previous_hash ` set (scoped_rows (scope_of r) s)"
    using backend_save_durable [of "fst f" "snd f" r s u] scoped_rows_claimed [of r s]
    by (auto simp: durable_save_def split: if_splits)
  show "snd (durable_save f r s) = Inl e \<Longrightarrow> fst (durable_save f r s) = s"
    using backend_save_refused [of "fst f" "snd f" r s e]
    by (auto simp: durable_save_def split: if_splits)
qed

subsection \<open>Facts about record\<close>

lemma seal_entry_Inr:
  assumes "seal_entry env c now a = Inr r"
  shows "previous_hash r = latest_hash c \<and> compute_record_hash r (previous_hash r) = Inr (record_hash r) \<and>
    commitment r = ra_commitment a \<and> commitment r \<noteq> [] \<and> timestamp r = now \<and>
    client_id r = ra_client a \<and> ar_action r = ra_action a \<and> ar_rule r = ra_rule a \<and>
    ar_reason r = ra_reason a \<and> content_hash r = hash_content (ra_content a) \<and>
    trace_id r = ra_trace a \<and> ar_policy_digest r = ra_digest a \<and>
    record_tenant c (ra_tenant a) = Inr (tenant_id r) \<and> binding_version r = RECORD_BINDING_CURRENT \<and>
    (bound_evidence_required env \<longrightarrow> missing_evidence a = [])"
proof -
  obtain tenant h where t: "record_tenant c (ra_tenant a) = Inr tenant"
    and h: "compute_record_hash (new_entry c now tenant a) (previous_hash (new_entry c now tenant a)) = Inr h"
    and r: "r = (new_entry c now tenant a)\<lparr>record_hash := h\<rparr>"
    and ok: "ra_commitment a \<in> set COMMITMENT_FORMS" "bound_evidence_required env \<longrightarrow> missing_evidence a = []"
    using assms by (auto simp: seal_entry_def result_simps Let_def split: if_splits)
  from h have "compute_record_hash r (previous_hash r) = Inr (record_hash r)" by (simp add: r)
  moreover have "ra_commitment a \<noteq> []" using ok(1) by (auto simp: commitment_defs)
  ultimately show ?thesis using t ok(2) by (simp add: r new_entry_def)
qed

lemma seal_entry_total:
  assumes "ra_commitment a \<in> set COMMITMENT_FORMS" and "record_tenant c (ra_tenant a) = Inr t"
    and "bound_evidence_required env \<longrightarrow> missing_evidence a = []"
  shows "\<exists>r. seal_entry env c now a = Inr r"
proof -
  let ?e = "new_entry c now t a"
  obtain h where "compute_record_hash ?e (previous_hash ?e) = Inr h"
    using compute_hash_total [of ?e "previous_hash ?e"] by (auto simp: new_entry_def)
  with assms show ?thesis by (auto simp: seal_entry_def Let_def)
qed

lemma record_tenant_scoped:
  "record_tenant c t = Inr u \<Longrightarrow> ac_tenant c = Some own \<Longrightarrow> u = Some own"
  by (auto simp: record_tenant_def split: option.splits if_splits)

lemma chain_record_Inr:
  assumes "chain_record env now fault a (c, st) = ((c', st'), Inr r)"
  shows "seal_entry env c now a = Inr r \<and> backend_save (ac_backend c) fault r st = (st', Inr ()) \<and>
    c' = c\<lparr>ac_records := ac_records c @ [r]\<rparr>"
  using assms
  by (auto simp: chain_record_def split: sum.splits prod.splits)

lemma chain_record_Inl:
  assumes "chain_record env now fault a (c, st) = ((c', st'), Inl e)"
  shows "c' = c \<and> st' = st"
  using assms backend_save_refused [of "ac_backend c" fault _ st e]
  by (auto simp: chain_record_def split: sum.splits prod.splits) (metis fst_conv snd_conv)

lemma latest_hash_head: "latest_hash c = snd (head_of (ac_records c))"
  by (simp add: latest_hash_def head_of_def)

lemma chain_record_linked:
  assumes "chain_record env now fault a (c, st) = ((c', st'), Inr r)"
    and "well_linked GENESIS_HASH (ac_records c)"
  shows "well_linked GENESIS_HASH (ac_records c')"
  using chain_record_Inr [OF assms(1)] seal_entry_Inr [of env c now a r] assms(2)
  by (auto simp: well_linked_snoc latest_hash_def Let_def split: if_splits)

subsection \<open>Any number of writers on one store\<close>

text \<open>
  The processes that have a chain open, each for a tenant and on a durable backend, and the
  store they share. A process may open a chain at any time, record anything with any fault
  of the database, or stop (its memory is lost).
\<close>

type_synonym writers = "(nat \<Rightarrow> audit_chain option) \<times> audit_store"

inductive writer_step :: "writers \<Rightarrow> writers \<Rightarrow> bool" where
  opens: "durable b \<Longrightarrow> b = SQLiteBackend (Some t) \<or> b = PostgreSQLBackend (Some t) \<Longrightarrow>
     new_chain env db_path url (Some t) (Some b) st = Inr c \<Longrightarrow>
     writer_step (ps, st) (ps(i := Some c), st)"
| records: "ps i = Some c \<Longrightarrow> chain_record env now fault a (c, st) = ((c', st'), res) \<Longrightarrow>
     writer_step (ps, st) (ps(i := Some c'), st')"
| stops: "writer_step (ps, st) (ps(i := None), st)"

inductive writers_reachable :: "writers \<Rightarrow> bool" where
  start: "writers_reachable (\<lambda>_. None, [])"
| step: "writers_reachable w \<Longrightarrow> writer_step w w' \<Longrightarrow> writers_reachable w'"

definition chain_in_store :: "audit_chain \<Rightarrow> audit_store \<Rightarrow> bool" where
  "chain_in_store c st \<longleftrightarrow>
     (\<exists>t. ac_tenant c = Some t \<and> (ac_backend c = SQLiteBackend (Some t) \<or> ac_backend c = PostgreSQLBackend (Some t)) \<and>
        prefix (ac_records c) (scoped_rows t st))"

definition writers_inv :: "writers \<Rightarrow> bool" where
  "writers_inv w \<longleftrightarrow> (\<forall>t. well_linked GENESIS_HASH (scoped_rows t (snd w))) \<and>
     (\<forall>i c. fst w i = Some c \<longrightarrow> chain_in_store c (snd w))"

lemma chain_record_store:
  assumes "chain_in_store c st" and "\<forall>t. well_linked GENESIS_HASH (scoped_rows t st)"
    and "chain_record env now fault a (c, st) = ((c', st'), res)"
  shows "(\<forall>t. well_linked GENESIS_HASH (scoped_rows t st')) \<and> chain_in_store c' st' \<and>
    (\<forall>t. prefix (scoped_rows t st) (scoped_rows t st')) \<and>
    (\<forall>r. res = Inr r \<longrightarrow> (\<exists>t. ac_tenant c = Some t \<and> scoped_rows t st' = ac_records c'))"
proof (cases res)
  case (Inl e)
  with chain_record_Inl assms show ?thesis by blast
next
  case (Inr r)
  obtain t where t: "ac_tenant c = Some t" "prefix (ac_records c) (scoped_rows t st)" "durable (ac_backend c)"
    and kind: "ac_backend c = SQLiteBackend (Some t) \<or> ac_backend c = PostgreSQLBackend (Some t)"
    using assms(1) by (auto simp: chain_in_store_def)
  have rec: "seal_entry env c now a = Inr r" "backend_save (ac_backend c) fault r st = (st', Inr ())"
    "c' = c\<lparr>ac_records := ac_records c @ [r]\<rparr>"
    using chain_record_Inr assms(3) Inr by blast+
  note sealed = seal_entry_Inr [OF rec(1)]
  have scope: "scope_of r = t"
    using record_tenant_scoped [of c "ra_tenant a" "tenant_id r" t] sealed t(1) by (simp add: scope_of_def)
  have save: "durable_save (ac_backend c, fault) r st = (st', Inr ())"
    using rec(2) t(3) by (simp add: durable_save_def)
  have "scoped_rows t st' = ac_records c @ [r]" "well_linked GENESIS_HASH (scoped_rows t st')"
    using store_chain.save_extends [of r st "ac_records c" "(ac_backend c, fault)" "()"]
      sealed t assms(2) save by (auto simp: scope latest_hash_head)
  moreover have rows: "scoped_rows u st' = (if u = t then scoped_rows u st @ [r] else scoped_rows u st)" for u
    using store_chain.saved [of "(ac_backend c, fault)" r st "()" u] save sealed scope by auto
  ultimately show ?thesis
    using assms(2) t rec(3) kind by (auto simp: chain_in_store_def)
qed

lemma writer_step_inv: "writer_step w w' \<Longrightarrow> writers_inv w \<Longrightarrow> writers_inv w'"
proof (induction rule: writer_step.induct)
  case (opens b t env db_path url st c ps i)
  then have "chain_in_store c st"
    by (auto simp: new_chain_def chain_in_store_def result_simps Let_def split: if_splits)
  with opens show ?case by (auto simp: writers_inv_def)
next
  case (records ps i c env now fault a st c' st' res)
  then have inv: "chain_in_store c st" "\<forall>t. well_linked GENESIS_HASH (scoped_rows t st)"
    by (auto simp: writers_inv_def)
  note new = chain_record_store [OF inv records(2)]
  have "chain_in_store d st'" if "chain_in_store d st" for d
    using that new by (auto simp: chain_in_store_def intro: prefix_order.trans)
  with new records show ?case by (auto simp: writers_inv_def)
next
  case (stops ps st i)
  then show ?case by (auto simp: writers_inv_def)
qed

lemma writers_reachable_inv: "writers_reachable w \<Longrightarrow> writers_inv w"
proof (induction rule: writers_reachable.induct)
  case start
  show ?case by (simp add: writers_inv_def scoped_rows_def)
next
  case (step w w')
  then show ?case by (blast intro: writer_step_inv)
qed

lemma backend_save_distinct:
  "distinct (map index_key st) \<Longrightarrow> distinct (map index_key (fst (backend_save b fault r st)))"
  by (cases b) (auto split: option.splits)

lemma writers_reachable_index: "writers_reachable w \<Longrightarrow> distinct (map index_key (snd w))"
proof (induction rule: writers_reachable.induct)
  case start
  show ?case by simp
next
  case (step w w')
  from step.hyps(2) step.IH show ?case
  proof (induction rule: writer_step.induct)
    case (records ps i c env now fault a st c' st' res)
    then show ?case
    proof (cases res)
      case (Inl e)
      with records chain_record_Inl show ?thesis by (metis snd_conv)
    next
      case (Inr r)
      with records have "fst (backend_save (ac_backend c) fault r st) = st'"
        using chain_record_Inr by (metis fst_conv)
      with backend_save_distinct [of st "ac_backend c" fault r] records show ?thesis by auto
    qed
  qed auto
qed

subsection \<open>Properties\<close>

definition demo_args :: record_args where
  "demo_args = call_args ''a'' ''ALLOW'' ''ok'' ''hi''"

definition demo_chain :: audit_chain where
  "demo_chain = \<lparr>ac_records = [], ac_tenant = Some ''t'', ac_backend = SQLiteBackend (Some ''t''), ac_db_path = None\<rparr>"

lemma demo_chain_opens:
  "new_chain (\<lambda>_. None) None None (Some ''t'') (Some (SQLiteBackend (Some ''t''))) [] = Inr demo_chain"
  by (simp add: new_chain_def demo_chain_def chain_scopes_def scoped_rows_def str_or_def Let_def)

lemma demo_writers: "writers_reachable ((\<lambda>_. None)(0 := Some demo_chain), [])"
  by (rule writers_reachable.step [OF writers_reachable.start], rule writer_step.opens)
     (use demo_chain_opens in auto)

lemma demo_record_result:
  "\<exists>r. chain_record (\<lambda>_. None) 5 None demo_args (demo_chain, []) =
     ((demo_chain\<lparr>ac_records := [r]\<rparr>, [r]), Inr r)"
proof -
  have "\<exists>r. seal_entry (\<lambda>_. None) demo_chain 5 demo_args = Inr r"
    by (rule seal_entry_total)
       (auto simp: demo_args_def demo_chain_def call_args_def commitment_defs record_tenant_def
         bound_evidence_required_def env_or_empty_def getenv_def strip_def rstrip_def lstrip_def lower_def)
  then show ?thesis by (auto simp: chain_record_def demo_chain_def)
qed

text \<open>C5: no interleaving of writers forks a chain. Starting from an empty store, let any number of
  processes open chains for their tenants on the shared store (SQLite or PostgreSQL), record
  anything at any time with any database fault, and stop: at every moment the rows of each
  tenant verify as one chain, and what each open process holds in memory is a prefix of its
  tenant's rows and verifies too.\<close>

theorem writers_never_fork:
  assumes "writers_reachable (ps, st)"
  shows "(\<forall>t. \<exists>m. verify_records (scoped_rows t st) = Inr (True, m)) \<and>
    (\<forall>i c. ps i = Some c \<longrightarrow> (\<exists>t m. ac_tenant c = Some t \<and> prefix (ac_records c) (scoped_rows t st) \<and>
       chain_verify c = Inr (True, m)))"
proof -
  have inv: "writers_inv (ps, st)" using assms by (rule writers_reachable_inv)
  have ok: "\<exists>m. verify_records xs = Inr (True, m)" if "prefix xs (scoped_rows t st)" for xs t
    using that inv unfolding verify_records_ok
    by (auto simp: writers_inv_def prefix_def) (metis well_linked_append)
  show ?thesis
  proof (intro conjI allI impI)
    fix i c assume "ps i = Some c"
    with inv have "chain_in_store c st" by (simp add: writers_inv_def)
    then obtain t where "ac_tenant c = Some t" "prefix (ac_records c) (scoped_rows t st)"
      by (auto simp: chain_in_store_def)
    with ok show "\<exists>t m. ac_tenant c = Some t \<and> prefix (ac_records c) (scoped_rows t st) \<and>
       chain_verify c = Inr (True, m)" unfolding chain_verify_def by blast
  next
    fix t show "\<exists>m. verify_records (scoped_rows t st) = Inr (True, m)" by (rule ok [of _ t]) simp
  qed
qed

theorem writers_never_fork_witness:
  "\<exists>m. chain_verify demo_chain = Inr (True, m)"
  using writers_never_fork [OF demo_writers, THEN conjunct2, rule_format, of 0 demo_chain] by auto

text \<open>C7: \<open>record\<close> is all or nothing and keeps a verified chain verified: if it raises, neither the
  memory nor the store has changed. If it returns, the new record is determined: its every
  argument (client, action, rule, reason, content hash, trace, digest, commitment form) is the
  caller's, its tenant the one the chain's scope allows, its predecessor the chain's head, its
  binding version the current one and its hash the computed one; the chain is the old chain with
  this record appended and nothing else changed; a durable store (SQLite or PostgreSQL) is the
  old store with the same record appended, under a key no row had, and the in-memory backend
  leaves it alone. A verified chain still verifies, and where bound evidence is required
  (production or the flag) the record has a policy digest and a trace id.\<close>

theorem record_all_or_nothing:
  assumes "chain_record env now fault a (c, st) = ((c', st'), res)"
  shows "case res of
      Inl e \<Rightarrow> c' = c \<and> st' = st
    | Inr r \<Rightarrow> c' = c\<lparr>ac_records := ac_records c @ [r]\<rparr> \<and>
        (if durable (ac_backend c) then st' = st @ [r] \<and> index_key r \<notin> set (map index_key st) else st' = st) \<and>
        record_tenant c (ra_tenant a) = Inr (tenant_id r) \<and>
        compute_record_hash r (latest_hash c) = Inr (record_hash r) \<and>
        previous_hash r = latest_hash c \<and> timestamp r = now \<and> client_id r = ra_client a \<and>
        ar_action r = ra_action a \<and> ar_rule r = ra_rule a \<and> ar_reason r = ra_reason a \<and>
        content_hash r = hash_content (ra_content a) \<and> trace_id r = ra_trace a \<and>
        ar_policy_digest r = ra_digest a \<and>
        binding_version r = RECORD_BINDING_CURRENT \<and> commitment r = ra_commitment a \<and>
        ((\<exists>m. chain_verify c = Inr (True, m)) \<longrightarrow> (\<exists>m. chain_verify c' = Inr (True, m))) \<and>
        (bound_evidence_required env \<longrightarrow> truthy_str (ar_policy_digest r) \<and> truthy_str (trace_id r))"
proof (cases res)
  case (Inl e)
  with assms chain_record_Inl show ?thesis by simp
next
  case (Inr r)
  note rec = chain_record_Inr [OF assms [unfolded Inr]]
  note sealed = seal_entry_Inr [OF rec [THEN conjunct1]]
  have "missing_evidence a = [] \<Longrightarrow> truthy_str (ra_digest a) \<and> truthy_str (ra_trace a)"
    by (auto simp: missing_evidence_def split: if_splits)
  moreover have "if durable (ac_backend c) then st' = st @ [r] \<and> index_key r \<notin> set (map index_key st) else st' = st"
    using rec backend_save_stored [of "ac_backend c" fault r st st'] by simp
  moreover have "compute_record_hash r (latest_hash c) = Inr (record_hash r)" using sealed by metis
  ultimately show ?thesis
    using sealed rec Inr chain_record_linked [OF assms [unfolded Inr]]
    by (simp add: chain_verify_def verify_records_ok)
qed

theorem record_all_or_nothing_witness:
  "\<exists>r. chain_record (\<lambda>_. None) 5 None demo_args (demo_chain, []) =
      ((demo_chain\<lparr>ac_records := [r]\<rparr>, [r]), Inr r) \<and>
    client_id r = ''a'' \<and> ar_action r = ''ALLOW'' \<and> ar_reason r = ''ok'' \<and> tenant_id r = Some ''t'' \<and>
    content_hash r = hash_content ''hi'' \<and> previous_hash r = GENESIS_HASH \<and> trace_id r = None"
proof -
  obtain r where run: "chain_record (\<lambda>_. None) 5 None demo_args (demo_chain, []) =
     ((demo_chain\<lparr>ac_records := [r]\<rparr>, [r]), Inr r)" using demo_record_result by blast
  from record_all_or_nothing [OF run] have "client_id r = ''a'' \<and> ar_action r = ''ALLOW'' \<and> ar_reason r = ''ok'' \<and>
      tenant_id r = Some ''t'' \<and> content_hash r = hash_content ''hi'' \<and> previous_hash r = GENESIS_HASH \<and> trace_id r = None"
    by (auto simp: demo_chain_def demo_args_def call_args_def latest_hash_def record_tenant_def)
  with run show ?thesis by blast
qed

text \<open>C9: a restart loses nothing that was recorded: after a successful \<open>record\<close> by any of the
  processes sharing a store, opening the tenant's chain again on the same backend succeeds and
  loads exactly the records the writer holds, in order.\<close>

theorem reload_equals_memory:
  assumes "writers_reachable (ps, st)" and "ps i = Some c"
    and "chain_record env now fault a (c, st) = ((c', st'), Inr r)"
  shows "\<exists>c2. new_chain env None None (ac_tenant c) (Some (ac_backend c)) st' = Inr c2 \<and>
    ac_records c2 = ac_records c' \<and> chain_head c2 = chain_head c'"
proof -
  have inv: "writers_inv (ps, st)" using assms(1) by (rule writers_reachable_inv)
  with assms(2) have c: "chain_in_store c st" "\<forall>t. well_linked GENESIS_HASH (scoped_rows t st)"
    by (auto simp: writers_inv_def)
  obtain t where t: "ac_tenant c = Some t" "scoped_rows t st' = ac_records c'"
    using chain_record_store [OF c assms(3)] by blast
  have b: "ac_backend c = SQLiteBackend (Some t) \<or> ac_backend c = PostgreSQLBackend (Some t)"
    using c(1) t(1) by (auto simp: chain_in_store_def)
  have "writers_reachable (ps(i := Some c'), st')"
    using assms by (blast intro: writers_reachable.step writer_step.records)
  then have "distinct (map index_key st')" using writers_reachable_index by fastforce
  with t b show ?thesis
    by (auto simp: new_chain_def chain_head_def Let_def)
qed

theorem reload_equals_memory_witness:
  "\<exists>r c2. new_chain (\<lambda>_. None) None None (Some ''t'') (Some (SQLiteBackend (Some ''t''))) [r] = Inr c2 \<and>
     ac_records c2 = [r]"
proof -
  obtain r where r: "chain_record (\<lambda>_. None) 5 None demo_args (demo_chain, []) =
     ((demo_chain\<lparr>ac_records := [r]\<rparr>, [r]), Inr r)" using demo_record_result by blast
  from reload_equals_memory [OF demo_writers _ this, of 0] show ?thesis
    by (auto simp: demo_chain_def)
qed

text \<open>A process declared to be production never serves an audit trail it cannot keep: with
  \<open>CUSTOS\_ENV\<close> read as production, \<open>require\_durable\_audit\<close> raises for the in-memory backend and
  returns a summary that says durable for the others; in any other environment it returns.\<close>

theorem production_audit_is_durable:
  assumes "env ''CUSTOS_ENV'' = Some e"
  shows "(raised (require_durable_audit env (audit_backend_type b) None) \<longleftrightarrow>
      lower e = ''production'' \<and> \<not> durable b) \<and>
    (\<forall>d. require_durable_audit env (audit_backend_type b) None = Inr d \<longrightarrow>
      map_of d ''audit_durable'' = Some (JBool (durable b)))"
proof -
  have "\<not> is_durable ''InMemoryBackend''" "is_durable ''SQLiteBackend''" "is_durable ''PostgreSQLBackend''"
    by code_simp+
  then have d: "is_durable (audit_backend_type b) = durable b" by (cases b) simp_all
  have "lower (if e = [] then ''development'' else e) = ''production'' \<longleftrightarrow> lower e = ''production''"
    by (cases "e = []") (simp_all add: lower_def lower_char_def)
  then show ?thesis
    using assms by (auto simp: require_durable_audit_def d getenv_def Let_def)
qed

lemma lower_production: "lower ''Production'' = ''production''"
  by code_simp

theorem production_audit_is_durable_witness:
  "raised (require_durable_audit (\<lambda>k. if k = ''CUSTOS_ENV'' then Some ''Production'' else None) ''InMemoryBackend'' None)"
  using production_audit_is_durable [of "\<lambda>k. if k = ''CUSTOS_ENV'' then Some ''Production'' else None"
      "''Production''" InMemoryBackend]
  by (simp add: lower_production)

subsection \<open>Writing through an unscoped chain\<close>

text \<open>
  A chain without a tenant opens a store that holds one tenant's records, and its record lands
  under the empty scope, linked behind the other tenant's head. The next unscoped opening of
  the same store is refused.
\<close>

lemma unscoped_write_blocks_reopening:
  assumes "scope_of q = ''t''" "index_key q \<noteq> ([], record_hash q)" "commitment q \<noteq> []"
    and "chain_record env now None a (\<lparr>ac_records = [q], ac_tenant = None, ac_backend = SQLiteBackend None,
        ac_db_path = None\<rparr>, [q]) = ((c', st'), Inr r)" and "ra_tenant a = None"
  shows "raised (new_chain env None None None (Some (SQLiteBackend None)) st')"
proof -
  note rec = chain_record_Inr [OF assms(4)]
  note sealed = seal_entry_Inr [OF rec [THEN conjunct1]]
  have st': "st' = [q, r]"
    using rec by (auto split: if_splits)
  have "scope_of r = []" using sealed assms(5) by (simp add: scope_of_def record_tenant_def)
  moreover have "load_row r = r" by (rule load_row_simps(3)) (use sealed in blast)
  ultimately show ?thesis
    using assms(1,3) by (auto simp: new_chain_def st' chain_scopes_def Let_def)
qed

end
