(* ===== verification/Retention.thy ===== *)
theory Retention
  imports Audit_Store
begin

text \<open>
  \<open>src/custos/retention.py\<close>: the side store of content bodies with their salts and
  purges, the commitments it keeps, the purge with its attestation in the audit chain, and the
  comparison of records with the store. The two tables are association lists on their primary
  key \<open>content\_hash\<close>. The salt and the clock readings are inputs. The database of the side
  store is assumed to carry its statements out; a fault of the audit store is an input.
\<close>

subsection \<open>The content store\<close>

definition MARKER_SALTED :: string where "MARKER_SALTED = ''CUSTOS-COMMIT-v1:salted'' @ [CHR 0x00]"
definition MARKER_UNSALTED :: string where "MARKER_UNSALTED = ''CUSTOS-COMMIT-v0:unsalted'' @ [CHR 0x00]"
definition COMMITMENT_VERSION :: int where "COMMITMENT_VERSION = 1"
definition SALT_BYTES :: nat where "SALT_BYTES = 32"

definition STATUS_PRESENT :: string where "STATUS_PRESENT = ''present''"
definition STATUS_PURGED :: string where "STATUS_PURGED = ''purged''"
definition STATUS_UNKNOWN :: string where "STATUS_UNKNOWN = ''unknown''"

lemmas status_defs = STATUS_PRESENT_def STATUS_PURGED_def STATUS_UNKNOWN_def

record body_row =
  br_algo :: int
  br_marker :: string
  br_salt :: "string option"
  br_commitment :: string
  br_body :: string
  br_created :: int

record purge_row =
  pr_purged_at :: int
  pr_reason :: string
  pr_attestation :: "string option"

record content_store =
  bodies :: "(string \<times> body_row) list"
  purges :: "(string \<times> purge_row) list"

definition empty_store :: content_store where
  "empty_store = \<lparr>bodies = [], purges = []\<rparr>"

text \<open>\<open>\_commitment\<close>: the digested bytes, and their digest.\<close>

definition commitment_bytes :: "string \<Rightarrow> string option \<Rightarrow> string" where
  "commitment_bytes body salt =
     (case salt of
        Some s \<Rightarrow> if s = [] then MARKER_UNSALTED @ utf8 body
          else MARKER_SALTED @ take SALT_BYTES s @ utf8 body
      | None \<Rightarrow> MARKER_UNSALTED @ utf8 body)"

definition commitment_digest :: "string \<Rightarrow> string option \<Rightarrow> string" where
  "commitment_digest body salt = sha256_hex (commitment_bytes body salt)"

definition short :: "string \<Rightarrow> string" where
  "short h = take 16 h"

definition put_purged_exn :: "string \<Rightarrow> purge_row \<Rightarrow> exn" where
  "put_purged_exn h p = ContentPurged (''content '' @ short h @ '' was purged at '' @ float_repr (pr_purged_at p) @
     '' and will not be stored again; a purge that can be undone by re-offering the same bytes is not a purge'')"

definition put_body :: "string \<Rightarrow> int \<Rightarrow> string \<Rightarrow> content_store \<Rightarrow> content_store \<times> string result" where
  "put_body salt now body s =
     (let h = sha256_text body in
      case map_of (bodies s) h of
        Some row \<Rightarrow> (s, Inr h)
      | None \<Rightarrow> (case map_of (purges s) h of
          Some p \<Rightarrow> (s, Inl (put_purged_exn h p))
        | None \<Rightarrow> (s\<lparr>bodies := dict_set h \<lparr>br_algo = COMMITMENT_VERSION, br_marker = ''salted-v1'',
              br_salt = Some salt, br_commitment = commitment_digest body (Some salt), br_body = body,
              br_created = now\<rparr> (bodies s)\<rparr>, Inr h)))"

text \<open>\<open>put\_legacy\<close>: \<open>INSERT OR IGNORE\<close>, with no look at the purges.\<close>

definition put_legacy :: "int \<Rightarrow> string \<Rightarrow> content_store \<Rightarrow> content_store \<times> string result" where
  "put_legacy now body s =
     (let h = sha256_text body in
      case map_of (bodies s) h of
        Some row \<Rightarrow> (s, Inr h)
      | None \<Rightarrow> (s\<lparr>bodies := dict_set h \<lparr>br_algo = 0, br_marker = ''unsalted-v0'', br_salt = None,
            br_commitment = commitment_digest body None, br_body = body, br_created = now\<rparr> (bodies s)\<rparr>, Inr h))"

definition store_marker :: "string \<Rightarrow> content_store \<Rightarrow> string" where
  "store_marker h s = (case map_of (bodies s) h of
     Some row \<Rightarrow> br_marker row
   | None \<Rightarrow> if map_of (purges s) h \<noteq> None then ''purged'' else ''unknown'')"

definition commitment_form :: "string \<Rightarrow> content_store \<Rightarrow> string" where
  "commitment_form h s = (let m = store_marker h s in
     if m = ''salted-v1'' then COMMITMENT_SALTED_V1
     else if m = ''unsalted-v0'' then COMMITMENT_UNSALTED_V0
     else if m = ''purged'' then COMMITMENT_PURGED_V1 else COMMITMENT_NONE)"

definition store_status :: "string \<Rightarrow> content_store \<Rightarrow> string" where
  "store_status h s =
     (if map_of (bodies s) h \<noteq> None then STATUS_PRESENT
      else if map_of (purges s) h \<noteq> None then STATUS_PURGED else STATUS_UNKNOWN)"

definition open_body :: "string \<Rightarrow> content_store \<Rightarrow> string result" where
  "open_body h s = (case map_of (bodies s) h of
     Some row \<Rightarrow> Inr (br_body row)
   | None \<Rightarrow> (case map_of (purges s) h of
       Some p \<Rightarrow> Inl (ContentPurged (''content '' @ short h @ '' was purged at '' @ float_repr (pr_purged_at p)))
     | None \<Rightarrow> Inl (PurgeRefused (''no content at '' @ short h))))"

definition verify_commitment :: "string \<Rightarrow> string \<Rightarrow> content_store \<Rightarrow> bool result" where
  "verify_commitment h body s = (case map_of (bodies s) h of
     Some row \<Rightarrow> Inr (commitment_digest body (br_salt row) = br_commitment row)
   | None \<Rightarrow> (case map_of (purges s) h of
       Some p \<Rightarrow> Inl (ContentPurged (''content '' @ short h @ '' was purged at '' @ float_repr (pr_purged_at p) @
          ''; the commitment cannot be recomputed''))
     | None \<Rightarrow> Inl (PurgeRefused (''no content at '' @ short h))))"

definition purge_record :: "string \<Rightarrow> content_store \<Rightarrow> (string \<times> json) list option" where
  "purge_record h s = map_option (\<lambda>p. [(''content_hash'', JStr h), (''purged_at'', JFloat (pr_purged_at p)),
     (''reason'', JStr (pr_reason p)), (''attestation_hash'', opt_json (pr_attestation p))]) (map_of (purges s) h)"

subsection \<open>Storing with a record, and purging with an attestation\<close>

text \<open>
  The state of these operations is the content store, the chain and the audit store. The clock
  is read twice: for the row of the side store and for the audit record.
\<close>

type_synonym content_world = "content_store \<times> (audit_chain \<times> audit_store)"

definition put_and_record ::
  "environment \<Rightarrow> string \<Rightarrow> int \<Rightarrow> int \<Rightarrow> store_fault option \<Rightarrow> bool \<Rightarrow> record_args \<Rightarrow> content_world \<Rightarrow>
   content_world \<times> audit_record result" where
  "put_and_record env salt t1 t2 fault legacy a w =
     (case w of (s, cs) \<Rightarrow>
      case (if legacy then put_legacy t1 (ra_content a) s else put_body salt t1 (ra_content a) s) of
        (s', Inl e) \<Rightarrow> ((s', cs), Inl e)
      | (s', Inr h) \<Rightarrow> (case chain_record env t2 fault (a\<lparr>ra_commitment := commitment_form h s'\<rparr>) cs of
          (cs', res) \<Rightarrow> ((s', cs'), res)))"

definition already_purged_exn :: "string \<Rightarrow> purge_row \<Rightarrow> exn" where
  "already_purged_exn h p = ContentPurged (''content '' @ short h @ '' was already purged at '' @ float_repr (pr_purged_at p))"

definition never_held_exn :: "string \<Rightarrow> exn" where
  "never_held_exn h = PurgeRefused (''no content at '' @ short h @
     ''; a purge of something the store never held would be recorded as a deletion that never happened'')"

text \<open>
  The first transaction deletes the body and inserts the purge; the insert fails, and the
  deletion with it, when the digest has a purge row already.
\<close>

definition delete_body :: "int \<Rightarrow> string \<Rightarrow> string \<Rightarrow> content_store \<Rightarrow> content_store \<times> string result" where
  "delete_body now h reason s = (case map_of (bodies s) h of
     None \<Rightarrow> (case map_of (purges s) h of
       Some p \<Rightarrow> (s, Inl (already_purged_exn h p))
     | None \<Rightarrow> (s, Inl (never_held_exn h)))
   | Some row \<Rightarrow> if map_of (purges s) h \<noteq> None
       then (s, Inl (IntegrityError ''UNIQUE constraint failed: purges.content_hash''))
       else (s\<lparr>bodies := dict_del h (bodies s), purges := purges s @
           [(h, \<lparr>pr_purged_at = now, pr_reason = reason, pr_attestation = None\<rparr>)]\<rparr>, Inr (br_body row)))"

definition attest :: "string \<Rightarrow> string \<Rightarrow> content_store \<Rightarrow> content_store" where
  "attest h rh s = s\<lparr>purges := map (\<lambda>(k, p). (k, if k = h then p\<lparr>pr_attestation := Some rh\<rparr> else p)) (purges s)\<rparr>"

definition purge_args :: "string \<Rightarrow> string \<Rightarrow> string \<Rightarrow> string option \<Rightarrow> string option \<Rightarrow> record_args" where
  "purge_args client reason body trace digest = (call_args client ''PURGE'' reason body)
     \<lparr>ra_rule := Some ''retention.purge'', ra_trace := trace, ra_digest := digest,
      ra_commitment := COMMITMENT_PURGED_V1\<rparr>"

definition misattributed_exn :: exn where
  "misattributed_exn = RuntimeError ''the attestation hashed to a different content than the row that was deleted, so the deletion is not attributable to this chain record''"

definition purge ::
  "environment \<Rightarrow> int \<Rightarrow> int \<Rightarrow> store_fault option \<Rightarrow> string \<Rightarrow> string \<Rightarrow> string \<Rightarrow> string option \<Rightarrow> string option \<Rightarrow>
   content_world \<Rightarrow> content_world \<times> string result" where
  "purge env t1 t2 fault h client reason trace digest w =
     (case w of (s, cs) \<Rightarrow>
      case delete_body t1 h reason s of
        (s1, Inl e) \<Rightarrow> ((s1, cs), Inl e)
      | (s1, Inr body) \<Rightarrow>
          (case chain_record env t2 fault (purge_args client reason body trace digest) cs of
             (cs', Inl e) \<Rightarrow> ((s1, cs'), Inl e)
           | (cs', Inr r) \<Rightarrow> if content_hash r \<noteq> h then ((s1, cs'), Inl misattributed_exn)
               else ((attest h (record_hash r) s1, cs'), Inr (record_hash r))))"

subsection \<open>Comparing the records with the store\<close>

definition FINDING_BODY_MISSING :: string where "FINDING_BODY_MISSING = ''body-missing''"
definition FINDING_UNATTESTED_PURGE :: string where "FINDING_UNATTESTED_PURGE = ''unattested-purge''"
definition FINDING_UNEFFECTED_PURGE :: string where "FINDING_UNEFFECTED_PURGE = ''uneffected-purge''"

definition FINDING_KINDS :: "string list" where
  "FINDING_KINDS = [FINDING_BODY_MISSING, FINDING_UNATTESTED_PURGE, FINDING_UNEFFECTED_PURGE]"

lemmas finding_defs = FINDING_BODY_MISSING_def FINDING_UNATTESTED_PURGE_def FINDING_UNEFFECTED_PURGE_def

record finding =
  fi_kind :: string
  fi_hash :: string
  fi_detail :: string
  fi_records :: "nat list"

record reconciliation =
  findings :: "finding list"
  records_read :: nat
  digests_examined :: nat

definition stored_forms :: "string list" where
  "stored_forms = [COMMITMENT_SALTED_V1, COMMITMENT_UNSALTED_V0]"

text \<open>The digests attested as purged, and the claims of a stored form with their record indexes.\<close>

definition attested_digests :: "audit_record list \<Rightarrow> string list" where
  "attested_digests rs = remdups (map content_hash (filter (\<lambda>r. commitment r = COMMITMENT_PURGED_V1) rs))"

fun collect_claims :: "nat \<Rightarrow> audit_record list \<Rightarrow> (string \<times> nat list) list \<Rightarrow> (string \<times> nat list) list" where
  "collect_claims i [] claims = claims"
| "collect_claims i (r # rs) claims = collect_claims (Suc i) rs
     (if commitment r = COMMITMENT_PURGED_V1 \<or> commitment r \<notin> set stored_forms then claims
      else dict_set (content_hash r) (case map_of claims (content_hash r) of None \<Rightarrow> [i] | Some is \<Rightarrow> is @ [i]) claims)"

definition claim_findings :: "content_store \<Rightarrow> string list \<Rightarrow> string \<times> nat list \<Rightarrow> finding list" where
  "claim_findings s attested c = (case c of (h, is) \<Rightarrow>
     (let st = store_status h s in
      if st = STATUS_PURGED \<and> h \<notin> set attested then
        [\<lparr>fi_kind = FINDING_UNATTESTED_PURGE, fi_hash = h, fi_detail =
            ''the store says this digest was purged and no record attests the purge; the deletion is invisible in the chain'',
          fi_records = is\<rparr>]
      else if st = STATUS_UNKNOWN then
        [\<lparr>fi_kind = FINDING_BODY_MISSING, fi_hash = h, fi_detail =
            ''a record claims a stored form and the store holds neither the body nor a purge record'',
          fi_records = is\<rparr>]
      else []))"

definition attested_findings :: "content_store \<Rightarrow> string \<Rightarrow> finding list" where
  "attested_findings s h = (if store_status h s = STATUS_PRESENT then
     [\<lparr>fi_kind = FINDING_UNEFFECTED_PURGE, fi_hash = h, fi_detail =
         ''the chain attests a purge and the store still holds the body; the attestation does not describe this store'',
       fi_records = []\<rparr>] else [])"

text \<open>
  \<open>reconcile\<close>. The program iterates over the set of attested digests in an unspecified order;
  the model takes the order of the records.
\<close>

definition reconcile :: "audit_record list \<Rightarrow> content_store \<Rightarrow> reconciliation" where
  "reconcile rs s =
     (let attested = attested_digests rs; claims = collect_claims 0 rs [] in
      \<lparr>findings = concat (map (claim_findings s attested) claims) @ concat (map (attested_findings s) attested),
       records_read = length rs,
       digests_examined = length claims + length (filter (\<lambda>h. h \<notin> fst ` set claims) attested)\<rparr>)"

definition reconciliation_ok :: "reconciliation \<Rightarrow> bool" where
  "reconciliation_ok r = (findings r = [])"

definition by_kind :: "reconciliation \<Rightarrow> (string \<times> nat) list" where
  "by_kind r = filter (\<lambda>kn. snd kn \<noteq> 0)
     (foldl (\<lambda>d f. dict_set (fi_kind f) ((case map_of d (fi_kind f) of None \<Rightarrow> 0 | Some n \<Rightarrow> n) + 1) d)
        (map (\<lambda>k. (k, 0)) FINDING_KINDS) (findings r))"

definition describe :: "reconciliation \<Rightarrow> string" where
  "describe r = (if reconciliation_ok r then
       ''records and store agree ('' @ int_repr (int (records_read r)) @ '' records, '' @
         int_repr (int (digests_examined r)) @ '' digests examined)''
     else join [nl] (map (\<lambda>f. fi_kind f @ '' '' @ short (fi_hash f) @ '': '' @ fi_detail f) (findings r)))"

subsection \<open>The invariant of the store\<close>

text \<open>Every row is keyed by the digest of its body and carries the commitment of its own form.\<close>

definition row_ok :: "string \<Rightarrow> body_row \<Rightarrow> bool" where
  "row_ok h row \<longleftrightarrow> h = sha256_text (br_body row) \<and>
     br_commitment row = commitment_digest (br_body row) (br_salt row) \<and>
     (br_marker row = ''salted-v1'' \<and> (\<exists>s. br_salt row = Some s \<and> length s = SALT_BYTES) \<or>
      br_marker row = ''unsalted-v0'' \<and> br_salt row = None)"

definition store_ok :: "content_store \<Rightarrow> bool" where
  "store_ok s \<longleftrightarrow> (\<forall>h row. map_of (bodies s) h = Some row \<longrightarrow> row_ok h row)"

definition disjoint_store :: "content_store \<Rightarrow> bool" where
  "disjoint_store s \<longleftrightarrow> (\<forall>h. map_of (bodies s) h = None \<or> map_of (purges s) h = None)"

lemma store_okD: "store_ok s \<Longrightarrow> map_of (bodies s) h = Some row \<Longrightarrow> row_ok h row"
  by (simp add: store_ok_def)

lemma put_body_cases:
  assumes "put_body salt now body s = (s', res)"
  obtains (held) "s' = s" "res = Inr (sha256_text body)" "map_of (bodies s) (sha256_text body) \<noteq> None"
  | (refused) p where "s' = s" "res = Inl (put_purged_exn (sha256_text body) p)"
      "map_of (bodies s) (sha256_text body) = None" "map_of (purges s) (sha256_text body) = Some p"
  | (stored) row where "res = Inr (sha256_text body)" "map_of (bodies s) (sha256_text body) = None"
      "map_of (purges s) (sha256_text body) = None" "purges s' = purges s"
      "map_of (bodies s') = (map_of (bodies s))(sha256_text body \<mapsto> row)"
      "br_body row = body" "br_marker row = ''salted-v1''" "br_salt row = Some salt"
      "br_commitment row = commitment_digest body (Some salt)"
proof (cases "map_of (bodies s) (sha256_text body)")
  case (Some row)
  with assms held show ?thesis by (simp add: put_body_def)
next
  case None
  then show ?thesis
  proof (cases "map_of (purges s) (sha256_text body)")
    case (Some p)
    with None assms have "s' = s" "res = Inl (put_purged_exn (sha256_text body) p)"
      by (simp_all add: put_body_def Let_def)
    from refused [OF this None Some] show ?thesis .
  next
    case None2: None
    let ?row = "\<lparr>br_algo = COMMITMENT_VERSION, br_marker = ''salted-v1'', br_salt = Some salt,
      br_commitment = commitment_digest body (Some salt), br_body = body, br_created = now\<rparr>"
    from assms None None2 have "res = Inr (sha256_text body)"
      and s': "s' = s\<lparr>bodies := dict_set (sha256_text body) ?row (bodies s)\<rparr>"
      by (simp_all add: put_body_def Let_def)
    with None None2 stored [of ?row] show ?thesis by simp
  qed
qed

lemma put_body_ok:
  assumes "put_body salt now body s = (s', res)" "store_ok s" "length salt = SALT_BYTES"
  shows "store_ok s'"
  using assms(1)
proof (cases rule: put_body_cases)
  case (stored row)
  with assms(2,3) show ?thesis by (auto simp: store_ok_def row_ok_def)
qed (use assms(2) in simp_all)

lemma put_body_disjoint:
  assumes "put_body salt now body s = (s', res)" "disjoint_store s"
  shows "disjoint_store s'"
  using assms(1)
proof (cases rule: put_body_cases)
  case (stored row)
  with assms(2) show ?thesis by (auto simp: disjoint_store_def)
qed (use assms(2) in simp_all)

lemma map_of_attest:
  "map_of (purges (attest h rh s)) k = map_option (\<lambda>p. if k = h then p\<lparr>pr_attestation := Some rh\<rparr> else p) (map_of (purges s) k)"
proof -
  have "map_of (map (\<lambda>(k, p). (k, if k = h then p\<lparr>pr_attestation := Some rh\<rparr> else p)) xs) k =
    map_option (\<lambda>p. if k = h then p\<lparr>pr_attestation := Some rh\<rparr> else p) (map_of xs k)" for xs :: "(string \<times> purge_row) list"
    by (induction xs) auto
  then show ?thesis by (simp add: attest_def)
qed

lemma bodies_attest [simp]: "bodies (attest h rh s) = bodies s"
  by (simp add: attest_def)

lemma delete_body_cases:
  assumes "delete_body now h reason s = (s', res)"
  obtains (refused) e where "s' = s" "res = Inl e" "map_of (bodies s) h = None \<or> map_of (purges s) h \<noteq> None"
  | (deleted) row where "res = Inr (br_body row)" "map_of (bodies s) h = Some row" "map_of (purges s) h = None"
      "map_of (bodies s') = (map_of (bodies s))(h := None)"
      "map_of (purges s') = (map_of (purges s))(h \<mapsto> \<lparr>pr_purged_at = now, pr_reason = reason, pr_attestation = None\<rparr>)"
proof (cases "map_of (bodies s) h = None \<or> map_of (purges s) h \<noteq> None")
  case True
  then show ?thesis
  proof (cases "map_of (bodies s) h")
    case None
    with assms refused show ?thesis by (auto simp: delete_body_def split: option.splits)
  next
    case (Some row)
    with True assms refused show ?thesis by (auto simp: delete_body_def)
  qed
next
  case False
  then obtain row where row: "map_of (bodies s) h = Some row" "map_of (purges s) h = None" by auto
  let ?p = "\<lparr>pr_purged_at = now, pr_reason = reason, pr_attestation = None\<rparr>"
  from row assms have "res = Inr (br_body row)"
    and s': "s' = s\<lparr>bodies := dict_del h (bodies s), purges := purges s @ [(h, ?p)]\<rparr>"
    by (simp_all add: delete_body_def)
  moreover have "map_of (purges s @ [(h, ?p)]) = (map_of (purges s))(h \<mapsto> ?p)"
    using row(2) by (auto simp: map_add_def fun_eq_iff split: option.splits)
  ultimately show ?thesis using row deleted [of row] by simp
qed

text \<open>What a purge does, whichever way it goes.\<close>

lemma purge_cases:
  assumes "purge env t1 t2 fault h client reason trace digest (s, c, st) = ((s', c', st'), res)" and "store_ok s"
  obtains (refused) e where "res = Inl e" "s' = s" "c' = c" "st' = st"
      "map_of (bodies s) h = None \<or> map_of (purges s) h \<noteq> None"
  | (unattested) e where "res = Inl e" "c' = c" "st' = st" "map_of (bodies s) h \<noteq> None" "map_of (purges s) h = None"
      "map_of (bodies s') = (map_of (bodies s))(h := None)"
      "map_of (purges s') = (map_of (purges s))(h \<mapsto> \<lparr>pr_purged_at = t1, pr_reason = reason, pr_attestation = None\<rparr>)"
  | (attested) r body where "res = Inr (record_hash r)"
      "chain_record env t2 fault (purge_args client reason body trace digest) (c, st) = ((c', st'), Inr r)"
      "content_hash r = h" "map_of (bodies s) h \<noteq> None" "map_of (purges s) h = None"
      "map_of (bodies s') = (map_of (bodies s))(h := None)"
      "map_of (purges s') = (map_of (purges s))(h \<mapsto> \<lparr>pr_purged_at = t1, pr_reason = reason,
          pr_attestation = Some (record_hash r)\<rparr>)"
proof -
  obtain s1 d where d: "delete_body t1 h reason s = (s1, d)" by (cases "delete_body t1 h reason s")
  from d show ?thesis
  proof (cases rule: delete_body_cases)
    case (refused e)
    with assms(1) d have "res = Inl e" "s' = s" "c' = c" "st' = st" by (simp_all add: purge_def)
    with refused(3) show ?thesis by (intro that(1))
  next
    case (deleted row)
    note row = deleted
    let ?a = "purge_args client reason (br_body row) trace digest"
    obtain c1 st1 out where rec: "chain_record env t2 fault ?a (c, st) = ((c1, st1), out)"
      by (cases "chain_record env t2 fault ?a (c, st)") auto
    show ?thesis
    proof (cases out)
      case (Inl e)
      with rec chain_record_Inl have same: "c1 = c" "st1 = st" by blast+
      from assms(1) d row(1) rec Inl have "s' = s1" "c' = c1" "st' = st1" "res = Inl e"
        by (simp_all add: purge_def)
      with same row that(2) show ?thesis by simp
    next
      case (Inr r)
      from rec Inr have "seal_entry env c t2 ?a = Inr r" using chain_record_Inr by blast
      then have "content_hash r = sha256_text (br_body row)"
        using seal_entry_Inr by (simp add: purge_args_def call_args_def hash_content_def)
      moreover have "h = sha256_text (br_body row)"
        using store_okD [OF assms(2) row(2)] by (simp add: row_ok_def)
      ultimately have h: "content_hash r = h" by simp
      from assms(1) d row(1) rec Inr h have out: "s' = attest h (record_hash r) s1" "c' = c1" "st' = st1" "res = Inr (record_hash r)"
        by (simp_all add: purge_def)
      moreover have "map_of (purges s') = (map_of (purges s))(h \<mapsto> \<lparr>pr_purged_at = t1, pr_reason = reason,
          pr_attestation = Some (record_hash r)\<rparr>)"
        by (simp add: fun_eq_iff out(1) map_of_attest row(5))
           (metis option.map_ident)
      ultimately show ?thesis using that(3) [of r "br_body row"] rec Inr h row by simp
    qed
  qed
qed

subsection \<open>Reachable states of the served operations\<close>

text \<open>
  A process that serves decisions stores salted bodies with their records, purges, and writes
  other records, which carry no commitment. Every call may meet any fault of the audit store.
\<close>

inductive content_step :: "content_world \<Rightarrow> content_world \<Rightarrow> bool" where
  decides: "length salt = SALT_BYTES \<Longrightarrow> put_and_record env salt t1 t2 fault False a w = (w', res) \<Longrightarrow>
    content_step w w'"
| purges: "purge env t1 t2 fault h client reason trace digest w = (w', res) \<Longrightarrow> content_step w w'"
| others: "ra_commitment a = COMMITMENT_NONE \<Longrightarrow> chain_record env t fault a cs = (cs', res) \<Longrightarrow>
    content_step (s, cs) (s, cs')"

inductive content_reachable :: "content_world \<Rightarrow> bool" where
  start: "ac_records c = [] \<Longrightarrow> content_reachable (empty_store, c, st)"
| step: "content_reachable w \<Longrightarrow> content_step w w' \<Longrightarrow> content_reachable w'"

definition claim_ok :: "content_store \<Rightarrow> audit_record \<Rightarrow> bool" where
  "claim_ok s r \<longleftrightarrow>
     (commitment r \<in> set stored_forms \<longrightarrow>
        map_of (bodies s) (content_hash r) \<noteq> None \<or> map_of (purges s) (content_hash r) \<noteq> None) \<and>
     (commitment r = COMMITMENT_PURGED_V1 \<longrightarrow> map_of (purges s) (content_hash r) \<noteq> None)"

definition attested_by :: "audit_record list \<Rightarrow> content_store \<Rightarrow> bool" where
  "attested_by rs s \<longleftrightarrow> (\<forall>h p rh. map_of (purges s) h = Some p \<and> pr_attestation p = Some rh \<longrightarrow>
     (\<exists>r \<in> set rs. record_hash r = rh \<and> content_hash r = h \<and> commitment r = COMMITMENT_PURGED_V1))"

definition content_inv :: "content_world \<Rightarrow> bool" where
  "content_inv w = (case w of (s, c, st) \<Rightarrow>
     store_ok s \<and> disjoint_store s \<and> (\<forall>r \<in> set (ac_records c). claim_ok s r) \<and>
     attested_by (ac_records c) s \<and> well_linked GENESIS_HASH (ac_records c))"

lemma chain_record_grows:
  assumes "chain_record env now fault a (c, st) = ((c', st'), res)"
  shows "ac_records c' = ac_records c \<or>
    (\<exists>r. ac_records c' = ac_records c @ [r] \<and> commitment r = ra_commitment a \<and>
      content_hash r = hash_content (ra_content a))"
proof (cases res)
  case (Inl e)
  with assms chain_record_Inl show ?thesis by blast
next
  case (Inr r)
  with assms have "seal_entry env c now a = Inr r" "c' = c\<lparr>ac_records := ac_records c @ [r]\<rparr>"
    using chain_record_Inr by blast+
  then show ?thesis using seal_entry_Inr by auto
qed

lemma chain_record_keeps_linked:
  assumes "chain_record env now fault a (c, st) = ((c', st'), res)" "well_linked GENESIS_HASH (ac_records c)"
  shows "well_linked GENESIS_HASH (ac_records c')"
proof (cases res)
  case (Inl e)
  with assms chain_record_Inl show ?thesis by metis
next
  case (Inr r)
  with assms chain_record_linked show ?thesis by blast
qed

lemma attested_by_mono:
  "attested_by rs s \<Longrightarrow> set rs \<subseteq> set rs' \<Longrightarrow> map_of (purges s') = map_of (purges s) \<Longrightarrow> attested_by rs' s'"
  unfolding attested_by_def by (metis subsetD)

lemma claim_ok_mono:
  assumes "claim_ok s r"
    and "\<And>h. map_of (bodies s) h \<noteq> None \<Longrightarrow> map_of (bodies s') h \<noteq> None \<or> map_of (purges s') h \<noteq> None"
    and "\<And>h. map_of (purges s) h \<noteq> None \<Longrightarrow> map_of (purges s') h \<noteq> None"
  shows "claim_ok s' r"
  using assms unfolding claim_ok_def by blast

lemma commitment_ne: "COMMITMENT_PURGED_V1 \<notin> set stored_forms" "COMMITMENT_NONE \<notin> set stored_forms"
  "COMMITMENT_NONE \<noteq> COMMITMENT_PURGED_V1"
  by (simp_all add: stored_forms_def commitment_defs)

lemma stored_form:
  assumes "store_ok s" "map_of (bodies s) h \<noteq> None"
  shows "commitment_form h s \<in> set stored_forms"
proof -
  obtain row where "map_of (bodies s) h = Some row" using assms(2) by blast
  moreover from this have "row_ok h row" by (rule store_okD [OF assms(1)])
  ultimately show ?thesis
    by (auto simp: row_ok_def commitment_form_def store_marker_def stored_forms_def commitment_defs Let_def)
qed

lemma others_inv:
  assumes "content_inv (s, c, st)" "chain_record env t fault a (c, st) = ((c', st'), res)"
    and "claim_ok s r'" "ra_commitment a = commitment r'" "hash_content (ra_content a) = content_hash r'"
  shows "content_inv (s, c', st')"
proof -
  have "well_linked GENESIS_HASH (ac_records c')"
    using chain_record_keeps_linked [OF assms(2)] assms(1) by (simp add: content_inv_def)
  moreover have "\<forall>r \<in> set (ac_records c'). claim_ok s r" "set (ac_records c) \<subseteq> set (ac_records c')"
    using chain_record_grows [OF assms(2)] assms(1,3,4,5) by (auto simp: content_inv_def claim_ok_def)
  ultimately show ?thesis
    using assms(1) attested_by_mono [of "ac_records c" s "ac_records c'" s] by (simp add: content_inv_def)
qed

lemma decides_inv:
  assumes "content_inv (s, c, st)" "length salt = SALT_BYTES"
    and "put_and_record env salt t1 t2 fault False a (s, c, st) = ((s', c', st'), res)"
  shows "content_inv (s', c', st')"
proof -
  obtain s1 d where put: "put_body salt t1 (ra_content a) s = (s1, d)" by (cases "put_body salt t1 (ra_content a) s")
  note ok = put_body_ok [OF put _ assms(2)] put_body_disjoint [OF put]
  have inv: "content_inv (s1, c, st)"
    using put
  proof (cases rule: put_body_cases)
    case (stored row)
    have "\<forall>r \<in> set (ac_records c). claim_ok s1 r"
      using assms(1) by (auto simp: content_inv_def stored intro: claim_ok_mono)
    moreover have "attested_by (ac_records c) s1"
      using assms(1) attested_by_mono [of "ac_records c" s _ s1] stored(4) by (simp add: content_inv_def)
    ultimately show ?thesis using ok assms(1) by (simp add: content_inv_def)
  qed (use assms(1) in simp_all)
  show ?thesis
  proof (cases d)
    case (Inl e)
    with assms(3) put inv show ?thesis by (simp add: put_and_record_def)
  next
    case (Inr h)
    then have h: "h = sha256_text (ra_content a)" "map_of (bodies s1) h \<noteq> None"
      using put by (auto elim: put_body_cases)
    let ?b = "a\<lparr>ra_commitment := commitment_form h s1\<rparr>"
    from assms(3) put Inr have rec: "chain_record env t2 fault ?b (c, st) = ((c', st'), res)" "s' = s1"
      by (simp_all add: put_and_record_def split: prod.splits)
    have "commitment_form h s1 \<in> set stored_forms"
      using stored_form inv h(2) by (simp add: content_inv_def)
    then have "claim_ok s1 (undefined\<lparr>commitment := commitment_form h s1, content_hash := h\<rparr>)"
      using h(2) commitment_ne by (auto simp: claim_ok_def)
    from others_inv [OF inv rec(1) this] rec(2) h(1) show ?thesis by (simp add: hash_content_def)
  qed
qed

lemma purges_inv:
  assumes "content_inv (s, c, st)"
    and "purge env t1 t2 fault h client reason trace digest (s, c, st) = ((s', c', st'), res)"
  shows "content_inv (s', c', st')"
proof -
  have ok: "store_ok s" "disjoint_store s" "\<forall>r \<in> set (ac_records c). claim_ok s r" "attested_by (ac_records c) s"
    "well_linked GENESIS_HASH (ac_records c)"
    using assms(1) by (simp_all add: content_inv_def)
  from assms(2) ok(1) show ?thesis
  proof (cases rule: purge_cases)
    case (refused e)
    with assms(1) show ?thesis by simp
  next
    case (unattested e)
    have "\<forall>r \<in> set (ac_records c). claim_ok s' r"
      using ok(3) by (auto simp: unattested claim_ok_def)
    moreover have "attested_by (ac_records c) s'"
      using ok(4) unfolding attested_by_def by (auto simp: unattested split: if_splits)
    ultimately show ?thesis
      using ok by (auto simp: content_inv_def unattested store_ok_def disjoint_store_def)
  next
    case (attested r body)
    note rec = chain_record_Inr [OF attested(2)]
    have r: "ac_records c' = ac_records c @ [r]" "commitment r = COMMITMENT_PURGED_V1"
      using rec seal_entry_Inr [of env c t2 _ r] by (auto simp: purge_args_def)
    have "\<forall>q \<in> set (ac_records c). claim_ok s' q"
      using ok(3) by (auto simp: attested claim_ok_def)
    moreover have "claim_ok s' r"
      using r(2) attested(3) commitment_ne by (auto simp: claim_ok_def attested)
    moreover have "attested_by (ac_records c') s'"
      using ok(4) r attested(3) unfolding attested_by_def by (auto simp: attested split: if_splits)
    ultimately show ?thesis
      using ok chain_record_keeps_linked [OF attested(2)] r(1)
      by (auto simp: content_inv_def attested store_ok_def disjoint_store_def)
  qed
qed

lemma content_step_inv: "content_step w w' \<Longrightarrow> content_inv w \<Longrightarrow> content_inv w'"
proof (induction rule: content_step.induct)
  case (decides salt env t1 t2 fault a w w' res)
  then show ?case using decides_inv by (cases w; cases w') auto
next
  case (purges env t1 t2 fault h client reason trace digest w w' res)
  then show ?case using purges_inv by (cases w; cases w') auto
next
  case (others a env t fault cs cs' res s)
  moreover have "claim_ok s (undefined\<lparr>commitment := COMMITMENT_NONE, content_hash := hash_content (ra_content a)\<rparr>)"
    using commitment_ne by (auto simp: claim_ok_def)
  ultimately show ?case
    using others_inv by (cases cs; cases cs') fastforce
qed

lemma content_reachable_inv: "content_reachable w \<Longrightarrow> content_inv w"
proof (induction rule: content_reachable.induct)
  case (start c st)
  then show ?case
    by (simp add: content_inv_def empty_store_def store_ok_def disjoint_store_def attested_by_def)
next
  case (step w w')
  then show ?case by (blast intro: content_step_inv)
qed

subsection \<open>What the comparison finds\<close>

lemma claims_keys:
  "h \<in> fst ` set (collect_claims i rs claims) \<longleftrightarrow>
     h \<in> fst ` set claims \<or> (\<exists>r \<in> set rs. content_hash r = h \<and> commitment r \<in> set stored_forms)"
proof (induction i rs claims rule: collect_claims.induct)
  case (2 i r rs claims)
  then show ?case using commitment_ne(1) by (auto simp: keys_dict_set)
qed simp

lemma claims_distinct: "distinct (map fst claims) \<Longrightarrow> distinct (map fst (collect_claims i rs claims))"
  by (induction i rs claims rule: collect_claims.induct) (simp_all add: distinct_dict_set)

text \<open>One finding per digest and kind, with the exact condition of each kind.\<close>

lemma reconcile_findings:
  "(\<exists>f \<in> set (findings (reconcile rs s)). fi_kind f = k \<and> fi_hash f = h) \<longleftrightarrow>
     k = FINDING_UNATTESTED_PURGE \<and> (\<exists>r \<in> set rs. content_hash r = h \<and> commitment r \<in> set stored_forms) \<and>
       store_status h s = STATUS_PURGED \<and> h \<notin> set (attested_digests rs) \<or>
     k = FINDING_BODY_MISSING \<and> (\<exists>r \<in> set rs. content_hash r = h \<and> commitment r \<in> set stored_forms) \<and>
       store_status h s = STATUS_UNKNOWN \<or>
     k = FINDING_UNEFFECTED_PURGE \<and> h \<in> set (attested_digests rs) \<and> store_status h s = STATUS_PRESENT"
proof -
  let ?A = "attested_digests rs" and ?C = "collect_claims 0 rs []"
  have claim: "(\<exists>f \<in> set (claim_findings s ?A c). fi_kind f = k \<and> fi_hash f = h) \<longleftrightarrow> fst c = h \<and>
      (k = FINDING_UNATTESTED_PURGE \<and> store_status h s = STATUS_PURGED \<and> h \<notin> set ?A \<or>
       k = FINDING_BODY_MISSING \<and> store_status h s = STATUS_UNKNOWN)" for c
    by (cases c) (auto simp: claim_findings_def Let_def status_defs)
  have att: "(\<exists>f \<in> set (attested_findings s g). fi_kind f = k \<and> fi_hash f = h) \<longleftrightarrow>
      g = h \<and> k = FINDING_UNEFFECTED_PURGE \<and> store_status h s = STATUS_PRESENT" for g
    by (auto simp: attested_findings_def)
  have "(\<exists>f \<in> set (findings (reconcile rs s)). fi_kind f = k \<and> fi_hash f = h) \<longleftrightarrow>
     (\<exists>c \<in> set ?C. \<exists>f \<in> set (claim_findings s ?A c). fi_kind f = k \<and> fi_hash f = h) \<or>
     (\<exists>g \<in> set ?A. \<exists>f \<in> set (attested_findings s g). fi_kind f = k \<and> fi_hash f = h)"
    by (simp add: reconcile_def Let_def) blast
  also have "\<dots> \<longleftrightarrow> h \<in> fst ` set ?C \<and> (k = FINDING_UNATTESTED_PURGE \<and> store_status h s = STATUS_PURGED \<and> h \<notin> set ?A \<or>
       k = FINDING_BODY_MISSING \<and> store_status h s = STATUS_UNKNOWN) \<or>
     h \<in> set ?A \<and> k = FINDING_UNEFFECTED_PURGE \<and> store_status h s = STATUS_PRESENT"
    unfolding claim att by force
  finally show ?thesis unfolding claims_keys by auto
qed

lemma attested_digests_iff:
  "h \<in> set (attested_digests rs) \<longleftrightarrow> (\<exists>r \<in> set rs. content_hash r = h \<and> commitment r = COMMITMENT_PURGED_V1)"
  by (auto simp: attested_digests_def)

lemma status_cases:
  "store_status h s = STATUS_PRESENT \<longleftrightarrow> map_of (bodies s) h \<noteq> None"
  "store_status h s = STATUS_PURGED \<longleftrightarrow> map_of (bodies s) h = None \<and> map_of (purges s) h \<noteq> None"
  "store_status h s = STATUS_UNKNOWN \<longleftrightarrow> map_of (bodies s) h = None \<and> map_of (purges s) h = None"
  by (auto simp: store_status_def status_defs)

lemma finding_kind: "f \<in> set (findings (reconcile rs s)) \<Longrightarrow> fi_kind f \<in> set FINDING_KINDS"
  using reconcile_findings [of rs s "fi_kind f" "fi_hash f"] by (auto simp: FINDING_KINDS_def)

lemma only_unattested:
  "\<not> (claimed \<and> nobody \<and> nopurge) \<Longrightarrow> \<not> (att \<and> \<not> nobody) \<Longrightarrow> (\<not> nopurge \<Longrightarrow> nobody) \<Longrightarrow>
    (k1 \<and> claimed \<and> (nobody \<and> \<not> nopurge) \<and> \<not> att \<or> k2 \<and> claimed \<and> nobody \<and> nopurge \<or> k3 \<and> att \<and> \<not> nobody) \<longleftrightarrow>
    k1 \<and> claimed \<and> \<not> nopurge \<and> \<not> att"
  by blast

subsection \<open>Properties\<close>

text \<open>C14: in every state the served operations can reach, whatever faults the audit store raised on
  the way, the records are true of the content store: \<open>reconcile\<close> never reports a missing body
  or an uneffected purge, and it reports an unattested purge exactly for the digests some
  record claims as stored whose purge has no attestation, that is, whose purge call raised.
  Every attestation in the store names a purge record in the chain, and the chain verifies.\<close>

theorem records_agree_with_store:
  assumes "content_reachable (s, c, st)"
  shows "((\<exists>f \<in> set (findings (reconcile (ac_records c) s)). fi_kind f = k \<and> fi_hash f = h) \<longleftrightarrow>
      k = FINDING_UNATTESTED_PURGE \<and>
      (\<exists>r \<in> set (ac_records c). content_hash r = h \<and> commitment r \<in> set stored_forms) \<and>
      map_of (purges s) h \<noteq> None \<and>
      \<not> (\<exists>r \<in> set (ac_records c). content_hash r = h \<and> commitment r = COMMITMENT_PURGED_V1)) \<and>
    (\<forall>p rh. map_of (purges s) h = Some p \<and> pr_attestation p = Some rh \<longrightarrow>
      (\<exists>r \<in> set (ac_records c). record_hash r = rh \<and> content_hash r = h \<and> commitment r = COMMITMENT_PURGED_V1)) \<and>
    (\<exists>m. chain_verify c = Inr (True, m))"
proof -
  have inv: "disjoint_store s" "\<forall>r \<in> set (ac_records c). claim_ok s r" "attested_by (ac_records c) s"
    "well_linked GENESIS_HASH (ac_records c)"
    using content_reachable_inv [OF assms] by (simp_all add: content_inv_def)
  have d: "map_of (purges s) g \<noteq> None \<Longrightarrow> map_of (bodies s) g = None" for g
    using inv(1) by (auto simp: disjoint_store_def)
  have gone: "map_of (purges s) (content_hash r) \<noteq> None"
    if "r \<in> set (ac_records c)" "commitment r = COMMITMENT_PURGED_V1" for r
    using inv(2) that unfolding claim_ok_def by blast
  have purged_none: "map_of (bodies s) (content_hash r) = None"
    if "r \<in> set (ac_records c)" "commitment r = COMMITMENT_PURGED_V1" for r
    using d gone that by simp
  have kept: "map_of (bodies s) (content_hash r) \<noteq> None \<or> map_of (purges s) (content_hash r) \<noteq> None"
    if "r \<in> set (ac_records c)" "commitment r \<in> set stored_forms" for r
    using inv(2) that unfolding claim_ok_def by blast
  have "(\<exists>f \<in> set (findings (reconcile (ac_records c) s)). fi_kind f = k \<and> fi_hash f = h) \<longleftrightarrow>
      k = FINDING_UNATTESTED_PURGE \<and>
      (\<exists>r \<in> set (ac_records c). content_hash r = h \<and> commitment r \<in> set stored_forms) \<and>
      map_of (purges s) h \<noteq> None \<and>
      \<not> (\<exists>r \<in> set (ac_records c). content_hash r = h \<and> commitment r = COMMITMENT_PURGED_V1)"
  proof -
    have "\<not> ((\<exists>r \<in> set (ac_records c). content_hash r = h \<and> commitment r \<in> set stored_forms) \<and>
        map_of (bodies s) h = None \<and> map_of (purges s) h = None)"
      using kept by blast
    moreover have "\<not> ((\<exists>r \<in> set (ac_records c). content_hash r = h \<and> commitment r = COMMITMENT_PURGED_V1) \<and>
        map_of (bodies s) h \<noteq> None)"
      by (metis purged_none)
    ultimately show ?thesis
      unfolding reconcile_findings status_cases attested_digests_iff by (rule only_unattested) (rule d)
  qed
  moreover have "\<forall>p rh. map_of (purges s) h = Some p \<and> pr_attestation p = Some rh \<longrightarrow>
      (\<exists>r \<in> set (ac_records c). record_hash r = rh \<and> content_hash r = h \<and> commitment r = COMMITMENT_PURGED_V1)"
    using inv(3) unfolding attested_by_def by (rule spec)
  moreover have "\<exists>m. chain_verify c = Inr (True, m)"
    using inv(4) by (simp add: chain_verify_def verify_records_ok)
  ultimately show ?thesis by (intro conjI)
qed

definition memory_chain :: audit_chain where
  "memory_chain = \<lparr>ac_records = [], ac_tenant = Some ''t'', ac_backend = InMemoryBackend, ac_db_path = None\<rparr>"

lemma demo_decides:
  "\<exists>r row. put_and_record (\<lambda>_. None) (replicate 32 (CHR ''x'')) 4 5 None False demo_args (empty_store, memory_chain, []) =
     ((\<lparr>bodies = [(sha256_text ''hi'', row)], purges = []\<rparr>, memory_chain\<lparr>ac_records := [r]\<rparr>, []), Inr r) \<and>
     br_body row = ''hi'' \<and> row_ok (sha256_text ''hi'') row"
proof -
  let ?row = "\<lparr>br_algo = COMMITMENT_VERSION, br_marker = ''salted-v1'', br_salt = Some (replicate 32 (CHR ''x'')),
    br_commitment = commitment_digest ''hi'' (Some (replicate 32 (CHR ''x''))), br_body = ''hi'', br_created = 4\<rparr>"
  let ?s = "\<lparr>bodies = [(sha256_text ''hi'', ?row)], purges = []\<rparr>"
  have put: "put_body (replicate 32 (CHR ''x'')) 4 ''hi'' empty_store = (?s, Inr (sha256_text ''hi''))"
    by (simp add: put_body_def empty_store_def Let_def)
  have form: "commitment_form (sha256_text ''hi'') ?s = COMMITMENT_SALTED_V1"
    by (simp add: commitment_form_def store_marker_def Let_def)
  have "\<exists>r. seal_entry (\<lambda>_. None) memory_chain 5 (demo_args\<lparr>ra_commitment := COMMITMENT_SALTED_V1\<rparr>) = Inr r"
    by (rule seal_entry_total)
       (auto simp: demo_args_def memory_chain_def call_args_def commitment_defs record_tenant_def
         bound_evidence_required_def env_or_empty_def getenv_def strip_def rstrip_def lstrip_def lower_def)
  then obtain r where "chain_record (\<lambda>_. None) 5 None (demo_args\<lparr>ra_commitment := COMMITMENT_SALTED_V1\<rparr>) (memory_chain, []) =
     ((memory_chain\<lparr>ac_records := [r]\<rparr>, []), Inr r)"
    by (auto simp: chain_record_def memory_chain_def)
  moreover have "ra_content demo_args = ''hi''" by (simp add: demo_args_def call_args_def)
  moreover have "row_ok (sha256_text ''hi'') ?row" by (simp add: row_ok_def SALT_BYTES_def)
  ultimately show ?thesis
    using put form unfolding put_and_record_def by (intro exI [of _ r] exI [of _ ?row]) simp
qed

text \<open>A decision is stored and recorded, and its body purged.\<close>

lemma demo_purges:
  "\<exists>r row s' q. put_and_record (\<lambda>_. None) (replicate 32 (CHR ''x'')) 4 5 None False demo_args (empty_store, memory_chain, []) =
       ((\<lparr>bodies = [(sha256_text ''hi'', row)], purges = []\<rparr>, memory_chain\<lparr>ac_records := [r]\<rparr>, []), Inr r) \<and>
     store_ok \<lparr>bodies = [(sha256_text ''hi'', row)], purges = []\<rparr> \<and>
     purge (\<lambda>_. None) 6 7 None (sha256_text ''hi'') ''admin'' ''erasure'' None None
       (\<lparr>bodies = [(sha256_text ''hi'', row)], purges = []\<rparr>, memory_chain\<lparr>ac_records := [r]\<rparr>, []) =
       ((s', memory_chain\<lparr>ac_records := [r, q]\<rparr>, []), Inr (record_hash q)) \<and>
     content_hash r = sha256_text ''hi'' \<and> content_hash q = sha256_text ''hi'' \<and> commitment q = COMMITMENT_PURGED_V1"
proof -
  obtain r row where d: "put_and_record (\<lambda>_. None) (replicate 32 (CHR ''x'')) 4 5 None False demo_args (empty_store, memory_chain, []) =
     ((\<lparr>bodies = [(sha256_text ''hi'', row)], purges = []\<rparr>, memory_chain\<lparr>ac_records := [r]\<rparr>, []), Inr r)"
     "br_body row = ''hi''" "row_ok (sha256_text ''hi'') row"
    using demo_decides by blast
  let ?c = "memory_chain\<lparr>ac_records := [r]\<rparr>" and ?a = "purge_args ''admin'' ''erasure'' ''hi'' None None"
  have "\<exists>q. seal_entry (\<lambda>_. None) ?c 7 ?a = Inr q"
    by (rule seal_entry_total)
       (auto simp: purge_args_def memory_chain_def call_args_def commitment_defs record_tenant_def
         bound_evidence_required_def env_or_empty_def getenv_def strip_def rstrip_def lstrip_def lower_def)
  then obtain q where q: "seal_entry (\<lambda>_. None) ?c 7 ?a = Inr q" by blast
  then have rec: "chain_record (\<lambda>_. None) 7 None ?a (?c, []) = ((memory_chain\<lparr>ac_records := [r, q]\<rparr>, []), Inr q)"
    by (simp add: chain_record_def memory_chain_def)
  obtain form where "seal_entry (\<lambda>_. None) memory_chain 5 (demo_args\<lparr>ra_commitment := form\<rparr>) = Inr r"
    using d(1) by (auto simp: put_and_record_def chain_record_def split: prod.splits sum.splits)
  then have "content_hash r = sha256_text ''hi''"
    using seal_entry_Inr by (auto simp: demo_args_def call_args_def hash_content_def)
  moreover have "content_hash q = sha256_text ''hi''" "commitment q = COMMITMENT_PURGED_V1"
    using seal_entry_Inr [OF q] by (simp_all add: purge_args_def call_args_def hash_content_def)
  moreover from this rec d(2) have "\<exists>s'. purge (\<lambda>_. None) 6 7 None (sha256_text ''hi'') ''admin'' ''erasure'' None None
       (\<lparr>bodies = [(sha256_text ''hi'', row)], purges = []\<rparr>, ?c, []) =
       ((s', memory_chain\<lparr>ac_records := [r, q]\<rparr>, []), Inr (record_hash q))"
    by (simp add: purge_def delete_body_def)
  moreover have "store_ok \<lparr>bodies = [(sha256_text ''hi'', row)], purges = []\<rparr>" using d(3) by (simp add: store_ok_def)
  ultimately show ?thesis using d(1) by blast
qed

lemma memory_content: "content_reachable (empty_store, memory_chain, [])"
  by (rule content_reachable.start) (simp add: memory_chain_def)

theorem records_agree_with_store_witness:
  "\<exists>s c st r q. content_reachable (s, c, st) \<and> ac_records c = [r, q] \<and> commitment q = COMMITMENT_PURGED_V1 \<and>
     findings (reconcile [r, q] s) = [] \<and> (\<exists>m. chain_verify c = Inr (True, m))"
proof -
  obtain r row s' q where d: "put_and_record (\<lambda>_. None) (replicate 32 (CHR ''x'')) 4 5 None False demo_args (empty_store, memory_chain, []) =
       ((\<lparr>bodies = [(sha256_text ''hi'', row)], purges = []\<rparr>, memory_chain\<lparr>ac_records := [r]\<rparr>, []), Inr r)"
      "purge (\<lambda>_. None) 6 7 None (sha256_text ''hi'') ''admin'' ''erasure'' None None
       (\<lparr>bodies = [(sha256_text ''hi'', row)], purges = []\<rparr>, memory_chain\<lparr>ac_records := [r]\<rparr>, []) =
       ((s', memory_chain\<lparr>ac_records := [r, q]\<rparr>, []), Inr (record_hash q))"
      "content_hash r = sha256_text ''hi''" "content_hash q = sha256_text ''hi''" "commitment q = COMMITMENT_PURGED_V1"
    using demo_purges by blast
  let ?c = "memory_chain\<lparr>ac_records := [r, q]\<rparr>"
  have "content_step (empty_store, memory_chain, []) (\<lparr>bodies = [(sha256_text ''hi'', row)], purges = []\<rparr>, memory_chain\<lparr>ac_records := [r]\<rparr>, [])"
    by (rule content_step.decides [OF _ d(1)]) (simp add: SALT_BYTES_def)
  from content_reachable.step [OF content_reachable.step [OF memory_content this] content_step.purges [OF d(2)]]
  have reach: "content_reachable (s', ?c, [])" .
  note agree = records_agree_with_store [OF reach]
  have "f \<notin> set (findings (reconcile (ac_records ?c) s'))" for f
    using agree [THEN conjunct1, of "fi_kind f" "fi_hash f"] d(3-5) by auto
  then have "findings (reconcile [r, q] s') = []" by (simp add: last_in_set) (metis last_in_set)
  with reach agree d(5) show ?thesis by (intro exI [of _ s'] exI [of _ ?c] exI [of _ "[]"] exI [of _ r] exI [of _ q]) simp
qed

text \<open>
  What may follow a purge of \<open>h\<close>: decisions and purges of any content, other records, and bodies
  stored without a salt as long as they are not the purged one again.
\<close>

inductive after_purge :: "string \<Rightarrow> content_world \<Rightarrow> content_world \<Rightarrow> bool" for h where
  now: "after_purge h w w"
| decides: "after_purge h v w \<Longrightarrow> legacy \<longrightarrow> sha256_text (ra_content a) \<noteq> h \<Longrightarrow>
    put_and_record env salt t1 t2 fault legacy a w = (w', res) \<Longrightarrow> after_purge h v w'"
| purges: "after_purge h v w \<Longrightarrow> purge env t1 t2 fault g client reason trace digest w = (w', res) \<Longrightarrow> after_purge h v w'"
| records: "after_purge h v (s, cs) \<Longrightarrow> chain_record env t fault a cs = (cs', res) \<Longrightarrow> after_purge h v (s, cs')"
| stores: "after_purge h v (s, cs) \<Longrightarrow> legacy \<longrightarrow> sha256_text body \<noteq> h \<Longrightarrow>
    (if legacy then put_legacy now body s else put_body salt now body s) = (s', res) \<Longrightarrow> after_purge h v (s', cs)"

definition gone :: "string \<Rightarrow> purge_row \<Rightarrow> content_store \<Rightarrow> bool" where
  "gone h p s \<longleftrightarrow> map_of (bodies s) h = None \<and> map_of (purges s) h = Some p"

lemma stored_keeps_gone:
  assumes "(if legacy then put_legacy now body s else put_body salt now body s) = (s', res)"
    and "legacy \<longrightarrow> sha256_text body \<noteq> h" "gone h p s"
  shows "gone h p s'"
  using assms by (auto simp: gone_def put_legacy_def put_body_def Let_def split: if_splits option.splits)

lemma purge_keeps_gone:
  assumes "purge env t1 t2 fault g client reason trace digest (s, cs) = ((s', cs'), res)" "gone h p s"
  shows "gone h p s'"
proof -
  obtain s1 out where d: "delete_body t1 g reason s = (s1, out)" by (cases "delete_body t1 g reason s")
  have s': "s' = s1 \<or> (\<exists>body rh. out = Inr body \<and> s' = attest g rh s1)"
    using assms(1) d by (auto simp: purge_def split: sum.splits prod.splits if_splits)
  from d show ?thesis
  proof (cases rule: delete_body_cases)
    case (refused e)
    with s' assms(2) show ?thesis by auto
  next
    case (deleted row)
    with s' assms(2) show ?thesis by (auto simp: gone_def map_of_attest)
  qed
qed

lemma after_purge_gone:
  assumes "after_purge h v w" "gone h p (fst v)"
  shows "gone h p (fst w)"
  using assms
proof (induction rule: after_purge.induct)
  case (decides v w legacy a env salt t1 t2 fault w' res)
  obtain x cs where w: "w = (x, cs)" by (cases w)
  let ?put = "if legacy then put_legacy t1 (ra_content a) x else put_body salt t1 (ra_content a) x"
  obtain s1 out where put: "?put = (s1, out)" by (cases ?put)
  have "fst w' = s1"
    using decides.hyps(3) unfolding w put_and_record_def prod.case put by (auto split: sum.splits prod.splits)
  with stored_keeps_gone [OF put decides.hyps(2)] decides.IH decides.prems w show ?case by simp
next
  case (purges v w env t1 t2 fault g client reason trace digest w' res)
  then show ?case using purge_keeps_gone [of env t1 t2 fault g client reason trace digest "fst w" "snd w" "fst w'" "snd w'" res h p]
    by simp
next
  case (stores v s cs legacy body "now" salt s' res)
  from stored_keeps_gone [OF stores.hyps(3,2)] stores.IH stores.prems show ?case by simp
qed simp_all

lemma gone_answers:
  assumes "gone h p s"
  shows "store_status h s = STATUS_PURGED" "\<exists>m. open_body h s = Inl (ContentPurged m)"
    "\<exists>m. verify_commitment h b s = Inl (ContentPurged m)"
    "sha256_text b = h \<Longrightarrow> \<exists>m. put_body salt now b s = (s, Inl (ContentPurged m))"
  using assms by (simp_all add: gone_def store_status_def open_body_def verify_commitment_def put_body_def
    put_purged_exn_def Let_def)

text \<open>C16: a purge is a deletion and is attested: if it returns, the body was held, exactly one record was
  appended, with the action PURGE, the purged digest and the commitment purged-v1, and its hash
  is what is returned and stored as the attestation. From then on, through any decisions,
  purges, records and stored bodies other than the unsalted storing of the purged body itself,
  its status is purged, its purge row is the same, reading or verifying it raises
  \<^const>\<open>ContentPurged\<close>, and offering the same body again to \<open>put\<close> is refused and changes nothing. (The
  exception is real: \<open>put\_legacy\<close> of the purged body stores it again, \<open>legacy\_restores\_purged\<close>.)
  If the purge raises, the chain is unchanged, and either the store is unchanged or the body is
  deleted with an unattested purge row. Other digests are untouched either way.\<close>

theorem purge_deletes_and_attests:
  assumes "store_ok s" and "purge env t1 t2 fault h client reason trace digest (s, c, st) = ((s', c', st'), res)"
  shows "(case res of
      Inr rh \<Rightarrow> store_status h s = STATUS_PRESENT \<and>
        (\<forall>s2 cs2. after_purge h (s', c', st') (s2, cs2) \<longrightarrow>
           store_status h s2 = STATUS_PURGED \<and> map_of (purges s2) h = map_of (purges s') h \<and>
           (\<exists>m. open_body h s2 = Inl (ContentPurged m)) \<and> (\<exists>m. verify_commitment h b s2 = Inl (ContentPurged m)) \<and>
           (sha256_text b = h \<longrightarrow> (\<exists>m. put_body salt now b s2 = (s2, Inl (ContentPurged m))))) \<and>
        (\<exists>r. ac_records c' = ac_records c @ [r] \<and> record_hash r = rh \<and> ar_action r = ''PURGE'' \<and>
           content_hash r = h \<and> commitment r = COMMITMENT_PURGED_V1) \<and>
        (\<exists>p. map_of (purges s') h = Some p \<and> pr_reason p = reason \<and> pr_attestation p = Some rh)
    | Inl e \<Rightarrow> c' = c \<and> st' = st \<and> (s' = s \<or> store_status h s = STATUS_PRESENT \<and>
        store_status h s' = STATUS_PURGED \<and> (\<exists>p. map_of (purges s') h = Some p \<and> pr_attestation p = None))) \<and>
    (g \<noteq> h \<longrightarrow> map_of (bodies s') g = map_of (bodies s) g \<and> map_of (purges s') g = map_of (purges s) g)"
  using assms(2,1)
proof (cases rule: purge_cases)
  case (refused e)
  then show ?thesis by simp
next
  case (unattested e)
  then show ?thesis by (simp add: status_cases)
next
  case (attested r body)
  note sealed = seal_entry_Inr [OF chain_record_Inr [OF attested(2), THEN conjunct1]]
  obtain p where p: "gone h p s'" using attested by (simp add: gone_def)
  have "store_status h s2 = STATUS_PURGED \<and> map_of (purges s2) h = map_of (purges s') h \<and>
      (\<exists>m. open_body h s2 = Inl (ContentPurged m)) \<and> (\<exists>m. verify_commitment h b s2 = Inl (ContentPurged m)) \<and>
      (sha256_text b = h \<longrightarrow> (\<exists>m. put_body salt now b s2 = (s2, Inl (ContentPurged m))))"
    if "after_purge h (s', c', st') (s2, cs2)" for s2 cs2
  proof -
    have p2: "gone h p s2" using after_purge_gone [OF that, of p] p by simp
    with p have "map_of (purges s2) h = map_of (purges s') h" by (simp add: gone_def)
    with gone_answers [OF p2] show ?thesis by blast
  qed
  moreover have "ac_records c' = ac_records c @ [r]" "ar_action r = ''PURGE''" "commitment r = COMMITMENT_PURGED_V1"
    using sealed chain_record_Inr [OF attested(2)] by (simp_all add: purge_args_def call_args_def)
  ultimately show ?thesis
    using attested by (simp add: status_cases)
qed

theorem purge_deletes_and_attests_witness:
  "\<exists>s c s' c' st' r q. purge (\<lambda>_. None) 6 7 None (sha256_text ''hi'') ''admin'' ''erasure'' None None (s, c, []) =
       ((s', c', st'), Inr (record_hash q)) \<and> ac_records c = [r] \<and> ac_records c' = [r, q] \<and>
     store_status (sha256_text ''hi'') s = STATUS_PRESENT \<and> store_status (sha256_text ''hi'') s' = STATUS_PURGED \<and>
     (\<exists>m. put_body [] 8 ''hi'' s' = (s', Inl (ContentPurged m)))"
proof -
  obtain r row s' q where d: "store_ok \<lparr>bodies = [(sha256_text ''hi'', row)], purges = []\<rparr>"
      "purge (\<lambda>_. None) 6 7 None (sha256_text ''hi'') ''admin'' ''erasure'' None None
       (\<lparr>bodies = [(sha256_text ''hi'', row)], purges = []\<rparr>, memory_chain\<lparr>ac_records := [r]\<rparr>, []) =
       ((s', memory_chain\<lparr>ac_records := [r, q]\<rparr>, []), Inr (record_hash q))"
    using demo_purges by blast
  from purge_deletes_and_attests [OF d, of "''hi''" "[]" 8] after_purge.now [of "sha256_text ''hi''" "(s', memory_chain\<lparr>ac_records := [r, q]\<rparr>, [])"]
  have "store_status (sha256_text ''hi'') \<lparr>bodies = [(sha256_text ''hi'', row)], purges = []\<rparr> = STATUS_PRESENT \<and>
    store_status (sha256_text ''hi'') s' = STATUS_PURGED \<and> (\<exists>m. put_body [] 8 ''hi'' s' = (s', Inl (ContentPurged m)))"
    by simp blast
  with d(2) show ?thesis
    by (intro exI [of _ "\<lparr>bodies = [(sha256_text ''hi'', row)], purges = []\<rparr>"] exI [of _ "memory_chain\<lparr>ac_records := [r]\<rparr>"]
      exI [of _ s'] exI [of _ "memory_chain\<lparr>ac_records := [r, q]\<rparr>"] exI [of _ "[]"] exI [of _ r] exI [of _ q]) simp
qed

text \<open>Verifying a commitment tells the three cases apart: over a store whose rows are as the
  operations leave them, it returns True exactly for the body that was stored, up to a collision
  between the two digested texts, and it raises exactly when the digest is purged
  (\<^const>\<open>ContentPurged\<close>) or was never held (\<^const>\<open>PurgeRefused\<close>).\<close>

theorem verify_commitment_exact:
  assumes "store_ok s"
  shows "case verify_commitment h b s of
      Inr ok \<Rightarrow> (\<exists>row. map_of (bodies s) h = Some row \<and> h = sha256_text (br_body row) \<and>
        (b = br_body row \<longrightarrow> ok) \<and>
        (ok \<longrightarrow> b = br_body row \<or>
          commitment_bytes b (br_salt row) \<noteq> commitment_bytes (br_body row) (br_salt row) \<and>
          sha256_hex (commitment_bytes b (br_salt row)) = sha256_hex (commitment_bytes (br_body row) (br_salt row))))
    | Inl e \<Rightarrow> (\<exists>m. e = ContentPurged m \<and> store_status h s = STATUS_PURGED) \<or>
        (\<exists>m. e = PurgeRefused m \<and> store_status h s = STATUS_UNKNOWN)"
proof (cases "map_of (bodies s) h")
  case None
  then show ?thesis
    by (cases "map_of (purges s) h") (simp_all add: verify_commitment_def status_cases)
next
  case (Some row)
  then have row: "h = sha256_text (br_body row)" "br_commitment row = commitment_digest (br_body row) (br_salt row)"
    using store_okD [OF assms Some] by (simp_all add: row_ok_def)
  have "commitment_bytes b salt = commitment_bytes b' salt \<longleftrightarrow> b = b'" for b b' salt
    by (cases salt) (simp_all add: commitment_bytes_def)
  with Some row show ?thesis by (auto simp: verify_commitment_def commitment_digest_def)
qed

theorem verify_commitment_exact_witness:
  "verify_commitment (sha256_text ''hi'') ''hi'' empty_store \<noteq> Inr True"
  using verify_commitment_exact [of empty_store "sha256_text ''hi''" "''hi''"]
  by (auto simp: store_ok_def empty_store_def verify_commitment_def)

subsection \<open>Purged content stored again\<close>

text \<open>
  \<open>put\_legacy\<close> does not look at the purges: it stores a purged body again, and the digest can
  never be purged a second time, since the insert of its purge row fails and takes the deletion
  back.
\<close>

lemma legacy_restores_purged:
  assumes "map_of (bodies s) (sha256_text b) = None" "map_of (purges s) (sha256_text b) = Some p"
    and "put_legacy now b s = (s', res)"
  shows "open_body (sha256_text b) s' = Inr b"
    and "\<exists>m. purge env t1 t2 fault (sha256_text b) client reason trace digest (s', cs) = ((s', cs), Inl (IntegrityError m))"
  using assms by (auto simp: put_legacy_def open_body_def purge_def delete_body_def Let_def)

end
