(* ===== verification/Content_Retention.thy ===== *)
theory Content_Retention
  imports Retention Regex
begin

text \<open>
  \<open>src/custos/content\_retention.py\<close>, the configuration of content retention and the file of
  each tenant, and \<open>record\_decision\<close> of \<open>src/custos/retention.py\<close>, which every path that
  decides content goes through. The side stores are the files of the store directory, by path;
  the cache of opened stores is transparent and not modelled. Whether a path is a directory is
  an argument.
\<close>

subsection \<open>Configuration\<close>

definition MODE_OFF :: string where "MODE_OFF = ''off''"
definition MODE_STORE :: string where "MODE_STORE = ''store''"

definition content_retention_mode :: "environment \<Rightarrow> string result" where
  "content_retention_mode env = (case env ''CUSTOS_CONTENT_RETENTION'' of
     None \<Rightarrow> Inr MODE_OFF
   | Some raw \<Rightarrow> if strip raw = [] then Inr MODE_OFF
       else let value = lower (strip raw) in
         if value \<notin> set [MODE_OFF, MODE_STORE] then
           Inl (RetentionConfigRefused (''CUSTOS_CONTENT_RETENTION='' @ py_repr raw @
             '' is not a retention mode; this build implements off and store. Refused rather than defaulted, because guessing here decides whether the service keeps the content it reads''))
         else Inr value)"

definition stripped_env :: "environment \<Rightarrow> string \<Rightarrow> string option" where
  "stripped_env env k = (case env k of
     None \<Rightarrow> None
   | Some raw \<Rightarrow> if strip raw = [] then None else Some (strip raw))"

definition store_directory :: "environment \<Rightarrow> string option" where
  "store_directory env = stripped_env env ''CUSTOS_CONTENT_STORE_DIR''"

definition retention_admin_token :: "environment \<Rightarrow> string option" where
  "retention_admin_token env = stripped_env env ''CUSTOS_RETENTION_ADMIN_TOKEN''"

definition safe_tenant_pattern :: string where
  "safe_tenant_pattern = ''^[A-Za-z0-9][A-Za-z0-9._-]{0,63}$''"

definition safe_tenant :: "string \<Rightarrow> bool" where
  "safe_tenant t = (case py_search safe_tenant_pattern t of Inr (Some m) \<Rightarrow> True | _ \<Rightarrow> False)"

definition HASHED_PREFIX :: string where "HASHED_PREFIX = ''t-''"

definition store_file_name :: "string \<Rightarrow> string" where
  "store_file_name t =
     (if safe_tenant t \<and> \<not> startswith t HASHED_PREFIX then ''content-'' @ t @ ''.sqlite''
      else ''content-'' @ HASHED_PREFIX @ take 32 (sha256_text t) @ ''.sqlite'')"

definition store_path_for :: "string \<Rightarrow> string \<Rightarrow> string" where
  "store_path_for directory t = path_join directory (store_file_name t)"

text \<open>\<open>content\_store\_for\<close>: the path of the tenant's store, or None when retention is off.\<close>

definition content_store_for :: "environment \<Rightarrow> string \<Rightarrow> string option result" where
  "content_store_for env t = try_bind (content_retention_mode env) (\<lambda>mode.
     if mode = MODE_OFF then Inr None
     else (case store_directory env of
       None \<Rightarrow> Inl (RetentionConfigRefused ''CUSTOS_CONTENT_RETENTION=store requires CUSTOS_CONTENT_STORE_DIR. A retention mode with nowhere to store content would record bodies it cannot delete'')
     | Some d \<Rightarrow> Inr (Some (store_path_for d t))))"

definition validate_content_retention ::
  "environment \<Rightarrow> (string \<Rightarrow> bool) \<Rightarrow> string option \<Rightarrow> (string \<times> json) list result" where
  "validate_content_retention env is_dir env_arg =
     (let raw = (case env_arg of Some e \<Rightarrow> e | None \<Rightarrow> getenv env ''CUSTOS_ENV'' ''development'');
          environment = lower (if raw = [] then ''development'' else raw) in
      try_bind (content_retention_mode env) (\<lambda>mode.
      let directory = store_directory env; token = retention_admin_token env;
          summary = [(''content_retention'', JStr mode), (''content_store_dir'', opt_json directory),
            (''retention_admin_configured'', JBool (token \<noteq> None)), (''environment'', JStr environment)] in
      if mode = MODE_STORE then (case directory of
          None \<Rightarrow> Inl (RetentionConfigRefused ''CUSTOS_CONTENT_RETENTION=store requires CUSTOS_CONTENT_STORE_DIR. Refusing to start: the mode promises an erasure path and has nowhere to delete from'')
        | Some d \<Rightarrow> if \<not> is_dir d then
            Inl (RetentionConfigRefused (''CUSTOS_CONTENT_STORE_DIR='' @ py_repr d @ '' is not a directory. Refusing to create it, because a store path that appears when asked is a path an operator has not chosen''))
          else if token = None then
            Inl (RetentionConfigRefused ''CUSTOS_CONTENT_RETENTION=store requires CUSTOS_RETENTION_ADMIN_TOKEN. Content is being kept and nothing can erase it, which is the state the mode exists to make impossible'')
          else Inr summary)
      else if directory \<noteq> None then
        Inl (RetentionConfigRefused ''CUSTOS_CONTENT_STORE_DIR is set while CUSTOS_CONTENT_RETENTION=off. Refused rather than ignored: a configured store the process does not use reads as retention that is on'')
      else if token \<noteq> None then
        Inl (RetentionConfigRefused ''CUSTOS_RETENTION_ADMIN_TOKEN is set while CUSTOS_CONTENT_RETENTION=off. There is nothing to administer, and an admin credential with no surface is a credential nobody can reason about'')
      else Inr summary))"

subsection \<open>Recording a decision\<close>

type_synonym store_files = "(string \<times> content_store) list"

text \<open>\<open>ContentStore(path)\<close> creates the tables of a new file.\<close>

definition store_at :: "string \<Rightarrow> store_files \<Rightarrow> content_store" where
  "store_at path files = (case map_of files path of None \<Rightarrow> empty_store | Some s \<Rightarrow> s)"

type_synonym decision_world = "store_files \<times> (audit_chain \<times> audit_store)"

definition record_none ::
  "environment \<Rightarrow> int \<Rightarrow> store_fault option \<Rightarrow> record_args \<Rightarrow> decision_world \<Rightarrow> decision_world \<times> audit_record result" where
  "record_none env t2 fault a w = (case w of (files, cs) \<Rightarrow>
     (case chain_record env t2 fault (a\<lparr>ra_commitment := COMMITMENT_NONE\<rparr>) cs of (cs', res) \<Rightarrow> ((files, cs'), res)))"

definition record_decision ::
  "environment \<Rightarrow> string \<Rightarrow> int \<Rightarrow> int \<Rightarrow> store_fault option \<Rightarrow> string option \<Rightarrow> record_args \<Rightarrow> decision_world \<Rightarrow>
   decision_world \<times> audit_record result" where
  "record_decision env salt t1 t2 fault ctx_tenant a w = (case w of (files, cs) \<Rightarrow>
     (case str_or (ra_tenant a) ctx_tenant of
        None \<Rightarrow> record_none env t2 fault a w
      | Some t \<Rightarrow> (case content_store_for env t of
          Inl e \<Rightarrow> (w, Inl e)
        | Inr None \<Rightarrow> record_none env t2 fault a w
        | Inr (Some path) \<Rightarrow>
            (case put_and_record env salt t1 t2 fault False a (store_at path files, cs) of
               ((s', cs'), res) \<Rightarrow>
                 let w' = (dict_set path s' files, cs') in
                 (case res of
                    Inl (ContentPurged m) \<Rightarrow> record_none env t2 fault a w'
                  | _ \<Rightarrow> (w', res))))))"

subsection \<open>File names\<close>

lemma safe_tenant_compiled:
  "re_compile safe_tenant_pattern = Inr (False, Cat Bos
     (Cat (Cls True [CRange (CHR ''A'') (CHR ''Z''), CRange (CHR ''a'') (CHR ''z''), CRange (CHR ''0'') (CHR ''9'')])
     (Cat (Rep (Cls True [CRange (CHR ''A'') (CHR ''Z''), CRange (CHR ''a'') (CHR ''z''), CRange (CHR ''0'') (CHR ''9''),
         CChar (CHR ''.''), CChar (CHR ''_''), CChar (CHR ''-'')]) 0 (Some 63) True) Eos)))"
  by code_simp

lemma consumes_mono: "consumes P p q \<Longrightarrow> (\<And>c. P c \<Longrightarrow> Q c) \<Longrightarrow> consumes Q p q"
  by (auto simp: consumes_def)

lemma safe_tenant_no_slash:
  assumes "safe_tenant t"
  shows "CHR ''/'' \<notin> set t"
proof -
  let ?h = "[CRange (CHR ''A'') (CHR ''Z''), CRange (CHR ''a'') (CHR ''z''), CRange (CHR ''0'') (CHR ''9'')]"
  let ?r = "?h @ [CChar (CHR ''.''), CChar (CHR ''_''), CChar (CHR ''-'')]"
  let ?P = "\<lambda>c. c \<noteq> CHR ''/''"
  obtain m where "search_re False (Cat Bos (Cat (Cls True ?h) (Cat (Rep (Cls True ?r) 0 (Some 63) True) Eos))) t = Some m"
    using assms by (auto simp: safe_tenant_def py_search_def safe_tenant_compiled split: option.splits)
  from search_re_Bos [OF this] obtain p q where
    p: "p \<in> set (matches False (Cls True ?h) (start_pos None 0 t))"
    and q: "q \<in> set (matches False (Rep (Cls True ?r) 0 (Some 63) True) p)"
    and eos: "rest q = [] \<or> rest q = [nl]"
    by (auto simp del: matches.simps(6) split: if_splits)
  have "consumes ?P (start_pos None 0 t) p"
    by (rule consumes_mono [OF consumes_Cls [OF p]]) (auto simp: cls_match_def)
  moreover have "consumes ?P p q"
    by (rule consumes_mono [OF consumes_Rep [OF q]]) (auto simp: cls_match_def)
  ultimately have "consumes ?P (start_pos None 0 t) q" by (rule consumes_trans)
  then obtain u where u: "t = u @ rest q" "\<forall>c \<in> set u. c \<noteq> CHR ''/''"
    by (auto simp only: consumes_def start_pos_def rpos.simps)
  from u(2) have "CHR ''/'' \<notin> set u" by blast
  with eos show ?thesis by (elim disjE) (simp_all add: u(1))
qed

lemma store_file_name_plain: "CHR ''/'' \<notin> set (store_file_name t)"
proof -
  have "CHR ''/'' \<notin> set (sha256_text t)"
    using sha256_hex_chars [of "CHR ''/''" "utf8 t"] by (auto simp: sha256_text_def hex_char_def)
  then have "CHR ''/'' \<notin> set (take 32 (sha256_text t))" by (meson in_set_takeD)
  with safe_tenant_no_slash show ?thesis by (auto simp: store_file_name_def HASHED_PREFIX_def)
qed

lemma store_file_name_inject:
  assumes "store_file_name t = store_file_name u"
  shows "t = u \<or> take 32 (sha256_text t) = take 32 (sha256_text u)"
proof -
  have no: "startswith (HASHED_PREFIX @ x) HASHED_PREFIX" for x by (simp add: startswith_prefix)
  have "HASHED_PREFIX @ x @ ''.sqlite'' = v @ ''.sqlite'' \<Longrightarrow> startswith v HASHED_PREFIX" for x v
    using no [of x] by (metis append.assoc append_same_eq)
  with assms show ?thesis by (auto simp: store_file_name_def split: if_splits)
qed

lemma store_path_inject: "store_path_for d t = store_path_for d u \<longleftrightarrow> store_file_name t = store_file_name u"
  by (auto simp: store_path_for_def path_join_def store_file_name_def startswith_def)

subsection \<open>Recording\<close>

lemma record_none_cases:
  assumes "record_none env t2 fault a (files, c, st) = ((files', c', st'), res)"
  shows "files' = files \<and> (case res of Inl e \<Rightarrow> c' = c \<and> st' = st
     | Inr r \<Rightarrow> ac_records c' = ac_records c @ [r] \<and> content_hash r = hash_content (ra_content a) \<and>
         commitment r = COMMITMENT_NONE)"
proof -
  have rec: "chain_record env t2 fault (a\<lparr>ra_commitment := COMMITMENT_NONE\<rparr>) (c, st) = ((c', st'), res)" "files' = files"
    using assms by (simp_all add: record_none_def split: prod.splits)
  show ?thesis
  proof (cases res)
    case (Inl e)
    with rec chain_record_Inl show ?thesis by simp
  next
    case (Inr r)
    from chain_record_Inr [OF rec(1) [unfolded Inr]] Inr rec(2) show ?thesis
      by (auto dest: seal_entry_Inr)
  qed
qed

text \<open>\<open>put\_and\_record\<close> on a store that is as the operations leave it.\<close>

lemma put_and_record_cases:
  assumes "put_and_record env salt t1 t2 fault False a (s, c, st) = ((s', c', st'), res)"
    and "store_ok s" "length salt = SALT_BYTES"
  shows "store_ok s' \<and> (case res of
      Inl e \<Rightarrow> c' = c \<and> st' = st \<and>
        (s' = s \<and> (\<exists>m. e = ContentPurged m) \<and> store_status (sha256_text (ra_content a)) s = STATUS_PURGED \<or>
         store_status (sha256_text (ra_content a)) s' = STATUS_PRESENT \<and>
           (\<exists>b. chain_record env t2 fault b (c, st) = ((c, st), Inl e)))
    | Inr r \<Rightarrow> ac_records c' = ac_records c @ [r] \<and> content_hash r = sha256_text (ra_content a) \<and>
        commitment r = commitment_form (content_hash r) s' \<and> commitment r \<in> set stored_forms \<and>
        store_status (content_hash r) s' = STATUS_PRESENT)"
proof -
  let ?h = "sha256_text (ra_content a)"
  obtain s1 d where put: "put_body salt t1 (ra_content a) s = (s1, d)" by (cases "put_body salt t1 (ra_content a) s")
  note ok = put_body_ok [OF put assms(2,3)]
  show ?thesis
  proof (cases d)
    case (Inl e)
    with put have "s1 = s" "\<exists>m. e = ContentPurged m" "store_status ?h s = STATUS_PURGED"
      by (auto elim!: put_body_cases simp: put_purged_exn_def status_cases)
    with assms(1,2) put Inl show ?thesis by (auto simp: put_and_record_def)
  next
    case (Inr h)
    then have h: "h = ?h" "store_status ?h s1 = STATUS_PRESENT"
      using put by (auto elim: put_body_cases simp: status_cases)
    then have form: "commitment_form ?h s1 \<in> set stored_forms"
      using ok by (simp add: stored_form status_cases)
    from assms(1) put Inr h have rec:
      "chain_record env t2 fault (a\<lparr>ra_commitment := commitment_form ?h s1\<rparr>) (c, st) = ((c', st'), res)" "s' = s1"
      by (simp_all add: put_and_record_def split: prod.splits)
    show ?thesis
    proof (cases res)
      case (Inl e)
      with rec chain_record_Inl have "c' = c \<and> st' = st" by blast
      with Inl rec ok h(2) show ?thesis by auto
    next
      case (Inr r)
      from chain_record_Inr [OF rec(1) [unfolded Inr]] Inr rec(2) ok form h(2) show ?thesis
        by (auto dest: seal_entry_Inr simp: hash_content_def)
    qed
  qed
qed

text \<open>A fault that would be taken for a purge fails the second attempt to record as well.\<close>

lemma seal_entry_not_purged: "seal_entry env c now a \<noteq> Inl (ContentPurged m)"
proof
  assume "seal_entry env c now a = Inl (ContentPurged m)"
  then show False
    by (auto simp: seal_entry_def record_tenant_def compute_record_hash_def preimage_fields_def Let_def result_simps
        split: if_splits option.splits)
qed

lemma purged_fault_repeats:
  assumes "chain_record env t fault a (c, st) = (cs, Inl (ContentPurged m))"
  shows "chain_record env t fault b (c, st) \<noteq> (cs', Inr r)"
proof -
  obtain entry st' where "backend_save (ac_backend c) fault entry st = (st', Inl (ContentPurged m))"
    using assms seal_entry_not_purged [of env c t a m]
    by (auto simp: chain_record_def split: sum.splits prod.splits)
  then have "raised (snd (backend_save (ac_backend c) fault e st))" for e
    by (cases "ac_backend c")
       (auto simp: sqlite_save_error_def pg_save_error_def fork_exn_def split: option.splits if_splits)
  then show ?thesis
    by (auto simp: chain_record_def raised_def split: sum.splits prod.splits) (metis sum.simps(6) snd_conv)
qed

text \<open>A configuration that passes the startup check never fails on a request.\<close>

lemma validated_config_serves:
  assumes "validate_content_retention env is_dir e = Inr summary"
  shows "\<exists>p. content_store_for env t = Inr p \<and> (p = None \<longleftrightarrow> content_retention_mode env = Inr MODE_OFF)"
proof -
  obtain mode where "content_retention_mode env = Inr mode" "mode \<in> set [MODE_OFF, MODE_STORE]"
    using assms
    by (cases "content_retention_mode env")
       (auto simp: validate_content_retention_def content_retention_mode_def Let_def split: option.splits if_splits)
  then show ?thesis using assms
    by (auto simp: validate_content_retention_def content_store_for_def MODE_OFF_def MODE_STORE_def Let_def
        split: option.splits if_splits)
qed

subsection \<open>Properties\<close>

text \<open>A body that was purged and is offered again: the record is written without it, once.\<close>

lemma offered_again:
  assumes "put_and_record env salt t1 t2 fault False a (s, c, st) = ((s1, c1, st1), Inl (ContentPurged m))"
    and "store_ok s" "length salt = SALT_BYTES" and rn: "record_none env t2 fault a (f, c1, st1) = (w, Inr r)"
  shows "c1 = c \<and> st1 = st \<and> s1 = s \<and> store_status (sha256_text (ra_content a)) s = STATUS_PURGED"
proof -
  note pc = put_and_record_cases [OF assms(1-3)]
  then have same: "c1 = c" "st1 = st" by auto
  obtain cs' where "chain_record env t2 fault (a\<lparr>ra_commitment := COMMITMENT_NONE\<rparr>) (c, st) = (cs', Inr r)"
    using rn same by (auto simp: record_none_def split: prod.splits)
  then have "\<not> (\<exists>m b. chain_record env t2 fault b (c, st) = ((c, st), Inl (ContentPurged m)))"
    using purged_fault_repeats by blast
  with pc same show ?thesis by auto
qed

lemma decision_with_store:
  assumes "record_decision env salt t1 t2 fault ctx_tenant a (files, c, st) = ((files', c', st'), res)"
    and "\<forall>path. store_ok (store_at path files)" and "length salt = SALT_BYTES"
    and "str_or (ra_tenant a) ctx_tenant = Some t" "content_store_for env t = Inr (Some path)"
  shows "(case res of
      Inl e \<Rightarrow> c' = c \<and> st' = st
    | Inr r \<Rightarrow> ac_records c' = ac_records c @ [r] \<and> content_hash r = sha256_text (ra_content a) \<and>
        (if store_status (content_hash r) (store_at path files') = STATUS_PRESENT
         then commitment r = commitment_form (content_hash r) (store_at path files') \<and> commitment r \<in> set stored_forms
         else commitment r = COMMITMENT_NONE \<and> store_at path files' = store_at path files \<and>
           store_status (content_hash r) (store_at path files') = STATUS_PURGED)) \<and>
    (\<forall>p. p \<noteq> path \<longrightarrow> store_at p files' = store_at p files)"
proof -
  let ?s = "store_at path files"
  obtain s1 c1 st1 out where pr: "put_and_record env salt t1 t2 fault False a (?s, c, st) = ((s1, c1, st1), out)"
    by (metis prod.exhaust)
  note pc = put_and_record_cases [OF pr assms(2) [rule_format] assms(3)]
  have at: "store_at p (dict_set path s1 files) = (if p = path then s1 else store_at p files)" for p
    by (simp add: store_at_def)
  show ?thesis
  proof (cases "\<exists>m. out = Inl (ContentPurged m)")
    case True
    then have run: "record_none env t2 fault a (dict_set path s1 files, c1, st1) = ((files', c', st'), res)"
      using assms(1,4,5) pr by (auto simp: record_decision_def Let_def)
    note rn = record_none_cases [OF run]
    show ?thesis
    proof (cases res)
      case (Inl e)
      with rn pc True at show ?thesis by auto
    next
      case res: (Inr r)
      obtain m where "out = Inl (ContentPurged m)" using True ..
      then have kept: "s1 = ?s" "c1 = c" "st1 = st" "store_status (sha256_text (ra_content a)) ?s = STATUS_PURGED"
        using offered_again [OF _ assms(2) [rule_format] assms(3) run [unfolded res]] pr by auto
      have "store_at p files' = store_at p files" for p using rn at kept(1) by simp
      moreover have "store_status (sha256_text (ra_content a)) ?s \<noteq> STATUS_PRESENT" using kept(4) by (simp add: status_defs)
      ultimately show ?thesis using rn res kept by (simp add: hash_content_def)
    qed
  next
    case False
    then have "((dict_set path s1 files, c1, st1), out) = ((files', c', st'), res)"
      using assms(1,4,5) pr by (auto simp: record_decision_def Let_def split: sum.splits exn.splits)
    then have eq: "files' = dict_set path s1 files" "c' = c1" "st' = st1" "res = out" by auto
    with pc at show ?thesis by (cases out) auto
  qed
qed

text \<open>C19: a decision's record is true about the content: \<open>record\_decision\<close> appends at most one
  record, with the digest of the content. It says \<open>none\<close> exactly when no body was kept for it,
  which is when no tenant resolves, retention is off, or the content was purged before, and
  then the stores are as they were; otherwise it says the form in which the tenant's store
  holds the body. If it raises, no record was written. Either way the store at every path but that
  of the resolved tenant is as it was (whose paths differ, \<open>tenant\_files\_separate\<close>).\<close>

theorem decision_recorded_truthfully:
  assumes "record_decision env salt t1 t2 fault ctx_tenant a (files, c, st) = ((files', c', st'), res)"
    and "\<forall>path. store_ok (store_at path files)" and "length salt = SALT_BYTES"
  shows "(case res of
      Inl e \<Rightarrow> c' = c \<and> st' = st
    | Inr r \<Rightarrow> ac_records c' = ac_records c @ [r] \<and> content_hash r = sha256_text (ra_content a) \<and>
        (case str_or (ra_tenant a) ctx_tenant of
           None \<Rightarrow> commitment r = COMMITMENT_NONE \<and> files' = files
         | Some t \<Rightarrow> (case content_store_for env t of
             Inl e \<Rightarrow> False
           | Inr None \<Rightarrow> commitment r = COMMITMENT_NONE \<and> files' = files
           | Inr (Some path) \<Rightarrow>
               if store_status (content_hash r) (store_at path files') = STATUS_PRESENT
               then commitment r = commitment_form (content_hash r) (store_at path files') \<and>
                 commitment r \<in> set stored_forms
               else commitment r = COMMITMENT_NONE \<and> store_at path files' = store_at path files \<and>
                 store_status (content_hash r) (store_at path files') = STATUS_PURGED))) \<and>
    (\<forall>p. (\<forall>t. str_or (ra_tenant a) ctx_tenant = Some t \<longrightarrow> content_store_for env t \<noteq> Inr (Some p)) \<longrightarrow>
       store_at p files' = store_at p files)"
proof (cases "str_or (ra_tenant a) ctx_tenant")
  case None
  with assms(1) have "record_none env t2 fault a (files, c, st) = ((files', c', st'), res)"
    by (simp add: record_decision_def)
  from record_none_cases [OF this] None show ?thesis by (auto simp: hash_content_def split: sum.splits)
next
  case (Some t)
  consider (refused) e where "content_store_for env t = Inl e" | (off) "content_store_for env t = Inr None"
    | (kept) path where "content_store_for env t = Inr (Some path)"
    by (metis sum.exhaust option.exhaust)
  then show ?thesis
  proof cases
    case refused
    with assms(1) Some have "res = Inl e" "files' = files" "c' = c" "st' = st" by (simp_all add: record_decision_def)
    then show ?thesis by simp
  next
    case off
    with assms(1) Some have "record_none env t2 fault a (files, c, st) = ((files', c', st'), res)"
      by (simp add: record_decision_def)
    from record_none_cases [OF this] Some off show ?thesis by (auto simp: hash_content_def split: sum.splits)
  next
    case kept
    from decision_with_store [OF assms Some kept] Some kept show ?thesis by (cases res) auto
  qed
qed

definition retention_demo_env :: environment where
  "retention_demo_env k = (if k = ''CUSTOS_CONTENT_RETENTION'' then Some ''off'' else None)"

lemma retention_demo_off: "content_store_for retention_demo_env ''t'' = Inr None"
  by code_simp

theorem decision_recorded_truthfully_witness:
  "\<exists>c' st' r. record_decision retention_demo_env (replicate 32 (CHR ''x'')) 4 5 None None demo_args ([], demo_chain, []) =
      (([], c', st'), Inr r) \<and> commitment r = COMMITMENT_NONE"
proof -
  have args: "demo_args\<lparr>ra_commitment := COMMITMENT_NONE\<rparr> = demo_args" "str_or (ra_tenant demo_args) None = None"
    by (simp_all add: demo_args_def call_args_def str_or_def)
  have "bound_evidence_required retention_demo_env = bound_evidence_required (\<lambda>_. None)"
    by (simp add: bound_evidence_required_def env_or_empty_def getenv_def retention_demo_env_def)
  then have "chain_record retention_demo_env 5 None demo_args (demo_chain, []) = chain_record (\<lambda>_. None) 5 None demo_args (demo_chain, [])"
    by (simp add: chain_record_def seal_entry_def)
  then obtain r where "record_decision retention_demo_env (replicate 32 (CHR ''x'')) 4 5 None None demo_args ([], demo_chain, []) =
      (([], demo_chain\<lparr>ac_records := [r]\<rparr>, [r]), Inr r)"
    using demo_record_result by (auto simp: record_decision_def record_none_def args)
  moreover from decision_recorded_truthfully [OF this] have "commitment r = COMMITMENT_NONE"
    by (simp add: args store_at_def store_ok_def empty_store_def SALT_BYTES_def)
  ultimately show ?thesis by blast
qed

text \<open>Each tenant has its own file inside the configured directory, whatever its id: the name
  never contains a path separator, and two tenants share a file only if they are the same
  tenant or the first 32 digits of the digests of their ids collide.\<close>

theorem tenant_files_separate:
  "(\<exists>name. store_path_for d t = path_join d name \<and> CHR ''/'' \<notin> set name) \<and>
   (store_path_for d t = store_path_for d u \<longrightarrow> t = u \<or>
      sha256_text t \<noteq> sha256_text u \<and> take 32 (sha256_text t) = take 32 (sha256_text u) \<or>
      t \<noteq> u \<and> sha256_text t = sha256_text u)"
  using store_file_name_plain [of t] store_file_name_inject [of t u] by (auto simp: store_path_for_def store_path_inject [unfolded store_path_for_def])

theorem tenant_files_separate_witness:
  "\<exists>name. store_path_for ''data'' ''../x'' = path_join ''data'' name \<and> CHR ''/'' \<notin> set name"
  using tenant_files_separate [of "''data''" "''../x''" "''../x''"] by blast

end
