(* ===== verification/Custody.thy ===== *)
theory Custody
  imports Audit_Store Policy_Store
begin

text \<open>
  \<open>src/custos/custody.py\<close>, the writing side: anchor records and policy commits with their
  hashes, the custody sinks, and the manager that anchors the heads of the tenants' chains and
  the commitments of their policies. A sink keeps what was appended to it; what the outside
  world does at an append (a failing git or network call, the answer of the time-stamping
  authority) is an input. A file written with \<open>json.dump\<close> is the dictionary it holds, and a
  sink takes a snapshot of the anchor.
\<close>

subsection \<open>Anchor records\<close>

definition GENESIS_ANCHOR_HASH :: string where
  "GENESIS_ANCHOR_HASH = replicate 64 (CHR ''0'')"

record anchor =
  an_tenant :: string
  an_epoch :: int
  an_length :: int
  an_head :: string
  an_at :: string
  an_prev :: string
  an_gap :: json
  an_hash :: string

definition anchor_payload :: "anchor \<Rightarrow> (string \<times> json) list" where
  "anchor_payload a = [(''tenant_id'', JStr (an_tenant a)), (''epoch'', JInt (an_epoch a)),
     (''chain_length'', JInt (an_length a)), (''head_hash'', JStr (an_head a)),
     (''anchored_at_utc'', JStr (an_at a)), (''prev_anchor_hash'', JStr (an_prev a)), (''gap'', an_gap a)]"

definition anchor_compute_hash :: "anchor \<Rightarrow> string" where
  "anchor_compute_hash a = sha256_text (json_dumps default_fmt (JObj (anchor_payload a)))"

definition anchor_to_dict :: "anchor \<Rightarrow> (string \<times> json) list" where
  "anchor_to_dict a = anchor_payload a @ [(''anchor_hash'', JStr (an_hash a))]"

record policy_commit =
  pc_tenant :: string
  pc_epoch :: int
  pc_length :: int
  pc_head :: string
  pc_at :: string
  pc_prev :: string
  pc_gap :: json
  pc_hash :: string
  pc_kind :: string
  pc_canonical :: string

definition commit_compute_hash :: "policy_commit \<Rightarrow> string" where
  "commit_compute_hash p = sha256_text (json_dumps default_fmt (JObj
     [(''tenant_id'', JStr (pc_tenant p)), (''epoch'', JInt (pc_epoch p)), (''head_hash'', JStr (pc_head p)),
      (''anchored_at_utc'', JStr (pc_at p)), (''prev_anchor_hash'', JStr (pc_prev p)),
      (''kind'', JStr (pc_kind p)), (''canonical_json'', JStr (pc_canonical p))]))"

definition commit_to_dict :: "policy_commit \<Rightarrow> (string \<times> json) list" where
  "commit_to_dict p = [(''tenant_id'', JStr (pc_tenant p)), (''epoch'', JInt (pc_epoch p)),
     (''chain_length'', JInt (pc_length p)), (''head_hash'', JStr (pc_head p)),
     (''anchored_at_utc'', JStr (pc_at p)), (''prev_anchor_hash'', JStr (pc_prev p)), (''gap'', pc_gap p),
     (''anchor_hash'', JStr (pc_hash p)), (''kind'', JStr (pc_kind p)), (''canonical_json'', JStr (pc_canonical p))]"

text \<open>
  Reading a dictionary back. \<open>int()\<close> reads integers, booleans, numerals and floats (held in
  millionths, truncated towards zero). A string field of another JSON type than the record
  declares raises in the model, where the program may carry the value on.
\<close>

definition dict_str :: "(string \<times> json) list \<Rightarrow> string \<Rightarrow> string result" where
  "dict_str d k = try_bind (dict_get d k) json_str"

definition dict_str_default :: "(string \<times> json) list \<Rightarrow> string \<Rightarrow> string \<Rightarrow> string result" where
  "dict_str_default d k v = (case map_of d k of None \<Rightarrow> Inr v | Some j \<Rightarrow> json_str j)"

definition json_int :: "json \<Rightarrow> int result" where
  "json_int j = (case j of JInt i \<Rightarrow> Inr i | JBool b \<Rightarrow> Inr (of_bool b) | JStr s \<Rightarrow> py_int s
     | JFloat us \<Rightarrow> Inr (sgn us * (\<bar>us\<bar> div 1000000))
     | _ \<Rightarrow> Inl (TypeError ''int() argument must be a string or a number''))"

definition dict_int :: "(string \<times> json) list \<Rightarrow> string \<Rightarrow> int result" where
  "dict_int d k = try_bind (dict_get d k) json_int"

definition anchor_from_dict :: "(string \<times> json) list \<Rightarrow> anchor result" where
  "anchor_from_dict d =
     try_bind (dict_str d ''tenant_id'') (\<lambda>t.
     try_bind (dict_int d ''epoch'') (\<lambda>e.
     try_bind (dict_int d ''chain_length'') (\<lambda>n.
     try_bind (dict_str d ''head_hash'') (\<lambda>h.
     try_bind (dict_str d ''anchored_at_utc'') (\<lambda>at.
     try_bind (dict_str d ''prev_anchor_hash'') (\<lambda>p.
     try_bind (dict_str_default d ''anchor_hash'' []) (\<lambda>ah.
       Inr \<lparr>an_tenant = t, an_epoch = e, an_length = n, an_head = h, an_at = at, an_prev = p,
         an_gap = (case map_of d ''gap'' of None \<Rightarrow> JNull | Some g \<Rightarrow> g), an_hash = ah\<rparr>)))))))"

definition commit_from_dict :: "(string \<times> json) list \<Rightarrow> policy_commit result" where
  "commit_from_dict d =
     try_bind (dict_str d ''tenant_id'') (\<lambda>t.
     try_bind (dict_int d ''epoch'') (\<lambda>e.
     try_bind (case map_of d ''chain_length'' of None \<Rightarrow> Inr 0 | Some j \<Rightarrow> json_int j) (\<lambda>n.
     try_bind (dict_str d ''head_hash'') (\<lambda>h.
     try_bind (dict_str d ''anchored_at_utc'') (\<lambda>at.
     try_bind (dict_str d ''prev_anchor_hash'') (\<lambda>p.
     try_bind (dict_str_default d ''kind'' ''policy_commit'') (\<lambda>k.
     try_bind (dict_str_default d ''canonical_json'' []) (\<lambda>c.
     try_bind (dict_str_default d ''anchor_hash'' []) (\<lambda>ah.
       Inr \<lparr>pc_tenant = t, pc_epoch = e, pc_length = n, pc_head = h, pc_at = at, pc_prev = p,
         pc_gap = JNull, pc_hash = ah, pc_kind = k, pc_canonical = c\<rparr>)))))))))"

lemmas dict_access_defs = dict_str_def dict_str_default_def dict_int_def json_int_def dict_get_def json_str_def

lemma anchor_from_to_dict [simp]: "anchor_from_dict (anchor_to_dict a) = Inr a"
  by (simp add: anchor_from_dict_def anchor_to_dict_def anchor_payload_def dict_access_defs)

lemma commit_from_to_dict [simp]: "commit_from_dict (commit_to_dict p) = Inr (p\<lparr>pc_gap := JNull\<rparr>)"
  by (simp add: commit_from_dict_def commit_to_dict_def dict_access_defs)

subsection \<open>The time-stamp request\<close>

definition byte :: "nat \<Rightarrow> char" where
  "byte n = char_of n"

fun bit_length :: "nat \<Rightarrow> nat" where
  "bit_length n = (if n = 0 then 0 else Suc (bit_length (n div 2)))"

declare bit_length.simps [simp del]

text \<open>\<open>n.to_bytes(k, "big")\<close> for an \<open>n\<close> that fits.\<close>

definition to_bytes :: "nat \<Rightarrow> nat \<Rightarrow> string" where
  "to_bytes n k = be_bytes k (int n)"

definition der_len :: "nat \<Rightarrow> string" where
  "der_len n = (if n < 128 then [byte n]
     else let raw = to_bytes n ((bit_length n + 7) div 8) in byte (or 128 (length raw)) # raw)"

definition der_tlv :: "nat \<Rightarrow> string \<Rightarrow> string" where
  "der_tlv tag v = byte tag # der_len (length v) @ v"

definition oid_sha256 :: string where
  "oid_sha256 = map byte [6, 9, 96, 134, 72, 1, 101, 3, 4, 2, 1]"

definition build_tsa_request :: "string \<Rightarrow> nat \<Rightarrow> string" where
  "build_tsa_request bs nonce =
     (let digest = sha256_digest bs;
          algorithm_id = der_tlv 48 (oid_sha256 @ der_tlv 5 []);
          message_imprint = der_tlv 48 (algorithm_id @ der_tlv 4 digest);
          version = der_tlv 2 [byte 1];
          nonce_der = der_tlv 2 (to_bytes nonce (max 1 ((bit_length nonce + 7) div 8)));
          cert_req = der_tlv 1 [byte 255] in
      der_tlv 48 (version @ message_imprint @ nonce_der @ cert_req))"

subsection \<open>Sinks\<close>


datatype sink =
    MemorySink "dict list" bool
  | GitAnchorSink string "(string \<times> dict) list"
  | TSAAnchorSink string string "(string \<times> string) list"

fun sink_name :: "sink \<Rightarrow> string" where
  "sink_name (MemorySink anchors fails) = ''memory''"
| "sink_name (GitAnchorSink repo files) = ''git''"
| "sink_name (TSAAnchorSink url token_dir files) = ''tsa''"

text \<open>
  What the world does at one append: an exception before anything is written, one after the
  file was written (the git commands), the text it answers, and the random nonce.
\<close>

record sink_world =
  sw_before :: "exn option"
  sw_after :: "exn option"
  sw_reply :: string
  sw_nonce :: nat

definition calm :: sink_world where
  "calm = \<lparr>sw_before = None, sw_after = None, sw_reply = [], sw_nonce = 0\<rparr>"

definition anchor_path :: "string \<Rightarrow> string \<Rightarrow> int \<Rightarrow> string \<Rightarrow> string" where
  "anchor_path base tenant epoch ext =
     path_join base (path_join (path_join ''anchors'' tenant) (''epoch-'' @ int_repr epoch @ ext))"

definition token_path :: "string \<Rightarrow> string \<Rightarrow> int \<Rightarrow> string" where
  "token_path base tenant epoch = path_join base (path_join tenant (''epoch-'' @ int_repr epoch @ ''.tsr''))"

definition memory_append :: "dict \<Rightarrow> int \<Rightarrow> dict list \<Rightarrow> bool \<Rightarrow> sink \<times> string result" where
  "memory_append d epoch anchors fails =
     (if fails then (MemorySink anchors fails, Inl (RuntimeError ''memory sink: simulated outage''))
      else (MemorySink (anchors @ [d]) fails, Inr (''memory:'' @ int_repr epoch)))"

definition git_commit :: "sink_world \<Rightarrow> dict \<Rightarrow> string \<Rightarrow> int \<Rightarrow> string \<Rightarrow> (string \<times> dict) list \<Rightarrow> sink \<times> string result" where
  "git_commit w d tenant epoch repo files =
     (case sw_before w of
        Some e \<Rightarrow> (GitAnchorSink repo files, Inl e)
      | None \<Rightarrow> let files' = dict_set (anchor_path repo tenant epoch ''.json'') d files in
          (case sw_after w of
             Some e \<Rightarrow> (GitAnchorSink repo files', Inl e)
           | None \<Rightarrow> (GitAnchorSink repo files', Inr (strip (sw_reply w)))))"

definition tsa_append :: "sink_world \<Rightarrow> string \<Rightarrow> int \<Rightarrow> string \<Rightarrow> string \<Rightarrow> (string \<times> string) list \<Rightarrow> sink \<times> string result" where
  "tsa_append w tenant epoch url token_dir files =
     (case sw_before w of
        Some e \<Rightarrow> (TSAAnchorSink url token_dir files, Inl e)
      | None \<Rightarrow> (case sw_after w of
          Some e \<Rightarrow> (TSAAnchorSink url token_dir files, Inl e)
        | None \<Rightarrow> (TSAAnchorSink url token_dir (dict_set (token_path token_dir tenant epoch) (sw_reply w) files),
              Inr (''tsa:'' @ int_repr epoch))))"

fun sink_append :: "sink_world \<Rightarrow> dict \<Rightarrow> string \<Rightarrow> int \<Rightarrow> sink \<Rightarrow> sink \<times> string result" where
  "sink_append w d tenant epoch (MemorySink anchors fails) = memory_append d epoch anchors fails"
| "sink_append w d tenant epoch (GitAnchorSink repo files) = git_commit w d tenant epoch repo files"
| "sink_append w d tenant epoch (TSAAnchorSink url token_dir files) = tsa_append w tenant epoch url token_dir files"

text \<open>The request the time-stamping authority receives for an anchor.\<close>

definition tsa_request :: "dict \<Rightarrow> nat \<Rightarrow> string" where
  "tsa_request d nonce = build_tsa_request (utf8 (json_dumps default_fmt (JObj d))) nonce"

fun sink_healthcheck :: "bool \<Rightarrow> sink \<Rightarrow> bool" where
  "sink_healthcheck git_ok (MemorySink anchors fails) = (\<not> fails)"
| "sink_healthcheck git_ok (GitAnchorSink repo files) = git_ok"
| "sink_healthcheck git_ok (TSAAnchorSink url token_dir files) = (url \<noteq> [])"

text \<open>\<open>load\_anchors\<close>: the files under \<open>anchors/\<close> of the repository, by epoch.\<close>

definition epoch_key :: "dict \<Rightarrow> int" where
  "epoch_key d = (case dict_int d ''epoch'' of Inr e \<Rightarrow> e | Inl _ \<Rightarrow> 0)"

definition load_anchors :: "string \<Rightarrow> (string \<times> dict) list \<Rightarrow> dict list result" where
  "load_anchors repo files =
     (let ds = map snd (filter (\<lambda>(p, d). startswith p (path_join repo ''anchors'' @ ''/'') \<and> suffix ''.json'' p) files) in
      try_bind (try_map (\<lambda>d. dict_int d ''epoch'') ds) (\<lambda>_. Inr (sort_key epoch_key ds)))"

subsection \<open>The anchor manager\<close>

record anchor_gap =
  ag_from_epoch :: int
  ag_attempts :: int
  ag_first :: string
  ag_last :: string

definition gap_json :: "anchor_gap option \<Rightarrow> json" where
  "gap_json g = (case g of None \<Rightarrow> JNull
     | Some g \<Rightarrow> JObj [(''from_epoch'', JInt (ag_from_epoch g)), (''attempts'', JInt (ag_attempts g)),
         (''first_attempt_utc'', JStr (ag_first g)), (''last_attempt_utc'', JStr (ag_last g))])"

record tenant_anchors =
  ta_epoch :: int
  ta_length :: int
  ta_hash :: string
  ta_last :: "string option"
  ta_gap :: "anchor_gap option"

record policy_anchors =
  pa_epoch :: int
  pa_hash :: string

record anchor_manager =
  am_sinks :: "sink list"
  am_n :: int
  am_state :: "(string \<times> tenant_anchors) list"
  am_policy :: "(string \<times> policy_anchors) list"
  am_queue :: "(string \<times> string \<times> string) list"
  am_error :: "string option"

definition new_anchor_manager :: "sink list \<Rightarrow> int \<Rightarrow> anchor_manager" where
  "new_anchor_manager sinks n = \<lparr>am_sinks = sinks, am_n = max 1 n, am_state = [], am_policy = [], am_queue = [],
     am_error = None\<rparr>"

definition tenant_state :: "string \<Rightarrow> anchor_manager \<Rightarrow> tenant_anchors" where
  "tenant_state t m = (case map_of (am_state m) t of Some s \<Rightarrow> s
     | None \<Rightarrow> \<lparr>ta_epoch = 0, ta_length = 0, ta_hash = GENESIS_ANCHOR_HASH, ta_last = None, ta_gap = None\<rparr>)"

text \<open>One anchor goes to every sink; the failures are collected with the names of their sinks.\<close>

fun append_all :: "(nat \<Rightarrow> sink_world) \<Rightarrow> nat \<Rightarrow> dict \<Rightarrow> string \<Rightarrow> int \<Rightarrow> sink list \<Rightarrow> sink list \<times> string list" where
  "append_all w i d tenant epoch [] = ([], [])"
| "append_all w i d tenant epoch (s # ss) =
     (case sink_append (w i) d tenant epoch s of (s', res) \<Rightarrow>
      case append_all w (Suc i) d tenant epoch ss of (ss', errors) \<Rightarrow>
        (s' # ss', case res of Inr _ \<Rightarrow> errors | Inl e \<Rightarrow> (sink_name s @ '': '' @ exn_text e) # errors))"

definition new_anchor :: "string \<Rightarrow> string \<Rightarrow> int \<Rightarrow> string \<Rightarrow> tenant_anchors \<Rightarrow> anchor" where
  "new_anchor now t len head st =
     (let a = \<lparr>an_tenant = t, an_epoch = ta_epoch st + 1, an_length = len, an_head = head, an_at = now,
                an_prev = ta_hash st, an_gap = gap_json (ta_gap st), an_hash = []\<rparr> in
      a\<lparr>an_hash := anchor_compute_hash a\<rparr>)"

definition widen_gap :: "anchor \<Rightarrow> anchor_gap option \<Rightarrow> anchor_gap" where
  "widen_gap a g = (case g of
     Some g \<Rightarrow> g\<lparr>ag_attempts := ag_attempts g + 1, ag_last := an_at a\<rparr>
   | None \<Rightarrow> \<lparr>ag_from_epoch = an_epoch a, ag_attempts = 1, ag_first = an_at a, ag_last = an_at a\<rparr>)"

definition emit_anchor :: "(nat \<Rightarrow> sink_world) \<Rightarrow> string \<Rightarrow> string \<Rightarrow> int \<Rightarrow> string \<Rightarrow> anchor_manager \<Rightarrow> anchor_manager" where
  "emit_anchor w now t len head m =
     (let st = tenant_state t m; a = new_anchor now t len head st in
      case append_all w 0 (anchor_to_dict a) t (an_epoch a) (am_sinks m) of (sinks', errors) \<Rightarrow>
        if errors \<noteq> [] then
          m\<lparr>am_sinks := sinks', am_state := dict_set t (st\<lparr>ta_gap := Some (widen_gap a (ta_gap st))\<rparr>) (am_state m),
            am_error := Some (join ''; '' errors)\<rparr>
        else m\<lparr>am_sinks := sinks', am_error := None, am_state := dict_set t \<lparr>ta_epoch = an_epoch a, ta_length = len,
            ta_hash = an_hash a, ta_last = Some now, ta_gap = None\<rparr> (am_state m)\<rparr>)"

subsection \<open>Policy commits\<close>

definition policy_state :: "string \<Rightarrow> anchor_manager \<Rightarrow> policy_anchors" where
  "policy_state t m = (case map_of (am_policy m) (''policy::'' @ t) of Some s \<Rightarrow> s
     | None \<Rightarrow> \<lparr>pa_epoch = 0, pa_hash = GENESIS_ANCHOR_HASH\<rparr>)"

definition new_commit :: "string \<Rightarrow> string \<Rightarrow> string \<Rightarrow> string \<Rightarrow> policy_anchors \<Rightarrow> policy_commit" where
  "new_commit now t digest canonical st =
     (let p = \<lparr>pc_tenant = t, pc_epoch = pa_epoch st + 1, pc_length = 0, pc_head = digest, pc_at = now,
                pc_prev = pa_hash st, pc_gap = JNull, pc_hash = [], pc_kind = ''policy_commit'', pc_canonical = canonical\<rparr> in
      p\<lparr>pc_hash := commit_compute_hash p\<rparr>)"

definition emit_policy_commit ::
  "(nat \<Rightarrow> sink_world) \<Rightarrow> string \<Rightarrow> string \<times> string \<times> string \<Rightarrow> anchor_manager \<Rightarrow> anchor_manager \<times> bool" where
  "emit_policy_commit w now item m = (case item of (t, digest, canonical) \<Rightarrow>
     (let st = policy_state t m; p = new_commit now t digest canonical st in
      case append_all w 0 (commit_to_dict p) t (pc_epoch p) (am_sinks m) of (sinks', errors) \<Rightarrow>
        if errors \<noteq> [] then
          (m\<lparr>am_sinks := sinks', am_policy := dict_set (''policy::'' @ t) st (am_policy m),
             am_error := Some (''policy_commit: '' @ join ''; '' errors)\<rparr>, False)
        else (m\<lparr>am_sinks := sinks', am_policy := dict_set (''policy::'' @ t)
             \<lparr>pa_epoch = pa_epoch st + 1, pa_hash = pc_hash p\<rparr> (am_policy m)\<rparr>, True)))"

definition anchor_policy_commit :: "string \<Rightarrow> string \<Rightarrow> string \<Rightarrow> anchor_manager \<Rightarrow> anchor_manager" where
  "anchor_policy_commit t digest canonical m = m\<lparr>am_queue := am_queue m @ [(t, digest, canonical)]\<rparr>"

text \<open>
  The queue is drained in order; what failed goes back to its front. The \<open>i\<close>-th commit drained
  meets the world \<open>w i\<close>.
\<close>

fun drain_items ::
  "(nat \<Rightarrow> nat \<Rightarrow> sink_world) \<Rightarrow> string \<Rightarrow> nat \<Rightarrow> (string \<times> string \<times> string) list \<Rightarrow> anchor_manager \<Rightarrow>
   anchor_manager \<times> (string \<times> string \<times> string) list" where
  "drain_items w now i [] m = (m, [])"
| "drain_items w now i (item # items) m =
     (case emit_policy_commit (w i) now item m of (m1, ok) \<Rightarrow>
      case drain_items w now (Suc i) items m1 of (m2, failed) \<Rightarrow> (m2, if ok then failed else item # failed))"

definition drain_policy_commits :: "(nat \<Rightarrow> nat \<Rightarrow> sink_world) \<Rightarrow> string \<Rightarrow> anchor_manager \<Rightarrow> anchor_manager \<times> bool" where
  "drain_policy_commits w now m =
     (case drain_items w now 0 (am_queue m) (m\<lparr>am_queue := []\<rparr>) of (m', failed) \<Rightarrow>
        (m'\<lparr>am_queue := failed @ am_queue m'\<rparr>, failed = []))"

text \<open>\<open>anchor\_due\<close> over the chains of the tenants; tenant \<open>t\<close>'s anchor meets the world \<open>w t\<close>.\<close>

fun anchor_chains ::
  "(string \<Rightarrow> nat \<Rightarrow> sink_world) \<Rightarrow> string \<Rightarrow> bool \<Rightarrow> (string \<times> audit_chain) list \<Rightarrow> anchor_manager \<Rightarrow> anchor_manager" where
  "anchor_chains w now force [] m = m"
| "anchor_chains w now force ((t, c) # cs) m =
     (let (len, head) = chain_head c; st = tenant_state t m; m1 = m\<lparr>am_state := dict_set t st (am_state m)\<rparr> in
      anchor_chains w now force cs
        (if force \<or> int len - ta_length st \<ge> am_n m then emit_anchor (w t) now t (int len) head m1 else m1))"

definition anchor_due ::
  "(nat \<Rightarrow> nat \<Rightarrow> sink_world) \<Rightarrow> (string \<Rightarrow> nat \<Rightarrow> sink_world) \<Rightarrow> string \<Rightarrow> bool \<Rightarrow> (string \<times> audit_chain) list \<Rightarrow>
   anchor_manager \<Rightarrow> anchor_manager" where
  "anchor_due wp w now force cs m = anchor_chains w now force cs (fst (drain_policy_commits wp now m))"

subsection \<open>Configuration\<close>

text \<open>
  \<open>build\_custody\_from\_env\<close>: the sinks, the anchoring distance and the interval of the background
  loop in microseconds, at least 50 ms. \<open>repo\_files\<close> is the working tree of a repository, or what
  its configuration raised (\<open>git config\<close> in the constructor of the sink); \<open>to\_float\<close> reads a number of
  seconds as \<open>float()\<close> does.
\<close>

fun build_sinks :: "environment \<Rightarrow> (string \<Rightarrow> (string \<times> dict) list result) \<Rightarrow> string list \<Rightarrow> sink list result" where
  "build_sinks env repo_files [] = Inr []"
| "build_sinks env repo_files (n # ns) =
     try_bind
       (if n = ''git'' then
          let repo = strip (env_or_empty env ''CUSTOS_CUSTODY_GIT_REPO'') in
          if repo = [] then Inl (RuntimeError ''CUSTOS_CUSTODY_GIT_REPO is required for the git sink'')
          else try_bind (repo_files repo) (\<lambda>files. Inr (GitAnchorSink repo files))
        else if n = ''tsa'' then
          let url = strip (env_or_empty env ''CUSTOS_CUSTODY_TSA_URL'') in
          if url = [] then Inl (RuntimeError ''CUSTOS_CUSTODY_TSA_URL is required for the tsa sink'')
          else Inr (TSAAnchorSink url (getenv env ''CUSTOS_CUSTODY_TSA_DIR'' ''custody-tokens'') [])
        else Inl (RuntimeError (''unknown custody sink: '' @ n)))
       (\<lambda>s. try_bind (build_sinks env repo_files ns) (\<lambda>ss. Inr (s # ss)))"

definition build_custody_from_env ::
  "environment \<Rightarrow> (string \<Rightarrow> (string \<times> dict) list result) \<Rightarrow> (string \<Rightarrow> int result) \<Rightarrow>
   (anchor_manager \<times> int) option result" where
  "build_custody_from_env env repo_files to_float =
     (if lower (strip (env_or_empty env ''CUSTOS_CUSTODY_ENABLED'')) \<notin> set [''1'', ''true'', ''yes''] then Inr None
      else let names = map (\<lambda>s. lower (strip s)) (filter (\<lambda>s. strip s \<noteq> [])
             (split_on (CHR '','') (getenv env ''CUSTOS_CUSTODY_SINKS'' ''git''))) in
        try_bind (build_sinks env repo_files names) (\<lambda>sinks.
        if sinks = [] then Inl (RuntimeError ''CUSTOS_CUSTODY_ENABLED but no sinks configured'')
        else try_bind (py_int (getenv env ''CUSTOS_CUSTODY_ANCHOR_N'' ''50'')) (\<lambda>n.
          try_bind (to_float (getenv env ''CUSTOS_CUSTODY_ANCHOR_T'' ''300'')) (\<lambda>t.
          Inr (Some (new_anchor_manager sinks n, max 50000 t))))))"

subsection \<open>Decoding the time-stamp request\<close>

fun be_value :: "nat \<Rightarrow> string \<Rightarrow> nat" where
  "be_value acc [] = acc"
| "be_value acc (c # s) = be_value (256 * acc + code c) s"

lemma be_value_append: "be_value acc (s @ t) = be_value (be_value acc s) t"
  by (induction s arbitrary: acc) simp_all

lemma bit_length_bound: "n < 2 ^ bit_length n"
proof (induction n rule: bit_length.induct)
  case (1 n)
  show ?case
  proof (cases "n = 0")
    case False
    with 1 have "n div 2 < 2 ^ bit_length (n div 2)" by simp
    then have "n < 2 * 2 ^ bit_length (n div 2)" by linarith
    with False show ?thesis by (subst bit_length.simps) simp
  qed (simp add: bit_length.simps)
qed

lemma byte_count_bound: "n < 256 ^ ((bit_length n + 7) div 8)"
proof -
  have "bit_length n \<le> 8 * ((bit_length n + 7) div 8)" by presburger
  then have "(2::nat) ^ bit_length n \<le> 2 ^ (8 * ((bit_length n + 7) div 8))" by simp
  also have "\<dots> = 256 ^ ((bit_length n + 7) div 8)" by (simp add: power_mult)
  finally show ?thesis using bit_length_bound [of n] by linarith
qed

lemma code_char_of_mod: "code (char_of (n mod 256 :: int)) = nat (n mod 256)"
proof -
  have "char_of (n mod 256) = char_of (nat (n mod 256))"
    using char_of_nat [of "nat (n mod 256)", where ?'a = int] by simp
  then show ?thesis by (simp add: of_char_of nat_mod_distrib)
qed

lemma be_value_bytes: "be_value 0 (be_bytes k (int n)) = n mod 256 ^ k"
proof (induction k arbitrary: n)
  case (Suc k)
  have "be_value 0 (be_bytes (Suc k) (int n)) = 256 * (n div 256 mod 256 ^ k) + n mod 256"
    using Suc [of "n div 256"] by (simp add: be_value_append zdiv_int code_char_of_mod nat_mod_distrib)
  also have "\<dots> = n mod 256 ^ Suc k" by (simp add: mod_mult2_eq)
  finally show ?case .
qed simp

lemma be_value_to_bytes: "n < 256 ^ k \<Longrightarrow> be_value 0 (to_bytes n k) = n"
  by (simp add: to_bytes_def be_value_bytes)

lemma length_to_bytes [simp]: "length (to_bytes n k) = k"
  by (simp add: to_bytes_def)

lemma bit_length_le: "n < 2 ^ k \<Longrightarrow> bit_length n \<le> k"
proof (induction n arbitrary: k rule: bit_length.induct)
  case (1 n)
  show ?case
  proof (cases "n = 0")
    case False
    then obtain j where k: "k = Suc j" using 1(2) by (cases k) auto
    have "n div 2 < 2 ^ j" using 1(2) k by simp
    from 1(1) [OF False this] False k show ?thesis by (subst bit_length.simps) simp
  qed (simp add: bit_length.simps)
qed

text \<open>A decoder of one element, and of a sequence of them.\<close>

definition der_decode :: "string \<Rightarrow> (nat \<times> string \<times> string) option" where
  "der_decode bs = (case bs of
     t # l # s \<Rightarrow> (let k = code l - 128; n = (if code l < 128 then code l else be_value 0 (take k s));
         body = (if code l < 128 then s else drop k s) in
       if length body < n then None else Some (code t, take n body, drop n body))
   | _ \<Rightarrow> None)"

fun der_items :: "nat \<Rightarrow> string \<Rightarrow> (nat \<times> string) list option" where
  "der_items 0 bs = (if bs = [] then Some [] else None)"
| "der_items (Suc n) bs = (if bs = [] then Some [] else
     (case der_decode bs of None \<Rightarrow> None | Some (t, v, s) \<Rightarrow> map_option ((#) (t, v)) (der_items n s)))"

lemma or_128: "k < 128 \<Longrightarrow> or 128 k = (128 + k :: nat)"
proof -
  have "list_all (\<lambda>k. or 128 k = (128 + k :: nat)) [0..<128]" by code_simp
  then show "k < 128 \<Longrightarrow> ?thesis" by (simp add: list_all_iff)
qed

lemma der_decode_tlv:
  assumes "tag < 256" "length v < 256 ^ 127"
  shows "der_decode (der_tlv tag v @ s) = Some (tag, v, s)"
proof (cases "length v < 128")
  case True
  with assms(1) show ?thesis
    by (simp add: der_tlv_def der_len_def der_decode_def byte_def code_char_of Let_def)
next
  case False
  let ?k = "(bit_length (length v) + 7) div 8"
  have "length v < 2 ^ 1016" using assms(2) by (simp add: power_mult [of 2 8 127, simplified])
  then have "bit_length (length v) \<le> 1016" by (rule bit_length_le)
  then have k: "?k < 128" by linarith
  have "be_value 0 (to_bytes (length v) ?k) = length v" by (rule be_value_to_bytes [OF byte_count_bound])
  with False assms(1) k show ?thesis
    by (simp add: der_tlv_def der_len_def der_decode_def byte_def code_char_of or_128 Let_def)
qed

lemma der_tlv_ne [simp]: "der_tlv tag v \<noteq> []"
  by (simp add: der_tlv_def)

lemma der_items_Cons:
  assumes "tag < 256" "length v < 256 ^ 127"
  shows "der_items (Suc n) (der_tlv tag v @ s) = map_option ((#) (tag, v)) (der_items n s)"
  by (simp add: der_decode_tlv [OF assms])

lemma length_der_tlv: "length v < 128 \<Longrightarrow> length (der_tlv tag v) = length v + 2"
  by (simp add: der_tlv_def der_len_def)

lemma length_sha256_digest [simp]: "length (sha256_digest bs) = 32"
  by (simp add: sha256_digest_def split: prod.split)

lemma small_power: "n < 256 \<Longrightarrow> n < (256::nat) ^ 127"
  by (rule less_le_trans [of _ "256 ^ 1"]) (simp, rule power_increasing, simp_all)

text \<open>The value of the contents of a DER INTEGER: two's complement, so a leading bit is a sign.\<close>

definition der_int :: "string \<Rightarrow> int" where
  "der_int bs = (if bs \<noteq> [] \<and> 128 \<le> code (hd bs) then int (be_value 0 bs) - 256 ^ length bs else int (be_value 0 bs))"

lemma bit_length_lower: "n \<noteq> 0 \<Longrightarrow> 2 ^ (bit_length n - 1) \<le> n"
proof (induction n rule: bit_length.induct)
  case (1 n)
  show ?case
  proof (cases "n div 2 = 0")
    case True
    with 1(2) have "n = 1" by linarith
    then show ?thesis by (simp add: bit_length.simps)
  next
    case False
    with 1 have ih: "2 ^ (bit_length (n div 2) - 1) \<le> n div 2" by simp
    have "bit_length (n div 2) \<noteq> 0" using False by (subst bit_length.simps) simp
    then have "2 ^ (bit_length n - 1) = 2 * (2::nat) ^ (bit_length (n div 2) - 1)"
      using 1(2) by (subst bit_length.simps) (cases "bit_length (n div 2)", simp_all)
    with ih show ?thesis by linarith
  qed
qed

lemma to_bytes_head: "code (hd (to_bytes n (Suc k))) = n div 256 ^ k mod 256"
proof (induction k arbitrary: n)
  case 0
  then show ?case by (simp add: to_bytes_def code_char_of_mod nat_mod_distrib)
next
  case (Suc k)
  have "be_bytes (Suc k) (int n div 256) \<noteq> []" by simp
  then have "hd (to_bytes n (Suc (Suc k))) = hd (to_bytes (n div 256) (Suc k))"
    by (simp add: to_bytes_def zdiv_int hd_append)
  then show ?case using Suc [of "n div 256"] by (simp add: div_mult2_eq)
qed

lemma der_int_to_bytes:
  fixes n :: nat
  defines "k \<equiv> max 1 ((bit_length n + 7) div 8)"
  shows "der_int (to_bytes n k) = (if n \<noteq> 0 \<and> 8 dvd bit_length n then int n - 2 ^ bit_length n else int n)"
proof -
  obtain j where k: "k = Suc j" unfolding k_def by (cases "max 1 ((bit_length n + 7) div 8)") auto
  have "(bit_length n + 7) div 8 \<le> k" by (simp add: k_def)
  from power_increasing [OF this, of "256::nat"] have big: "n < 256 ^ k"
    using byte_count_bound [of n] by linarith
  then have val: "be_value 0 (to_bytes n k) = n" by (rule be_value_to_bytes)
  have "n div 256 ^ j < 256" using big by (simp add: k less_mult_imp_div_less mult.commute)
  then have head: "code (hd (to_bytes n k)) = n div 256 ^ j" unfolding k to_bytes_head by simp
  have ne: "to_bytes n k \<noteq> []" by (simp add: k to_bytes_def)
  have bytes: "(2::nat) ^ (8 * i) = 256 ^ i" for i by (simp add: power_mult)
  show ?thesis
  proof (cases "n \<noteq> 0 \<and> 8 dvd bit_length n")
    case True
    have "bit_length n \<noteq> 0" using True bit_length_bound [of n] by (cases "bit_length n") auto
    with True have L: "bit_length n = 8 * k" unfolding k_def by (auto elim!: dvdE)
    have "128 * 256 ^ j = (2::nat) ^ (bit_length n - 1)"
      using bytes [of j] by (simp add: L k power_add)
    also have "\<dots> \<le> n" using True bit_length_lower by blast
    finally have "128 \<le> n div 256 ^ j" by (simp add: less_eq_div_iff_mult_less_eq)
    then have "der_int (to_bytes n k) = int n - 256 ^ k" unfolding der_int_def val head using ne by simp
    moreover have "(256::int) ^ k = 2 ^ bit_length n" unfolding L by (simp add: power_mult)
    ultimately show ?thesis using True by simp
  next
    case False
    have "bit_length n \<le> 8 * j + 7"
    proof (cases "n = 0")
      case True
      then show ?thesis by (simp add: bit_length.simps)
    next
      case False
      with \<open>\<not> (n \<noteq> 0 \<and> 8 dvd bit_length n)\<close> have "\<not> 8 dvd bit_length n" by simp
      then have "bit_length n \<noteq> 8 * Suc j" by (metis dvd_triv_left)
      moreover have "(bit_length n + 7) div 8 \<le> Suc j" using k by (simp add: k_def)
      then have "bit_length n + 7 < 8 * Suc j + 8" by (simp add: div_less_iff_less_mult less_Suc_eq_le [symmetric])
      ultimately show ?thesis by simp
    qed
    then have "(2::nat) ^ bit_length n \<le> 2 ^ (8 * j + 7)" by simp
    also have "\<dots> = 128 * 256 ^ j" using bytes [of j] by (simp add: power_add)
    finally have "n < 128 * 256 ^ j" using bit_length_bound [of n] by linarith
    then have "n div 256 ^ j < 128" by (simp add: less_mult_imp_div_less)
    then show ?thesis unfolding der_int_def val head using False by auto
  qed
qed

text \<open>The nonce has no leading zero byte: as a DER INTEGER, one with its top bit set is negative.\<close>

lemma tsa_nonce_negative:
  "to_bytes 9223372036854775808 8 = map byte [128, 0, 0, 0, 0, 0, 0, 0]"
  "der_int (map byte [128, 0, 0, 0, 0, 0, 0, 0]) = - 9223372036854775808"
proof -
  have "be_bytes 8 9223372036854775808 = map byte [128, 0, 0, 0, 0, 0, 0, 0]" by code_simp
  then show "to_bytes 9223372036854775808 8 = map byte [128, 0, 0, 0, 0, 0, 0, 0]" by (simp add: to_bytes_def)
  show "der_int (map byte [128, 0, 0, 0, 0, 0, 0, 0]) = - 9223372036854775808"
    by (simp add: der_int_def byte_def code_char_of)
qed

text \<open>C40: the time-stamp request says what it stamps: for a nonce of 64 bits, the DER encoding
  decodes to a sequence of version 1, a message imprint holding the SHA-256 object identifier
  and the SHA-256 digest of the data, an INTEGER, and the request for the certificate. Read as
  DER reads it, the INTEGER is the nonce, except for a nonce whose bit length is a positive
  multiple of 8 (of the 64-bit nonces, those of at least \<open>2 ^ 63\<close>): that one reads as a negative
  number, the nonce less two to its bit length.\<close>

theorem tsa_request_roundtrip:
  assumes "nonce < 2 ^ 64"
  shows "\<exists>body imprint nb. der_items 1 (build_tsa_request bs nonce) = Some [(48, body)] \<and>
    der_items 4 body = Some [(2, [byte 1]), (48, imprint), (2, nb), (1, [byte 255])] \<and>
    der_items 2 imprint = Some [(48, oid_sha256 @ [byte 5, byte 0]), (4, sha256_digest bs)] \<and>
    der_int nb = (if nonce \<noteq> 0 \<and> 8 dvd bit_length nonce then int nonce - 2 ^ bit_length nonce else int nonce)"
proof -
  let ?nb = "to_bytes nonce (max 1 ((bit_length nonce + 7) div 8))"
  let ?alg = "oid_sha256 @ der_tlv 5 []"
  let ?imp = "der_tlv 48 ?alg @ der_tlv 4 (sha256_digest bs)"
  let ?body = "der_tlv 2 [byte 1] @ der_tlv 48 ?imp @ der_tlv 2 ?nb @ der_tlv 1 [byte 255]"
  have bits: "bit_length nonce \<le> 64" using assms by (rule bit_length_le)
  then have nb: "length ?nb \<le> 8" by simp
  have alg: "?alg = oid_sha256 @ [byte 5, byte 0]" by (simp add: der_tlv_def der_len_def)
  have oid: "length ?alg = 13" by (simp add: length_der_tlv oid_sha256_def)
  have imp: "length ?imp = 49" using oid by (simp add: length_der_tlv)
  have body: "length ?body < 256" using imp nb by (simp add: length_der_tlv)
  have items: "der_items (Suc n) (der_tlv tag v @ s) = map_option ((#) (tag, v)) (der_items n s)"
    if "tag < 256" "length v < 256" for tag v s n
    using that small_power by (intro der_items_Cons) auto
  have one: "der_items (Suc n) (der_tlv tag v) = Some [(tag, v)]" if "tag < 256" "length v < 256" for tag v n
    using items [OF that, of n "[]"] by (cases n) simp_all
  note der_int_to_bytes [of nonce]
  moreover have "der_items 1 (build_tsa_request bs nonce) = Some [(48, ?body)]"
  proof -
    have "build_tsa_request bs nonce = der_tlv 48 ?body" by (simp add: build_tsa_request_def Let_def)
    then show ?thesis using one [OF _ body, of 48 0] by simp
  qed
  moreover have "der_items 2 ?imp = Some [(48, ?alg), (4, sha256_digest bs)]"
  proof -
    have "der_items 2 = der_items (Suc (Suc 0))" by (rule arg_cong) simp
    then show ?thesis
      using items [of 48 ?alg "Suc 0" "der_tlv 4 (sha256_digest bs)"] one [of 4 "sha256_digest bs" 0] oid by simp
  qed
  moreover have "der_items 4 ?body = Some [(2, [byte 1]), (48, ?imp), (2, ?nb), (1, [byte 255])]"
  proof -
    have four: "der_items 4 = der_items (Suc (Suc (Suc (Suc 0))))" by (rule arg_cong) simp
    have "length ?imp < 256" "length ?nb < 256" using imp nb by linarith+
    then show ?thesis unfolding four
      using items [of 2 "[byte 1]"] items [of 48 ?imp] items [of 2 ?nb] one [of 1 "[byte 255]" 0]
      by (simp del: der_items.simps)
  qed
  ultimately show ?thesis unfolding alg by blast
qed

theorem tsa_request_roundtrip_witness:
  "(\<exists>body nb imprint. der_items 1 (build_tsa_request ''anchor'' 7) = Some [(48, body)] \<and>
      der_items 4 body = Some [(2, [byte 1]), (48, imprint), (2, nb), (1, [byte 255])] \<and> der_int nb = 7) \<and>
   (\<exists>body nb imprint. der_items 1 (build_tsa_request ''anchor'' 200) = Some [(48, body)] \<and>
      der_items 4 body = Some [(2, [byte 1]), (48, imprint), (2, nb), (1, [byte 255])] \<and> der_int nb = - 56)"
proof -
  have "bit_length 7 = 3" "bit_length 200 = 8" by code_simp+
  with tsa_request_roundtrip [of 7 "''anchor''"] tsa_request_roundtrip [of 200 "''anchor''"]
  show ?thesis by (auto simp del: der_items.simps)
qed

end
