(* ===== verification/Custody_Verify.thy ===== *)
theory Custody_Verify
  imports Custody
begin

text \<open>
  \<open>src/custos/custody.py\<close>, the external verification of a copy of the audit store against the
  anchors and policy commits held outside, and what a verdict guarantees: the anchors a manager
  writes are established on every honest extension of the chain, and a store that is not
  contradicted carries the evidence that was anchored.
\<close>

subsection \<open>Verification\<close>

definition ESTABLISHED :: string where "ESTABLISHED = ''ESTABLISHED''"
definition CANNOT_ESTABLISH :: string where "CANNOT_ESTABLISH = ''CANNOT ESTABLISH''"
definition CONTRADICTION :: string where "CONTRADICTION = ''CONTRADICTION''"

lemmas verdict_defs = ESTABLISHED_def CANNOT_ESTABLISH_def CONTRADICTION_def

record custody_report =
  verdicts :: "(string \<times> string) list"
  overall :: string
  detail :: dict

text \<open>P1: the record chain, with the hash recomputed for each record.\<close>

fun p1_loop :: "nat \<Rightarrow> string \<Rightarrow> audit_record list \<Rightarrow> string \<Rightarrow> dict \<Rightarrow> (string \<times> string list \<times> dict) result" where
  "p1_loop i prev [] p1 det = Inr (p1, [], det)"
| "p1_loop i prev (r # rs) p1 det =
     (if previous_hash r \<noteq> prev then
        try_bind (p1_loop (Suc i) (record_hash r) rs CONTRADICTION
            (dict_set ''p1_break'' (JStr (''record '' @ int_repr (int i) @ '': previous_hash mismatch'')) det))
          (\<lambda>(v, hs, d). Inr (v, record_hash r # hs, d))
      else try_bind (compute_record_hash r prev) (\<lambda>expected.
        try_bind (if record_hash r \<noteq> expected
            then p1_loop (Suc i) expected rs CONTRADICTION
              (if map_of det ''p1_break'' = None
               then dict_set ''p1_break'' (JStr (''record '' @ int_repr (int i) @ '': hash mismatch'')) det else det)
            else p1_loop (Suc i) expected rs p1 det)
          (\<lambda>(v, hs, d). Inr (v, expected # hs, d))))"

text \<open>P3: the anchor chain. The result is the message of the first break.\<close>

fun p3_loop :: "string \<Rightarrow> int \<Rightarrow> anchor list \<Rightarrow> string option" where
  "p3_loop prev seen [] = None"
| "p3_loop prev seen (a # as) =
     (if an_epoch a \<le> seen then Some (''epoch not strictly increasing at '' @ int_repr (an_epoch a))
      else if an_prev a \<noteq> prev then Some (''anchor '' @ int_repr (an_epoch a) @ '': prev link mismatch'')
      else if an_hash a \<noteq> anchor_compute_hash a then Some (''anchor '' @ int_repr (an_epoch a) @ '': hash mismatch'')
      else p3_loop (an_hash a) (an_epoch a) as)"

text \<open>P2: the anchored heads against the recomputed hashes.\<close>

fun p2_loop :: "string list \<Rightarrow> anchor list \<Rightarrow> string option" where
  "p2_loop hs [] = None"
| "p2_loop hs (a # as) =
     (if an_length a < 1 \<or> an_length a > int (length hs) then
        Some (''anchor '' @ int_repr (an_epoch a) @ '': chain_length '' @ int_repr (an_length a) @
          '' outside store length '' @ int_repr (int (length hs)) @ '' (truncated or forged)'')
      else let head = hs ! nat (an_length a - 1) in
        if head \<noteq> an_head a then
          Some (''anchor '' @ int_repr (an_epoch a) @ '': recomputed head '' @ take 12 head @ ''... != anchored head '' @
            take 12 (an_head a) @ ''... (rewrite detected)'')
        else p2_loop hs as)"

text \<open>P5: the policy commits, read one by one.\<close>

fun p5_loop :: "dict list \<Rightarrow> string option result" where
  "p5_loop [] = Inr None"
| "p5_loop (d # ds) = try_bind (commit_from_dict d) (\<lambda>p.
     if pc_hash p \<noteq> commit_compute_hash p then
       Inr (Some (''policy commit '' @ int_repr (pc_epoch p) @ '': hash mismatch''))
     else if sha256_text (pc_canonical p) \<noteq> pc_head p then
       Inr (Some (''policy commit '' @ int_repr (pc_epoch p) @
         '': canonical_json does not re-hash to the committed digest''))
     else p5_loop ds)"

fun anchored_digests :: "dict list \<Rightarrow> (string \<times> string) list result" where
  "anchored_digests [] = Inr []"
| "anchored_digests (d # ds) =
     try_bind (dict_str d ''tenant_id'') (\<lambda>t. try_bind (dict_str d ''head_hash'') (\<lambda>h.
     try_bind (anchored_digests ds) (\<lambda>xs. Inr ((t, h) # xs))))"

definition citing_tenant :: "audit_record \<Rightarrow> string" where
  "citing_tenant r = (case tenant_id r of Some t \<Rightarrow> if t \<noteq> [] then t else client_id r | None \<Rightarrow> client_id r)"

definition citations :: "audit_record list \<Rightarrow> (nat \<times> string \<times> string) list" where
  "citations rs = map (\<lambda>(i, r). (i, citing_tenant r, the (ar_policy_digest r)))
     (filter (\<lambda>(i, r). truthy_str (ar_policy_digest r)) (enumerate 0 rs))"

definition unanchored :: "(string \<times> string) list \<Rightarrow> (nat \<times> string \<times> string) list \<Rightarrow> (nat \<times> string \<times> string) list" where
  "unanchored ds cs = filter (\<lambda>(i, t, d). (t, d) \<notin> set ds) cs"

definition is_commit :: "dict \<Rightarrow> bool" where
  "is_commit d = (map_of d ''kind'' = Some (JStr ''policy_commit''))"

definition verdict_of :: "string option \<Rightarrow> string" where
  "verdict_of b = (if b = None then ESTABLISHED else CONTRADICTION)"

definition break_detail :: "string \<Rightarrow> string option \<Rightarrow> dict" where
  "break_detail k b = (case b of None \<Rightarrow> [] | Some m \<Rightarrow> [(k, JStr m)])"

text \<open>The four propositions over the record chain and the head anchors.\<close>

definition head_verdicts :: "string \<Rightarrow> string list \<Rightarrow> nat \<Rightarrow> anchor list \<Rightarrow> (string \<times> string) list" where
  "head_verdicts p1 hs n as = (''P1_record_chain_consistency'', p1) #
     (if as = [] then [(''P3_anchor_chain_integrity'', CANNOT_ESTABLISH),
        (''P2_anchored_heads_match_store'', CANNOT_ESTABLISH), (''P4_store_completeness'', CANNOT_ESTABLISH)]
      else [(''P3_anchor_chain_integrity'', verdict_of (p3_loop GENESIS_ANCHOR_HASH 0 as)),
        (''P2_anchored_heads_match_store'', verdict_of (p2_loop hs as)),
        (''P4_store_completeness'',
          if int n < Max (an_length ` set as) then CONTRADICTION else ESTABLISHED)])"

definition head_detail :: "string list \<Rightarrow> nat \<Rightarrow> anchor list \<Rightarrow> dict" where
  "head_detail hs n as = (if as = [] then [] else
     break_detail ''p3_break'' (p3_loop GENESIS_ANCHOR_HASH 0 as) @ break_detail ''p2_break'' (p2_loop hs as) @
     (let covered = Max (an_length ` set as) in
      if int n < covered then [(''p4_break'', JStr (''store holds '' @ int_repr (int n) @ '' records; anchors cover '' @
          int_repr covered @ '' (truncation detected)''))]
      else [(''p4_note'', JStr (''anchored prefix: '' @ int_repr covered @ ''/'' @ int_repr (int n) @ '' records; '' @
          int_repr (int n - covered) @ '' records newer than the last anchor are covered by the next anchor''))]))"

definition overall_of :: "string list \<Rightarrow> string" where
  "overall_of vs = (if CONTRADICTION \<in> set vs then CONTRADICTION
     else if \<forall>v \<in> set vs. v = ESTABLISHED then ESTABLISHED else CANNOT_ESTABLISH)"

definition verify_custody :: "audit_record list \<Rightarrow> dict list \<Rightarrow> custody_report result" where
  "verify_custody records anchors =
     (let commits = filter is_commit anchors; heads = filter (\<lambda>d. \<not> is_commit d) anchors in
      try_bind (try_map anchor_from_dict heads) (\<lambda>hds.
      let as = sort_key an_epoch hds in
      try_bind (p1_loop 0 GENESIS_HASH records ESTABLISHED []) (\<lambda>(p1, hs, d1).
      try_bind (p5_loop commits) (\<lambda>p5.
      try_bind (anchored_digests commits) (\<lambda>digests.
      let cited = citations records; bad = unanchored digests cited;
          vs = head_verdicts p1 hs (length records) as @
            (if commits = [] then [] else [(''P5_policy_commit_integrity'', verdict_of p5)]) @
            (if cited = [] then [] else [(''P6_citation_membership'', if bad = [] then ESTABLISHED else CONTRADICTION)]) in
      Inr \<lparr>verdicts = vs, overall = overall_of (map snd vs),
        detail = d1 @ head_detail hs (length records) as @ break_detail ''p5_break'' p5 @
          (if bad = [] then [] else [(''p6_unanchored_citations'', JList (map (\<lambda>(i, t, d).
             JObj [(''record'', JInt (int i)), (''tenant'', JStr t), (''digest'', JStr d)]) bad))])\<rparr>)))))"

subsection \<open>What the verdicts mean\<close>

lemma CONTRADICTION_ne [simp]: "CONTRADICTION \<noteq> ESTABLISHED" "ESTABLISHED \<noteq> CONTRADICTION"
  "CANNOT_ESTABLISH \<noteq> CONTRADICTION" "CONTRADICTION \<noteq> CANNOT_ESTABLISH" "CANNOT_ESTABLISH \<noteq> ESTABLISHED"
  by (simp_all add: verdict_defs)

lemma p1_loop_result:
  assumes "p1_loop i prev rs p1 det = Inr (v, hs, d)"
  shows "length hs = length rs \<and> (p1 = CONTRADICTION \<longrightarrow> v = CONTRADICTION) \<and>
    (well_linked prev rs \<longrightarrow> v = p1 \<and> hs = map record_hash rs \<and> d = det) \<and>
    (\<not> well_linked prev rs \<longrightarrow> v = CONTRADICTION)"
  using assms
proof (induction i prev rs p1 det arbitrary: v hs d rule: p1_loop.induct)
  case (1 i prev p1 det)
  then show ?case by simp
next
  case (2 i prev r rs p1 det)
  show ?case
  proof (cases "previous_hash r = prev")
    case False
    from 2(4) False obtain hs' where
      "p1_loop (Suc i) (record_hash r) rs CONTRADICTION
         (dict_set ''p1_break'' (JStr (''record '' @ int_repr (int i) @ '': previous_hash mismatch'')) det) = Inr (v, hs', d)"
      "hs = record_hash r # hs'"
      by (auto simp: result_simps)
    with 2(1) [OF _ this(1)] False show ?thesis by simp
  next
    case True
    from 2(4) True obtain e where e: "compute_record_hash r prev = Inr e" by (auto simp: result_simps)
    show ?thesis
    proof (cases "record_hash r = e")
      case ok: True
      from 2(4) True e ok obtain hs' where "p1_loop (Suc i) e rs p1 det = Inr (v, hs', d)" "hs = e # hs'"
        by (auto simp: result_simps)
      with 2(3) [OF _ e _ this(1)] True ok e show ?thesis by simp
    next
      case bad: False
      let ?det = "if map_of det ''p1_break'' = None
        then dict_set ''p1_break'' (JStr (''record '' @ int_repr (int i) @ '': hash mismatch'')) det else det"
      from 2(4) True e bad obtain hs' where "p1_loop (Suc i) e rs CONTRADICTION ?det = Inr (v, hs', d)" "hs = e # hs'"
        by (auto simp: result_simps)
      with 2(2) [OF _ e _ this(1)] True bad e show ?thesis by simp
    qed
  qed
qed

lemma p1_loop_linked: "well_linked prev rs \<Longrightarrow> p1_loop i prev rs p1 det = Inr (p1, map record_hash rs, det)"
  by (induction rs arbitrary: i prev) auto

text \<open>The anchor chain a manager writes: epochs count from the first one, each anchor names the last.\<close>

fun anchor_linked :: "string \<Rightarrow> int \<Rightarrow> anchor list \<Rightarrow> bool" where
  "anchor_linked prev e [] = True"
| "anchor_linked prev e (a # as) = (an_epoch a = e \<and> an_prev a = prev \<and> an_hash a = anchor_compute_hash a \<and>
     anchor_linked (an_hash a) (e + 1) as)"

definition covers :: "audit_record list \<Rightarrow> anchor \<Rightarrow> bool" where
  "covers rs a \<longleftrightarrow> 1 \<le> an_length a \<and> an_length a \<le> int (length rs) \<and>
     an_head a = record_hash (rs ! nat (an_length a - 1))"

lemma p3_loop_linked: "anchor_linked prev e as \<Longrightarrow> s < e \<Longrightarrow> p3_loop prev s as = None"
  by (induction as arbitrary: prev e s) auto

lemma p2_loop_None:
  "p2_loop hs as = None \<longleftrightarrow> (\<forall>a \<in> set as. 1 \<le> an_length a \<and> an_length a \<le> int (length hs) \<and>
     an_head a = hs ! nat (an_length a - 1))"
  by (induction hs as rule: p2_loop.induct) (auto simp: Let_def)

lemma p2_loop_covers: "p2_loop (map record_hash rs) as = None \<longleftrightarrow> (\<forall>a \<in> set as. covers rs a)"
  by (auto simp: p2_loop_None covers_def nth_map)


lemma anchor_linked_epochs: "anchor_linked prev e as \<Longrightarrow> map an_epoch as = map (\<lambda>i. e + int i) [0..<length as]"
proof (induction as arbitrary: prev e)
  case (Cons a as)
  then have "map an_epoch as = map (\<lambda>i. (e + 1) + int i) [0..<length as]" by auto
  with Cons.prems show ?case by (simp add: upt_conv_Cons map_Suc_upt [symmetric] del: upt_Suc) 
qed simp

lemma anchor_linked_sorted: "anchor_linked prev e as \<Longrightarrow> sorted (map an_epoch as)"
  by (auto simp: anchor_linked_epochs sorted_iff_nth_mono)


lemma verify_custody_parts:
  assumes "verify_custody records anchors = Inr rep"
  obtains hds p1 hs d1 p5 digests where
    "try_map anchor_from_dict (filter (\<lambda>d. \<not> is_commit d) anchors) = Inr hds"
    "p1_loop 0 GENESIS_HASH records ESTABLISHED [] = Inr (p1, hs, d1)"
    "p5_loop (filter is_commit anchors) = Inr p5" "anchored_digests (filter is_commit anchors) = Inr digests"
    "verdicts rep = head_verdicts p1 hs (length records) (sort_key an_epoch hds) @
       (if filter is_commit anchors = [] then [] else [(''P5_policy_commit_integrity'', verdict_of p5)]) @
       (if citations records = [] then [] else
         [(''P6_citation_membership'', if unanchored digests (citations records) = [] then ESTABLISHED else CONTRADICTION)])"
    "overall rep = overall_of (map snd (verdicts rep))"
  using assms by (auto simp: verify_custody_def Let_def result_simps split: prod.splits)

lemma overall_not_contradiction: "overall_of vs \<noteq> CONTRADICTION \<longleftrightarrow> CONTRADICTION \<notin> set vs"
  by (auto simp: overall_of_def)

lemma verdict_of_CONTRADICTION [simp]:
  "verdict_of b = CONTRADICTION \<longleftrightarrow> b \<noteq> None" "CONTRADICTION = verdict_of b \<longleftrightarrow> b \<noteq> None"
  by (simp_all add: verdict_of_def)

lemma not_contradicted_heads:
  assumes "verify_custody records anchors = Inr rep" "overall rep \<noteq> CONTRADICTION"
    and "d \<in> set anchors" "\<not> is_commit d" "anchor_from_dict d = Inr a"
  shows "well_linked GENESIS_HASH records \<and> covers records a"
proof -
  from assms(1) obtain hds p1 hs d1 p5 digests where v:
    "try_map anchor_from_dict (filter (\<lambda>d. \<not> is_commit d) anchors) = Inr hds"
    "p1_loop 0 GENESIS_HASH records ESTABLISHED [] = Inr (p1, hs, d1)"
    "verdicts rep = head_verdicts p1 hs (length records) (sort_key an_epoch hds) @
       (if filter is_commit anchors = [] then [] else [(''P5_policy_commit_integrity'', verdict_of p5)]) @
       (if citations records = [] then [] else
         [(''P6_citation_membership'', if unanchored digests (citations records) = [] then ESTABLISHED else CONTRADICTION)])"
    "overall rep = overall_of (map snd (verdicts rep))"
    by (rule verify_custody_parts)
  have "d \<in> set (filter (\<lambda>d. \<not> is_commit d) anchors)" using assms(3,4) by simp
  from try_map_set [OF v(1) this] assms(5) have a: "a \<in> set hds" by auto
  have "CONTRADICTION \<notin> snd ` set (head_verdicts p1 hs (length records) (sort_key an_epoch hds))"
    using assms(2) by (auto simp: v(4) overall_not_contradiction v(3))
  moreover have "sort_key an_epoch hds \<noteq> []" using a by (metis empty_iff list.set(1) set_sort)
  ultimately have ok: "p1 \<noteq> CONTRADICTION" "p2_loop hs (sort_key an_epoch hds) = None"
    by (auto simp: head_verdicts_def)
  note p1 = p1_loop_result [OF v(2)]
  with ok(1) have "well_linked GENESIS_HASH records" "hs = map record_hash records" by auto
  with ok(2) a show ?thesis by (simp add: p2_loop_covers)
qed

lemma p5_loop_ok: "p5_loop ds = Inr None \<Longrightarrow> d \<in> set ds \<Longrightarrow>
    \<exists>p. commit_from_dict d = Inr p \<and> pc_hash p = commit_compute_hash p \<and> sha256_text (pc_canonical p) = pc_head p"
  by (induction ds) (auto simp: result_simps split: if_splits)

lemma anchored_digests_set: "anchored_digests ds = Inr xs \<Longrightarrow> (t, h) \<in> set xs \<Longrightarrow>
    \<exists>d \<in> set ds. dict_str d ''tenant_id'' = Inr t \<and> dict_str d ''head_hash'' = Inr h"
  by (induction ds arbitrary: xs) (auto simp: result_simps)

lemma commit_from_dict_fields:
  "commit_from_dict d = Inr p \<Longrightarrow> dict_str d ''tenant_id'' = Inr (pc_tenant p) \<and> dict_str d ''head_hash'' = Inr (pc_head p)"
  by (auto simp: commit_from_dict_def result_simps)

lemma citations_set:
  assumes "r \<in> set rs" "ar_policy_digest r = Some dg" "dg \<noteq> []"
  shows "\<exists>i. (i, citing_tenant r, dg) \<in> set (citations rs)"
proof -
  obtain i where "i < length rs" "rs ! i = r" using assms(1) by (auto simp: in_set_conv_nth)
  then have "(i, r) \<in> set (enumerate 0 rs)" by (auto simp: in_set_enumerate_eq)
  with assms(2,3) show ?thesis by (force simp: citations_def)
qed

subsection \<open>The log a manager writes\<close>

lemma anchor_path_plain:
  assumes "\<not> startswith t ''/''"
  shows "anchor_path repo t e ext = path_join repo ''anchors'' @ ''/'' @ t @
    (if t = [] \<or> last t = CHR ''/'' then [] else ''/'') @ ''epoch-'' @ int_repr e @ ext"
  using assms by (auto simp: anchor_path_def path_join_def startswith_def)

text \<open>A tenant id that names one directory under \<open>anchors/\<close>.\<close>

definition plain_id :: "string \<Rightarrow> bool" where
  "plain_id t \<longleftrightarrow> t \<notin> {[], ''.'', ''..''} \<and> CHR ''/'' \<notin> set t"

lemma plain_start: "plain_id t \<Longrightarrow> \<not> startswith t ''/''"
  by (cases t) (auto simp: plain_id_def startswith_def)

lemma anchor_path_eq:
  assumes "plain_id t"
  shows "anchor_path repo t e ext = path_join repo ''anchors'' @ ''/'' @ t @ ''/'' @ ''epoch-'' @ int_repr e @ ext"
proof -
  have "t \<noteq> []" using assms by (simp add: plain_id_def)
  moreover from this have "last t \<in> set t" by (rule last_in_set)
  with assms have "last t \<noteq> CHR ''/''" by (metis plain_id_def)
  ultimately show ?thesis using anchor_path_plain [OF plain_start [OF assms]] by simp
qed

lemma anchor_path_inject:
  assumes "plain_id t" "plain_id u"
  shows "anchor_path repo t e ''.json'' = anchor_path repo u e' ''.json'' \<longleftrightarrow> t = u \<and> e = e'"
proof -
  have "t = u \<and> x = y" if "t @ CHR ''/'' # x = u @ CHR ''/'' # y" for x y
  proof -
    have "takeWhile (\<lambda>c. c \<noteq> CHR ''/'') (v @ CHR ''/'' # z) = v" if "plain_id v" for v z
      using that by (subst takeWhile_append2) (auto simp: plain_id_def)
    with assms that have "t = u" by metis
    with that show ?thesis by simp
  qed
  from this [of "''epoch-'' @ int_repr e @ ''.json''" "''epoch-'' @ int_repr e' @ ''.json''"]
  show ?thesis using assms by (auto simp: anchor_path_eq)
qed



definition git_log :: "string \<Rightarrow> string \<Rightarrow> anchor list \<Rightarrow> (string \<times> dict) list" where
  "git_log repo t as = map (\<lambda>a. (anchor_path repo t (an_epoch a) ''.json'', anchor_to_dict a)) as"











lemma tenant_state_set [simp]: "tenant_state t (m\<lparr>am_state := dict_set t s d\<rparr>) = s"
  by (simp add: tenant_state_def)

lemma new_anchor_linked:
  "anchor_linked (ta_hash st) (ta_epoch st + 1) [new_anchor now t len head st]"
  by (simp add: new_anchor_def Let_def anchor_compute_hash_def anchor_payload_def)
























lemma not_commit [simp]: "\<not> is_commit (anchor_to_dict a)"
  by (simp add: is_commit_def anchor_to_dict_def anchor_payload_def)

lemma verify_linked_log:
  assumes "anchor_linked GENESIS_ANCHOR_HASH 1 as" "\<forall>a \<in> set as. covers rs a" "well_linked GENESIS_HASH rs"
  shows "\<exists>rep. verify_custody rs (map anchor_to_dict as) = Inr rep \<and>
    take 4 (verdicts rep) = head_verdicts ESTABLISHED (map record_hash rs) (length rs) as \<and>
    verdicts rep = take 4 (verdicts rep) @ (if citations rs = [] then [] else [(''P6_citation_membership'', CONTRADICTION)]) \<and> overall rep = overall_of (map snd (verdicts rep))"
proof -
  have f: "filter is_commit (map anchor_to_dict as) = []" "filter (\<lambda>d. \<not> is_commit d) (map anchor_to_dict as) = map anchor_to_dict as"
    by (simp_all add: filter_map comp_def)
  have "try_map anchor_from_dict (map anchor_to_dict as) = Inr as" by (induction as) simp_all
  moreover have "sort_key an_epoch as = as" using anchor_linked_sorted [OF assms(1)] by (rule sort_key_id_if_sorted)
  moreover have "length (head_verdicts p1 hs n as) = 4" for p1 hs n by (simp add: head_verdicts_def)
  moreover have "unanchored [] cs = cs" for cs by (simp add: unanchored_def case_prod_beta)
  ultimately show ?thesis
    by (simp add: verify_custody_def f p1_loop_linked [OF assms(3)] Let_def)
qed

lemma head_verdicts_ok:
  assumes "anchor_linked GENESIS_ANCHOR_HASH 1 as" "\<forall>a \<in> set as. covers rs a"
  shows "snd ` set (head_verdicts ESTABLISHED (map record_hash rs) (length rs) as) =
    (if as = [] then {ESTABLISHED, CANNOT_ESTABLISH} else {ESTABLISHED})"
proof -
  have "Max (an_length ` set as) \<le> int (length rs)" if "as \<noteq> []"
    by (rule Max.boundedI) (use that assms(2) in \<open>auto simp: covers_def\<close>)
  then have "as = [] \<or> \<not> int (length rs) < Max (an_length ` set as)" by (meson not_less)
  then show ?thesis
    using assms p3_loop_linked [OF assms(1), of 0]
    by (auto simp: head_verdicts_def verdict_of_def p2_loop_covers)
qed

subsection \<open>Properties\<close>

text \<open>C21: rewriting the store is detected by the anchors held outside. Let \<open>xs\<close> be the true history
  and let some anchor name its head at a length \<open>n\<close>. If verifying a copy \<open>ys\<close> of the store
  does not end in a contradiction, then \<open>ys\<close> holds at least \<open>n\<close> records and its first \<open>n\<close> carry
  the same evidence as the first \<open>n\<close> of the history, record by record, or two hashed preimages
  collide. Truncation, edits, insertions and a consistent rewrite with fresh hashes are covered.\<close>

theorem rewrite_is_contradicted:
  assumes "well_linked GENESIS_HASH xs" and "d \<in> set anchors" and "\<not> is_commit d"
    and "anchor_from_dict d = Inr a" and "covers xs a"
    and "verify_custody ys anchors = Inr rep" and "overall rep \<noteq> CONTRADICTION"
  shows "let n = nat (an_length a) in n \<le> length ys \<and>
    (list_all2 (\<lambda>r s. same_evidence r s \<and> record_hash r = record_hash s) (take n xs) (take n ys) \<or> hash_collision xs ys)"
proof -
  let ?n = "nat (an_length a)"
  have ys: "well_linked GENESIS_HASH ys" "covers ys a"
    using not_contradicted_heads [OF assms(6,7,2,3,4)] by blast+
  obtain k where n: "?n = Suc k" using assms(5) by (cases ?n) (auto simp: covers_def)
  then have k: "nat (an_length a - 1) = k" by linarith
  have len: "?n \<le> length xs" "?n \<le> length ys" using assms(5) ys(2) by (auto simp: covers_def)
  have heads: "record_hash (xs ! k) = record_hash (ys ! k)" using assms(5) ys(2) by (simp add: covers_def k)
  have linked: "well_linked GENESIS_HASH (take ?n zs)" if "well_linked GENESIS_HASH zs" for zs
    using that by (metis append_take_drop_id well_linked_append)
  have same: "list_all2 (\<lambda>r s. same_evidence r s \<and> record_hash r = record_hash s) (take ?n xs) (take ?n ys) \<or>
      hash_collision (take ?n xs) (take ?n ys)"
  proof (rule same_head_same_chain [OF linked [OF assms(1)] linked [OF ys(1)]])
    show "length (take ?n xs) = length (take ?n ys)" using len by simp
    show "record_hash (last (take ?n xs)) = record_hash (last (take ?n ys))"
      using len heads by (simp add: n last_take_Suc)
  qed
  have "hash_collision (take ?n xs) (take ?n ys) \<Longrightarrow> hash_collision xs ys"
    by (rule hash_collision_mono) (auto dest: in_set_takeD)
  with same len(2) show ?thesis unfolding Let_def by blast
qed

lemma covers_demo:
  assumes "previous_hash r = GENESIS_HASH" "compute_record_hash r GENESIS_HASH = Inr (record_hash r)"
  defines "a \<equiv> new_anchor ''2026-01-01T00:00:00Z'' ''t'' 1 (record_hash r)
    \<lparr>ta_epoch = 0, ta_length = 0, ta_hash = GENESIS_ANCHOR_HASH, ta_last = None, ta_gap = None\<rparr>"
  shows "well_linked GENESIS_HASH [r]" "covers [r] a" "anchor_linked GENESIS_ANCHOR_HASH 1 [a]"
  using assms(1,2) new_anchor_linked [of "\<lparr>ta_epoch = 0, ta_length = 0, ta_hash = GENESIS_ANCHOR_HASH, ta_last = None, ta_gap = None\<rparr>"]
  by (simp_all add: a_def covers_def new_anchor_def Let_def)

lemma demo_linked: "\<exists>r. previous_hash r = GENESIS_HASH \<and> compute_record_hash r GENESIS_HASH = Inr (record_hash r) \<and>
    citations [r] = []"
proof -
  obtain r where "chain_record (\<lambda>_. None) 5 None demo_args (demo_chain, []) =
     ((demo_chain\<lparr>ac_records := [r]\<rparr>, [r]), Inr r)" using demo_record_result by blast
  then have "seal_entry (\<lambda>_. None) demo_chain 5 demo_args = Inr r" using chain_record_Inr by blast
  then have "previous_hash r = latest_hash demo_chain" "compute_record_hash r (previous_hash r) = Inr (record_hash r)"
    "ar_policy_digest r = None"
    using seal_entry_Inr by (fastforce simp: demo_args_def call_args_def)+
  moreover have "latest_hash demo_chain = GENESIS_HASH" by (simp add: latest_hash_def demo_chain_def)
  ultimately show ?thesis by (intro exI [of _ r]) (simp add: citations_def)
qed

theorem rewrite_is_contradicted_witness:
  "\<exists>r a rep. verify_custody [r] [anchor_to_dict a] = Inr rep \<and> overall rep = ESTABLISHED \<and> an_length a = 1 \<and>
     list_all2 (\<lambda>r s. same_evidence r s \<and> record_hash r = record_hash s) (take 1 [r]) (take 1 [r])"
proof -
  obtain r where r: "previous_hash r = GENESIS_HASH" "compute_record_hash r GENESIS_HASH = Inr (record_hash r)" "citations [r] = []"
    using demo_linked by blast
  define a where "a = new_anchor ''2026-01-01T00:00:00Z'' ''t'' 1 (record_hash r)
    \<lparr>ta_epoch = 0, ta_length = 0, ta_hash = GENESIS_ANCHOR_HASH, ta_last = None, ta_gap = None\<rparr>"
  note d = covers_demo [OF r(1,2), folded a_def]
  obtain rep where v: "verify_custody [r] [anchor_to_dict a] = Inr rep"
    "take 4 (verdicts rep) = head_verdicts ESTABLISHED [record_hash r] 1 [a]" "verdicts rep = take 4 (verdicts rep)"
    "overall rep = overall_of (map snd (verdicts rep))"
    using verify_linked_log [OF d(3) _ d(1)] d(2) r(3) by auto
  have "snd ` set (verdicts rep) = {ESTABLISHED}"
    using head_verdicts_ok [OF d(3), of "[r]"] d(2) v(2,3) by simp
  then have o: "overall rep = ESTABLISHED" by (simp add: v(4) overall_of_def)
  have one: "an_length a = 1" by (simp add: a_def new_anchor_def Let_def)
  have "same_evidence r r" by (simp add: same_evidence_def)
  moreover have "let n = nat (an_length a) in n \<le> length [r] \<and>
    (list_all2 (\<lambda>r s. same_evidence r s \<and> record_hash r = record_hash s) (take n [r]) (take n [r]) \<or> hash_collision [r] [r])"
    by (rule rewrite_is_contradicted [OF d(1) _ not_commit anchor_from_to_dict d(2) v(1)]) (simp_all add: o)
  ultimately show ?thesis using v(1) o one by auto
qed




text \<open>C26: citations are backed by anchored policies: if verifying a store does not end in a
  contradiction, then every record that cites a policy digest has, among the anchors held
  outside, a policy commit for its tenant (its client where no tenant is set) with an intact
  hash whose canonical bytes hash to exactly the digest cited.\<close>

theorem citations_are_anchored:
  assumes "verify_custody rs anchors = Inr rep" and "overall rep \<noteq> CONTRADICTION"
    and "r \<in> set rs" and "ar_policy_digest r = Some dg" and "dg \<noteq> []"
  shows "\<exists>d \<in> set anchors. \<exists>p. is_commit d \<and> commit_from_dict d = Inr p \<and> pc_tenant p = citing_tenant r \<and>
    pc_head p = dg \<and> sha256_text (pc_canonical p) = dg \<and> pc_hash p = commit_compute_hash p"
proof -
  from assms(1) obtain hds p1 hs d1 p5 digests where v:
    "p5_loop (filter is_commit anchors) = Inr p5" "anchored_digests (filter is_commit anchors) = Inr digests"
    "verdicts rep = head_verdicts p1 hs (length rs) (sort_key an_epoch hds) @
       (if filter is_commit anchors = [] then [] else [(''P5_policy_commit_integrity'', verdict_of p5)]) @
       (if citations rs = [] then [] else
         [(''P6_citation_membership'', if unanchored digests (citations rs) = [] then ESTABLISHED else CONTRADICTION)])"
    "overall rep = overall_of (map snd (verdicts rep))"
    by (rule verify_custody_parts)
  have ok: "CONTRADICTION \<notin> snd ` set (verdicts rep)"
    using assms(2) by (simp add: v(4) overall_not_contradiction)
  obtain i where i: "(i, citing_tenant r, dg) \<in> set (citations rs)" using citations_set [OF assms(3-5)] by blast
  then have "citations rs \<noteq> []" by auto
  with ok have "unanchored digests (citations rs) = []" unfolding v(3) by (auto split: if_splits)
  with i have "(citing_tenant r, dg) \<in> set digests" by (auto simp: unanchored_def filter_empty_conv)
  then obtain d where d: "d \<in> set (filter is_commit anchors)" "dict_str d ''tenant_id'' = Inr (citing_tenant r)"
    "dict_str d ''head_hash'' = Inr dg"
    using anchored_digests_set [OF v(2)] by blast
  from d(1) have "filter is_commit anchors \<noteq> []" by (metis empty_iff list.set(1))
  with ok have "p5 = None" unfolding v(3) by (auto split: if_splits)
  then obtain p where p: "commit_from_dict d = Inr p" "pc_hash p = commit_compute_hash p" "sha256_text (pc_canonical p) = pc_head p"
    using p5_loop_ok [OF _ d(1)] v(1) by blast
  with commit_from_dict_fields [OF p(1)] d show ?thesis by auto
qed

theorem citations_are_anchored_witness:
  "\<exists>r p rep. verify_custody [r] [commit_to_dict p] = Inr rep \<and> overall rep \<noteq> CONTRADICTION \<and>
     ar_policy_digest r = Some (sha256_text ''policy'') \<and> pc_tenant p = citing_tenant r"
proof -
  let ?dg = "sha256_text ''policy''"
  let ?p = "new_commit ''2026-01-01T00:00:00Z'' ''t'' ?dg ''policy'' \<lparr>pa_epoch = 0, pa_hash = GENESIS_ANCHOR_HASH\<rparr>"
  obtain r where r: "previous_hash r = GENESIS_HASH" "compute_record_hash r GENESIS_HASH = Inr (record_hash r)"
    "ar_policy_digest r = Some ?dg" "citing_tenant r = ''t''"
  proof -
    let ?a = "demo_args\<lparr>ra_digest := Some ?dg\<rparr>"
    obtain r where "seal_entry (\<lambda>_. None) demo_chain 5 ?a = Inr r"
      using seal_entry_total [of ?a demo_chain "Some ''t''" "\<lambda>_. None" 5]
      by (auto simp: demo_args_def demo_chain_def call_args_def commitment_defs record_tenant_def
         bound_evidence_required_def env_or_empty_def getenv_def strip_def rstrip_def lstrip_def lower_def)
    note sealed = seal_entry_Inr [OF this]
    then have "tenant_id r = Some ''t''" "latest_hash demo_chain = GENESIS_HASH"
      by (auto simp: demo_args_def call_args_def demo_chain_def record_tenant_def latest_hash_def dest: sym)
    with sealed show ?thesis by (intro that [of r]) (auto simp: citing_tenant_def)
  qed
  have link: "well_linked GENESIS_HASH [r]" using r(1,2) by simp
  have commit: "is_commit (commit_to_dict ?p)" "commit_from_dict (commit_to_dict ?p) = Inr ?p"
    "pc_hash ?p = commit_compute_hash ?p" "pc_canonical ?p = ''policy''" "pc_head ?p = ?dg" "pc_tenant ?p = ''t''" "?p\<lparr>pc_gap := JNull\<rparr> = ?p"
    by (simp_all add: is_commit_def commit_to_dict_def new_commit_def Let_def commit_compute_hash_def
        commit_from_dict_def dict_access_defs)
  have fields: "dict_str (commit_to_dict ?p) ''tenant_id'' = Inr ''t''" "dict_str (commit_to_dict ?p) ''head_hash'' = Inr ?dg"
    using commit_from_dict_fields [OF commit(2)] commit(5,6) by simp_all
  have cit: "citations [r] = [(0, ''t'', ?dg)]" by (simp add: citations_def r(3,4))
  obtain rep where v: "verify_custody [r] [commit_to_dict ?p] = Inr rep" "overall rep \<noteq> CONTRADICTION"
    using p1_loop_linked [OF link, of 0 ESTABLISHED "[]"]
    by (simp add: verify_custody_def commit fields cit unanchored_def head_verdicts_def verdict_of_def overall_of_def Let_def)
  have "pc_tenant ?p = citing_tenant r"
    using citations_are_anchored [OF v, of r ?dg] r(3) commit(2) by (auto simp del: commit_from_to_dict)
  with v r(3) show ?thesis by blast
qed

subsection \<open>Logs that honest deployments can break\<close>

text \<open>
  The manager does not read back what it anchored: after a restart its first anchor has epoch 1
  again and overwrites the old one, so the second anchor no longer names its predecessor.
\<close>

lemma restart_breaks_log:
  assumes "plain_id t" "anchor_linked GENESIS_ANCHOR_HASH 1 [a, b]" "an_epoch a' = 1" "an_hash a' \<noteq> an_hash a"
  shows "dict_set (anchor_path repo t (an_epoch a') ''.json'') (anchor_to_dict a') (git_log repo t [a, b]) = git_log repo t [a', b]"
    and "p3_loop GENESIS_ANCHOR_HASH 0 [a', b] \<noteq> None"
proof -
  show "dict_set (anchor_path repo t (an_epoch a') ''.json'') (anchor_to_dict a') (git_log repo t [a, b]) = git_log repo t [a', b]"
    using assms by (simp add: git_log_def anchor_path_inject)
  have "an_prev b \<noteq> an_hash a'" using assms(2,4) by auto
  then show "p3_loop GENESIS_ANCHOR_HASH 0 [a', b] \<noteq> None" by auto
qed

text \<open>A policy commit and a head anchor of the same tenant and epoch have the same file.\<close>

lemma commit_overwrites_anchor:
  assumes "an_epoch a = 1" "pc_epoch p = 1"
  shows "dict_set (anchor_path repo t (pc_epoch p) ''.json'') (commit_to_dict p) (git_log repo t [a]) =
    [(anchor_path repo t 1 ''.json'', commit_to_dict p)]"
  using assms by (simp add: git_log_def)

text \<open>
  \<open>load\_anchors\<close> returns the anchors of all tenants, and \<open>verify\_custody\<close> does not select: the intact
  logs of two tenants, read together, contradict each other.
\<close>

lemma mixed_tenants_contradict:
  assumes "anchor_linked GENESIS_ANCHOR_HASH 1 (a # as)" "anchor_linked GENESIS_ANCHOR_HASH 1 (b # bs)"
  shows "p3_loop GENESIS_ANCHOR_HASH 0 (sort_key an_epoch [a, b]) \<noteq> None"
  using assms by simp

text \<open>A tenant id that is an absolute path leaves the repository.\<close>

lemma absolute_tenant_escapes:
  "anchor_path ''/srv/custody'' ''/etc/x'' 1 ''.json'' = ''/etc/x/epoch-1.json''"
  by code_simp

text \<open>A forced anchor of an empty chain can never be established.\<close>

lemma forced_empty_anchor: "an_length a = 0 \<Longrightarrow> p2_loop hs (a # as) \<noteq> None"
  by simp

end
