(* ===== verification/Tenant.thy ===== *)
theory Tenant
  imports Policy_Factory Policy_Store Rate_Limiter Audit_Store
begin

text \<open>
  \<open>src/custos/tenant.py\<close>: the registry of tenants, each with its own policy engine, rate limiter
  and audit chain, and the persistence of the rules added at run time. Contexts are values in
  the registry; an operation that changes a tenant's engine or chain writes its context back.
  The state is the manager with its policy store; chains are opened on the audit store, an
  argument.
\<close>

subsection \<open>The manager\<close>

definition DEFAULT_QUOTA :: quota_config where
  "DEFAULT_QUOTA = \<lparr>requests_per_minute = 60, requests_per_hour = 1000, tokens_per_minute = 100000\<rparr>"

record tenant_context =
  tc_id :: string
  tc_engine :: engine
  tc_limiter :: rate_limiter
  tc_chain :: audit_chain

record tenant_manager =
  tm_tenants :: "(string \<times> tenant_context) list"
  tm_custom :: "(string \<times> policy_rule list) list"
  tm_store :: rule_backend

definition engine_with :: "environment \<Rightarrow> policy_rule list \<Rightarrow> engine" where
  "engine_with env rs = fold engine_add_rule rs (create_policy_engine env)"

definition tenant_register ::
  "environment \<Rightarrow> audit_store \<Rightarrow> int \<Rightarrow> string \<Rightarrow> quota_config \<Rightarrow> tenant_manager \<Rightarrow> tenant_manager \<times> tenant_context result" where
  "tenant_register env ast now t quota tm =
     (let limiter = register t quota now new_rate_limiter in
      case store_load t (tm_store tm) of
        Inl e \<Rightarrow> (tm, Inl e)
      | Inr rules \<Rightarrow>
          let tm1 = tm\<lparr>tm_custom := dict_set t rules (tm_custom tm)\<rparr> in
          (case new_chain env None None (Some t) None ast of
             Inl e \<Rightarrow> (tm1, Inl e)
           | Inr chain \<Rightarrow>
               let ctx = \<lparr>tc_id = t, tc_engine = engine_with env rules, tc_limiter = limiter, tc_chain = chain\<rparr> in
               (tm1\<lparr>tm_tenants := dict_set t ctx (tm_tenants tm1)\<rparr>, Inr ctx)))"

definition tenant_get :: "string \<Rightarrow> tenant_manager \<Rightarrow> tenant_context option" where
  "tenant_get t tm = map_of (tm_tenants tm) t"

definition get_strict :: "string \<Rightarrow> tenant_manager \<Rightarrow> tenant_context option" where
  "get_strict t tm = map_of (tm_tenants tm) t"

text \<open>The key whose context \<open>get\_or\_default\<close> returns, and that context.\<close>

definition default_key :: "string \<Rightarrow> tenant_manager \<Rightarrow> string" where
  "default_key t tm = (case tenant_get t tm of Some ctx \<Rightarrow> t | None \<Rightarrow> ''default'')"

definition get_or_default :: "string \<Rightarrow> tenant_manager \<Rightarrow> tenant_context result" where
  "get_or_default t tm = (case tenant_get (default_key t tm) tm of
     Some ctx \<Rightarrow> Inr ctx | None \<Rightarrow> Inl (KeyError ''default''))"

definition list_policy_rules :: "string \<Rightarrow> tenant_manager \<Rightarrow> policy_rule list" where
  "list_policy_rules t tm = (case map_of (tm_custom tm) t of Some rs \<Rightarrow> rs | None \<Rightarrow> [])"

definition add_policy_rule :: "string \<Rightarrow> policy_rule \<Rightarrow> tenant_manager \<Rightarrow> tenant_manager \<times> tenant_context result" where
  "add_policy_rule t r tm = (case get_or_default t tm of
     Inl e \<Rightarrow> (tm, Inl e)
   | Inr ctx \<Rightarrow>
       let ctx' = ctx\<lparr>tc_engine := engine_add_rule r (tc_engine ctx)\<rparr>;
           rules = list_policy_rules t tm @ [r];
           tm1 = tm\<lparr>tm_tenants := dict_set (default_key t tm) ctx' (tm_tenants tm),
                    tm_custom := dict_set t rules (tm_custom tm)\<rparr> in
       (case store_save t rules (tm_store tm) of
          (b, Inl e) \<Rightarrow> (tm1\<lparr>tm_store := b\<rparr>, Inl e)
        | (b, Inr _) \<Rightarrow> (tm1\<lparr>tm_store := b\<rparr>, Inr ctx')))"

definition tenant_list :: "tenant_manager \<Rightarrow> string list" where
  "tenant_list tm = map fst (tm_tenants tm)"

definition tenant_unregister :: "string \<Rightarrow> tenant_manager \<Rightarrow> tenant_manager \<times> bool" where
  "tenant_unregister t tm =
     (if t = ''default'' then (tm, False)
      else if tenant_get t tm \<noteq> None then
        (\<lparr>tm_tenants = dict_del t (tm_tenants tm), tm_custom = dict_del t (tm_custom tm),
          tm_store = store_delete t (tm_store tm)\<rparr>, True)
      else (tm, False))"

definition tenant_count :: "tenant_manager \<Rightarrow> nat" where
  "tenant_count tm = length (tm_tenants tm)"

definition policy_backend :: "tenant_manager \<Rightarrow> string" where
  "policy_backend tm = backend_type (tm_store tm)"

text \<open>The constructor: the default tenant, then every tenant with persisted rules.\<close>

fun restore_tenants :: "environment \<Rightarrow> audit_store \<Rightarrow> int \<Rightarrow> string list \<Rightarrow> tenant_manager \<Rightarrow> tenant_manager result" where
  "restore_tenants env ast now [] tm = Inr tm"
| "restore_tenants env ast now (t # ts) tm =
     (if tenant_get t tm \<noteq> None then restore_tenants env ast now ts tm
      else (case tenant_register env ast now t DEFAULT_QUOTA tm of
        (tm', Inl e) \<Rightarrow> Inl e
      | (tm', Inr _) \<Rightarrow> restore_tenants env ast now ts tm'))"

definition new_tenant_manager :: "environment \<Rightarrow> audit_store \<Rightarrow> int \<Rightarrow> rule_backend \<Rightarrow> tenant_manager result" where
  "new_tenant_manager env ast now store =
     (case tenant_register env ast now ''default'' DEFAULT_QUOTA \<lparr>tm_tenants = [], tm_custom = [], tm_store = store\<rparr> of
        (tm, Inl e) \<Rightarrow> Inl e
      | (tm, Inr _) \<Rightarrow> restore_tenants env ast now (store_list (tm_store tm)) tm)"

subsection \<open>The invariant\<close>

datatype tenant_op =
    Register string quota_config int audit_store
  | AddRule string policy_rule
  | Unregister string

fun op_tenant :: "tenant_op \<Rightarrow> string" where
  "op_tenant (Register t quota now ast) = t"
| "op_tenant (AddRule t r) = t"
| "op_tenant (Unregister t) = t"

fun run_op :: "environment \<Rightarrow> tenant_op \<Rightarrow> tenant_manager \<Rightarrow> tenant_manager" where
  "run_op env (Register t quota now ast) tm = fst (tenant_register env ast now t quota tm)"
| "run_op env (AddRule t r) tm = fst (add_policy_rule t r tm)"
| "run_op env (Unregister t) tm = fst (tenant_unregister t tm)"

text \<open>The tenant whose context an operation writes: for a rule it is the one \<open>get\_or\_default\<close> returns.\<close>

fun written_tenant :: "tenant_op \<Rightarrow> tenant_manager \<Rightarrow> string" where
  "written_tenant (Register t quota now ast) tm = t"
| "written_tenant (AddRule t r) tm = default_key t tm"
| "written_tenant (Unregister t) tm = t"

text \<open>The store accepts the list an added rule gives, so the call returns.\<close>

fun op_sound :: "tenant_op \<Rightarrow> tenant_manager \<Rightarrow> bool" where
  "op_sound (Register t quota now ast) tm = True"
| "op_sound (AddRule t r) tm = backend_fits (tm_store tm) (list_policy_rules t tm @ [r])"
| "op_sound (Unregister t) tm = True"

text \<open>
  What the default tenant's engine was given since it was registered, each rule with the id it
  was added under: its own rules, and the rules added for ids that had no tenant.
\<close>

fun given_after :: "environment \<Rightarrow> tenant_op \<Rightarrow> tenant_manager \<Rightarrow> (string \<times> policy_rule) list \<Rightarrow> (string \<times> policy_rule) list" where
  "given_after env (Register t quota now ast) tm gs =
     (if t = ''default'' \<and> \<not> raised (snd (tenant_register env ast now t quota tm))
      then map (Pair ''default'') (list_policy_rules ''default'' tm) else gs)"
| "given_after env (AddRule t r) tm gs = (if default_key t tm = ''default'' then gs @ [(t, r)] else gs)"
| "given_after env (Unregister t) tm gs = gs"

definition own_given :: "(string \<times> policy_rule) list \<Rightarrow> policy_rule list" where
  "own_given gs = map snd (filter (\<lambda>g. fst g = ''default'') gs)"

definition rules_in_force :: "(string \<times> policy_rule) list \<Rightarrow> string \<Rightarrow> tenant_manager \<Rightarrow> policy_rule list" where
  "rules_in_force gs t tm = (if t = ''default'' then map snd gs else list_policy_rules t tm)"

text \<open>
  The store holds, for every id, the custom rules of that id; an engine is the one the
  environment starts with and the rules in force for its tenant.
\<close>

definition manager_ok :: "environment \<Rightarrow> (string \<times> policy_rule) list \<Rightarrow> tenant_manager \<Rightarrow> bool" where
  "manager_ok env gs tm \<longleftrightarrow> backend_ok (tm_store tm) \<and> tenant_get ''default'' tm \<noteq> None \<and>
     (\<forall>t. store_load t (tm_store tm) = Inr (list_policy_rules t tm)) \<and>
     list_policy_rules ''default'' tm = own_given gs \<and>
     (\<forall>t ctx. tenant_get t tm = Some ctx \<longrightarrow> tc_id ctx = t \<and> tc_engine ctx = engine_with env (rules_in_force gs t tm))"

text \<open>While the constructor restores tenants: those registered so far.\<close>

definition restore_ok :: "environment \<Rightarrow> tenant_manager \<Rightarrow> bool" where
  "restore_ok env tm \<longleftrightarrow> (\<forall>t. case tenant_get t tm of
       Some ctx \<Rightarrow> tc_id ctx = t \<and> tc_engine ctx = engine_with env (list_policy_rules t tm) \<and>
         store_load t (tm_store tm) = Inr (list_policy_rules t tm)
     | None \<Rightarrow> list_policy_rules t tm = [])"

lemma register_cases:
  assumes "tenant_register env ast now t quota tm = (tm', res)"
  obtains (unloaded) e where "res = Inl e" "tm' = tm" "store_load t (tm_store tm) = Inl e"
  | (unopened) e rules where "res = Inl e" "store_load t (tm_store tm) = Inr rules"
      "tm' = tm\<lparr>tm_custom := dict_set t rules (tm_custom tm)\<rparr>"
  | (registered) ctx rules where "res = Inr ctx" "store_load t (tm_store tm) = Inr rules" "tc_id ctx = t"
      "tc_engine ctx = engine_with env rules" "ac_tenant (tc_chain ctx) = Some t"
      "tc_limiter ctx = register t quota now new_rate_limiter"
      "tm' = tm\<lparr>tm_custom := dict_set t rules (tm_custom tm), tm_tenants := dict_set t ctx (tm_tenants tm)\<rparr>"
proof (cases "store_load t (tm_store tm)")
  case (Inl e)
  with assms have "res = Inl e" "tm' = tm" by (simp_all add: tenant_register_def)
  from unloaded [OF this Inl] show ?thesis .
next
  case rules: (Inr rules)
  show ?thesis
  proof (cases "new_chain env None None (Some t) None ast")
    case (Inl e)
    with rules assms have "res = Inl e" "tm' = tm\<lparr>tm_custom := dict_set t rules (tm_custom tm)\<rparr>"
      by (simp_all add: tenant_register_def Let_def)
    from unopened [OF this(1) rules this(2)] show ?thesis .
  next
    case (Inr chain)
    then have "ac_tenant chain = Some t" by (auto simp: new_chain_def Let_def result_simps split: if_splits)
    moreover from assms rules Inr have
      "res = Inr \<lparr>tc_id = t, tc_engine = engine_with env rules, tc_limiter = register t quota now new_rate_limiter, tc_chain = chain\<rparr>"
      "tm' = tm\<lparr>tm_custom := dict_set t rules (tm_custom tm), tm_tenants := dict_set t
         \<lparr>tc_id = t, tc_engine = engine_with env rules, tc_limiter = register t quota now new_rate_limiter, tc_chain = chain\<rparr> (tm_tenants tm)\<rparr>"
      by (simp_all add: tenant_register_def Let_def)
    ultimately show ?thesis using rules by (intro registered) simp_all
  qed
qed

lemma engine_with_snoc: "engine_with env (rs @ [r]) = engine_add_rule r (engine_with env rs)"
  by (simp add: engine_with_def)

lemma own_given_simps [simp]:
  "own_given (gs @ [(t, r)]) = own_given gs @ (if t = ''default'' then [r] else [])"
  "own_given (map (Pair ''default'') rs) = rs"
  by (simp_all add: own_given_def comp_def)

lemma snd_Pair_default [simp]: "map snd (map (Pair ''default'') rs) = rs"
  by (simp add: comp_def)

lemma manager_okD:
  assumes "manager_ok env gs tm"
  shows "backend_ok (tm_store tm)" "store_load t (tm_store tm) = Inr (list_policy_rules t tm)"
    "list_policy_rules ''default'' tm = own_given gs"
    "tenant_get t tm = Some ctx \<Longrightarrow> tc_engine ctx = engine_with env (rules_in_force gs t tm)"
    "tenant_get t tm = Some ctx \<Longrightarrow> tc_id ctx = t"
  using assms by (simp_all add: manager_ok_def)

lemma default_context:
  assumes "manager_ok env gs tm"
  obtains ctx where "tenant_get (default_key t tm) tm = Some ctx" "get_or_default t tm = Inr ctx"
proof -
  have "tenant_get (default_key t tm) tm \<noteq> None"
    using assms by (auto simp: manager_ok_def default_key_def split: option.splits)
  then show ?thesis using that by (auto simp: get_or_default_def)
qed

lemma register_ok:
  assumes "tenant_register env ast now t quota tm = (tm', res)" "manager_ok env gs tm"
  shows "manager_ok env (if t = ''default'' \<and> \<not> raised res
    then map (Pair ''default'') (list_policy_rules ''default'' tm) else gs) tm'"
  using assms(1)
proof (cases rule: register_cases)
  case (unloaded e)
  with assms(2) show ?thesis by simp
next
  case (unopened e rules)
  have "list_policy_rules u tm' = list_policy_rules u tm" for u
    using manager_okD(2) [OF assms(2), of u] unopened(2,3) by (auto simp: list_policy_rules_def)
  with assms(2) unopened(1,3) show ?thesis by (auto simp: manager_ok_def tenant_get_def rules_in_force_def)
next
  case (registered ctx rules)
  have "rules = list_policy_rules t tm" using manager_okD(2) [OF assms(2), of t] registered(2) by simp
  then have same: "list_policy_rules u tm' = list_policy_rules u tm" for u
    by (simp add: registered(7) list_policy_rules_def)
  with assms(2) registered \<open>rules = _\<close> show ?thesis
    unfolding manager_ok_def rules_in_force_def same
    by (auto simp: tenant_get_def comp_def)
qed

lemma add_rule_accepted:
  assumes "backend_ok (tm_store tm)" "get_or_default t tm = Inr ctx"
    "backend_fits (tm_store tm) (list_policy_rules t tm @ [r])"
  shows "add_policy_rule t r tm = (\<lparr>tm_tenants = dict_set (default_key t tm) (ctx\<lparr>tc_engine := engine_add_rule r (tc_engine ctx)\<rparr>) (tm_tenants tm),
      tm_custom = dict_set t (list_policy_rules t tm @ [r]) (tm_custom tm),
      tm_store = fst (store_save t (list_policy_rules t tm @ [r]) (tm_store tm))\<rparr>,
      Inr (ctx\<lparr>tc_engine := engine_add_rule r (tc_engine ctx)\<rparr>))"
proof -
  have "snd (store_save t (list_policy_rules t tm @ [r]) (tm_store tm)) = Inr ()"
    using assms(1,3) store.save_fits by simp
  with assms(2) show ?thesis
    by (cases "store_save t (list_policy_rules t tm @ [r]) (tm_store tm)")
       (simp add: add_policy_rule_def Let_def)
qed

lemma default_key_cases: "default_key t tm = t \<or> default_key t tm = ''default'' \<and> tenant_get t tm = None"
  by (simp add: default_key_def split: option.splits)

lemma default_key_default: "default_key ''default'' tm = ''default''"
  by (simp add: default_key_def split: option.split)

lemma add_rule_ok:
  assumes "manager_ok env gs tm" "backend_fits (tm_store tm) (list_policy_rules t tm @ [r])"
  shows "manager_ok env (if default_key t tm = ''default'' then gs @ [(t, r)] else gs) (fst (add_policy_rule t r tm))"
proof -
  let ?rs = "list_policy_rules t tm @ [r]" and ?k = "default_key t tm"
  let ?tm = "fst (add_policy_rule t r tm)"
  obtain ctx where ctx: "tenant_get ?k tm = Some ctx" "get_or_default t tm = Inr ctx"
    by (rule default_context [OF assms(1)])
  note ok = manager_okD(1) [OF assms(1)]
  note add = add_rule_accepted [OF ok ctx(2) assms(2)]
  have load: "store_load u (fst (store_save t ?rs (tm_store tm))) = (if u = t then Inr ?rs else store_load u (tm_store tm))" for u
    by (rule store.load_save [OF ok assms(2)])
  have rules: "list_policy_rules u ?tm = (if u = t then ?rs else list_policy_rules u tm)" for u
    by (simp add: add list_policy_rules_def)
  have get: "tenant_get u ?tm = (if u = ?k then Some (ctx\<lparr>tc_engine := engine_add_rule r (tc_engine ctx)\<rparr>) else tenant_get u tm)" for u
    by (simp add: add tenant_get_def)
  have engine: "tc_engine ctx = engine_with env (rules_in_force gs ?k tm)" "tc_id ctx = ?k"
    using manager_okD(4,5) [OF assms(1) ctx(1)] by simp_all
  have store: "tm_store ?tm = fst (store_save t ?rs (tm_store tm))" by (simp add: add)
  let ?gs = "if ?k = ''default'' then gs @ [(t, r)] else gs"
  have force: "rules_in_force ?gs u ?tm = rules_in_force gs u tm @ (if u = ?k then [r] else [])"
    if "tenant_get u tm \<noteq> None" for u
    using default_key_cases [of t tm]
  proof
    assume "?k = t"
    then show ?thesis by (cases "u = ''default''"; cases "u = t") (simp_all add: rules_in_force_def rules)
  next
    assume "?k = ''default'' \<and> tenant_get t tm = None"
    moreover from this have "u \<noteq> t" using that by metis
    ultimately show ?thesis by (cases "u = ''default''") (simp_all add: rules_in_force_def rules)
  qed
  have id: "tc_id c = u \<and> tc_engine c = engine_with env (rules_in_force ?gs u ?tm)" if c: "tenant_get u ?tm = Some c" for u c
  proof -
    have "tenant_get u tm \<noteq> None" using c ctx(1) by (auto simp: get split: if_splits)
    with c ctx(1) engine manager_okD(4,5) [OF assms(1), of u] show ?thesis
      by (auto simp: get force engine_with_snoc split: if_splits)
  qed
  have own: "list_policy_rules ''default'' ?tm = own_given ?gs"
    unfolding rules using default_key_cases [of t tm] manager_okD(3) [OF assms(1)]
    by (cases "t = ''default''") (simp_all add: default_key_default)
  have default: "tenant_get ''default'' ?tm \<noteq> None" using assms(1) by (simp add: manager_ok_def get)
  have loads: "store_load u (tm_store ?tm) = Inr (list_policy_rules u ?tm)" for u
    by (simp add: store load rules manager_okD(2) [OF assms(1)])
  have "backend_ok (tm_store ?tm)" by (simp add: store store.save_ok [OF ok])
  with default loads own id show ?thesis unfolding manager_ok_def by blast
qed

lemma unregister_ok:
  assumes "manager_ok env gs tm"
  shows "manager_ok env gs (fst (tenant_unregister t tm))"
proof (cases "t = ''default'' \<or> tenant_get t tm = None")
  case True
  with assms show ?thesis by (auto simp: tenant_unregister_def)
next
  case False
  note ok = manager_okD(1) [OF assms]
  have "list_policy_rules u (fst (tenant_unregister t tm)) = (if u = t then [] else list_policy_rules u tm)" for u
    using False by (simp add: tenant_unregister_def list_policy_rules_def)
  with assms False show ?thesis
    by (auto simp: manager_ok_def tenant_unregister_def tenant_get_def rules_in_force_def
      store.load_del [OF ok] store.del_ok [OF ok])
qed

lemma run_op_ok: "manager_ok env gs tm \<Longrightarrow> op_sound op tm \<Longrightarrow> manager_ok env (given_after env op tm gs) (run_op env op tm)"
proof (cases op)
  case (Register t quota now ast)
  then show "manager_ok env gs tm \<Longrightarrow> ?thesis"
    using register_ok by (cases "tenant_register env ast now t quota tm") fastforce
next
  case (AddRule t r)
  then show "manager_ok env gs tm \<Longrightarrow> op_sound op tm \<Longrightarrow> ?thesis" using add_rule_ok by simp
qed (simp add: unregister_ok)

lemma register_done:
  assumes "tenant_register env ast now t quota tm = (tm', Inr ctx)"
  shows "tm_store tm' = tm_store tm" "tenant_get u tm' = (if u = t then Some ctx else tenant_get u tm)"
    "ac_tenant (tc_chain ctx) = Some t" "restore_ok env tm \<Longrightarrow> restore_ok env tm'"
proof -
  from assms have "tm_store tm' = tm_store tm \<and> tenant_get u tm' = (if u = t then Some ctx else tenant_get u tm) \<and>
    ac_tenant (tc_chain ctx) = Some t"
    by (cases rule: register_cases) (simp_all add: tenant_get_def)
  then show "tm_store tm' = tm_store tm" "tenant_get u tm' = (if u = t then Some ctx else tenant_get u tm)"
    "ac_tenant (tc_chain ctx) = Some t" by simp_all
  assume ok: "restore_ok env tm"
  from assms show "restore_ok env tm'"
  proof (cases rule: register_cases)
    case (registered ctx' rules)
    have "list_policy_rules u tm' = (if u = t then rules else list_policy_rules u tm)"
      "tenant_get u tm' = (if u = t then Some ctx' else tenant_get u tm)" "tm_store tm' = tm_store tm" for u
      by (simp_all add: registered(7) list_policy_rules_def tenant_get_def)
    note same = this
    show ?thesis unfolding restore_ok_def same
      using ok registered(2-4) by (simp add: restore_ok_def split: option.split)
  qed simp_all
qed

lemma restore_done:
  assumes "restore_tenants env ast now ts tm = Inr tm'" "restore_ok env tm"
  shows "restore_ok env tm' \<and> tm_store tm' = tm_store tm \<and>
    (\<forall>t. tenant_get t tm' \<noteq> None \<longleftrightarrow> tenant_get t tm \<noteq> None \<or> t \<in> set ts)"
  using assms
proof (induction ts arbitrary: tm)
  case Nil
  then show ?case by simp
next
  case (Cons t ts)
  show ?case
  proof (cases "tenant_get t tm \<noteq> None")
    case True
    with Cons.prems Cons.IH [of tm] show ?thesis by auto
  next
    case False
    then obtain tm1 ctx where reg: "tenant_register env ast now t DEFAULT_QUOTA tm = (tm1, Inr ctx)"
      and rest: "restore_tenants env ast now ts tm1 = Inr tm'"
      using Cons.prems(1) by (auto split: prod.splits sum.splits)
    note reg_done = register_done [OF reg]
    from Cons.IH [OF rest reg_done(4) [OF Cons.prems(2)]] reg_done(1,2) show ?thesis by auto
  qed
qed

text \<open>An id the store does not list has no persisted rules.\<close>

lemma sql_list_loads:
  assumes "t \<notin> set (sql_list tab)"
  shows "sql_load t tab = Inr []"
proof -
  have none: "filter (\<lambda>w. row_tenant w = t) (rt_rows tab) = []" using assms by (auto simp: sql_list_def filter_empty_conv)
  show ?thesis unfolding sql_load_def none by simp
qed

lemma mem_list_loads: "t \<notin> set (mem_list m) \<Longrightarrow> mem_load t m = Inr []"
  by (simp add: mem_list_def mem_load_def map_of_eq_None_iff [THEN iffD2])

lemma unlisted_loads: "t \<notin> set (store_list b) \<Longrightarrow> store_load t b = Inr []"
  using sql_list_loads mem_list_loads by (cases b; simp)

lemma new_manager_ok:
  assumes "new_tenant_manager env ast now b = Inr tm" "backend_ok b"
  shows "manager_ok env (map (Pair ''default'') (list_policy_rules ''default'' tm)) tm" "tm_store tm = b"
    "tenant_get t tm \<noteq> None \<longleftrightarrow> t = ''default'' \<or> t \<in> set (store_list b)"
proof -
  obtain tm0 ctx where reg: "tenant_register env ast now ''default'' DEFAULT_QUOTA \<lparr>tm_tenants = [], tm_custom = [], tm_store = b\<rparr> = (tm0, Inr ctx)"
    and rest: "restore_tenants env ast now (store_list (tm_store tm0)) tm0 = Inr tm"
    using assms(1) by (auto simp: new_tenant_manager_def split: prod.splits sum.splits)
  have "restore_ok env \<lparr>tm_tenants = [], tm_custom = [], tm_store = b\<rparr>"
    by (simp add: restore_ok_def tenant_get_def list_policy_rules_def)
  from restore_done [OF rest register_done(4) [OF reg this]] register_done(1,2) [OF reg]
  have ok: "restore_ok env tm" and b: "tm_store tm = b"
    and known: "tenant_get u tm \<noteq> None \<longleftrightarrow> u = ''default'' \<or> u \<in> set (store_list b)" for u
    by (simp_all add: tenant_get_def)
  show "tm_store tm = b" "tenant_get t tm \<noteq> None \<longleftrightarrow> t = ''default'' \<or> t \<in> set (store_list b)" by (rule b, rule known)
  have "store_load u b = Inr (list_policy_rules u tm)" for u
    using ok [unfolded restore_ok_def b, rule_format, of u] known [of u] unlisted_loads [of u b]
    by (cases "tenant_get u tm") auto
  moreover have "tc_id ctx = u \<and> tc_engine ctx = engine_with env (list_policy_rules u tm)" if "tenant_get u tm = Some ctx" for u ctx
    using ok [unfolded restore_ok_def, rule_format, of u] that by simp
  moreover have "tenant_get ''default'' tm \<noteq> None" using known by simp
  ultimately show "manager_ok env (map (Pair ''default'') (list_policy_rules ''default'' tm)) tm"
    using assms(2) by (auto simp: manager_ok_def b rules_in_force_def comp_def)
qed

text \<open>A manager in use, with what its default engine was given.\<close>

inductive tenant_reachable :: "environment \<Rightarrow> (string \<times> policy_rule) list \<Rightarrow> tenant_manager \<Rightarrow> bool" for env where
  started: "new_tenant_manager env ast now b = Inr tm \<Longrightarrow> backend_ok b \<Longrightarrow>
    tenant_reachable env (map (Pair ''default'') (list_policy_rules ''default'' tm)) tm"
| op: "tenant_reachable env gs tm \<Longrightarrow> op_sound op tm \<Longrightarrow> tenant_reachable env (given_after env op tm gs) (run_op env op tm)"

lemma tenant_reachable_ok: "tenant_reachable env gs tm \<Longrightarrow> manager_ok env gs tm"
  by (induction rule: tenant_reachable.induct) (auto simp: new_manager_ok(1) run_op_ok)

subsection \<open>Properties\<close>

text \<open>C28: policy configuration survives a restart: start the manager, register and unregister tenants
  and add rules the store accepts, for registered ids or not, in any order; let \<open>gs\<close> be what the
  default engine was given, each rule with the id it was added under. A manager then built on
  the same store has, for every id, the same custom rules, and every id that has some (and the
  default one) is a tenant whose engine is the environment's engine with exactly those rules. A
  tenant other than the default one so gets the engine it had, and decides as before. The
  default tenant's engine had all of \<open>gs\<close> and gets those of \<open>gs\<close> that were added under its own
  id: the engine it had when no rule was added for an id without a tenant; otherwise it loses
  the others, which are now the rules of tenants of their own. Changes outside the manager (a
  gate that fills an engine's digest cache, requests that use a limiter or a chain) are not
  operations of the manager and not part of the run.\<close>

theorem restart_restores_tenants:
  assumes "tenant_reachable env gs tm" and "new_tenant_manager env ast now (tm_store tm) = Inr tm2"
  shows "list_policy_rules t tm2 = list_policy_rules t tm \<and>
    (list_policy_rules t tm \<noteq> [] \<or> t = ''default'' \<longrightarrow>
      (\<exists>ctx2. tenant_get t tm2 = Some ctx2 \<and> tc_engine ctx2 = engine_with env (list_policy_rules t tm) \<and>
        (\<forall>ctx. tenant_get t tm = Some ctx \<longrightarrow>
          (t \<noteq> ''default'' \<longrightarrow> tc_engine ctx2 = tc_engine ctx) \<and>
          (t = ''default'' \<longrightarrow> tc_engine ctx = engine_with env (map snd gs) \<and>
            tc_engine ctx2 = engine_with env (own_given gs) \<and>
            ((\<forall>g\<in>set gs. fst g = ''default'') \<longrightarrow> tc_engine ctx2 = tc_engine ctx)))))"
proof -
  have ok: "manager_ok env gs tm" using assms(1) by (rule tenant_reachable_ok)
  note b = manager_okD(1) [OF ok]
  note new = new_manager_ok [OF assms(2) b]
  have same: "list_policy_rules t tm2 = list_policy_rules t tm"
    using manager_okD(2) [OF ok, of t] manager_okD(2) [OF new(1), of t] new(2) by simp
  moreover have "\<exists>ctx2. tenant_get t tm2 = Some ctx2 \<and> tc_engine ctx2 = engine_with env (list_policy_rules t tm)"
    if "list_policy_rules t tm \<noteq> [] \<or> t = ''default''"
  proof -
    have "t = ''default'' \<or> t \<in> set (store_list (tm_store tm))"
      using that unlisted_loads [of t "tm_store tm"] manager_okD(2) [OF ok, of t] by auto
    then obtain ctx2 where "tenant_get t tm2 = Some ctx2" using new(3) by auto
    with manager_okD(4) [OF new(1) this] same show ?thesis by (auto simp: rules_in_force_def comp_def)
  qed
  moreover have "own_given gs = map snd gs" if "\<forall>g\<in>set gs. fst g = ''default''"
    using that by (simp add: own_given_def)
  moreover have "tc_engine ctx = engine_with env (if t = ''default'' then map snd gs else list_policy_rules t tm)"
    if "tenant_get t tm = Some ctx" for ctx
    using manager_okD(4) [OF ok that] by (simp add: rules_in_force_def)
  moreover have "t = ''default'' \<Longrightarrow> list_policy_rules t tm = own_given gs" using manager_okD(3) [OF ok] by simp
  ultimately show ?thesis by (cases "t = ''default''") (auto simp del: not_None_eq)
qed

text \<open>C29: tenants are isolated: an operation, whether it succeeds or fails, leaves the context
  (engine, rate limiter and audit chain) of every tenant but one as it was. That one is the
  tenant the operation names, or, when a rule is added for an id without a tenant, the default
  tenant, whose engine gets the rule while its limiter, its chain and its listed and stored
  rules stay. The custom rules and the stored rules of every id but the named one are as they
  were.\<close>

theorem tenants_isolated:
  assumes "backend_ok (tm_store tm)"
  shows "(u \<noteq> written_tenant op tm \<longrightarrow> get_strict u (run_op env op tm) = get_strict u tm) \<and>
    (u \<noteq> op_tenant op \<longrightarrow> list_policy_rules u (run_op env op tm) = list_policy_rules u tm \<and>
      store_load u (tm_store (run_op env op tm)) = store_load u (tm_store tm)) \<and>
    (u \<noteq> op_tenant op \<and> u = written_tenant op tm \<longrightarrow> u = ''default'' \<and> get_strict (op_tenant op) tm = None \<and>
      (\<exists>r. op = AddRule (op_tenant op) r \<and> get_strict u (run_op env op tm) =
        map_option (\<lambda>d. d\<lparr>tc_engine := engine_add_rule r (tc_engine d)\<rparr>) (get_strict u tm)))"
proof (cases op)
  case (Register t quota now ast)
  obtain tm' res where reg: "tenant_register env ast now t quota tm = (tm', res)"
    by (cases "tenant_register env ast now t quota tm")
  have "u \<noteq> t \<longrightarrow> get_strict u tm' = get_strict u tm \<and> list_policy_rules u tm' = list_policy_rules u tm \<and>
      store_load u (tm_store tm') = store_load u (tm_store tm)"
    by (cases rule: register_cases [OF reg]) (simp_all add: get_strict_def list_policy_rules_def)
  with reg show ?thesis by (simp add: Register)
next
  case (AddRule t r)
  let ?rs = "list_policy_rules t tm @ [r]" and ?tm = "fst (add_policy_rule t r tm)"
  have loads: "store_load u (fst (store_save t ?rs (tm_store tm))) = store_load u (tm_store tm)" if "u \<noteq> t"
    using that store.load_save [OF assms, of ?rs u t] store.load_refused [OF assms, of ?rs u t]
    by (cases "backend_fits (tm_store tm) ?rs") auto
  have "get_strict u ?tm = (if u = default_key t tm then
        map_option (\<lambda>d. d\<lparr>tc_engine := engine_add_rule r (tc_engine d)\<rparr>) (get_strict u tm) else get_strict u tm) \<and>
      (u \<noteq> t \<longrightarrow> list_policy_rules u ?tm = list_policy_rules u tm \<and> store_load u (tm_store ?tm) = store_load u (tm_store tm))"
    using loads by (auto simp: add_policy_rule_def get_or_default_def get_strict_def tenant_get_def
      list_policy_rules_def [of u] Let_def split: option.splits prod.splits sum.splits)
  then show ?thesis using default_key_cases [of t tm] by (auto simp: AddRule get_strict_def tenant_get_def)
next
  case (Unregister t)
  then show ?thesis
    by (simp add: tenant_unregister_def get_strict_def list_policy_rules_def store.load_del [OF assms])
qed

definition demo_manager :: "int \<Rightarrow> tenant_manager" where
  "demo_manager now = \<lparr>tm_tenants = [(''default'', \<lparr>tc_id = ''default'', tc_engine = engine_with (\<lambda>_. None) [],
       tc_limiter = register ''default'' DEFAULT_QUOTA now new_rate_limiter,
       tc_chain = \<lparr>ac_records = [], ac_tenant = Some ''default'', ac_backend = InMemoryBackend, ac_db_path = None\<rparr>\<rparr>)],
     tm_custom = [(''default'', [])], tm_store = SQLitePolicyBackend empty_rule_table\<rparr>"

lemma demo_manager_starts:
  "new_tenant_manager (\<lambda>_. None) [] now (SQLitePolicyBackend empty_rule_table) = Inr (demo_manager now)"
proof -
  have load: "sql_load t empty_rule_table = Inr []" for t
    by (simp add: sql_load_def empty_rule_table_def)
  have chain: "new_chain (\<lambda>_. None) None None (Some t) None [] =
      Inr \<lparr>ac_records = [], ac_tenant = Some t, ac_backend = InMemoryBackend, ac_db_path = None\<rparr>" for t
    by (simp add: new_chain_def build_backend_def str_or_def chain_scopes_def Let_def)
  have list: "sql_list empty_rule_table = []"
    by (simp add: sql_list_def empty_rule_table_def)
  show ?thesis
    by (simp add: demo_manager_def new_tenant_manager_def tenant_register_def load chain list Let_def)
qed

lemma demo_manager_reachable: "tenant_reachable (\<lambda>_. None) [] (demo_manager now)"
proof -
  have "backend_ok (SQLitePolicyBackend empty_rule_table)" by (simp add: empty_rule_table_def table_ok_def)
  from tenant_reachable.started [OF demo_manager_starts this] show ?thesis
    by (simp add: demo_manager_def list_policy_rules_def)
qed

lemma demo_manager_default: "\<exists>ctx. tenant_get ''default'' (demo_manager now) = Some ctx"
  "tm_store (demo_manager now) = SQLitePolicyBackend empty_rule_table"
  by (simp_all add: demo_manager_def tenant_get_def)

text \<open>Without a configured backend a chain opens in memory, so a store that loads restarts.\<close>

lemma plain_register:
  assumes "\<forall>t. \<exists>rs. store_load t (tm_store tm) = Inr rs"
  shows "\<exists>tm' ctx. tenant_register (\<lambda>_. None) [] now t q tm = (tm', Inr ctx) \<and> tm_store tm' = tm_store tm"
proof -
  obtain rs where "store_load t (tm_store tm) = Inr rs" using assms by blast
  then show ?thesis
    by (simp add: tenant_register_def new_chain_def build_backend_def str_or_def chain_scopes_def Let_def)
qed

lemma plain_restore:
  assumes "\<forall>t. \<exists>rs. store_load t (tm_store tm) = Inr rs"
  shows "\<exists>tm'. restore_tenants (\<lambda>_. None) [] now ts tm = Inr tm'"
  using assms
proof (induction ts arbitrary: tm)
  case (Cons t ts)
  obtain tm1 ctx where "tenant_register (\<lambda>_. None) [] now t DEFAULT_QUOTA tm = (tm1, Inr ctx)" "tm_store tm1 = tm_store tm"
    using plain_register [OF Cons.prems] by blast
  with Cons.IH [of tm] Cons.IH [of tm1] Cons.prems show ?case by simp
qed simp

text \<open>A rule added for an id without a tenant: in force for the default tenant until the restart.\<close>

definition stray_manager :: tenant_manager where
  "stray_manager = run_op (\<lambda>_. None) (AddRule ''x'' rule_card) (demo_manager 0)"

lemma stray_manager_reachable: "tenant_reachable (\<lambda>_. None) [(''x'', rule_card)] stray_manager"
proof -
  have "op_sound (AddRule ''x'' rule_card) (demo_manager 0)"
    by (simp add: demo_manager_def list_policy_rules_def names_distinct_def)
  from tenant_reachable.op [OF demo_manager_reachable this] show ?thesis
    by (simp add: stray_manager_def default_key_def demo_manager_def tenant_get_def)
qed

lemma stray_manager_restarts: "\<exists>tm2. new_tenant_manager (\<lambda>_. None) [] 7 (tm_store stray_manager) = Inr tm2"
proof -
  have loads: "\<forall>t. \<exists>rs. store_load t (tm_store stray_manager) = Inr rs"
    using manager_okD(2) [OF tenant_reachable_ok [OF stray_manager_reachable]] by blast
  let ?tm = "\<lparr>tm_tenants = [], tm_custom = [], tm_store = tm_store stray_manager\<rparr>"
  obtain tm' ctx where "tenant_register (\<lambda>_. None) [] 7 ''default'' DEFAULT_QUOTA ?tm = (tm', Inr ctx)"
      "tm_store tm' = tm_store stray_manager"
    using plain_register [of ?tm] loads by fastforce
  with plain_restore [of tm'] loads show ?thesis by (simp add: new_tenant_manager_def)
qed

theorem restart_restores_tenants_witness:
  "\<exists>tm2 d1 d2 x. new_tenant_manager (\<lambda>_. None) [] 7 (tm_store stray_manager) = Inr tm2 \<and>
     tenant_get ''default'' stray_manager = Some d1 \<and> tc_engine d1 = engine_with (\<lambda>_. None) [rule_card] \<and>
     tenant_get ''default'' tm2 = Some d2 \<and> tc_engine d2 = engine_with (\<lambda>_. None) [] \<and>
     tenant_get ''x'' stray_manager = None \<and> tenant_get ''x'' tm2 = Some x \<and> tc_engine x = engine_with (\<lambda>_. None) [rule_card]"
proof -
  obtain tm2 where new: "new_tenant_manager (\<lambda>_. None) [] 7 (tm_store stray_manager) = Inr tm2"
    using stray_manager_restarts by blast
  note run = restart_restores_tenants [OF stray_manager_reachable new]
  obtain d1 where d1: "tenant_get ''default'' stray_manager = Some d1"
    using tenant_reachable_ok [OF stray_manager_reachable] by (auto simp: manager_ok_def)
  have x: "list_policy_rules ''x'' stray_manager = [rule_card]" "tenant_get ''x'' stray_manager = None"
    by (simp_all add: stray_manager_def demo_manager_def add_policy_rule_def get_or_default_def default_key_def
      tenant_get_def list_policy_rules_def Let_def split: prod.splits sum.splits)
  from run [of "''default''"] d1 run [of "''x''"] x new show ?thesis by (auto simp: own_given_def)
qed

theorem tenants_isolated_witness:
  "get_strict ''other'' stray_manager = get_strict ''other'' (demo_manager 0) \<and>
   get_strict ''default'' stray_manager =
     map_option (\<lambda>d. d\<lparr>tc_engine := engine_add_rule rule_card (tc_engine d)\<rparr>) (get_strict ''default'' (demo_manager 0))"
proof -
  have ok: "backend_ok (tm_store (demo_manager 0))"
    by (rule manager_okD(1) [OF tenant_reachable_ok [OF demo_manager_reachable]])
  have key: "default_key ''x'' (demo_manager 0) = ''default''"
    by (simp add: default_key_def demo_manager_def tenant_get_def)
  note run = tenants_isolated [OF ok, of _ "AddRule ''x'' rule_card" "\<lambda>_. None"]
  from run [of "''other''"] run [of "''default''"] key show ?thesis by (auto simp: stray_manager_def)
qed

subsection \<open>Where adding a rule goes wrong\<close>

text \<open>
  For a tenant that is not registered, \<open>add\_policy\_rule\<close> falls back to the default tenant: its
  engine gets the rule, while the rule is saved under the unknown id.
\<close>

lemma unknown_tenant_changes_default:
  assumes "tenant_get t tm = None" "tenant_get ''default'' tm = Some d"
  shows "map_option tc_engine (tenant_get ''default'' (fst (add_policy_rule t r tm))) = Some (engine_add_rule r (tc_engine d))"
    and "list_policy_rules ''default'' (fst (add_policy_rule t r tm)) = list_policy_rules ''default'' tm"
proof -
  have "t \<noteq> ''default''" using assms by auto
  with assms show "map_option tc_engine (tenant_get ''default'' (fst (add_policy_rule t r tm))) = Some (engine_add_rule r (tc_engine d))"
    "list_policy_rules ''default'' (fst (add_policy_rule t r tm)) = list_policy_rules ''default'' tm"
    by (auto simp: add_policy_rule_def get_or_default_def default_key_def tenant_get_def list_policy_rules_def Let_def
        split: prod.splits sum.splits)
qed

text \<open>
  A rule whose name the tenant already has is refused by the SQL backends after it was added to
  the engine and to the list, so it is in force until the restart, and no later rule of the
  tenant can be saved.
\<close>

lemma duplicate_name_sticks:
  assumes "manager_ok env gs tm" "tenant_get t tm = Some ctx"
    and "\<not> backend_fits (tm_store tm) (list_policy_rules t tm @ [r])"
  shows "raised (snd (add_policy_rule t r tm))"
    and "list_policy_rules t (fst (add_policy_rule t r tm)) = list_policy_rules t tm @ [r]"
    and "store_load t (tm_store (fst (add_policy_rule t r tm))) = Inr (list_policy_rules t tm)"
proof -
  let ?rs = "list_policy_rules t tm @ [r]"
  note ok = manager_okD(1) [OF assms(1)]
  obtain b res where save: "store_save t ?rs (tm_store tm) = (b, res)" by (cases "store_save t ?rs (tm_store tm)")
  have "res \<noteq> Inr ()" using store.save_fits [OF ok, of t ?rs] assms(3) save by simp
  then obtain e where e: "res = Inl e" by (cases res) auto
  have "store_load t b = Inr (list_policy_rules t tm)"
    using store.load_refused [OF ok assms(3), of t t] save manager_okD(2) [OF assms(1), of t] by simp
  with e save assms(2) show "raised (snd (add_policy_rule t r tm))"
    "list_policy_rules t (fst (add_policy_rule t r tm)) = ?rs"
    "store_load t (tm_store (fst (add_policy_rule t r tm))) = Inr (list_policy_rules t tm)"
    by (simp_all add: add_policy_rule_def get_or_default_def default_key_def Let_def)
       (simp add: list_policy_rules_def)
qed

end
