(* ===== verification/Action_Gate.thy ===== *)
theory Action_Gate
  imports Tenant Content_Retention Custody
begin

text \<open>
  \<open>src/custos/action\_gate.py\<close>: the gate that judges a proposed action before it runs. Its world
  is the gate, the tenant manager, the custody manager it may anchor to, the content stores and
  the audit store; the calls out of the process (the policy server, the sinks, the clock, the
  salt, faults of the audit store) are inputs. A set of tools is the sorted list of its members.
\<close>

subsection \<open>Requests and rules\<close>

record action_request =
  tool :: string
  command :: string
  args :: "dict option"

definition serialize :: "action_request \<Rightarrow> string" where
  "serialize a = tool a @ '' '' @ command a @ '' '' @
     json_dumps default_fmt (JObj (case args a of None \<Rightarrow> [] | Some d \<Rightarrow> d))"

record gate_result =
  decision :: policy_result
  audit_record_hash :: "string option"

definition quotes_class :: string where
  "quotes_class = ''['' @ [CHR 0x27, dquote, CHR 0x60] @ '']''"

definition dangerous_command_rules :: "(string \<times> string \<times> string) list" where
  "dangerous_command_rules =
    [(''action_cmd_reverse_shell'',
      rx ''bash~s+-i~s+>&|/dev/tcp/|nc~s+-e~s+|python3?~s+-c~s+'' @ quotes_class @ rx ''~s*import~s+socket'',
      ''Reverse shell / interactive shell exfiltration payload.''),
     (''action_cmd_exfiltration'',
      rx ''(?i)~b(?:curl|wget|nc|ncat|netcat|scp|sftp|rsync|ftp|telnet)~b[^~n]{0,200}(?:https?://|~b~d{1,3}~.~d{1,3}~.~d{1,3}~.~d{1,3}~b)'',
      ''Network egress/exfiltration command - outbound transfer attempts must be deny-by-default.''),
     (''action_cmd_destructive'',
      rx ''(?:rm~s+-[a-zA-Z]*r[a-zA-Z]*f?[a-zA-Z]*|rm~s+-[a-zA-Z]*f[a-zA-Z]*r[a-zA-Z]*|mkfs|dd~s+if=|shred~s|>~s*/dev/sd[a-z])'',
      ''Destructive filesystem command.''),
     (''action_cmd_privilege'',
      rx ''(?i)~b(?:sudo|doas|su~s+root)~b|chmod~s+777|chown~s+root|u~+s~b'',
      ''Privilege escalation command.''),
     (''action_cmd_package_install'',
      rx ''(?i)~b(?:pip3?|npm|yarn|apt(?:-get)?|yum|dnf|brew)~s+(?:install|i|add)~b'',
      ''Package installation - dependency changes must be human-approved (supply-chain vector).''),
     (''action_cmd_process_tamper'',
      rx ''(?i)~b(?:pkill|killall)~b|kill~s+-(?:9|KILL)~b|systemctl~s+(?:stop|disable|restart|mask)|launchctl~s+(?:unload|stop)'',
      ''Process/service tampering command.''),
     (''action_cmd_credential_access'',
      rx ''(?i)(?:cat|less|more|head|tail|cp|mv|scp)~s+[^~n]{0,200}(?:~.env~b|id_rsa|id_ed25519|~.ssh/|~.aws/|~.netrc|/etc/(?:passwd|shadow)|aws_secret|credentials)'',
      ''Credential/secret file access attempt.''),
     (''action_cmd_oversight_disable'',
      rx ''(?i)~b(?:disable|bypass|uninstall|kill(?:ing)?|stop|remove|delete)~b[^~n]{0,60}~b(?:custos|firewall|guardrail|policy~s*engine|audit~s*(?:chain|logs?|logging)|action~s*gate)~b'',
      ''Attempt to disable or bypass the governance layer itself - the guardrail-bypassing-the-guardrail pattern.'')]"

text \<open>The first rule whose pattern is found in the text.\<close>

fun dangerous_hit :: "(string \<times> string \<times> string) list \<Rightarrow> string \<Rightarrow> (string \<times> string) option result" where
  "dangerous_hit [] blob = Inr None"
| "dangerous_hit ((n, pat, why) # rules) blob = try_bind (py_search pat blob) (\<lambda>m.
     case m of Some _ \<Rightarrow> Inr (Some (n, why)) | None \<Rightarrow> dangerous_hit rules blob)"

subsection \<open>The gate and its world\<close>

type_synonym cache_key = "string list \<times> string \<times> string option \<times> string option"

record action_gate =
  ag_tools :: "(string \<times> string list) list"
  ag_custody :: bool
  ag_anchored :: "(string \<times> string) list"
  ag_cache :: "(string \<times> cache_key \<times> string option) list"

record gate_world =
  gw_gate :: action_gate
  gw_tm :: tenant_manager
  gw_custody :: anchor_manager
  gw_files :: store_files
  gw_audit :: audit_store

record gate_input =
  gi_env :: environment
  gi_post :: opa_server
  gi_salt :: string
  gi_t1 :: int
  gi_t2 :: int
  gi_fault :: "store_fault option"
  gi_sinks :: "nat \<Rightarrow> nat \<Rightarrow> sink_world"
  gi_utc :: string

definition new_action_gate :: "bool \<Rightarrow> action_gate" where
  "new_action_gate custody = \<lparr>ag_tools = [], ag_custody = custody, ag_anchored = [], ag_cache = []\<rparr>"

definition register_tools :: "string \<Rightarrow> string list \<Rightarrow> action_gate \<Rightarrow> action_gate" where
  "register_tools t tools g = g\<lparr>ag_tools := dict_set t (sort (remdups tools)) (ag_tools g), ag_cache := dict_del t (ag_cache g)\<rparr>"

definition list_tools :: "string \<Rightarrow> action_gate \<Rightarrow> string list" where
  "list_tools t g = (case map_of (ag_tools g) t of None \<Rightarrow> [] | Some ts \<Rightarrow> ts)"

definition set_custody :: "bool \<Rightarrow> action_gate \<Rightarrow> action_gate" where
  "set_custody c g = g\<lparr>ag_custody := c\<rparr>"

subsection \<open>Citation\<close>

text \<open>\<open>getattr(engine, "rules\_digest", None)\<close>; reading it may fill the engine's own cache.\<close>

fun engine_rules_digest :: "engine \<Rightarrow> string option \<times> engine" where
  "engine_rules_digest (RegexE e) = (case rules_digest e of (d, e') \<Rightarrow> (Some d, RegexE e'))"
| "engine_rules_digest (OpaE e) = (None, OpaE e)"
| "engine_rules_digest (HybridE e) = (None, HybridE e)"

definition citation_parts :: "environment \<Rightarrow> engine \<Rightarrow> string \<times> policy_rule list \<times> string option" where
  "citation_parts env e = (engine_kind e, citation_rules e, engine_opa_pin env e)"

definition put_context :: "string \<Rightarrow> tenant_context \<Rightarrow> tenant_manager \<Rightarrow> tenant_manager" where
  "put_context t ctx tm = tm\<lparr>tm_tenants := dict_set t ctx (tm_tenants tm)\<rparr>"

definition cite_policy :: "environment \<Rightarrow> string \<Rightarrow> engine \<Rightarrow> action_gate \<Rightarrow> string option \<times> engine \<times> action_gate" where
  "cite_policy env t e g =
     (let tools = list_tools t g in
      case citation_parts env e of (kind, rules, pin) \<Rightarrow>
      case engine_rules_digest e of (rd, e') \<Rightarrow>
      let key = (tools, kind, rd, pin) in
      case map_of (ag_cache g) t of
        Some (key', dg) \<Rightarrow>
          if key' = key then (dg, e', g)
          else let dg = engine_policy_digest tools rules kind pin in
            (dg, e', g\<lparr>ag_cache := dict_set t (key, dg) (ag_cache g)\<rparr>)
      | None \<Rightarrow> let dg = engine_policy_digest tools rules kind pin in
          (dg, e', g\<lparr>ag_cache := dict_set t (key, dg) (ag_cache g)\<rparr>))"

definition cited_policy_digest :: "environment \<Rightarrow> string \<Rightarrow> gate_world \<Rightarrow> gate_world \<times> string option" where
  "cited_policy_digest env t w = (case tenant_get t (gw_tm w) of
     None \<Rightarrow> (w, None)
   | Some ctx \<Rightarrow> (case cite_policy env t (tc_engine ctx) (gw_gate w) of (dg, e', g') \<Rightarrow>
       (w\<lparr>gw_gate := g', gw_tm := put_context t (ctx\<lparr>tc_engine := e'\<rparr>) (gw_tm w)\<rparr>, dg)))"

text \<open>The canonical bytes decoded: the text they encode.\<close>

definition engine_citation_text :: "string list \<Rightarrow> policy_rule list \<Rightarrow> string \<Rightarrow> string option \<Rightarrow> string" where
  "engine_citation_text tools rules kind pin =
     (if kind = REGEX_ENGINE then
        json_dumps compact_fmt (JObj [(''tools'', canonical_tools tools), (''rules'', canonical_rules rules)])
      else json_dumps compact_fmt (JObj
        [(''tools'', canonical_tools tools), (''engine'', JStr kind),
         (''rules'', canonical_rules rules), (''opa_policy'', json_opt_str pin)]))"

definition maybe_anchor :: "gate_input \<Rightarrow> string \<Rightarrow> engine \<Rightarrow> string option \<Rightarrow> gate_world \<Rightarrow> gate_world" where
  "maybe_anchor inp t e digest w = (case digest of
     None \<Rightarrow> w
   | Some dg \<Rightarrow>
       if \<not> ag_custody (gw_gate w) then w
       else if map_of (ag_anchored (gw_gate w)) t = Some dg then w
       else (case citation_parts (gi_env inp) e of (kind, rules, pin) \<Rightarrow>
         let m = anchor_policy_commit t dg (engine_citation_text (list_tools t (gw_gate w)) rules kind pin) (gw_custody w) in
         (case drain_policy_commits (gi_sinks inp) (gi_utc inp) m of (m', landed) \<Rightarrow>
            w\<lparr>gw_custody := m', gw_gate := (if landed
               then (gw_gate w)\<lparr>ag_anchored := dict_set t dg (ag_anchored (gw_gate w))\<rparr> else gw_gate w)\<rparr>)))"

subsection \<open>Decisions\<close>

definition gate_deny :: "string \<Rightarrow> string \<Rightarrow> policy_result" where
  "gate_deny rule why = \<lparr>allowed = False, res_action = DENY, triggered_rule = Some rule, res_reason = why\<rparr>"

definition unrecordable :: "string option \<Rightarrow> policy_result" where
  "unrecordable cited = gate_deny ''action_gate_record_unwritable''
     (''The decision could not be recorded, so the allow does not stand. '' @
       (if truthy_str cited then [] else ''No policy citation was available for this engine.''))"

definition decision_args :: "string \<Rightarrow> string \<Rightarrow> string option \<Rightarrow> policy_result \<Rightarrow> string \<Rightarrow> string option \<Rightarrow> record_args" where
  "decision_args t client trace d blob cited =
     (call_args client (action_value (res_action d)) (res_reason d) blob)
       \<lparr>ra_rule := triggered_rule d, ra_trace := trace, ra_digest := cited, ra_tenant := Some t\<rparr>"

text \<open>\<open>\_record\<close>: the record, or None when anything raised.\<close>

definition gate_record ::
  "gate_input \<Rightarrow> string \<Rightarrow> tenant_context \<Rightarrow> record_args \<Rightarrow> gate_world \<Rightarrow> gate_world \<times> audit_record option" where
  "gate_record inp t ctx a w =
     (case record_decision (gi_env inp) (gi_salt inp) (gi_t1 inp) (gi_t2 inp) (gi_fault inp) (Some (tc_id ctx)) a
             (gw_files w, tc_chain ctx, gw_audit w) of
        ((files, c, st), res) \<Rightarrow>
          (w\<lparr>gw_files := files, gw_audit := st, gw_tm := put_context t (ctx\<lparr>tc_chain := c\<rparr>) (gw_tm w)\<rparr>,
           case res of Inl e \<Rightarrow> None | Inr r \<Rightarrow> Some r))"

definition conclude ::
  "gate_input \<Rightarrow> string \<Rightarrow> tenant_context \<Rightarrow> string \<Rightarrow> string option \<Rightarrow> string \<Rightarrow> string option \<Rightarrow> policy_result \<Rightarrow> gate_world \<Rightarrow>
   gate_world \<times> gate_result" where
  "conclude inp t ctx client trace blob cited d w =
     (case gate_record inp t ctx (decision_args t client trace d blob cited) w of
        (w', r) \<Rightarrow> if r = None \<and> allowed d then (w', \<lparr>decision = unrecordable cited, audit_record_hash = None\<rparr>)
          else (w', \<lparr>decision = d, audit_record_hash = map_option record_hash r\<rparr>))"

definition not_allowlisted :: "string \<Rightarrow> string \<Rightarrow> policy_result" where
  "not_allowlisted t tname = gate_deny ''action_gate_tool_not_allowlisted''
     (''Tool '' @ quoted tname @ '' is not in tenant '' @ quoted t @ ''s allowlist. Deny-by-default: register tools explicitly via ActionGate.register_tools().'')"

definition unknown_tenant :: "string \<Rightarrow> policy_result" where
  "unknown_tenant t = gate_deny ''action_gate_unknown_tenant''
     (''Unknown tenant '' @ quoted t @ '' - fail-closed. No ungoverned action evaluation.'')"

definition evaluate_action ::
  "gate_input \<Rightarrow> string \<Rightarrow> action_request \<Rightarrow> string \<Rightarrow> string option \<Rightarrow> gate_world \<Rightarrow> gate_world \<times> gate_result result" where
  "evaluate_action inp t a client trace w =
     (let blob = serialize a in
      case get_strict t (gw_tm w) of
        None \<Rightarrow> (w, Inr \<lparr>decision = unknown_tenant t, audit_record_hash = None\<rparr>)
      | Some ctx0 \<Rightarrow>
          (case cite_policy (gi_env inp) t (tc_engine ctx0) (gw_gate w) of (cited, e, g) \<Rightarrow>
           let ctx = ctx0\<lparr>tc_engine := e\<rparr>;
               w1 = maybe_anchor inp t e cited (w\<lparr>gw_gate := g, gw_tm := put_context t ctx (gw_tm w)\<rparr>);
               finish = (\<lambda>d. map_prod id Inr (conclude inp t ctx client trace blob cited d w1)) in
           if tool a \<notin> set (list_tools t (gw_gate w1)) then finish (not_allowlisted t (tool a))
           else (case dangerous_hit dangerous_command_rules blob of
             Inl x \<Rightarrow> (w1, Inl x)
           | Inr (Some (n, why)) \<Rightarrow> finish (gate_deny n why)
           | Inr None \<Rightarrow> (case engine_evaluate (gi_post inp) e blob of
               Inl x \<Rightarrow> (w1, Inl x)
             | Inr d \<Rightarrow> finish d))))"

definition record_reconciliation ::
  "gate_input \<Rightarrow> string \<Rightarrow> string \<Rightarrow> string \<Rightarrow> string \<Rightarrow> string \<Rightarrow> string \<Rightarrow> gate_world \<Rightarrow> gate_world \<times> bool" where
  "record_reconciliation inp t client trace rule why content w =
     (case get_strict t (gw_tm w) of
        None \<Rightarrow> (w, False)
      | Some ctx0 \<Rightarrow>
          (case cite_policy (gi_env inp) t (tc_engine ctx0) (gw_gate w) of (digest, e, g) \<Rightarrow>
           case append_reconciliation (gi_env inp) (gi_t2 inp) (gi_fault inp) client trace rule content why digest (Some t)
               (tc_chain ctx0, gw_audit w) of
             ((c, st), res) \<Rightarrow>
               (w\<lparr>gw_gate := g, gw_audit := st, gw_tm := put_context t (ctx0\<lparr>tc_engine := e, tc_chain := c\<rparr>) (gw_tm w)\<rparr>,
                \<not> raised res)))"

subsection \<open>What a recorded decision leaves\<close>

lemma record_none_appends:
  assumes "record_none env t2 fault a (files, c, st) = ((files', c', st'), res)"
  shows "chain_record env t2 fault (a\<lparr>ra_commitment := COMMITMENT_NONE\<rparr>) (c, st) = ((c', st'), res)"
  using assms by (simp add: record_none_def split: prod.splits)

lemma put_and_record_appends:
  assumes "put_and_record env salt t1 t2 fault legacy a (s, c, st) = ((s', c', st'), res)"
  shows "(\<exists>e. res = Inl e \<and> c' = c \<and> st' = st) \<or>
    (\<exists>form. chain_record env t2 fault (a\<lparr>ra_commitment := form\<rparr>) (c, st) = ((c', st'), res))"
  using assms by (fastforce simp: put_and_record_def split: prod.splits sum.splits)

lemma record_decision_appends:
  assumes "record_decision env salt t1 t2 fault ctx a (files, c, st) = ((files', c', st'), res)"
  shows "(\<exists>e. res = Inl e \<and> c' = c \<and> st' = st) \<or>
    (\<exists>form. chain_record env t2 fault (a\<lparr>ra_commitment := form\<rparr>) (c, st) = ((c', st'), res))"
proof (cases "str_or (ra_tenant a) ctx")
  case None
  with assms record_none_appends show ?thesis by (fastforce simp: record_decision_def)
next
  case t: (Some t)
  show ?thesis
  proof (cases "content_store_for env t")
    case (Inl e)
    with assms t have "res = Inl e \<and> c' = c \<and> st' = st" by (auto simp: record_decision_def)
    then show ?thesis by blast
  next
    case (Inr po)
    show ?thesis
    proof (cases po)
      case None
      with assms t Inr record_none_appends show ?thesis by (fastforce simp: record_decision_def)
    next
      case (Some path)
      obtain s1 c1 st1 out where pr: "put_and_record env salt t1 t2 fault False a (store_at path files, c, st) = ((s1, c1, st1), out)"
        by (metis prod.exhaust)
      show ?thesis
      proof (cases "\<exists>m. out = Inl (ContentPurged m)")
        case True
        then have rn: "record_none env t2 fault a (dict_set path s1 files, c1, st1) = ((files', c', st'), res)"
          using assms t Inr Some pr by (auto simp: record_decision_def Let_def)
        from put_and_record_appends [OF pr] True chain_record_Inl have "c1 = c \<and> st1 = st" by blast
        with record_none_appends [OF rn] show ?thesis by blast
      next
        case False
        then have "((dict_set path s1 files, c1, st1), out) = ((files', c', st'), res)"
          using assms t Inr Some pr by (auto simp: record_decision_def Let_def split: sum.splits exn.splits)
        with put_and_record_appends [OF pr] show ?thesis by auto
      qed
    qed
  qed
qed

lemma recorded_fields:
  assumes "record_decision env salt t1 t2 fault ctx a (files, c, st) = ((files', c', st'), Inr r)"
  shows "ac_records c' = ac_records c @ [r] \<and> ar_action r = ra_action a \<and> content_hash r = sha256_text (ra_content a) \<and>
    ar_policy_digest r = ra_digest a \<and> trace_id r = ra_trace a \<and> ar_rule r = ra_rule a \<and> client_id r = ra_client a \<and>
    (bound_evidence_required env \<longrightarrow> truthy_str (ra_digest a) \<and> truthy_str (ra_trace a))"
proof -
  obtain form where rec: "chain_record env t2 fault (a\<lparr>ra_commitment := form\<rparr>) (c, st) = ((c', st'), Inr r)"
    using record_decision_appends [OF assms] by auto
  note r = chain_record_Inr [OF rec]
  from seal_entry_Inr [OF r [THEN conjunct1]] r show ?thesis
    by (auto simp: hash_content_def missing_evidence_def split: if_splits)
qed

lemma refused_fields:
  assumes "record_decision env salt t1 t2 fault ctx a (files, c, st) = ((files', c', st'), Inl e)"
  shows "c' = c \<and> st' = st"
  using record_decision_appends [OF assms] chain_record_Inl by blast

lemma conclude_result:
  assumes "conclude inp t ctx client trace blob cited d w = (w', res)"
  shows "(\<exists>r c. audit_record_hash res = Some (record_hash r) \<and> decision res = d \<and>
      gw_tm w' = put_context t (ctx\<lparr>tc_chain := c\<rparr>) (gw_tm w) \<and> gw_gate w' = gw_gate w \<and>
      ac_records c = ac_records (tc_chain ctx) @ [r] \<and> ar_action r = action_value (res_action d) \<and>
      content_hash r = sha256_text blob \<and> ar_policy_digest r = cited \<and> trace_id r = trace \<and> ar_rule r = triggered_rule d \<and>
      client_id r = client \<and> (bound_evidence_required (gi_env inp) \<longrightarrow> truthy_str cited \<and> truthy_str trace)) \<or>
    (audit_record_hash res = None \<and> \<not> allowed (decision res) \<and> (decision res = d \<or> decision res = unrecordable cited) \<and>
      gw_tm w' = put_context t ctx (gw_tm w) \<and> gw_gate w' = gw_gate w \<and> gw_audit w' = gw_audit w)"
proof -
  let ?a = "decision_args t client trace d blob cited"
  obtain files c st out where rec: "record_decision (gi_env inp) (gi_salt inp) (gi_t1 inp) (gi_t2 inp) (gi_fault inp)
      (Some (tc_id ctx)) ?a (gw_files w, tc_chain ctx, gw_audit w) = ((files, c, st), out)"
    by (metis prod.exhaust)
  show ?thesis
  proof (cases out)
    case (Inl e)
    from refused_fields [OF rec [unfolded Inl]] have same: "c = tc_chain ctx" "st = gw_audit w" by simp_all
    from assms rec Inl have "w' = w\<lparr>gw_files := files, gw_audit := st, gw_tm := put_context t (ctx\<lparr>tc_chain := c\<rparr>) (gw_tm w)\<rparr>"
      "res = (if allowed d then \<lparr>decision = unrecordable cited, audit_record_hash = None\<rparr> else \<lparr>decision = d, audit_record_hash = None\<rparr>)"
      by (auto simp: conclude_def gate_record_def split: if_splits)
    with same show ?thesis by (simp add: unrecordable_def gate_deny_def)
  next
    case (Inr r)
    from assms rec Inr have "w' = w\<lparr>gw_files := files, gw_audit := st, gw_tm := put_context t (ctx\<lparr>tc_chain := c\<rparr>) (gw_tm w)\<rparr>"
      "res = \<lparr>decision = d, audit_record_hash = Some (record_hash r)\<rparr>"
      by (auto simp: conclude_def gate_record_def)
    with recorded_fields [OF rec [unfolded Inr]] show ?thesis
      by (intro disjI1 exI [of _ r] exI [of _ c]) (simp add: decision_args_def call_args_def)
  qed
qed

subsection \<open>What the citation covers\<close>

fun engine_cache_ok :: "engine \<Rightarrow> bool" where
  "engine_cache_ok (RegexE e) = cache_ok e"
| "engine_cache_ok (OpaE e) = True"
| "engine_cache_ok (HybridE e) = True"

lemma evaluate_same_rules: "pe_rules e = pe_rules e' \<Longrightarrow> evaluate e c = evaluate e' c"
  by (simp add: evaluate_def)

lemma digest_keeps_engine:
  assumes "engine_rules_digest e = (rd, e')"
  shows "engine_evaluate post e' c = engine_evaluate post e c \<and> citation_rules e' = citation_rules e \<and>
    engine_kind e' = engine_kind e \<and> engine_opa_pin env e' = engine_opa_pin env e \<and>
    (engine_cache_ok e \<longrightarrow> engine_cache_ok e')"
proof (cases e)
  case (RegexE p)
  obtain d p' where d: "rules_digest p = (d, p')" by (cases "rules_digest p")
  with assms RegexE have e': "e' = RegexE p'" by simp
  from d rules_digest_frame [of p] have same: "pe_rules p' = pe_rules p" by simp
  from d cache_ok_read [of p] have "cache_ok p \<Longrightarrow> cache_ok p'" by simp
  with RegexE e' same evaluate_same_rules [of p' p] show ?thesis by simp
qed (use assms in simp_all)

lemma policy_digest_perm: "mset rs = mset rs' \<Longrightarrow> policy_digest ts rs = policy_digest ts rs'"
  using canonical_rules_eq [of rs rs'] by (simp add: policy_digest_def canonical_policy_bytes_def)

lemma cite_policy_result:
  assumes "cite_policy env t e g = (dg, e', g')"
  shows "\<exists>rd. engine_rules_digest e = (rd, e')" and "list_tools u g' = list_tools u g"
    and "ag_custody g' = ag_custody g"
  using assms by (auto simp: cite_policy_def citation_parts_def list_tools_def Let_def
    split: prod.splits option.splits if_splits)

lemma engine_add_rule_fresh [simp]: "engine_cache_ok (engine_add_rule r e)"
  by (cases e) simp_all

lemma engine_with_fresh [simp]: "engine_cache_ok (engine_with env rs)"
  by (cases rs rule: rev_cases)
     (simp_all add: engine_with_def create_policy_engine_def new_policy_engine_def cache_ok_def Let_def)

text \<open>A tenant's engine held the rules of \<open>p\<close> in the world \<open>w\<close>.\<close>

definition held :: "gate_world \<Rightarrow> string \<Rightarrow> policy_engine \<Rightarrow> bool" where
  "held w t p \<longleftrightarrow> map_option tc_engine (tenant_get t (gw_tm w)) = Some (RegexE p)"

text \<open>
  Two rule sets a tenant's engine held, in the world \<open>v\<close> and now, that have the same digest: their
  canonical bytes differ (\<open>canonical\_rules\_eq\<close>), so they are a SHA-256 collision.
\<close>

definition held_collision :: "gate_world \<Rightarrow> string \<Rightarrow> policy_engine \<Rightarrow> bool" where
  "held_collision v t p \<longleftrightarrow> (\<exists>q. held v t q \<and> mset (pe_rules q) \<noteq> mset (pe_rules p) \<and>
     rules_canonical_digest (pe_rules q) = rules_canonical_digest (pe_rules p))"

text \<open>Every cached citation of the regex engine is of rules the tenant's engine held in one of the worlds.\<close>

definition cached_from :: "gate_world set \<Rightarrow> action_gate \<Rightarrow> bool" where
  "cached_from W g \<longleftrightarrow> (\<forall>t tools rd pin dg. map_of (ag_cache g) t = Some ((tools, REGEX_ENGINE, rd, pin), dg) \<longrightarrow>
     (\<exists>v\<in>W. \<exists>q. held v t q \<and> rd = Some (rules_canonical_digest (pe_rules q)) \<and> dg = Some (policy_digest tools (pe_rules q))))"

definition caches_fresh :: "tenant_manager \<Rightarrow> bool" where
  "caches_fresh tm \<longleftrightarrow> (\<forall>t ctx. tenant_get t tm = Some ctx \<longrightarrow> engine_cache_ok (tc_engine ctx))"

lemma cached_from_mono: "cached_from W g \<Longrightarrow> W \<subseteq> V \<Longrightarrow> ag_cache g' = ag_cache g \<Longrightarrow> cached_from V g'"
  unfolding cached_from_def by (metis subsetD)

lemma cached_from_set:
  assumes "cached_from W g"
    and "kind = REGEX_ENGINE \<Longrightarrow> \<exists>v\<in>W. \<exists>q. held v t q \<and> rd = Some (rules_canonical_digest (pe_rules q)) \<and>
      dg = Some (policy_digest tools (pe_rules q))"
  shows "cached_from W (g\<lparr>ag_cache := dict_set t ((tools, kind, rd, pin), dg) (ag_cache g)\<rparr>)"
  using assms by (auto simp: cached_from_def)

lemma engine_kind_regex: "engine_kind e = REGEX_ENGINE \<longleftrightarrow> (\<exists>p. e = RegexE p)"
  by (cases e) (auto simp: REGEX_ENGINE_def)

lemma cite_policy_sound:
  assumes cite: "cite_policy env t e g = (dg, e', g')" and cached: "cached_from W g" and fresh: "engine_cache_ok e"
    and w: "w \<in> W" "map_option tc_engine (tenant_get t (gw_tm w)) = Some e"
  shows "cached_from W g'" and "engine_cache_ok e'"
    and "e = RegexE p \<Longrightarrow> dg = Some (policy_digest (list_tools t g) (pe_rules p)) \<or> (\<exists>v\<in>W. held_collision v t p)"
proof -
  let ?tools = "list_tools t g"
  obtain rd where rd: "engine_rules_digest e = (rd, e')" using cite_policy_result(1) [OF cite] by blast
  let ?key = "(?tools, engine_kind e, rd, engine_opa_pin env e)"
  let ?dg = "engine_policy_digest ?tools (citation_rules e) (engine_kind e) (engine_opa_pin env e)"
  have step: "(dg = ?dg \<and> g' = g\<lparr>ag_cache := dict_set t (?key, ?dg) (ag_cache g)\<rparr>) \<or>
      (map_of (ag_cache g) t = Some (?key, dg) \<and> g' = g)"
    using cite rd by (auto simp: cite_policy_def citation_parts_def Let_def split: option.splits if_splits)
  have regex: "rd = Some (rules_canonical_digest (pe_rules q)) \<and> ?dg = Some (policy_digest ?tools (pe_rules q))"
    if "e = RegexE q" for q
    using that rd fresh by (auto simp: case_prod_beta rules_digest_cached policy_digest_regex
      simp flip: REGEX_ENGINE_def)
  show "engine_cache_ok e'" using digest_keeps_engine [OF rd] fresh by blast
  have "held w t q" if "e = RegexE q" for q using w(2) that by (simp add: held_def)
  then have "cached_from W (g\<lparr>ag_cache := dict_set t (?key, ?dg) (ag_cache g)\<rparr>)"
    using w(1) regex by (intro cached_from_set [OF cached]) (metis engine_kind_regex)
  with step cached show "cached_from W g'" by auto
  assume e: "e = RegexE p"
  from step show "dg = Some (policy_digest ?tools (pe_rules p)) \<or> (\<exists>v\<in>W. held_collision v t p)"
  proof
    assume "map_of (ag_cache g) t = Some (?key, dg) \<and> g' = g"
    then have "map_of (ag_cache g) t = Some ((?tools, REGEX_ENGINE, rd, engine_opa_pin env e), dg)"
      using e engine_kind_regex [of e] by simp
    with cached obtain v q where v: "v \<in> W" "held v t q" "rd = Some (rules_canonical_digest (pe_rules q))"
        "dg = Some (policy_digest ?tools (pe_rules q))"
      unfolding cached_from_def by blast
    show ?thesis
    proof (cases "mset (pe_rules q) = mset (pe_rules p)")
      case True
      with v(4) policy_digest_perm [OF True, of ?tools] show ?thesis by simp
    next
      case False
      moreover have "rules_canonical_digest (pe_rules q) = rules_canonical_digest (pe_rules p)"
        using v(3) regex [OF e] by simp
      ultimately show ?thesis using v(1,2) unfolding held_collision_def by blast
    qed
  qed (use regex [OF e] in simp)
qed

lemma maybe_anchor_frame [frame_simps, simp]:
  "gw_tm (maybe_anchor inp t e dg w) = gw_tm w" "gw_audit (maybe_anchor inp t e dg w) = gw_audit w"
  "list_tools u (gw_gate (maybe_anchor inp t e dg w)) = list_tools u (gw_gate w)"
  "ag_cache (gw_gate (maybe_anchor inp t e dg w)) = ag_cache (gw_gate w)"
  by (simp_all add: maybe_anchor_def list_tools_def Let_def split: option.splits prod.splits)

lemma citation_text_encodes: "utf8 (engine_citation_text tools rules kind pin) = engine_citation_bytes tools rules kind pin"
  by (simp add: engine_citation_text_def engine_citation_bytes_def canonical_policy_bytes_def)

lemma put_context_get [simp]: "tenant_get u (put_context t ctx tm) = (if u = t then Some ctx else tenant_get u tm)"
  by (simp add: put_context_def tenant_get_def)

lemma get_strict_get: "get_strict u tm = tenant_get u tm"
  by (simp add: get_strict_def tenant_get_def)

lemma gate_cases:
  assumes "evaluate_action inp t a client trace w = (w', res)"
  obtains (unknown) "tenant_get t (gw_tm w) = None" "w' = w" "res = Inr \<lparr>decision = unknown_tenant t, audit_record_hash = None\<rparr>"
  | (stopped) ctx cited e g exn where "tenant_get t (gw_tm w) = Some ctx"
      "cite_policy (gi_env inp) t (tc_engine ctx) (gw_gate w) = (cited, e, g)" "res = Inl exn"
      "w' = maybe_anchor inp t e cited (w\<lparr>gw_gate := g, gw_tm := put_context t (ctx\<lparr>tc_engine := e\<rparr>) (gw_tm w)\<rparr>)"
  | (decided) ctx cited e g d out where "tenant_get t (gw_tm w) = Some ctx"
      "cite_policy (gi_env inp) t (tc_engine ctx) (gw_gate w) = (cited, e, g)" "res = Inr out"
      "conclude inp t (ctx\<lparr>tc_engine := e\<rparr>) client trace (serialize a) cited d
        (maybe_anchor inp t e cited (w\<lparr>gw_gate := g, gw_tm := put_context t (ctx\<lparr>tc_engine := e\<rparr>) (gw_tm w)\<rparr>)) = (w', out)"
      "allowed d \<Longrightarrow> tool a \<in> set (list_tools t (gw_gate w)) \<and> dangerous_hit dangerous_command_rules (serialize a) = Inr None \<and>
        engine_evaluate (gi_post inp) (tc_engine ctx) (serialize a) = Inr d"
proof (cases "tenant_get t (gw_tm w)")
  case None
  then have "evaluate_action inp t a client trace w = (w, Inr \<lparr>decision = unknown_tenant t, audit_record_hash = None\<rparr>)"
    by (simp add: evaluate_action_def get_strict_def tenant_get_def Let_def)
  with assms have "w' = w" "res = Inr \<lparr>decision = unknown_tenant t, audit_record_hash = None\<rparr>" by simp_all
  with None show ?thesis by (rule unknown)
next
  case (Some ctx)
  obtain cited e g where c: "cite_policy (gi_env inp) t (tc_engine ctx) (gw_gate w) = (cited, e, g)" by (metis prod.exhaust)
  let ?w1 = "maybe_anchor inp t e cited (w\<lparr>gw_gate := g, gw_tm := put_context t (ctx\<lparr>tc_engine := e\<rparr>) (gw_tm w)\<rparr>)"
  let ?fin = "\<lambda>d. conclude inp t (ctx\<lparr>tc_engine := e\<rparr>) client trace (serialize a) cited d ?w1"
  have tools: "list_tools t g = list_tools t (gw_gate w)" by (rule cite_policy_result(2) [OF c])
  obtain rd where rd: "engine_rules_digest (tc_engine ctx) = (rd, e)" using cite_policy_result(1) [OF c] by blast
  have ev: "engine_evaluate (gi_post inp) e (serialize a) = engine_evaluate (gi_post inp) (tc_engine ctx) (serialize a)"
    using digest_keeps_engine [OF rd] by blast
  have run: "(w', res) = (if tool a \<notin> set (list_tools t (gw_gate w)) then map_prod id Inr (?fin (not_allowlisted t (tool a)))
     else case dangerous_hit dangerous_command_rules (serialize a) of Inl x \<Rightarrow> (?w1, Inl x)
     | Inr (Some (n, why)) \<Rightarrow> map_prod id Inr (?fin (gate_deny n why))
     | Inr None \<Rightarrow> (case engine_evaluate (gi_post inp) e (serialize a) of Inl x \<Rightarrow> (?w1, Inl x)
         | Inr d \<Rightarrow> map_prod id Inr (?fin d)))"
    using assms Some c tools by (simp add: evaluate_action_def get_strict_def tenant_get_def Let_def)
  have finish: "thesis" if "(w', res) = map_prod id Inr (?fin d)" and "allowed d \<Longrightarrow> tool a \<in> set (list_tools t (gw_gate w)) \<and>
      dangerous_hit dangerous_command_rules (serialize a) = Inr None \<and>
      engine_evaluate (gi_post inp) (tc_engine ctx) (serialize a) = Inr d" for d
  proof -
    obtain w2 out where out: "?fin d = (w2, out)" by (cases "?fin d")
    with that(1) have "w2 = w'" and res: "res = Inr out" by simp_all
    with out have "?fin d = (w', out)" by simp
    from decided [OF Some c res this that(2)] show thesis .
  qed
  have stop: "thesis" if "(w', res) = (?w1, Inl x)" for x using stopped [OF Some c] that by simp
  consider "tool a \<notin> set (list_tools t (gw_gate w))"
    | x where "tool a \<in> set (list_tools t (gw_gate w))" "dangerous_hit dangerous_command_rules (serialize a) = Inl x"
    | n why where "tool a \<in> set (list_tools t (gw_gate w))" "dangerous_hit dangerous_command_rules (serialize a) = Inr (Some (n, why))"
    | "tool a \<in> set (list_tools t (gw_gate w))" "dangerous_hit dangerous_command_rules (serialize a) = Inr None"
    by (cases "dangerous_hit dangerous_command_rules (serialize a)") (auto simp: not_None_eq, metis option.exhaust prod.exhaust)
  then show ?thesis
  proof cases
    case 1
    then show ?thesis using run by (intro finish) (auto simp: not_allowlisted_def gate_deny_def)
  next
    case 2
    then show ?thesis using run by (intro stop) simp
  next
    case 3
    then show ?thesis using run by (intro finish) (auto simp: gate_deny_def)
  next
    case 4
    show ?thesis
    proof (cases "engine_evaluate (gi_post inp) e (serialize a)")
      case (Inl x)
      with run 4 show ?thesis by (intro stop) simp
    next
      case (Inr d)
      with ev have "engine_evaluate (gi_post inp) (tc_engine ctx) (serialize a) = Inr d" by simp
      with run Inr 4 show ?thesis by (intro finish [of d]) simp_all
    qed
  qed
qed

lemma allowed_run:
  assumes "evaluate_action inp t a client trace w = (w', Inr res)" and "allowed (decision res)"
  shows "\<exists>ctx ctx' r. tenant_get t (gw_tm w) = Some ctx \<and> tool a \<in> set (list_tools t (gw_gate w)) \<and>
    dangerous_hit dangerous_command_rules (serialize a) = Inr None \<and>
    engine_evaluate (gi_post inp) (tc_engine ctx) (serialize a) = Inr (decision res) \<and>
    tenant_get t (gw_tm w') = Some ctx' \<and> ac_records (tc_chain ctx') = ac_records (tc_chain ctx) @ [r] \<and>
    audit_record_hash res = Some (record_hash r) \<and> content_hash r = sha256_text (serialize a) \<and>
    ar_action r = action_value (res_action (decision res)) \<and> client_id r = client \<and> trace_id r = trace \<and>
    (bound_evidence_required (gi_env inp) \<longrightarrow> truthy_str (ar_policy_digest r) \<and> truthy_str (trace_id r))"
  using assms(1)
proof (cases rule: gate_cases)
  case unknown
  with assms(2) show ?thesis by (simp add: unknown_tenant_def gate_deny_def)
next
  case (decided ctx cited e g d out)
  have out: "out = res" using decided(3) by simp
  from conclude_result [OF decided(4)] assms(2) out
  obtain r c where r: "audit_record_hash res = Some (record_hash r)" "decision res = d"
      "gw_tm w' = put_context t (ctx\<lparr>tc_engine := e, tc_chain := c\<rparr>) (put_context t (ctx\<lparr>tc_engine := e\<rparr>) (gw_tm w))"
      "ac_records c = ac_records (tc_chain ctx) @ [r]" "ar_action r = action_value (res_action d)"
      "content_hash r = sha256_text (serialize a)" "client_id r = client" "ar_policy_digest r = cited" "trace_id r = trace"
      "bound_evidence_required (gi_env inp) \<longrightarrow> truthy_str cited \<and> truthy_str trace"
    by auto
  with decided(1,5) assms(2) show ?thesis by simp
qed simp

subsection \<open>Properties\<close>

text \<open>C3: an action is allowed only when everything the gate checks let it through, and the allow
  is on the tenant's chain: the tenant is registered, the tool is on its allowlist, no dangerous
  command pattern matches, the tenant's policy engine itself allows the serialized action, and
  the chain grew by one record of exactly that text and decision, whose hash is returned; in
  production (or under the flag) that record cites a policy digest and a trace.\<close>

theorem allowed_action_passed_the_gate:
  assumes "evaluate_action inp t a client trace w = (w', Inr res)" and "allowed (decision res)"
  shows "\<exists>ctx ctx' r. tenant_get t (gw_tm w) = Some ctx \<and> tool a \<in> set (list_tools t (gw_gate w)) \<and>
    dangerous_hit dangerous_command_rules (serialize a) = Inr None \<and>
    engine_evaluate (gi_post inp) (tc_engine ctx) (serialize a) = Inr (decision res) \<and>
    tenant_get t (gw_tm w') = Some ctx' \<and> ac_records (tc_chain ctx') = ac_records (tc_chain ctx) @ [r] \<and>
    audit_record_hash res = Some (record_hash r) \<and> content_hash r = sha256_text (serialize a) \<and>
    ar_action r = action_value (res_action (decision res)) \<and> client_id r = client \<and>
    (bound_evidence_required (gi_env inp) \<longrightarrow> truthy_str (ar_policy_digest r) \<and> truthy_str (trace_id r))"
  using allowed_run [OF assms] by blast

text \<open>C6: the gate fails closed and touches one tenant: whatever it answers, either the decision it
  returns is a new record of the tenant's chain, or it is a denial and the chain is as it was;
  and no other tenant's engine, limiter or chain changes, also when the evaluation raises.\<close>

theorem gate_records_or_denies:
  assumes "evaluate_action inp t a client trace w = (w', res)" and "tenant_get t (gw_tm w) = Some ctx"
  shows "(\<exists>ctx'. tenant_get t (gw_tm w') = Some ctx' \<and> (case res of
      Inl e \<Rightarrow> tc_chain ctx' = tc_chain ctx
    | Inr out \<Rightarrow> (case audit_record_hash out of
        Some h \<Rightarrow> \<exists>r. ac_records (tc_chain ctx') = ac_records (tc_chain ctx) @ [r] \<and> h = record_hash r \<and>
          ar_action r = action_value (res_action (decision out)) \<and> ar_rule r = triggered_rule (decision out)
      | None \<Rightarrow> \<not> allowed (decision out) \<and> tc_chain ctx' = tc_chain ctx))) \<and>
    (\<forall>u. u = t \<or> get_strict u (gw_tm w') = get_strict u (gw_tm w))"
  using assms(1)
proof (cases rule: gate_cases)
  case unknown
  with assms(2) show ?thesis by simp
next
  case (stopped ctx0 cited e g exn)
  with assms(2) show ?thesis by (simp add: get_strict_get)
next
  case (decided ctx0 cited e g d out)
  from decided(1) assms(2) have ctx0: "ctx0 = ctx" by simp
  from conclude_result [OF decided(4)] show ?thesis
  proof (elim disjE exE)
    fix r c assume "audit_record_hash out = Some (record_hash r) \<and> decision out = d \<and>
      gw_tm w' = put_context t (ctx0\<lparr>tc_engine := e\<rparr>\<lparr>tc_chain := c\<rparr>) (gw_tm (maybe_anchor inp t e cited
        (w\<lparr>gw_gate := g, gw_tm := put_context t (ctx0\<lparr>tc_engine := e\<rparr>) (gw_tm w)\<rparr>))) \<and>
      gw_gate w' = gw_gate (maybe_anchor inp t e cited (w\<lparr>gw_gate := g, gw_tm := put_context t (ctx0\<lparr>tc_engine := e\<rparr>) (gw_tm w)\<rparr>)) \<and>
      ac_records c = ac_records (tc_chain (ctx0\<lparr>tc_engine := e\<rparr>)) @ [r] \<and> ar_action r = action_value (res_action d) \<and>
      content_hash r = sha256_text (serialize a) \<and> ar_policy_digest r = cited \<and> trace_id r = trace \<and> ar_rule r = triggered_rule d \<and>
      client_id r = client \<and> (bound_evidence_required (gi_env inp) \<longrightarrow> truthy_str cited \<and> truthy_str trace)"
    then show ?thesis using ctx0 decided(3) by (simp add: get_strict_get)
  next
    assume "audit_record_hash out = None \<and> \<not> allowed (decision out) \<and> (decision out = d \<or> decision out = unrecordable cited) \<and>
      gw_tm w' = put_context t (ctx0\<lparr>tc_engine := e\<rparr>) (gw_tm (maybe_anchor inp t e cited
        (w\<lparr>gw_gate := g, gw_tm := put_context t (ctx0\<lparr>tc_engine := e\<rparr>) (gw_tm w)\<rparr>))) \<and>
      gw_gate w' = gw_gate (maybe_anchor inp t e cited (w\<lparr>gw_gate := g, gw_tm := put_context t (ctx0\<lparr>tc_engine := e\<rparr>) (gw_tm w)\<rparr>)) \<and>
      gw_audit w' = gw_audit (maybe_anchor inp t e cited (w\<lparr>gw_gate := g, gw_tm := put_context t (ctx0\<lparr>tc_engine := e\<rparr>) (gw_tm w)\<rparr>))"
    then show ?thesis using ctx0 decided(3) by (simp add: get_strict_get)
  qed
qed

subsection \<open>Gates in use\<close>

text \<open>
  A gate is built with its tenant manager, and then anything happens in any order: actions are
  judged and reconciled, citations read, tools and custody set, tenants registered, removed and
  given rules, and other requests use a tenant's limiter and chain (and may read the digest of
  its rules), the custody manager, the content files and the audit store.
\<close>

inductive gate_step :: "gate_world \<Rightarrow> gate_world \<Rightarrow> bool" where
  judges: "evaluate_action inp t a client trace w = (w', res) \<Longrightarrow> gate_step w w'"
| reconciles: "record_reconciliation inp t client trace rule why content w = (w', done) \<Longrightarrow> gate_step w w'"
| cites: "cited_policy_digest env t w = (w', dg) \<Longrightarrow> gate_step w w'"
| registers: "gate_step w (w\<lparr>gw_gate := register_tools t tools (gw_gate w)\<rparr>)"
| attaches: "gate_step w (w\<lparr>gw_gate := set_custody c (gw_gate w)\<rparr>)"
| manages: "gate_step w (w\<lparr>gw_tm := run_op env op (gw_tm w)\<rparr>)"
| serves: "tenant_get t (gw_tm w) = Some ctx \<Longrightarrow>
    tc_engine ctx' = tc_engine ctx \<or> tc_engine ctx' = snd (engine_rules_digest (tc_engine ctx)) \<Longrightarrow>
    gate_step w (w\<lparr>gw_tm := put_context t ctx' (gw_tm w), gw_custody := m, gw_files := files, gw_audit := st\<rparr>)"

text \<open>The worlds of a run, the present one first.\<close>

inductive gate_run :: "gate_world list \<Rightarrow> bool" where
  started: "new_tenant_manager env ast now b = Inr tm \<Longrightarrow>
    gate_run [\<lparr>gw_gate = new_action_gate c, gw_tm = tm, gw_custody = m, gw_files = files, gw_audit = st\<rparr>]"
| step: "gate_run (w # ws) \<Longrightarrow> gate_step w w' \<Longrightarrow> gate_run (w' # w # ws)"

lemma caches_fresh_put: "caches_fresh tm \<Longrightarrow> engine_cache_ok (tc_engine ctx) \<Longrightarrow> caches_fresh (put_context t ctx tm)"
  by (auto simp: caches_fresh_def)

lemma caches_freshD: "caches_fresh tm \<Longrightarrow> tenant_get t tm = Some ctx \<Longrightarrow> engine_cache_ok (tc_engine ctx)"
  by (simp add: caches_fresh_def)

lemma register_fresh:
  assumes "tenant_register env ast now t q tm = (tm', res)" "caches_fresh tm"
  shows "caches_fresh tm'"
  by (cases rule: register_cases [OF assms(1)]) (use assms(2) in \<open>auto simp: caches_fresh_def tenant_get_def\<close>)

lemma restore_fresh: "restore_tenants env ast now ts tm = Inr tm' \<Longrightarrow> caches_fresh tm \<Longrightarrow> caches_fresh tm'"
proof (induction ts arbitrary: tm)
  case (Cons t ts)
  show ?case
  proof (cases "tenant_get t tm \<noteq> None")
    case True
    with Cons show ?thesis by auto
  next
    case False
    then obtain tm1 ctx where reg: "tenant_register env ast now t DEFAULT_QUOTA tm = (tm1, Inr ctx)"
      and rest: "restore_tenants env ast now ts tm1 = Inr tm'"
      using Cons.prems(1) by (auto split: prod.splits sum.splits)
    show ?thesis by (rule Cons.IH [OF rest register_fresh [OF reg Cons.prems(2)]])
  qed
qed simp

lemma new_manager_fresh:
  assumes "new_tenant_manager env ast now b = Inr tm"
  shows "caches_fresh tm"
proof -
  let ?tm = "\<lparr>tm_tenants = [], tm_custom = [], tm_store = b\<rparr>"
  obtain tm0 ctx where reg: "tenant_register env ast now ''default'' DEFAULT_QUOTA ?tm = (tm0, Inr ctx)"
    and rest: "restore_tenants env ast now (store_list (tm_store tm0)) tm0 = Inr tm"
    using assms by (auto simp: new_tenant_manager_def split: prod.splits sum.splits)
  have "caches_fresh ?tm" by (simp add: caches_fresh_def tenant_get_def)
  from restore_fresh [OF rest register_fresh [OF reg this]] show ?thesis .
qed

lemma run_op_fresh:
  assumes "caches_fresh tm"
  shows "caches_fresh (run_op env op tm)"
proof (cases op)
  case (Register t quota now ast)
  then show ?thesis
    using register_fresh [OF _ assms] by (cases "tenant_register env ast now t quota tm") fastforce
next
  case (AddRule t r)
  with assms show ?thesis
    by (auto simp: caches_fresh_def add_policy_rule_def get_or_default_def tenant_get_def Let_def
      split: option.splits prod.splits sum.splits if_splits)
next
  case (Unregister t)
  with assms show ?thesis by (auto simp: caches_fresh_def tenant_unregister_def tenant_get_def split: if_splits)
qed

text \<open>What a step keeps, from any set of worlds that holds the present one.\<close>

definition gate_inv :: "gate_world set \<Rightarrow> gate_world \<Rightarrow> bool" where
  "gate_inv W w \<longleftrightarrow> w \<in> W \<and> cached_from W (gw_gate w) \<and> caches_fresh (gw_tm w)"

lemma cited_inv:
  assumes "cite_policy env t (tc_engine ctx) (gw_gate w) = (dg, e, g)" "tenant_get t (gw_tm w) = Some ctx" "gate_inv W w"
  shows "cached_from W g" and "engine_cache_ok e"
    and "tc_engine ctx = RegexE p \<Longrightarrow>
      dg = Some (policy_digest (list_tools t (gw_gate w)) (pe_rules p)) \<or> (\<exists>v\<in>W. held_collision v t p)"
proof -
  from assms(2,3) have inv: "cached_from W (gw_gate w)" "engine_cache_ok (tc_engine ctx)" "w \<in> W"
      "map_option tc_engine (tenant_get t (gw_tm w)) = Some (tc_engine ctx)"
    by (auto simp: gate_inv_def caches_freshD)
  from cite_policy_sound [OF assms(1) inv]
  show "cached_from W g" "engine_cache_ok e"
    "tc_engine ctx = RegexE p \<Longrightarrow>
      dg = Some (policy_digest (list_tools t (gw_gate w)) (pe_rules p)) \<or> (\<exists>v\<in>W. held_collision v t p)" .
qed

lemma gate_step_inv:
  assumes "gate_step w w'" "gate_inv W w"
  shows "cached_from W (gw_gate w') \<and> caches_fresh (gw_tm w')"
proof -
  from assms(2) have inv: "cached_from W (gw_gate w)" "caches_fresh (gw_tm w)" by (simp_all add: gate_inv_def)
  note keeps = cached_from_mono [OF _ order_refl]
  from assms(1) show ?thesis
  proof cases
    case (judges inp t a client trace res)
    from judges show ?thesis
    proof (cases rule: gate_cases)
      case unknown
      with inv show ?thesis by simp
    next
      case (stopped ctx cited e g exn)
      note cited = cited_inv(1,2) [OF stopped(2,1) assms(2)]
      with stopped(4) inv(2) show ?thesis by (auto intro: keeps [OF cited(1)] caches_fresh_put)
    next
      case (decided ctx cited e g d out)
      note cited = cited_inv(1,2) [OF decided(2,1) assms(2)]
      have "ag_cache (gw_gate w') = ag_cache g \<and> (\<exists>c. gw_tm w' = put_context t c (put_context t (ctx\<lparr>tc_engine := e\<rparr>) (gw_tm w)) \<and> tc_engine c = e)"
        using conclude_result [OF decided(4)] by (elim disjE exE conjE) fastforce+
      with cited inv(2) keeps [OF cited(1)] show ?thesis by (auto intro!: caches_fresh_put)
    qed
  next
    case (reconciles inp t client trace rule why content b)
    show ?thesis
    proof (cases "tenant_get t (gw_tm w)")
      case None
      with reconciles inv show ?thesis by (simp add: record_reconciliation_def get_strict_get)
    next
      case (Some ctx)
      obtain dg e g where c: "cite_policy (gi_env inp) t (tc_engine ctx) (gw_gate w) = (dg, e, g)" by (metis prod.exhaust)
      note cited = cited_inv(1,2) [OF c Some assms(2)]
      with Some c reconciles inv(2) show ?thesis
        by (auto simp: record_reconciliation_def get_strict_get intro!: caches_fresh_put split: prod.splits)
    qed
  next
    case (cites env t dg)
    show ?thesis
    proof (cases "tenant_get t (gw_tm w)")
      case None
      with cites inv show ?thesis by (simp add: cited_policy_digest_def)
    next
      case (Some ctx)
      obtain dg' e g where c: "cite_policy env t (tc_engine ctx) (gw_gate w) = (dg', e, g)" by (metis prod.exhaust)
      note cited = cited_inv(1,2) [OF c Some assms(2)]
      with Some c cites inv(2) show ?thesis by (auto simp: cited_policy_digest_def intro!: caches_fresh_put)
    qed
  next
    case (registers t tools)
    with inv show ?thesis by (auto simp: register_tools_def cached_from_def)
  next
    case (attaches c)
    with inv show ?thesis by (auto simp: set_custody_def intro: keeps)
  next
    case (manages env op)
    with inv run_op_fresh show ?thesis by simp
  next
    case (serves t ctx ctx' m files st)
    have "engine_cache_ok (snd (engine_rules_digest (tc_engine ctx)))"
      using digest_keeps_engine [of "tc_engine ctx"] caches_freshD [OF inv(2) serves(2)]
      by (cases "engine_rules_digest (tc_engine ctx)") fastforce
    with serves inv caches_freshD [OF inv(2) serves(2)] show ?thesis by (auto intro!: caches_fresh_put)
  qed
qed

lemma gate_run_inv: "gate_run ws \<Longrightarrow> gate_inv (set ws) (hd ws)"
proof (induction rule: gate_run.induct)
  case (started env ast now b tm c m files st)
  then show ?case by (simp add: gate_inv_def cached_from_def new_action_gate_def new_manager_fresh)
next
  case (step w ws w')
  from gate_step_inv [OF step.hyps(2)] step.IH
  have "cached_from (set (w # ws)) (gw_gate w') \<and> caches_fresh (gw_tm w')" by simp
  with cached_from_mono [of "set (w # ws)" "gw_gate w'" "set (w' # w # ws)"] show ?case by (auto simp: gate_inv_def)
qed

text \<open>C8: with the regex engine a record cites the policy that was in force: build a gate and its
  tenant manager and use them in any way; whenever the gate then answers with a record for a
  tenant with the regex engine, the record cites the digest of the tenant's current allowlist
  and of the rules its engine decides with, although both digests come out of caches. The only
  exception is a SHA-256 collision between the current rules and a different rule set the same
  tenant's engine held at an earlier moment of the run.\<close>

theorem gate_cites_policy_in_force:
  assumes "gate_run (w # ws)" and "evaluate_action inp t a client trace w = (w', Inr res)"
    and "tenant_get t (gw_tm w) = Some ctx" and "tc_engine ctx = RegexE p" and "audit_record_hash res \<noteq> None"
  shows "\<exists>ctx' r. tenant_get t (gw_tm w') = Some ctx' \<and>
    ac_records (tc_chain ctx') = ac_records (tc_chain ctx) @ [r] \<and> audit_record_hash res = Some (record_hash r) \<and>
    (ar_policy_digest r = Some (policy_digest (list_tools t (gw_gate w)) (pe_rules p)) \<or>
     (\<exists>v\<in>set ws. held_collision v t p))"
  using assms(2)
proof (cases rule: gate_cases)
  case unknown
  with assms(3) show ?thesis by simp
next
  case (decided ctx0 cited e g d out)
  from decided(1,3) assms(3) have same: "ctx0 = ctx" "out = res" by simp_all
  have inv: "gate_inv (set (w # ws)) w" using gate_run_inv [OF assms(1)] by simp
  have "\<not> held_collision w t p" using assms(3,4) by (auto simp: held_collision_def held_def)
  then have "cited = Some (policy_digest (list_tools t (gw_gate w)) (pe_rules p)) \<or> (\<exists>v\<in>set ws. held_collision v t p)"
    using cited_inv(3) [OF decided(2) [unfolded same] assms(3) inv assms(4)] by auto
  with conclude_result [OF decided(4)] same assms(5) show ?thesis by auto
qed simp

subsection \<open>A small gate\<close>

definition demo_context :: tenant_context where
  "demo_context = \<lparr>tc_id = ''t'', tc_engine = RegexE (new_policy_engine (Some [])), tc_limiter = new_rate_limiter, tc_chain = demo_chain\<rparr>"

definition demo_world :: "anchor_manager \<Rightarrow> gate_world" where
  "demo_world m = \<lparr>gw_gate = register_tools ''t'' [''ls''] (new_action_gate False),
     gw_tm = \<lparr>tm_tenants = [(''t'', demo_context)], tm_custom = [], tm_store = SQLitePolicyBackend empty_rule_table\<rparr>,
     gw_custody = m, gw_files = [], gw_audit = []\<rparr>"

definition demo_input :: "opa_server \<Rightarrow> (nat \<Rightarrow> nat \<Rightarrow> sink_world) \<Rightarrow> gate_input" where
  "demo_input post sinks = \<lparr>gi_env = (\<lambda>_. None), gi_post = post, gi_salt = [], gi_t1 = 4, gi_t2 = 5, gi_fault = None,
     gi_sinks = sinks, gi_utc = []\<rparr>"

definition demo_action :: action_request where
  "demo_action = \<lparr>tool = ''ls'', command = [], args = None\<rparr>"

lemma demo_seal: "\<exists>r. chain_record (\<lambda>_. None) 5 None
    ((decision_args ''t'' client trace d blob cited)\<lparr>ra_commitment := COMMITMENT_NONE\<rparr>) (demo_chain, []) =
    ((demo_chain\<lparr>ac_records := [r]\<rparr>, [r]), Inr r)"
proof -
  have "\<exists>r. seal_entry (\<lambda>_. None) demo_chain 5 ((decision_args ''t'' client trace d blob cited)\<lparr>ra_commitment := COMMITMENT_NONE\<rparr>) = Inr r"
    by (rule seal_entry_total)
       (auto simp: decision_args_def demo_chain_def call_args_def commitment_defs record_tenant_def
         bound_evidence_required_def env_or_empty_def getenv_def strip_def rstrip_def lstrip_def lower_def)
  then show ?thesis by (auto simp: chain_record_def demo_chain_def)
qed

lemma demo_allowed:
  "\<exists>w' h. evaluate_action (demo_input post sinks) ''t'' demo_action client trace (demo_world m) =
     (w', Inr \<lparr>decision = allow_result, audit_record_hash = Some h\<rparr>)"
proof -
  have blob: "serialize demo_action = ''ls  {}''" by code_simp
  have hit: "dangerous_hit dangerous_command_rules ''ls  {}'' = Inr None" by code_simp
  have ev: "evaluate e c = Inr allow_result" if "pe_rules e = []" for e c
    using that by (simp add: evaluate_def)
  have retention: "record_decision (\<lambda>_. None) [] 4 5 None (Some ''t'') (decision_args ''t'' client trace allow_result ''ls  {}'' cited)
      ([], demo_chain, []) =
      (case chain_record (\<lambda>_. None) 5 None ((decision_args ''t'' client trace allow_result ''ls  {}'' cited)\<lparr>ra_commitment := COMMITMENT_NONE\<rparr>)
        (demo_chain, []) of (cs', res) \<Rightarrow> (([], cs'), res))" for cited
    by (simp add: record_decision_def decision_args_def str_or_def content_store_for_def content_retention_mode_def record_none_def)
  obtain cited e g where c: "cite_policy (\<lambda>_. None) ''t'' (tc_engine demo_context) (gw_gate (demo_world m)) = (cited, e, g)"
    by (metis prod.exhaust)
  from cite_policy_result(1) [OF c] obtain q where e: "e = RegexE q" "pe_rules q = []"
    by (auto simp: demo_context_def new_policy_engine_def case_prod_beta)
  with ev have judged: "engine_evaluate ps e c = Inr allow_result" for ps c by simp
  have tools: "list_tools ''t'' g = [''ls'']"
    using cite_policy_result(2) [OF c, of "''t''"] by (simp add: demo_world_def register_tools_def list_tools_def)
  have "\<not> ag_custody g" using cite_policy_result(3) [OF c] by (simp add: demo_world_def register_tools_def new_action_gate_def)
  then have anchor: "maybe_anchor (demo_input post sinks) ''t'' e cited (w\<lparr>gw_gate := g, gw_tm := tm\<rparr>) = w\<lparr>gw_gate := g, gw_tm := tm\<rparr>" for w tm
    by (simp add: maybe_anchor_def split: option.splits)
  obtain r where r: "chain_record (\<lambda>_. None) 5 None ((decision_args ''t'' client trace allow_result ''ls  {}'' cited)\<lparr>ra_commitment := COMMITMENT_NONE\<rparr>)
      (demo_chain, []) = ((demo_chain\<lparr>ac_records := [r]\<rparr>, [r]), Inr r)" using demo_seal by blast
  have get: "get_strict ''t'' (gw_tm (demo_world m)) = Some demo_context" by (simp add: demo_world_def get_strict_def)
  have tool: "tool demo_action = ''ls''" by (simp add: demo_action_def)
  have env: "gi_env (demo_input post sinks) = (\<lambda>_. None)" "gi_salt (demo_input post sinks) = []" "gi_t1 (demo_input post sinks) = 4"
    "gi_t2 (demo_input post sinks) = 5" "gi_fault (demo_input post sinks) = None" by (simp_all add: demo_input_def)
  have start: "gw_files (demo_world m) = []" "gw_audit (demo_world m) = []" "tc_chain demo_context = demo_chain" "tc_id demo_context = ''t''"
    by (simp_all add: demo_world_def demo_context_def)
  show ?thesis
    by (simp add: evaluate_action_def get c env anchor tools tool blob hit judged conclude_def gate_record_def start retention r Let_def)
qed

theorem allowed_action_passed_the_gate_witness:
  "\<forall>post sinks m. \<exists>w' res ctx' r. evaluate_action (demo_input post sinks) ''t'' demo_action ''agent'' None (demo_world m) = (w', Inr res) \<and>
     tenant_get ''t'' (gw_tm w') = Some ctx' \<and> ac_records (tc_chain ctx') = [r] \<and> content_hash r = sha256_text (serialize demo_action)"
proof (intro allI)
  fix post sinks m
  obtain w' h where run: "evaluate_action (demo_input post sinks) ''t'' demo_action ''agent'' None (demo_world m) =
     (w', Inr \<lparr>decision = allow_result, audit_record_hash = Some h\<rparr>)" using demo_allowed by blast
  have "tenant_get ''t'' (gw_tm (demo_world m)) = Some demo_context" "ac_records (tc_chain demo_context) = []"
    by (simp_all add: demo_world_def tenant_get_def demo_context_def demo_chain_def)
  with allowed_action_passed_the_gate [OF run] run
  show "\<exists>w' res ctx' r. evaluate_action (demo_input post sinks) ''t'' demo_action ''agent'' None (demo_world m) = (w', Inr res) \<and>
     tenant_get ''t'' (gw_tm w') = Some ctx' \<and> ac_records (tc_chain ctx') = [r] \<and> content_hash r = sha256_text (serialize demo_action)"
    by (auto simp: allow_result_def)
qed

theorem gate_records_or_denies_witness:
  "\<forall>post sinks m. \<exists>w' res. evaluate_action (demo_input post sinks) ''t'' demo_action ''agent'' None (demo_world m) = (w', Inr res) \<and>
     get_strict ''u'' (gw_tm w') = None"
proof (intro allI)
  fix post sinks m
  obtain w' res where run: "evaluate_action (demo_input post sinks) ''t'' demo_action ''agent'' None (demo_world m) = (w', Inr res)"
    using demo_allowed by blast
  have "tenant_get ''t'' (gw_tm (demo_world m)) = Some demo_context" "get_strict ''u'' (gw_tm (demo_world m)) = None"
    by (simp_all add: demo_world_def tenant_get_def get_strict_def)
  with gate_records_or_denies [OF run this(1), THEN conjunct2, THEN spec, of "''u''"]
  have "get_strict ''u'' (gw_tm w') = None" by simp
  with run
  show "\<exists>w' res. evaluate_action (demo_input post sinks) ''t'' demo_action ''agent'' None (demo_world m) = (w', Inr res) \<and>
     get_strict ''u'' (gw_tm w') = None" by blast
qed

text \<open>A gate with no tool on a fresh tenant denies, and records the denial.\<close>

lemma denied_recorded:
  assumes ctx: "tenant_get t (gw_tm w) = Some ctx" "tc_id ctx = t"
      "tc_chain ctx = \<lparr>ac_records = [], ac_tenant = Some t, ac_backend = InMemoryBackend, ac_db_path = None\<rparr>"
    and gate: "list_tools t (gw_gate w) = []" "\<not> ag_custody (gw_gate w)"
  shows "\<exists>w' h. evaluate_action (demo_input post sinks) t a client trace w =
    (w', Inr \<lparr>decision = not_allowlisted t (tool a), audit_record_hash = Some h\<rparr>)"
proof -
  let ?d = "not_allowlisted t (tool a)"
  obtain cited e g where c: "cite_policy (\<lambda>_. None) t (tc_engine ctx) (gw_gate w) = (cited, e, g)" by (metis prod.exhaust)
  let ?args = "decision_args t client trace ?d (serialize a) cited"
  let ?args' = "?args\<lparr>ra_commitment := COMMITMENT_NONE\<rparr>"
  have "\<exists>r. seal_entry (\<lambda>_. None) (tc_chain ctx) 5 ?args' = Inr r"
    by (rule seal_entry_total)
       (auto simp: decision_args_def ctx(3) call_args_def commitment_defs record_tenant_def
         bound_evidence_required_def env_or_empty_def getenv_def strip_def rstrip_def lstrip_def lower_def)
  then obtain r where "chain_record (\<lambda>_. None) 5 None ?args' (tc_chain ctx, st) =
      (((tc_chain ctx)\<lparr>ac_records := [r]\<rparr>, st), Inr r)" for st
    by (auto simp: chain_record_def ctx(3))
  then have kept: "record_decision (\<lambda>_. None) [] 4 5 None (Some t) ?args (files, tc_chain ctx, st) =
      ((files, (tc_chain ctx)\<lparr>ac_records := [r]\<rparr>, st), Inr r)" for files st
    by (simp add: record_decision_def decision_args_def str_or_def content_store_for_def content_retention_mode_def record_none_def)
  have "\<not> ag_custody g" "list_tools t g = []" using cite_policy_result(2,3) [OF c] gate by simp_all
  moreover from this(1) have "maybe_anchor (demo_input post sinks) t e cited (w\<lparr>gw_gate := g, gw_tm := tm\<rparr>) = w\<lparr>gw_gate := g, gw_tm := tm\<rparr>" for tm
    by (simp add: maybe_anchor_def split: option.splits)
  moreover have "get_strict t (gw_tm w) = Some ctx" using ctx(1) by (simp add: get_strict_get)
  moreover have "gi_env (demo_input post sinks) = (\<lambda>_. None)" "gi_salt (demo_input post sinks) = []" "gi_t1 (demo_input post sinks) = 4"
    "gi_t2 (demo_input post sinks) = 5" "gi_fault (demo_input post sinks) = None" by (simp_all add: demo_input_def)
  ultimately show ?thesis
    by (simp add: evaluate_action_def c conclude_def gate_record_def ctx(2) kept Let_def)
qed

text \<open>A gate is built, a rule is added to the default tenant, and an action is judged.\<close>

definition start_world :: "anchor_manager \<Rightarrow> gate_world" where
  "start_world m = \<lparr>gw_gate = new_action_gate False, gw_tm = demo_manager 0, gw_custody = m, gw_files = [], gw_audit = []\<rparr>"

definition ruled_world :: "anchor_manager \<Rightarrow> gate_world" where
  "ruled_world m = (start_world m)\<lparr>gw_tm := run_op (\<lambda>_. None) (AddRule ''default'' rule_card) (gw_tm (start_world m))\<rparr>"

lemma ruled_world_run: "gate_run [ruled_world m, start_world m]"
  unfolding ruled_world_def
  by (rule gate_run.step [OF _ gate_step.manages]) (simp add: start_world_def gate_run.started [OF demo_manager_starts])

lemma ruled_world_tenant:
  "\<exists>ctx. tenant_get ''default'' (gw_tm (ruled_world m)) = Some ctx \<and> tc_id ctx = ''default'' \<and>
     tc_engine ctx = RegexE (add_rule rule_card (new_policy_engine None)) \<and>
     tc_chain ctx = \<lparr>ac_records = [], ac_tenant = Some ''default'', ac_backend = InMemoryBackend, ac_db_path = None\<rparr>"
proof -
  have "strip (lower ''regex'') = ''regex''" "lower (strip ''regex'') = ''regex''" by code_simp+
  then have engine: "engine_with (\<lambda>_. None) [] = RegexE (new_policy_engine None)"
    by (simp add: engine_with_def create_policy_engine_def getenv_def)
  obtain d where d: "tenant_get ''default'' (demo_manager 0) = Some d" "tc_id d = ''default''"
      "tc_engine d = RegexE (new_policy_engine None)"
      "tc_chain d = \<lparr>ac_records = [], ac_tenant = Some ''default'', ac_backend = InMemoryBackend, ac_db_path = None\<rparr>"
    by (simp add: demo_manager_def tenant_get_def engine)
  have fits: "backend_fits (tm_store (demo_manager 0)) (list_policy_rules ''default'' (demo_manager 0) @ [rule_card])"
    by (simp add: demo_manager_def list_policy_rules_def names_distinct_def)
  have "get_or_default ''default'' (demo_manager 0) = Inr d"
    by (simp add: get_or_default_def default_key_default d(1))
  note add = add_rule_accepted [OF manager_okD(1) [OF tenant_reachable_ok [OF demo_manager_reachable]] this fits]
  have "tenant_get ''default'' (gw_tm (ruled_world m)) = Some (d\<lparr>tc_engine := engine_add_rule rule_card (tc_engine d)\<rparr>)"
    by (simp add: ruled_world_def start_world_def add tenant_get_def default_key_default)
  with d show ?thesis by simp
qed

theorem gate_cites_policy_in_force_witness:
  "\<forall>post sinks m. \<exists>w' res ctx' r.
     evaluate_action (demo_input post sinks) ''default'' demo_action ''agent'' None (ruled_world m) = (w', Inr res) \<and>
     tenant_get ''default'' (gw_tm w') = Some ctx' \<and> ac_records (tc_chain ctx') = [r] \<and>
     (ar_policy_digest r = Some (policy_digest [] (default_rules @ [rule_card])) \<or>
      held_collision (start_world m) ''default'' (add_rule rule_card (new_policy_engine None)))"
proof (intro allI)
  fix post :: opa_server and sinks :: "nat \<Rightarrow> nat \<Rightarrow> sink_world" and m :: anchor_manager
  obtain ctx where ctx: "tenant_get ''default'' (gw_tm (ruled_world m)) = Some ctx" "tc_id ctx = ''default''"
      "tc_engine ctx = RegexE (add_rule rule_card (new_policy_engine None))"
      "tc_chain ctx = \<lparr>ac_records = [], ac_tenant = Some ''default'', ac_backend = InMemoryBackend, ac_db_path = None\<rparr>"
    using ruled_world_tenant by blast
  have gate: "list_tools ''default'' (gw_gate (ruled_world m)) = []" "\<not> ag_custody (gw_gate (ruled_world m))"
    by (simp_all add: ruled_world_def start_world_def new_action_gate_def list_tools_def)
  obtain w' h where run: "evaluate_action (demo_input post sinks) ''default'' demo_action ''agent'' None (ruled_world m) =
     (w', Inr \<lparr>decision = not_allowlisted ''default'' (tool demo_action), audit_record_hash = Some h\<rparr>)"
    using denied_recorded [OF ctx(1,2,4) gate] by blast
  have rules: "pe_rules (add_rule rule_card (new_policy_engine None)) = default_rules @ [rule_card]"
    by (simp add: new_policy_engine_def)
  from gate_cites_policy_in_force [OF ruled_world_run run ctx(1,3)] run
  show "\<exists>w' res ctx' r. evaluate_action (demo_input post sinks) ''default'' demo_action ''agent'' None (ruled_world m) = (w', Inr res) \<and>
     tenant_get ''default'' (gw_tm w') = Some ctx' \<and> ac_records (tc_chain ctx') = [r] \<and>
     (ar_policy_digest r = Some (policy_digest [] (default_rules @ [rule_card])) \<or>
      held_collision (start_world m) ''default'' (add_rule rule_card (new_policy_engine None)))"
    unfolding rules gate(1) by (auto simp: ctx(4))
qed

subsection \<open>Where the citation is stale\<close>

text \<open>
  The OPA and hybrid engines have no \<open>rules\_digest\<close>, so the cache key does not change when a
  rule is added to them: the next decision, and every later one, still cites the old policy.
\<close>

lemma added_rule_not_cited:
  assumes "cite_policy env t e g = (dg, e', g')" "\<forall>p. e \<noteq> RegexE p"
  shows "fst (cite_policy env t (engine_add_rule r e) g') = dg"
proof -
  have "engine_kind (engine_add_rule r e) = engine_kind e \<and> engine_opa_pin env (engine_add_rule r e) = engine_opa_pin env e \<and>
      engine_rules_digest e = (None, e) \<and> engine_rules_digest (engine_add_rule r e) = (None, engine_add_rule r e)"
    using assms(2) by (cases e) simp_all
  then show ?thesis using assms(1)
    by (auto simp: cite_policy_def citation_parts_def list_tools_def Let_def split: option.splits prod.splits if_splits)
qed

end
