(* ===== verification/Mcp_Proxy.thy ===== *)
theory Mcp_Proxy
  imports Complex_Main Action_Gate
begin

text \<open>
  \<open>src/custos/mcp\_proxy.py\<close>, \<open>mcp\_gate\_adapter.py\<close> and \<open>mcp\_stdio.py\<close>: the proxy that asks the
  gate before it forwards a tool call, its circuit breaker, the adapter to the action gate, and
  the environment handed to the upstream process. The gate, the reconciliation hook and the
  forward are state transformers of whatever world they act on; an awaited call is the answer
  the event loop saw, of which a timeout is one. Floats are rationals, without rounding.
\<close>

subsection \<open>Numbers as the proxy checks them\<close>

datatype float_value = Finite rat | Infinite | NotANumber

text \<open>A Python value as \<open>\_validated\_timeout\<close> sees it; numbers and others carry their \<open>repr\<close>.\<close>

datatype py_arg = NoneArg | BoolArg bool | NumArg float_value string | OtherArg string string

fun take_digits :: "string \<Rightarrow> string \<times> string" where
  "take_digits [] = ([], [])"
| "take_digits (c # s) = (if is_digit c then (case take_digits s of (ds, r) \<Rightarrow> (c # ds, r)) else ([], c # s))"

definition parse_sign :: "string \<Rightarrow> bool \<times> string" where
  "parse_sign s = (case s of c # r \<Rightarrow> if c = CHR ''-'' then (True, r) else if c = CHR ''+'' then (False, r) else (False, s)
     | [] \<Rightarrow> (False, s))"

definition pow10 :: "int \<Rightarrow> rat" where
  "pow10 e = (if e \<ge> 0 then 10 ^ nat e else 1 / 10 ^ nat (- e))"

text \<open>The largest and smallest magnitudes a double holds: beyond them \<open>float\<close> gives an infinity or zero.\<close>

definition float_range :: "rat \<Rightarrow> float_value" where
  "float_range q = (if q \<ge> 2 ^ 1024 - 2 ^ 970 then Infinite else if q \<le> 1 / 2 ^ 1075 then Finite 0 else Finite q)"

definition parse_exponent :: "string \<Rightarrow> int option" where
  "parse_exponent s = (case s of [] \<Rightarrow> Some 0
     | c # r \<Rightarrow> if c \<noteq> CHR ''e'' then None
         else (case parse_sign r of (neg, ds) \<Rightarrow>
           if ds = [] \<or> \<not> list_all is_digit ds then None
           else Some (if neg then - int (digits_val 0 ds) else int (digits_val 0 ds))))"

definition parse_decimal :: "string \<Rightarrow> rat option" where
  "parse_decimal s = (case take_digits s of (whole, r) \<Rightarrow>
     (case (case r of c # r' \<Rightarrow> if c = CHR ''.'' then take_digits r' else ([], r) | [] \<Rightarrow> ([], r)) of (fraction, r'') \<Rightarrow>
       if whole = [] \<and> fraction = [] then None
       else map_option (\<lambda>e. of_nat (digits_val 0 (whole @ fraction)) * pow10 (e - int (length fraction))) (parse_exponent r'')))"

text \<open>Underscores may stand between two digits only.\<close>

fun drop_underscores :: "bool \<Rightarrow> string \<Rightarrow> string option" where
  "drop_underscores after [] = Some []"
| "drop_underscores after (c # s) =
     (if c = CHR ''_'' then (case s of d # r \<Rightarrow> if after \<and> is_digit d then drop_underscores False s else None | [] \<Rightarrow> None)
      else map_option ((#) c) (drop_underscores (is_digit c) s))"

text \<open>\<open>float(raw)\<close>.\<close>

definition py_float :: "string \<Rightarrow> float_value result" where
  "py_float raw =
     (let bad = Inl (ValueError (''could not convert string to float: '' @ py_repr raw)) in
      case drop_underscores False (lower (strip raw)) of
        None \<Rightarrow> bad
      | Some t \<Rightarrow> (case parse_sign t of (neg, s) \<Rightarrow>
          if s = ''inf'' \<or> s = ''infinity'' then Inr Infinite
          else if s = ''nan'' then Inr NotANumber
          else (case parse_decimal s of
            None \<Rightarrow> bad
          | Some q \<Rightarrow> Inr (case float_range q of Finite x \<Rightarrow> Finite (if neg then - x else x) | v \<Rightarrow> v))))"

definition validated_timeout :: "py_arg \<Rightarrow> rat result" where
  "validated_timeout v = (case v of
     NoneArg \<Rightarrow> Inl (ValueError ''timeout_seconds is required; a proxy with no bound cannot fail closed'')
   | BoolArg b \<Rightarrow> Inl (ValueError ''timeout_seconds must be a number, got bool'')
   | OtherArg ty r \<Rightarrow> Inl (ValueError (''timeout_seconds must be a number, got '' @ ty))
   | NumArg x r \<Rightarrow> (case x of
       Finite q \<Rightarrow> if q \<le> 0 then Inl (ValueError (''timeout_seconds must be finite and > 0, got '' @ r)) else Inr q
     | _ \<Rightarrow> Inl (ValueError (''timeout_seconds must be finite and > 0, got '' @ r))))"

definition validated_cooldown :: "py_arg \<Rightarrow> rat result" where
  "validated_cooldown v =
     (let number = (\<lambda>r. Inl (ValueError (''breaker_cooldown_seconds must be a number, got '' @ r)));
          finite_one = (\<lambda>r. Inl (ValueError (''breaker_cooldown_seconds must be finite and >= 0, got '' @ r))) in
      case v of
        NoneArg \<Rightarrow> number ''None''
      | BoolArg b \<Rightarrow> number (if b then ''True'' else ''False'')
      | OtherArg ty r \<Rightarrow> number r
      | NumArg x r \<Rightarrow> (case x of Finite q \<Rightarrow> if q < 0 then finite_one r else Inr q | _ \<Rightarrow> finite_one r))"

definition DEFAULT_TIMEOUT_SECONDS :: py_arg where
  "DEFAULT_TIMEOUT_SECONDS = NumArg (Finite 2) ''2.0''"

text \<open>\<open>timeout\_from\_env\<close>; \<open>frepr\<close> is the interpreter's text for a float, used in the message only.\<close>

definition timeout_from_env :: "(float_value \<Rightarrow> string) \<Rightarrow> environment \<Rightarrow> string \<Rightarrow> py_arg \<Rightarrow> rat result" where
  "timeout_from_env frepr env var fallback = (case env var of
     None \<Rightarrow> validated_timeout fallback
   | Some raw \<Rightarrow> if strip raw = [] then validated_timeout fallback
       else (case try_bind (py_float raw) (\<lambda>x. validated_timeout (NumArg x (frepr x))) of
         Inl (ValueError m) \<Rightarrow> Inl (ValueError (''invalid '' @ var @ '': '' @ m))
       | r \<Rightarrow> r))"

subsection \<open>The proxy and its breaker\<close>

definition REASON_TIMEOUT :: string where "REASON_TIMEOUT = ''mcp_proxy_gate_timeout''"
definition REASON_ERROR :: string where "REASON_ERROR = ''mcp_proxy_gate_error''"
definition REASON_MALFORMED :: string where "REASON_MALFORMED = ''mcp_proxy_malformed_verdict''"
definition REASON_CIRCUIT_OPEN :: string where "REASON_CIRCUIT_OPEN = ''mcp_proxy_gate_circuit_open''"

record breaker =
  br_probing :: bool
  br_consecutive :: int
  br_open_until :: "rat option"

record mcp_proxy =
  mp_tenant :: string
  mp_timeout :: rat
  mp_limit :: int
  mp_cooldown :: rat
  mp_breaker :: breaker

text \<open>\<open>McpProxy.\_\_init\_\_\<close>; a timeout of None is the omitted argument.\<close>

definition new_mcp_proxy ::
  "(float_value \<Rightarrow> string) \<Rightarrow> environment \<Rightarrow> bool \<Rightarrow> string \<Rightarrow> py_arg option \<Rightarrow> int \<Rightarrow> py_arg \<Rightarrow> mcp_proxy result" where
  "new_mcp_proxy frepr env has_evaluate tenant timeout limit cooldown =
     (if tenant = [] then Inl (ValueError ''tenant_id is required: an unlabelled call has no policy to apply'')
      else if \<not> has_evaluate then Inl (ValueError ''gate adapter must expose an async evaluate() method'')
      else try_bind (case timeout of
             None \<Rightarrow> timeout_from_env frepr env ''CUSTOS_MCP_GATE_TIMEOUT'' DEFAULT_TIMEOUT_SECONDS
           | Some v \<Rightarrow> validated_timeout v) (\<lambda>seconds.
        if limit < 1 then Inl (ValueError ''consecutive_timeout_limit must be at least 1'')
        else try_bind (validated_cooldown cooldown) (\<lambda>cool. Inr
          \<lparr>mp_tenant = tenant, mp_timeout = seconds, mp_limit = limit, mp_cooldown = cool,
           mp_breaker = \<lparr>br_probing = False, br_consecutive = 0, br_open_until = None\<rparr>\<rparr>)))"

text \<open>\<open>mint\_trace\_id\<close> on what the factory returned; None stands for a value that is no string.\<close>

definition mint_trace_id :: "string option \<Rightarrow> string result" where
  "mint_trace_id out = (case out of
     None \<Rightarrow> Inl (ValueError ''trace_id_factory must return a non-empty string'')
   | Some t \<Rightarrow> if t = [] then Inl (ValueError ''trace_id_factory must return a non-empty string'') else Inr t)"

definition record_answer :: "rat \<Rightarrow> bool \<Rightarrow> mcp_proxy \<Rightarrow> mcp_proxy" where
  "record_answer now timed_out p =
     (let b = (mp_breaker p)\<lparr>br_probing := False\<rparr> in
      p\<lparr>mp_breaker := (if timed_out
        then let n = br_consecutive b + 1 in
          (if n \<ge> mp_limit p then b\<lparr>br_consecutive := n, br_open_until := Some (now + mp_cooldown p)\<rparr>
           else b\<lparr>br_consecutive := n\<rparr>)
        else b\<lparr>br_consecutive := 0, br_open_until := None\<rparr>)\<rparr>)"

definition breaker_denies :: "rat \<Rightarrow> mcp_proxy \<Rightarrow> bool \<times> mcp_proxy" where
  "breaker_denies now p =
     (let b = mp_breaker p in
      if br_probing b then (True, p)
      else (case br_open_until b of
        None \<Rightarrow> (False, p)
      | Some u \<Rightarrow> if now < u then (True, p)
          else (False, p\<lparr>mp_breaker := \<lparr>br_probing = True, br_consecutive = max (mp_limit p - 1) 0, br_open_until = None\<rparr>\<rparr>)))"

subsection \<open>Verdicts and outcomes\<close>

text \<open>The \<open>allowed\<close> attribute of a verdict: the literals, or anything else with its \<open>repr\<close>.\<close>

datatype allowed_value = IsTrue | IsFalse | IsOther string

datatype gate_verdict = NoVerdict | GateVerdict allowed_value "string option" "string option" string

datatype gate_answer = TimedOut | GateRaised string | Answered gate_verdict

datatype hook_result = HookReturned bool | HookRaised

record proxy_outcome =
  po_forwarded :: bool
  po_trace :: string
  po_hash :: "string option"
  po_rule :: "string option"
  po_reason :: string
  po_reconciled :: bool

definition refused :: "string \<Rightarrow> string option \<Rightarrow> string option \<Rightarrow> string \<Rightarrow> bool \<Rightarrow> proxy_outcome" where
  "refused trace h rule why rec = \<lparr>po_forwarded = False, po_trace = trace, po_hash = h, po_rule = rule,
     po_reason = why, po_reconciled = rec\<rparr>"

definition refusal :: "gate_verdict \<Rightarrow> string \<Rightarrow> proxy_outcome option" where
  "refusal v trace = (case v of
     NoVerdict \<Rightarrow> Some (refused trace None (Some REASON_MALFORMED) REASON_MALFORMED False)
   | GateVerdict al h rule why \<Rightarrow> (case al of
       IsTrue \<Rightarrow> None
     | IsFalse \<Rightarrow> Some (refused trace h rule (if why = [] then ''denied'' else why) False)
     | IsOther r \<Rightarrow> Some (refused trace None (Some REASON_MALFORMED) (REASON_MALFORMED @ '': allowed='' @ r) False)))"

text \<open>\<open>\_reconcile\<close>: the hook is optional, and only an exception makes it report False.\<close>

definition proxy_reconcile ::
  "(string \<Rightarrow> string \<Rightarrow> 'w \<Rightarrow> 'w \<times> hook_result) option \<Rightarrow> string \<Rightarrow> string \<Rightarrow> 'w \<Rightarrow> 'w \<times> bool" where
  "proxy_reconcile hook rule why w = (case hook of
     None \<Rightarrow> (w, False)
   | Some h \<Rightarrow> (case h rule why w of (w', r) \<Rightarrow> (w', r \<noteq> HookRaised)))"

definition open_text :: string where
  "open_text = ''proxy circuit breaker open: the gate did not answer the last calls within the bound, so this one was not forwarded and the gate was not asked''"

definition timeout_text :: string where
  "timeout_text = ''proxy timeout: the gate was asked and did not answer within the bound, so the call was not forwarded''"

text \<open>\<open>call\_tool\<close>: the gate, the hook and the forward take the minted trace.\<close>

definition call_tool ::
  "rat \<Rightarrow> rat \<Rightarrow> string option \<Rightarrow> (string \<Rightarrow> 'w \<Rightarrow> 'w \<times> gate_answer) \<Rightarrow>
   (string \<Rightarrow> string \<Rightarrow> string \<Rightarrow> 'w \<Rightarrow> 'w \<times> hook_result) option \<Rightarrow> ('w \<Rightarrow> 'w \<times> unit result) option \<Rightarrow>
   mcp_proxy \<times> 'w \<Rightarrow> (mcp_proxy \<times> 'w) \<times> proxy_outcome result" where
  "call_tool now later minted gate hook forward pw = (case pw of (p, w) \<Rightarrow>
     (case mint_trace_id minted of
        Inl e \<Rightarrow> ((p, w), Inl e)
      | Inr trace \<Rightarrow>
          let hook' = map_option (\<lambda>h. h trace) hook in
          (case breaker_denies now p of (denied, p1) \<Rightarrow>
           if denied then (case proxy_reconcile hook' REASON_CIRCUIT_OPEN open_text w of (w1, rec) \<Rightarrow>
             ((p1, w1), Inr (refused trace None (Some REASON_CIRCUIT_OPEN) REASON_CIRCUIT_OPEN rec)))
           else (case gate trace w of (w1, ans) \<Rightarrow>
             (case ans of
                TimedOut \<Rightarrow> let p2 = record_answer later True p1 in
                  (case proxy_reconcile hook' REASON_TIMEOUT timeout_text w1 of (w2, rec) \<Rightarrow>
                    ((p2, w2), Inr (refused trace None (Some REASON_TIMEOUT) REASON_TIMEOUT rec)))
              | GateRaised ty \<Rightarrow> ((p1, w1), Inr (refused trace None (Some REASON_ERROR) (REASON_ERROR @ '': '' @ ty) False))
              | Answered v \<Rightarrow> let p2 = record_answer later False p1 in
                  (case refusal v trace of
                     Some out \<Rightarrow> ((p2, w1), Inr out)
                   | None \<Rightarrow>
                       let out = \<lparr>po_forwarded = True, po_trace = trace,
                         po_hash = (case v of GateVerdict al h rule why \<Rightarrow> h | NoVerdict \<Rightarrow> None),
                         po_rule = None, po_reason = [], po_reconciled = False\<rparr> in
                       (case forward of
                          None \<Rightarrow> ((p2, w1), Inr out)
                        | Some f \<Rightarrow> (case f w1 of (w2, r) \<Rightarrow>
                            ((p2, w2), case r of Inl e \<Rightarrow> Inl e | Inr u \<Rightarrow> Inr out)))))))))"

subsection \<open>The adapter to the action gate\<close>

record gate_adapter =
  ga_client :: string
  ga_owns_executor :: bool

definition new_gate_adapter :: "bool \<Rightarrow> string \<Rightarrow> bool \<Rightarrow> int \<Rightarrow> gate_adapter result" where
  "new_gate_adapter has_gate client has_executor workers =
     (if \<not> has_gate then Inl (ValueError ''an ActionGate is required; the adapter does not decide'')
      else if workers < 1 then Inl (ValueError ''max_workers must be at least 1'')
      else Inr \<lparr>ga_client = client, ga_owns_executor = \<not> has_executor\<rparr>)"

definition adapter_evaluate ::
  "gate_adapter \<Rightarrow> gate_input \<Rightarrow> string \<Rightarrow> string \<Rightarrow> dict \<Rightarrow> string \<Rightarrow> gate_world \<Rightarrow> gate_world \<times> gate_answer" where
  "adapter_evaluate ad inp tenant tname arguments trace w =
     (case evaluate_action inp tenant \<lparr>tool = tname, command = [], args = Some arguments\<rparr> (ga_client ad) (Some trace) w of
        (w', Inl e) \<Rightarrow> (w', if e = TimeoutError then TimedOut else GateRaised (exn_type e))
      | (w', Inr res) \<Rightarrow> (w', Answered (GateVerdict
           (if res_action (decision res) = ALLOW then IsTrue else IsFalse)
           (audit_record_hash res) (triggered_rule (decision res)) (res_reason (decision res)))))"

definition adapter_record_denial ::
  "gate_adapter \<Rightarrow> gate_input \<Rightarrow> string \<Rightarrow> string \<Rightarrow> string \<Rightarrow> string \<Rightarrow> string \<Rightarrow> gate_world \<Rightarrow> gate_world \<times> bool" where
  "adapter_record_denial ad inp tenant tname trace rule why w =
     record_reconciliation inp tenant (ga_client ad) trace rule why (rule @ '' tool='' @ tname) w"

text \<open>
  A call through the real adapter. A gate call that is \<open>late\<close> has not touched the world when the
  wait ends; it goes on in its executor, and lands later as an \<open>evaluate\_action\<close> of its own.
\<close>

definition mediated_call ::
  "gate_adapter \<Rightarrow> gate_input \<Rightarrow> gate_input \<Rightarrow> bool \<Rightarrow> string \<Rightarrow> dict \<Rightarrow> rat \<Rightarrow> rat \<Rightarrow> string option \<Rightarrow>
   (gate_world \<Rightarrow> gate_world \<times> unit result) option \<Rightarrow> mcp_proxy \<times> gate_world \<Rightarrow>
   (mcp_proxy \<times> gate_world) \<times> proxy_outcome result" where
  "mediated_call ad inp inp2 late tname arguments now later minted forward pw =
     call_tool now later minted
       (\<lambda>trace w. if late then (w, TimedOut) else adapter_evaluate ad inp (mp_tenant (fst pw)) tname arguments trace w)
       (Some (\<lambda>trace rule why w. case adapter_record_denial ad inp2 (mp_tenant (fst pw)) tname trace rule why w of
          (w', b) \<Rightarrow> (w', HookReturned b)))
       forward pw"

definition build_proxy ::
  "(float_value \<Rightarrow> string) \<Rightarrow> environment \<Rightarrow> bool \<Rightarrow> string \<Rightarrow> py_arg option \<Rightarrow> (gate_adapter \<times> mcp_proxy) result" where
  "build_proxy frepr env has_gate tenant timeout =
     try_bind (new_gate_adapter has_gate ''mcp-proxy'' False 4) (\<lambda>ad.
     try_bind (new_mcp_proxy frepr env True tenant (Some (case timeout of None \<Rightarrow> DEFAULT_TIMEOUT_SECONDS | Some v \<Rightarrow> v))
       3 (NumArg (Finite 5) ''5.0'')) (\<lambda>p. Inr (ad, p)))"

subsection \<open>The upstream process\<close>

definition UPSTREAM_ENV_ALLOW :: "string list" where
  "UPSTREAM_ENV_ALLOW = [''PATH'', ''HOME'', ''LANG'', ''LC_ALL'', ''TMPDIR'']"

definition RESERVED_ENV_PREFIX :: string where "RESERVED_ENV_PREFIX = ''CUSTOS_''"

definition repr_list :: "string list \<Rightarrow> string" where
  "repr_list xs = ''['' @ join '', '' (map py_repr xs) @ '']''"

lemma sort_Nil_iff: "sort xs = [] \<longleftrightarrow> xs = []" for xs :: "'a :: linorder list"
  by (metis set_empty set_sort)

definition refuse_reserved :: "string list \<Rightarrow> unit result" where
  "refuse_reserved names =
     (let reserved = sort (filter (\<lambda>n. startswith n RESERVED_ENV_PREFIX) names) in
      if reserved \<noteq> [] then Inl (ValueError (''CUSTOS_MCP_UPSTREAM_ENV may not pass '' @ repr_list reserved @
        '': names beginning CUSTOS_ are this proxy's own configuration and secrets''))
      else Inr ())"

definition upstream_env :: "environment \<Rightarrow> string list option \<Rightarrow> (string \<times> string) list result" where
  "upstream_env env extra_names =
     (let configured = filter (\<lambda>n. n \<noteq> []) (map strip (split_on (CHR '','') (getenv env ''CUSTOS_MCP_UPSTREAM_ENV'' [])));
          extra = filter (\<lambda>n. n \<noteq> []) (case extra_names of None \<Rightarrow> [] | Some xs \<Rightarrow> xs) in
      try_bind (refuse_reserved (configured @ extra)) (\<lambda>_.
        Inr (List.map_filter (\<lambda>n. map_option (Pair n) (env n)) (sort (remdups (UPSTREAM_ENV_ALLOW @ configured @ extra))))))"

record server_params =
  sp_command :: string
  sp_args :: "string list"
  sp_env :: "(string \<times> string) list"
  sp_cwd :: "string option"

definition upstream_params ::
  "bool \<Rightarrow> environment \<Rightarrow> string \<Rightarrow> string list option \<Rightarrow> (string \<times> string) list option \<Rightarrow> string option \<Rightarrow>
   string list option \<Rightarrow> server_params result" where
  "upstream_params sdk env cmd as env_arg cwd allow_env =
     (if \<not> sdk then Inl (RuntimeError ''the mcp SDK is required for the stdio binding'')
      else try_bind (case env_arg of Some d \<Rightarrow> Inr d | None \<Rightarrow> upstream_env env allow_env) (\<lambda>e.
        Inr \<lparr>sp_command = cmd, sp_args = (case as of None \<Rightarrow> [] | Some xs \<Rightarrow> xs), sp_env = e, sp_cwd = cwd\<rparr>))"

definition python_upstream ::
  "bool \<Rightarrow> environment \<Rightarrow> string \<Rightarrow> string \<Rightarrow> (string \<times> string) list option \<Rightarrow> server_params result" where
  "python_upstream sdk env interpreter script env_arg = upstream_params sdk env interpreter (Some [script]) env_arg None None"

subsection \<open>The breaker over runs of calls\<close>

text \<open>Calls made one after the other, each with the clock when it starts and when it ends.\<close>

fun run_calls ::
  "(string \<Rightarrow> 'w \<Rightarrow> 'w \<times> gate_answer) \<Rightarrow> (string \<Rightarrow> string \<Rightarrow> string \<Rightarrow> 'w \<Rightarrow> 'w \<times> hook_result) option \<Rightarrow>
   ('w \<Rightarrow> 'w \<times> unit result) option \<Rightarrow> (rat \<times> rat \<times> string option) list \<Rightarrow> mcp_proxy \<times> 'w \<Rightarrow> mcp_proxy \<times> 'w" where
  "run_calls gate hook forward [] pw = pw"
| "run_calls gate hook forward ((now, later, minted) # cs) pw =
     run_calls gate hook forward cs (fst (call_tool now later minted gate hook forward pw))"

text \<open>What a call does to the breaker depends on the answer alone.\<close>

definition answer_step :: "rat \<Rightarrow> gate_answer \<Rightarrow> mcp_proxy \<Rightarrow> mcp_proxy" where
  "answer_step later ans p = (case ans of TimedOut \<Rightarrow> record_answer later True p
     | GateRaised ty \<Rightarrow> p | Answered v \<Rightarrow> record_answer later False p)"

lemma call_tool_breaker:
  assumes "mint_trace_id minted = Inr trace"
  shows "fst (fst (call_tool now later minted gate hook forward (p, w))) =
    (case breaker_denies now p of (denied, p1) \<Rightarrow> if denied then p1 else answer_step later (snd (gate trace w)) p1)"
  using assms
  by (simp add: call_tool_def answer_step_def Let_def split: prod.splits gate_answer.splits option.splits sum.splits)

lemma call_tool_unminted: "mint_trace_id minted = Inl e \<Longrightarrow> fst (call_tool now later minted gate hook forward (p, w)) = (p, w)"
  by (simp add: call_tool_def)

lemma breaker_denies_frame [simp]:
  "mp_limit (snd (breaker_denies now p)) = mp_limit p" "mp_cooldown (snd (breaker_denies now p)) = mp_cooldown p"
  "mp_tenant (snd (breaker_denies now p)) = mp_tenant p"
  by (simp_all add: breaker_denies_def Let_def split: option.splits)

lemma record_answer_frame [simp]:
  "mp_limit (record_answer later b p) = mp_limit p" "mp_cooldown (record_answer later b p) = mp_cooldown p"
  "mp_tenant (record_answer later b p) = mp_tenant p" "\<not> br_probing (mp_breaker (record_answer later b p))"
  by (simp_all add: record_answer_def Let_def)

definition breaker_ok :: "mcp_proxy \<Rightarrow> bool" where
  "breaker_ok p \<longleftrightarrow> 1 \<le> mp_limit p \<and> 0 \<le> mp_cooldown p \<and> \<not> br_probing (mp_breaker p) \<and> 0 \<le> br_consecutive (mp_breaker p) \<and>
     (br_open_until (mp_breaker p) = None \<longrightarrow> br_consecutive (mp_breaker p) < mp_limit p)"

lemma new_proxy_ok: "new_mcp_proxy frepr env h t arg bound cool = Inr p \<Longrightarrow> breaker_ok p"
  by (auto simp: new_mcp_proxy_def breaker_ok_def result_simps validated_cooldown_def Let_def
    split: if_splits py_arg.splits float_value.splits)

lemma breaker_ok_call:
  assumes "breaker_ok p" "\<not> (\<exists>ty. ans = GateRaised ty)" "breaker_denies now p = (denied, p1)"
  shows "breaker_ok (if denied then p1 else answer_step later ans p1)"
  using assms by (auto simp: breaker_ok_def breaker_denies_def answer_step_def record_answer_def Let_def
    split: option.splits if_splits gate_answer.splits)

lemma run_calls_ok:
  assumes "breaker_ok (fst pw)" "\<forall>trace w ty. snd (gate trace w) \<noteq> GateRaised ty"
  shows "breaker_ok (fst (run_calls gate hook forward cs pw))"
  using assms(1)
proof (induction cs arbitrary: pw)
  case (Cons call cs)
  obtain now later minted where c: "call = (now, later, minted)" by (cases call)
  obtain p w where pw: "pw = (p, w)" by (cases pw)
  have "breaker_ok (fst (fst (call_tool now later minted gate hook forward (p, w))))"
  proof (cases "mint_trace_id minted")
    case (Inl e)
    with Cons.prems pw show ?thesis by (simp add: call_tool_unminted)
  next
    case (Inr trace)
    obtain denied p1 where d: "breaker_denies now p = (denied, p1)" by (cases "breaker_denies now p")
    from Cons.prems pw breaker_ok_call [OF _ _ d, of "snd (gate trace w)" later] assms(2)
    show ?thesis by (simp add: call_tool_breaker [OF Inr] d split: if_splits)
  qed
  with Cons.IH c pw show ?case by simp
qed simp

text \<open>A world that counts how often the gate was asked.\<close>

definition counted_gate :: "(string \<Rightarrow> 'h \<Rightarrow> 'h \<times> gate_answer) \<Rightarrow> string \<Rightarrow> nat \<times> 'h \<Rightarrow> (nat \<times> 'h) \<times> gate_answer" where
  "counted_gate g trace nh = (case g trace (snd nh) of (h', ans) \<Rightarrow> ((Suc (fst nh), h'), ans))"

definition counted_hook ::
  "(string \<Rightarrow> string \<Rightarrow> string \<Rightarrow> 'h \<Rightarrow> 'h \<times> hook_result) \<Rightarrow> string \<Rightarrow> string \<Rightarrow> string \<Rightarrow> nat \<times> 'h \<Rightarrow> (nat \<times> 'h) \<times> hook_result" where
  "counted_hook k trace rule why nh = (case k trace rule why (snd nh) of (h', r) \<Rightarrow> ((fst nh, h'), r))"

text \<open>How many more calls may reach a gate that does not answer, before \<open>stop\<close>.\<close>

definition ask_budget :: "rat \<Rightarrow> mcp_proxy \<Rightarrow> nat" where
  "ask_budget stop p = (case br_open_until (mp_breaker p) of
     None \<Rightarrow> nat (mp_limit p - br_consecutive (mp_breaker p))
   | Some u \<Rightarrow> if stop \<le> u then 0 else 1)"

lemma ask_budget_call:
  assumes "breaker_ok p" "breaker_denies now p = (denied, p1)" "now \<le> later" "now < stop" "stop \<le> later + mp_cooldown p"
  shows "denied \<Longrightarrow> ask_budget stop p1 \<le> ask_budget stop p"
    and "\<not> denied \<Longrightarrow> Suc (ask_budget stop (answer_step later TimedOut p1)) \<le> ask_budget stop p"
  using assms by (auto simp: breaker_ok_def breaker_denies_def answer_step_def record_answer_def ask_budget_def Let_def
    split: option.splits if_splits)

lemma counted_call:
  assumes "\<forall>trace h. snd (g trace h) = TimedOut" "mint_trace_id minted = Inr trace" "breaker_denies now p = (denied, p1)"
  shows "fst (snd (fst (call_tool now later minted (counted_gate g) (map_option counted_hook k) forward (p, nh)))) =
    (if denied then fst nh else Suc (fst nh))"
proof -
  have "snd (counted_gate g trace nh) = TimedOut" using assms(1) by (simp add: counted_gate_def case_prod_beta)
  then show ?thesis using assms(2,3)
    by (auto simp: call_tool_def proxy_reconcile_def counted_hook_def Let_def counted_gate_def
      split: prod.splits option.splits gate_answer.splits)
qed

lemma dead_gate_budget:
  assumes "breaker_ok p" "\<forall>trace h. snd (g trace h) = TimedOut"
    and "\<forall>(now, later, minted) \<in> set cs. start \<le> later \<and> now \<le> later \<and> now < start + mp_cooldown p"
  shows "fst (snd (run_calls (counted_gate g) (map_option counted_hook k) forward cs (p, nh))) \<le>
    fst nh + ask_budget (start + mp_cooldown p) p"
  using assms(1,3)
proof (induction cs arbitrary: p nh)
  case (Cons call cs)
  obtain now later minted where c: "call = (now, later, minted)" by (cases call)
  let ?stop = "start + mp_cooldown p"
  let ?gate = "counted_gate g" and ?hook = "map_option counted_hook k"
  obtain p' nh' where run: "fst (call_tool now later minted ?gate ?hook forward (p, nh)) = (p', nh')"
    by (metis prod.exhaust)
  have times: "start \<le> later" "now \<le> later" "now < ?stop" using Cons.prems(2) c by auto
  have step: "breaker_ok p' \<and> mp_cooldown p' = mp_cooldown p \<and> fst nh' + ask_budget ?stop p' \<le> fst nh + ask_budget ?stop p"
  proof (cases "mint_trace_id minted")
    case (Inl e)
    with run Cons.prems(1) show ?thesis by (simp add: call_tool_unminted)
  next
    case (Inr trace)
    obtain denied p1 where d: "breaker_denies now p = (denied, p1)" by (cases "breaker_denies now p")
    have ans: "snd (?gate trace nh) = TimedOut" using assms(2) by (simp add: counted_gate_def case_prod_beta)
    have p': "p' = (if denied then p1 else answer_step later TimedOut p1)"
      using call_tool_breaker [OF Inr, of now later ?gate ?hook forward p nh] run d ans by simp
    have cool: "mp_cooldown p1 = mp_cooldown p" using breaker_denies_frame(2) [of now p] d by simp
    have n: "fst nh' = (if denied then fst nh else Suc (fst nh))"
      using counted_call [OF assms(2) Inr d, of later k forward nh] run by simp
    from breaker_ok_call [OF Cons.prems(1) _ d, of TimedOut later] p' have ok: "breaker_ok p'" by simp
    have "?stop \<le> later + mp_cooldown p" using times(1) by simp
    from ask_budget_call [OF Cons.prems(1) d times(2,3) this] n p' ok cool
    show ?thesis by (auto simp: answer_step_def)
  qed
  have "fst (snd (run_calls ?gate ?hook forward cs (p', nh'))) \<le> fst nh' + ask_budget (start + mp_cooldown p') p'"
    using step Cons.prems(2) by (intro Cons.IH) auto
  with step run c show ?case by simp
qed (simp add: ask_budget_def split: option.splits)

lemma budget_le_limit: "breaker_ok p \<Longrightarrow> ask_budget stop p \<le> nat (mp_limit p)"
  by (auto simp: breaker_ok_def ask_budget_def split: option.splits)

subsection \<open>Forwarded calls\<close>

lemma refusal_None: "refusal v trace = None \<longleftrightarrow> (\<exists>h rule why. v = GateVerdict IsTrue h rule why)"
  by (cases v) (auto simp: refusal_def split: allowed_value.splits)

lemma refusal_not_forwarded: "refusal v trace = Some out \<Longrightarrow> \<not> po_forwarded out"
  by (auto simp: refusal_def refused_def split: gate_verdict.splits allowed_value.splits)

text \<open>A forwarded call was admitted by the breaker and answered with a literal True.\<close>

lemma forwarded_cases:
  assumes "call_tool now later minted gate hook forward (p, w) = ((p', w'), Inr out)" "po_forwarded out"
  obtains trace w1 h rule why where "mint_trace_id minted = Inr trace" "po_trace out = trace"
    "gate trace w = (w1, Answered (GateVerdict IsTrue h rule why))" "po_hash out = h"
    "(case forward of None \<Rightarrow> w1 | Some f \<Rightarrow> fst (f w1)) = w'" "\<not> fst (breaker_denies now p)"
proof -
  obtain trace where t: "mint_trace_id minted = Inr trace" using assms(1) by (cases "mint_trace_id minted") (auto simp: call_tool_def)
  obtain denied p1 where d: "breaker_denies now p = (denied, p1)" by (cases "breaker_denies now p")
  have "\<not> denied" using assms d t by (auto simp: call_tool_def refused_def split: prod.splits)
  obtain w1 ans where g: "gate trace w = (w1, ans)" by (cases "gate trace w")
  obtain v where ans: "ans = Answered v"
    using assms t d \<open>\<not> denied\<close> g by (cases ans) (auto simp: call_tool_def refused_def Let_def split: prod.splits)
  have "refusal v trace = None"
    using assms t d \<open>\<not> denied\<close> g ans refusal_not_forwarded by (cases "refusal v trace") (auto simp: call_tool_def Let_def)
  then obtain h rule why where v: "v = GateVerdict IsTrue h rule why" using refusal_None by metis
  have "po_trace out = trace \<and> po_hash out = h \<and> (case forward of None \<Rightarrow> w1 | Some f \<Rightarrow> fst (f w1)) = w'"
    using assms(1) t d \<open>\<not> denied\<close> g ans \<open>refusal v trace = None\<close> v
    by (auto simp: call_tool_def Let_def split: option.splits prod.splits sum.splits)
  with that t g ans v d \<open>\<not> denied\<close> show thesis by simp
qed

text \<open>A call that was not forwarded did not run the forward.\<close>

lemma not_forwarded_unused:
  assumes "call_tool now later minted gate hook forward (p, w) = ((p', w'), Inr out)" "\<not> po_forwarded out"
  shows "call_tool now later minted gate hook None (p, w) = ((p', w'), Inr out)"
proof (cases "mint_trace_id minted")
  case (Inl e)
  with assms show ?thesis by (simp add: call_tool_def)
next
  case (Inr trace)
  obtain denied p1 where d: "breaker_denies now p = (denied, p1)" by (cases "breaker_denies now p")
  obtain w1 ans where g: "gate trace w = (w1, ans)" by (cases "gate trace w")
  show ?thesis
  proof (cases "\<exists>v. ans = Answered v \<and> refusal v trace = None")
    case False
    then show ?thesis using assms Inr d g
      by (auto simp: call_tool_def Let_def split: gate_answer.splits option.splits prod.splits)
  next
    case True
    then show ?thesis using assms Inr d g
      by (auto simp: call_tool_def Let_def split: option.splits prod.splits sum.splits)
  qed
qed

definition coherent :: "policy_result \<Rightarrow> bool" where
  "coherent d \<longleftrightarrow> (allowed d \<longleftrightarrow> res_action d \<noteq> DENY)"

lemma conclude_coherent:
  assumes "map_prod id Inr (conclude inp t ctx client trace blob cited d w) = (w', Inr res)" "coherent d"
  shows "coherent (decision res)"
proof -
  obtain w2 out where c: "conclude inp t ctx client trace blob cited d w = (w2, out)" by (metis prod.exhaust)
  with assms(1) have "out = res" by simp
  with conclude_result [OF c] assms(2) show ?thesis by (auto simp: coherent_def unrecordable_def gate_deny_def)
qed

lemma gate_deny_coherent [simp]: "coherent (gate_deny rule why)" "coherent (not_allowlisted t n)" "coherent (unknown_tenant t)"
  by (simp_all add: coherent_def gate_deny_def not_allowlisted_def unknown_tenant_def)

lemma engine_coherent: "engine_evaluate post e c = Inr d \<Longrightarrow> coherent d"
  using engine.coherent by (simp add: coherent_def)

lemma gate_coherent:
  assumes "evaluate_action inp t a client trace w = (w', Inr res)"
  shows "coherent (decision res)"
proof (cases "get_strict t (gw_tm w)")
  case None
  with assms have "res = \<lparr>decision = unknown_tenant t, audit_record_hash = None\<rparr>" by (simp add: evaluate_action_def Let_def)
  then show ?thesis by simp
next
  case (Some ctx)
  obtain cited e g where c: "cite_policy (gi_env inp) t (tc_engine ctx) (gw_gate w) = (cited, e, g)" by (metis prod.exhaust)
  show ?thesis
    using assms Some c
    by (simp add: evaluate_action_def Let_def case_prod_beta split: if_splits sum.splits option.splits)
       (erule conclude_coherent, simp add: engine_coherent)+
qed

subsection \<open>Properties\<close>

text \<open>C10: the proxy forwards a tool call only after a recorded allow: when a call through the real
  adapter comes back forwarded, the tenant is registered, the tool is on its allowlist, its
  policy engine allows the serialized call, and before the forward ran the tenant's chain gained
  one ALLOW record of exactly that call, with the minted trace id and the hash the caller gets.\<close>

theorem forwarded_calls_are_recorded_allows:
  assumes "mediated_call ad inp inp2 late tname arguments now later minted forward (p, w) = ((p', w'), Inr out)"
    and "po_forwarded out"
  shows "\<exists>w1 ctx ctx1 r. \<not> late \<and> tenant_get (mp_tenant p) (gw_tm w) = Some ctx \<and>
    tname \<in> set (list_tools (mp_tenant p) (gw_gate w)) \<and>
    (\<exists>d. engine_evaluate (gi_post inp) (tc_engine ctx) (serialize \<lparr>tool = tname, command = [], args = Some arguments\<rparr>) = Inr d \<and> res_action d = ALLOW) \<and>
    tenant_get (mp_tenant p) (gw_tm w1) = Some ctx1 \<and> ac_records (tc_chain ctx1) = ac_records (tc_chain ctx) @ [r] \<and>
    ar_action r = ''allow'' \<and> trace_id r = Some (po_trace out) \<and> po_hash out = Some (record_hash r) \<and>
    content_hash r = sha256_text (serialize \<lparr>tool = tname, command = [], args = Some arguments\<rparr>) \<and>
    w' = (case forward of None \<Rightarrow> w1 | Some f \<Rightarrow> fst (f w1))"
proof -
  let ?a = "\<lparr>tool = tname, command = [], args = Some arguments\<rparr>" and ?t = "mp_tenant p"
  from assms(1) obtain trace w1 h rule why where c: "po_trace out = trace"
      "(if late then (w, TimedOut) else adapter_evaluate ad inp ?t tname arguments trace w) =
         (w1, Answered (GateVerdict IsTrue h rule why))" "po_hash out = h"
      "(case forward of None \<Rightarrow> w1 | Some f \<Rightarrow> fst (f w1)) = w'"
    unfolding mediated_call_def by (rule forwarded_cases [OF _ assms(2)]) (simp add: split: if_splits)
  then have "\<not> late" by (auto split: if_splits)
  with c(2) obtain res where ev: "evaluate_action inp ?t ?a (ga_client ad) (Some trace) w = (w1, Inr res)"
      and v: "res_action (decision res) = ALLOW" "h = audit_record_hash res"
    by (auto simp: adapter_evaluate_def split: prod.splits sum.splits if_splits)
  have "allowed (decision res)"
    using gate_coherent [OF ev] v(1) by (simp add: coherent_def)
  from allowed_run [OF ev this] v c \<open>\<not> late\<close> show ?thesis by auto
qed

text \<open>A gate that hangs is not asked for long: from a fresh proxy, or any state its calls can
  reach while the gate does not raise, and whatever the reconciliation hook does, the calls made
  within one cooldown of each other ask a gate that times out every time at most
  \<open>consecutive\_timeout\_limit\<close> times; all the others are refused without asking it.\<close>

theorem dead_gate_is_bounded:
  assumes "breaker_ok p" and "\<forall>trace h. snd (g trace h) = TimedOut"
    and "\<forall>(now, later, minted) \<in> set cs. start \<le> later \<and> now \<le> later \<and> now < start + mp_cooldown p"
  shows "fst (snd (run_calls (counted_gate g) (map_option counted_hook k) forward cs (p, (0, h)))) \<le> nat (mp_limit p)"
proof -
  have "fst (snd (run_calls (counted_gate g) (map_option counted_hook k) forward cs (p, (0, h)))) \<le>
      fst (0::nat, h) + ask_budget (start + mp_cooldown p) p"
    by (rule dead_gate_budget [OF assms])
  with budget_le_limit [OF assms(1), of "start + mp_cooldown p"] show ?thesis by simp
qed

text \<open>The breaker recovers: after any calls on a new proxy during which the gate never raised,
  a call that starts when the cooldown is over reaches the gate, and if the gate answers in
  time, with whatever verdict, the breaker is closed again with no timeouts counted.\<close>

theorem breaker_recovers:
  assumes "new_mcp_proxy frepr env ok tenant timeout bound cool = Inr p0"
    and "\<forall>trace w ty. snd (gate trace w) \<noteq> GateRaised ty"
    and "run_calls gate hook forward cs (p0, w0) = (p, w)"
    and "mint_trace_id minted = Inr trace" and "snd (gate trace w) = Answered v"
    and "br_open_until (mp_breaker p) = None \<or> br_open_until (mp_breaker p) = Some u \<and> u \<le> now"
  shows "\<not> fst (breaker_denies now p) \<and>
    mp_breaker (fst (fst (call_tool now later minted gate hook forward (p, w)))) =
      \<lparr>br_probing = False, br_consecutive = 0, br_open_until = None\<rparr>"
proof -
  have "breaker_ok (fst (run_calls gate hook forward cs (p0, w0)))"
    using new_proxy_ok [OF assms(1)] by (intro run_calls_ok [OF _ assms(2)]) simp
  with assms(3) have "\<not> br_probing (mp_breaker p)" by (simp add: breaker_ok_def)
  with assms(6) have "\<not> fst (breaker_denies now p)" by (auto simp: breaker_denies_def)
  then show ?thesis
    by (simp add: call_tool_breaker [OF assms(4)] case_prod_beta assms(5) answer_step_def record_answer_def Let_def)
qed

text \<open>The governed process does not get the proxy's secrets: the environment built for an
  upstream holds only allowlisted, configured or explicitly named variables that are set, never
  one whose name begins with \<open>CUSTOS\_\<close>, and it is refused when such a name was asked for.\<close>

theorem upstream_env_has_no_secrets:
  "case upstream_env env extra of
     Inl e \<Rightarrow> (\<exists>n. startswith n RESERVED_ENV_PREFIX \<and>
       (n \<in> set (map strip (split_on (CHR '','') (getenv env ''CUSTOS_MCP_UPSTREAM_ENV'' []))) \<or> (\<exists>xs. extra = Some xs \<and> n \<in> set xs)))
   | Inr d \<Rightarrow> list_all (\<lambda>(n, v). env n = Some v \<and> \<not> startswith n RESERVED_ENV_PREFIX \<and>
       (n \<in> set UPSTREAM_ENV_ALLOW \<or> n \<in> set (map strip (split_on (CHR '','') (getenv env ''CUSTOS_MCP_UPSTREAM_ENV'' []))) \<or>
        (\<exists>xs. extra = Some xs \<and> n \<in> set xs))) d"
proof -
  let ?conf = "filter (\<lambda>n. n \<noteq> []) (map strip (split_on (CHR '','') (getenv env ''CUSTOS_MCP_UPSTREAM_ENV'' [])))"
  let ?extra = "filter (\<lambda>n. n \<noteq> []) (case extra of None \<Rightarrow> [] | Some xs \<Rightarrow> xs)"
  let ?reserved = "filter (\<lambda>n. startswith n RESERVED_ENV_PREFIX) (?conf @ ?extra)"
  have allow: "\<forall>n \<in> set UPSTREAM_ENV_ALLOW. \<not> startswith n RESERVED_ENV_PREFIX" by code_simp
  show ?thesis
  proof (cases "?reserved = []")
    case True
    then have safe: "\<forall>n \<in> set ?conf \<union> set ?extra. \<not> startswith n RESERVED_ENV_PREFIX"
      by (simp add: filter_empty_conv) blast
    from True have "upstream_env env extra =
        Inr (List.map_filter (\<lambda>n. map_option (Pair n) (env n)) (sort (remdups (UPSTREAM_ENV_ALLOW @ ?conf @ ?extra))))"
      by (simp add: upstream_env_def refuse_reserved_def Let_def)
    with allow safe show ?thesis
      by (auto simp: list_all_iff map_filter_def split: option.splits)
  next
    case False
    then obtain n where "n \<in> set ?conf \<union> set ?extra" "startswith n RESERVED_ENV_PREFIX"
      by (auto simp: filter_empty_conv)
    moreover from this(1) have "n \<in> set (map strip (split_on (CHR '','') (getenv env ''CUSTOS_MCP_UPSTREAM_ENV'' []))) \<or>
        (\<exists>xs. extra = Some xs \<and> n \<in> set xs)" by (auto split: option.splits)
    moreover obtain e where "upstream_env env extra = Inl e"
      using False by (simp add: upstream_env_def refuse_reserved_def Let_def sort_Nil_iff)
    ultimately show ?thesis by (simp del: set_map) blast
  qed
qed

subsection \<open>A call on a small gate\<close>

definition demo_proxy :: mcp_proxy where
  "demo_proxy = \<lparr>mp_tenant = ''t'', mp_timeout = 2, mp_limit = 3, mp_cooldown = 5,
     mp_breaker = \<lparr>br_probing = False, br_consecutive = 0, br_open_until = None\<rparr>\<rparr>"

definition demo_adapter :: gate_adapter where
  "demo_adapter = \<lparr>ga_client = ''mcp-proxy'', ga_owns_executor = True\<rparr>"

lemma demo_proxy_new: "new_mcp_proxy frepr (\<lambda>_. None) True ''t'' None 3 (NumArg (Finite 5) r) = Inr demo_proxy"
  by (simp add: new_mcp_proxy_def timeout_from_env_def DEFAULT_TIMEOUT_SECONDS_def validated_timeout_def validated_cooldown_def
    demo_proxy_def Let_def)

lemma evaluate_action_text:
  assumes "serialize a = serialize b" "tool a = tool b"
  shows "evaluate_action inp t a client trace w = evaluate_action inp t b client trace w"
  unfolding evaluate_action_def assms by (rule refl)

lemma demo_forwarded:
  "\<exists>w' h. mediated_call demo_adapter (demo_input post sinks) inp2 False ''ls'' [] 0 1 (Some ''x'') None (demo_proxy, demo_world m) =
     ((demo_proxy, w'), Inr \<lparr>po_forwarded = True, po_trace = ''x'', po_hash = Some h, po_rule = None, po_reason = [], po_reconciled = False\<rparr>)"
proof -
  have "serialize \<lparr>tool = ''ls'', command = [], args = Some []\<rparr> = serialize demo_action"
    "tool \<lparr>tool = ''ls'', command = [], args = Some []\<rparr> = tool demo_action"
    by (simp_all add: serialize_def demo_action_def)
  note same = evaluate_action_text [OF this]
  obtain w' h where "evaluate_action (demo_input post sinks) ''t'' demo_action ''mcp-proxy'' (Some ''x'') (demo_world m) =
     (w', Inr \<lparr>decision = allow_result, audit_record_hash = Some h\<rparr>)" using demo_allowed by blast
  then show ?thesis
    by (simp add: mediated_call_def call_tool_def mint_trace_id_def breaker_denies_def demo_proxy_def adapter_evaluate_def
      demo_adapter_def same allow_result_def refusal_def record_answer_def Let_def)
qed

theorem forwarded_calls_are_recorded_allows_witness:
  "\<forall>post sinks inp2 m. \<exists>w' out r ctx1. mediated_call demo_adapter (demo_input post sinks) inp2 False ''ls'' [] 0 1 (Some ''x'') None
     (demo_proxy, demo_world m) = ((demo_proxy, w'), Inr out) \<and> tenant_get ''t'' (gw_tm w') = Some ctx1 \<and>
     ac_records (tc_chain ctx1) = [r] \<and> trace_id r = Some ''x''"
proof (intro allI)
  fix post sinks inp2 m
  obtain w' h where run: "mediated_call demo_adapter (demo_input post sinks) inp2 False ''ls'' [] 0 1 (Some ''x'') None (demo_proxy, demo_world m) =
     ((demo_proxy, w'), Inr \<lparr>po_forwarded = True, po_trace = ''x'', po_hash = Some h, po_rule = None, po_reason = [], po_reconciled = False\<rparr>)"
    using demo_forwarded by blast
  have "tenant_get ''t'' (gw_tm (demo_world m)) = Some demo_context" "ac_records (tc_chain demo_context) = []" "mp_tenant demo_proxy = ''t''"
    by (simp_all add: demo_world_def tenant_get_def demo_context_def demo_chain_def demo_proxy_def)
  with forwarded_calls_are_recorded_allows [OF run]
  have "\<exists>r ctx1. tenant_get ''t'' (gw_tm w') = Some ctx1 \<and> ac_records (tc_chain ctx1) = [r] \<and> trace_id r = Some ''x''" by auto
  with run show "\<exists>w' out r ctx1. mediated_call demo_adapter (demo_input post sinks) inp2 False ''ls'' [] 0 1 (Some ''x'') None
     (demo_proxy, demo_world m) = ((demo_proxy, w'), Inr out) \<and> tenant_get ''t'' (gw_tm w') = Some ctx1 \<and>
     ac_records (tc_chain ctx1) = [r] \<and> trace_id r = Some ''x''" by blast
qed

theorem dead_gate_is_bounded_witness:
  "fst (snd (run_calls (counted_gate (\<lambda>_ u. (u, TimedOut))) (map_option counted_hook None) None
     [(0, 2, Some ''a''), (2, 4, Some ''b''), (4, 4, Some ''c''), (4, 5, Some ''d''), (4, 5, Some ''e'')] (demo_proxy, (0, ())))) \<le> 3"
proof -
  have "nat (mp_limit demo_proxy) = 3" "mp_cooldown demo_proxy = 5" by (simp_all add: demo_proxy_def)
  with dead_gate_is_bounded [of demo_proxy "\<lambda>_ u. (u, TimedOut)"
      "[(0, 2, Some ''a''), (2, 4, Some ''b''), (4, 4, Some ''c''), (4, 5, Some ''d''), (4, 5, Some ''e'')]" 0 None None "()"]
    new_proxy_ok [OF demo_proxy_new [of "\<lambda>_. []" "[]"]]
  show ?thesis by simp
qed

theorem breaker_recovers_witness:
  "\<exists>p. mp_breaker p = \<lparr>br_probing = False, br_consecutive = 0, br_open_until = None\<rparr> \<and>
     p = fst (fst (call_tool 1 2 (Some ''a'') (\<lambda>_ u. (u, Answered NoVerdict)) None None (demo_proxy, ())))"
  using breaker_recovers [OF demo_proxy_new [of "\<lambda>_. []" "[]"], of "\<lambda>_ u. (u, Answered NoVerdict)" None None "[]" "()" demo_proxy "()"
      "Some ''a''" "''a''" NoVerdict 0 1 2]
  by (simp add: mint_trace_id_def demo_proxy_def)

subsection \<open>Where the breaker and the reconciliation fall short\<close>

text \<open>
  The probe of a half-open breaker that raises, instead of answering or timing out, never clears
  \<open>probing\<close>: from then on every call is refused, at any time, and the gate is never asked again.
\<close>

lemma probing_denies: "br_probing (mp_breaker p) \<Longrightarrow> breaker_denies now p = (True, p)"
  by (simp add: breaker_denies_def)

lemma raising_probe_blocks_for_good:
  assumes "\<not> br_probing (mp_breaker p)" "br_open_until (mp_breaker p) = Some u" "u \<le> now"
    and "mint_trace_id minted = Inr trace" "snd (gate trace w) = GateRaised ty"
  shows "br_probing (mp_breaker (fst (run_calls gate hook forward cs (fst (call_tool now later minted gate hook forward (p, w))))))"
proof -
  obtain p1 w1 where run: "fst (call_tool now later minted gate hook forward (p, w)) = (p1, w1)" by (metis prod.exhaust)
  have "\<not> now < u" using assms(3) by simp
  with assms(1,2) have "breaker_denies now p =
      (False, p\<lparr>mp_breaker := \<lparr>br_probing = True, br_consecutive = max (mp_limit p - 1) 0, br_open_until = None\<rparr>\<rparr>)"
    by (simp add: breaker_denies_def)
  then have "br_probing (mp_breaker p1)"
    using call_tool_breaker [OF assms(4), of now later gate hook forward p w] run assms(5) by (simp add: answer_step_def)
  moreover have "br_probing (mp_breaker (fst pw)) \<Longrightarrow> br_probing (mp_breaker (fst (run_calls gate hook forward cs pw)))" for pw
  proof (induction cs arbitrary: pw)
    case (Cons call cs)
    obtain n l m where c: "call = (n, l, m)" by (cases call)
    obtain q v where pw: "pw = (q, v)" by (cases pw)
    have "br_probing (mp_breaker (fst (fst (call_tool n l m gate hook forward (q, v)))))"
      using Cons.prems pw probing_denies [of q n]
      by (cases "mint_trace_id m") (simp_all add: call_tool_unminted call_tool_breaker)
    with Cons.IH c pw show ?case by simp
  qed simp
  ultimately show ?thesis using run by simp
qed

text \<open>
  \<open>\_reconcile\<close> ignores what the hook returns: a denial that could not be recorded, for example
  for a tenant that is not registered, is reported as reconciled.
\<close>

lemma unrecorded_denial_reported:
  assumes "tenant_get (mp_tenant p) (gw_tm w) = None" "mint_trace_id minted = Inr trace" "\<not> fst (breaker_denies now p)"
  shows "\<exists>p'. mediated_call ad inp inp2 True tname arguments now later minted forward (p, w) =
    ((p', w), Inr (refused trace None (Some REASON_TIMEOUT) REASON_TIMEOUT True))"
  using assms
  by (auto simp: mediated_call_def call_tool_def proxy_reconcile_def adapter_record_denial_def record_reconciliation_def
    get_strict_get Let_def split: prod.splits)

end
