(* ===== verification/Url.thy ===== *)
theory Url
  imports PyText
begin

text \<open>
  What the program uses of \<open>urllib.parse\<close> and \<open>ipaddress\<close> (Python 3.12, the version of its
  Dockerfile): the parts of a URL, and the text, value and class of an IP address. Hosts are
  Latin-1, for which the Unicode check of the network location does nothing.
\<close>

subsection \<open>Splitting text\<close>

text \<open>\<open>s.partition(c)\<close>: the text before the first \<open>c\<close>, whether there is one, and the text after it.\<close>

fun partition_at :: "char \<Rightarrow> string \<Rightarrow> string \<times> bool \<times> string" where
  "partition_at c [] = ([], False, [])"
| "partition_at c (x # s) = (if x = c then ([], True, s) else (case partition_at c s of (u, f, v) \<Rightarrow> (x # u, f, v)))"

definition before :: "char \<Rightarrow> string \<Rightarrow> string" where "before c s = fst (partition_at c s)"
definition after :: "char \<Rightarrow> string \<Rightarrow> string" where "after c s = snd (snd (partition_at c s))"

text \<open>\<open>s.rpartition(c)[2]\<close>: the text after the last \<open>c\<close>, all of it when there is none.\<close>

definition after_last :: "char \<Rightarrow> string \<Rightarrow> string" where
  "after_last c s = rev (takeWhile (\<lambda>x. x \<noteq> c) (rev s))"

lemma partition_at_append: "partition_at c s = (u, f, v) \<Longrightarrow> s = u @ (if f then c # v else []) \<and> c \<notin> set u"
  by (induction s arbitrary: u) (auto split: if_splits prod.splits)

subsection \<open>IP addresses\<close>

datatype ip_address = IPv4 int | IPv6 int "string option"

definition octet :: "string \<Rightarrow> int option" where
  "octet s = (if s = [] \<or> \<not> list_all is_digit s \<or> length s > 3 then None
     else if length s > 1 \<and> hd s = CHR ''0'' then None
     else if digits_val 0 s > 255 then None else Some (int (digits_val 0 s)))"

fun fold_digits :: "int \<Rightarrow> int option list \<Rightarrow> int \<Rightarrow> int option" where
  "fold_digits b [] n = Some n"
| "fold_digits b (None # ds) n = None"
| "fold_digits b (Some d # ds) n = fold_digits b ds (b * n + d)"

definition ipv4_int :: "string \<Rightarrow> int option" where
  "ipv4_int s = (let os = split_on (CHR ''.'') s in if length os \<noteq> 4 then None else fold_digits 256 (map octet os) 0)"

definition hex_value :: "char \<Rightarrow> int option" where
  "hex_value c = (if is_digit c then Some (int (code c - 48))
     else if code (lower_char c) \<ge> 97 \<and> code (lower_char c) \<le> 102 then Some (int (code (lower_char c) - 87)) else None)"

definition hextet :: "string \<Rightarrow> int option" where
  "hextet s = (if s = [] \<or> length s > 4 then None else fold_digits 16 (map hex_value s) 0)"

definition hex_text :: "int \<Rightarrow> string" where
  "hex_text n = (let ds = [hex_nibble (nat (n div 4096 mod 16)), hex_nibble (nat (n div 256 mod 16)), hex_nibble (nat (n div 16 mod 16)), hex_nibble (nat (n mod 16))]
     in (case dropWhile (\<lambda>c. c = CHR ''0'') ds of [] \<Rightarrow> ''0'' | t \<Rightarrow> t))"

text \<open>The parts of an IPv6 address, a trailing dotted quad written as two of them.\<close>

definition ipv6_parts :: "string \<Rightarrow> string list option" where
  "ipv6_parts s = (let parts = split_on (CHR '':'') s in
     if length parts < 3 then None
     else if CHR ''.'' \<in> set (last parts) then
       (case ipv4_int (last parts) of None \<Rightarrow> None
        | Some n \<Rightarrow> Some (butlast parts @ [hex_text (n div 65536), hex_text (n mod 65536)]))
     else Some parts)"

definition ipv6_int :: "string \<Rightarrow> int option" where
  "ipv6_int s = (case ipv6_parts s of None \<Rightarrow> None | Some parts \<Rightarrow>
     let n = length parts; gaps = filter (\<lambda>i. parts ! i = []) [1..<n - 1] in
     if n > 9 then None
     else (case gaps of
       [] \<Rightarrow> if n \<noteq> 8 \<or> hd parts = [] \<or> last parts = [] then None else fold_digits 65536 (map hextet parts) 0
     | i # js \<Rightarrow>
         if js \<noteq> [] then None
         else let hi = (if hd parts = [] then i - 1 else i); lo = (if last parts = [] then n - i - 2 else n - i - 1) in
           if hd parts = [] \<and> hi \<noteq> 0 \<or> last parts = [] \<and> lo \<noteq> 0 \<or> hi + lo > 7 then None
           else fold_digits 65536 (map hextet (take hi parts) @ replicate (8 - hi - lo) (Some 0) @
             map hextet (drop (n - lo) parts)) 0))"

text \<open>\<open>ipaddress.ip\_address\<close>; None is its ValueError.\<close>

definition ip_address :: "string \<Rightarrow> ip_address option" where
  "ip_address s = (if CHR ''/'' \<in> set s then None
     else case ipv4_int s of Some n \<Rightarrow> Some (IPv4 n)
     | None \<Rightarrow> (case partition_at (CHR ''%'') s of (a, scoped, z) \<Rightarrow>
         if scoped \<and> (z = [] \<or> CHR ''%'' \<in> set z) then None
         else map_option (\<lambda>n. IPv6 n (if scoped then Some z else None)) (ipv6_int a)))"

definition in_net :: "nat \<Rightarrow> int \<Rightarrow> int \<times> nat \<Rightarrow> bool" where
  "in_net bits n net = (n div 2 ^ (bits - snd net) = fst net div 2 ^ (bits - snd net))"

definition quad :: "int \<Rightarrow> int \<Rightarrow> int \<Rightarrow> int \<Rightarrow> int" where
  "quad a b c d = ((a * 256 + b) * 256 + c) * 256 + d"

definition ipv4_private_nets :: "(int \<times> nat) list" where
  "ipv4_private_nets = [(quad 0 0 0 0, 8), (quad 10 0 0 0, 8), (quad 127 0 0 0, 8), (quad 169 254 0 0, 16),
     (quad 172 16 0 0, 12), (quad 192 0 0 0, 24), (quad 192 0 0 170, 31), (quad 192 0 2 0, 24), (quad 192 168 0 0, 16),
     (quad 198 18 0 0, 15), (quad 198 51 100 0, 24), (quad 203 0 113 0, 24), (quad 240 0 0 0, 4), (quad 255 255 255 255, 32)]"

definition ipv4_private :: "int \<Rightarrow> bool" where
  "ipv4_private n = (list_ex (in_net 32 n) ipv4_private_nets \<and> n \<noteq> quad 192 0 0 9 \<and> n \<noteq> quad 192 0 0 10)"

text \<open>An IPv6 network by its leading hextets.\<close>

definition net6 :: "int list \<Rightarrow> nat \<Rightarrow> int \<times> nat" where
  "net6 hs len = (foldl (\<lambda>n h. 65536 * n + h) 0 (take 8 (hs @ replicate 8 0)), len)"

definition ipv6_private_nets :: "(int \<times> nat) list" where
  "ipv6_private_nets = [net6 [0,0,0,0,0,0,0,1] 128, net6 [] 128, net6 [0,0,0,0,0,0xffff] 96, net6 [0x64,0xff9b,1] 48,
     net6 [0x100] 64, net6 [0x2001] 23, net6 [0x2001,0xdb8] 32, net6 [0x2002] 16, net6 [0xfc00] 7, net6 [0xfe80] 10]"

definition ipv6_private_exceptions :: "(int \<times> nat) list" where
  "ipv6_private_exceptions = [net6 [0x2001,1,0,0,0,0,0,1] 128, net6 [0x2001,1,0,0,0,0,0,2] 128, net6 [0x2001,3] 32,
     net6 [0x2001,4,0x112] 48, net6 [0x2001,0x20] 28, net6 [0x2001,0x30] 28]"

definition ipv6_reserved_nets :: "(int \<times> nat) list" where
  "ipv6_reserved_nets = [net6 [] 8, net6 [0x100] 8, net6 [0x200] 7, net6 [0x400] 6, net6 [0x800] 5, net6 [0x1000] 4,
     net6 [0x4000] 3, net6 [0x6000] 3, net6 [0x8000] 3, net6 [0xa000] 3, net6 [0xc000] 3, net6 [0xe000] 4,
     net6 [0xf000] 5, net6 [0xf800] 6, net6 [0xfe00] 9]"

text \<open>\<open>ip.is\_private or is\_loopback or is\_link\_local or is\_reserved or is\_unspecified\<close>.\<close>

fun ip_blocked :: "ip_address \<Rightarrow> bool" where
  "ip_blocked (IPv4 n) = (ipv4_private n \<or> in_net 32 n (quad 127 0 0 0, 8) \<or> in_net 32 n (quad 169 254 0 0, 16) \<or>
     in_net 32 n (quad 240 0 0 0, 4) \<or> n = 0)"
| "ip_blocked (IPv6 n z) =
     ((if in_net 128 n (net6 [0,0,0,0,0,0xffff] 96) then ipv4_private (n mod 2 ^ 32)
       else list_ex (in_net 128 n) ipv6_private_nets \<and> \<not> list_ex (in_net 128 n) ipv6_private_exceptions) \<or>
      n = 1 \<or> in_net 128 n (net6 [0xfe80] 10) \<or> list_ex (in_net 128 n) ipv6_reserved_nets \<or> n = 0)"

definition hextets :: "int \<Rightarrow> int list" where
  "hextets n = map (\<lambda>i. n div 2 ^ (16 * (7 - i)) mod 65536) [0..<8]"

definition zero_run :: "int list \<Rightarrow> nat \<Rightarrow> nat" where
  "zero_run hs i = length (takeWhile (\<lambda>h. h = 0) (drop i hs))"

text \<open>The first of the longest runs of zero hextets.\<close>

definition best_run :: "int list \<Rightarrow> nat \<times> nat" where
  "best_run hs = foldl (\<lambda>(i, len) j. if zero_run hs j > len then (j, zero_run hs j) else (i, len)) (0, 0) [0..<length hs]"

definition ipv6_text :: "int \<Rightarrow> string" where
  "ipv6_text n = (let hs = hextets n; (i, len) = best_run hs; ts = map hex_text hs in
     if len > 1 then join '':'' ((if i = 0 then [[]] else []) @ take i ts @ [[]] @ drop (i + len) ts @ (if i + len = 8 then [[]] else []))
     else join '':'' ts)"

fun ip_text :: "ip_address \<Rightarrow> string" where
  "ip_text (IPv4 n) = join ''.'' (map int_repr [n div 16777216, n div 65536 mod 256, n div 256 mod 256, n mod 256])"
| "ip_text (IPv6 n z) = ipv6_text n @ (case z of None \<Rightarrow> [] | Some s \<Rightarrow> CHR ''%'' # s)"

subsection \<open>URLs\<close>

record url_parts =
  u_scheme :: string
  u_netloc :: string
  u_path :: string
  u_query :: string

definition is_control :: "char \<Rightarrow> bool" where "is_control c = (code c \<le> 32)"

definition is_letter :: "char \<Rightarrow> bool" where
  "is_letter c = (is_lower_ascii c \<or> is_upper_ascii c)"

definition scheme_char :: "char \<Rightarrow> bool" where
  "scheme_char c = (is_letter c \<or> is_digit c \<or> c \<in> set ''+-.'')"

definition split_scheme :: "string \<Rightarrow> string \<times> string" where
  "split_scheme u = (case partition_at (CHR '':'') u of (s, found, r) \<Rightarrow>
     if found \<and> s \<noteq> [] \<and> is_letter (hd s) \<and> list_all scheme_char s then (lower s, r) else ([], u))"

definition uses_params :: "string list" where
  "uses_params = ['''', ''ftp'', ''hdl'', ''prospero'', ''http'', ''https'', ''shttp'', ''rtsp'', ''rtsps'', ''rtspu'', ''sip'',
     ''sips'', ''mms'', ''sftp'', ''tel'']"

text \<open>The host of a bracketed network location must be an IPv6 address or a future address.\<close>

definition bracketed_host_ok :: "string \<Rightarrow> unit result" where
  "bracketed_host_ok h =
     (if startswith h ''v'' then
        (case partition_at (CHR ''.'') (drop 1 h) of (u, found, v) \<Rightarrow>
          if found \<and> u \<noteq> [] \<and> list_all (\<lambda>c. hex_value c \<noteq> None) u \<and> v \<noteq> [] \<and> list_all (\<lambda>c. c \<noteq> CHR 0x0A) v then Inr ()
          else Inl (ValueError ''IPvFuture address is invalid''))
      else (case ip_address h of
        None \<Rightarrow> Inl (ValueError (py_repr h @ '' does not appear to be an IPv4 or IPv6 address''))
      | Some (IPv4 n) \<Rightarrow> Inl (ValueError ''An IPv4 address cannot be in brackets'')
      | Some (IPv6 n z) \<Rightarrow> Inr ()))"

definition check_bracketed :: "string \<Rightarrow> unit result" where
  "check_bracketed netloc =
     (let hostport = after_last (CHR ''@'') netloc in
      (case partition_at (CHR ''['') hostport of (pre, found, r) \<Rightarrow>
         if found then
           (if pre \<noteq> [] then Inl (ValueError ''Invalid IPv6 URL'')
            else case partition_at (CHR '']'') r of (h, f, port) \<Rightarrow>
              if port \<noteq> [] \<and> \<not> startswith port '':'' then Inl (ValueError ''Invalid IPv6 URL'')
              else bracketed_host_ok h)
         else bracketed_host_ok (before (CHR '':'') hostport)))"

definition clean_url :: "string \<Rightarrow> string" where
  "clean_url raw = filter (\<lambda>c. c \<notin> {CHR 0x09, CHR 0x0A, CHR 0x0D}) (dropWhile is_control raw)"

definition netloc_end :: "char \<Rightarrow> bool" where "netloc_end c = (c \<in> set ''/?#'')"

definition split_netloc :: "string \<Rightarrow> string \<times> string" where
  "split_netloc u = (if startswith u ''//'' then (takeWhile (\<lambda>c. \<not> netloc_end c) (drop 2 u), dropWhile (\<lambda>c. \<not> netloc_end c) (drop 2 u))
     else ([], u))"

definition drop_params :: "string \<Rightarrow> string \<Rightarrow> string" where
  "drop_params scheme p = (let seg = after_last (CHR ''/'') p in
     if scheme \<in> set uses_params \<and> CHR '';'' \<in> set seg then take (length p - length seg) p @ before (CHR '';'') seg else p)"

definition urlparse :: "string \<Rightarrow> url_parts result" where
  "urlparse raw = (case split_scheme (clean_url raw) of (scheme, u1) \<Rightarrow> case split_netloc u1 of (netloc, u2) \<Rightarrow>
      if (CHR ''['' \<in> set netloc) \<noteq> (CHR '']'' \<in> set netloc) then Inl (ValueError ''Invalid IPv6 URL'')
      else try_bind (if CHR ''['' \<in> set netloc then check_bracketed netloc else Inr ()) (\<lambda>_.
        let u3 = before (CHR ''#'') u2 in
        Inr \<lparr>u_scheme = scheme, u_netloc = netloc, u_path = drop_params scheme (before (CHR ''?'') u3), u_query = after (CHR ''?'') u3\<rparr>))"

text \<open>\<open>parsed.hostname\<close> and \<open>parsed.port\<close>.\<close>

definition host_port :: "string \<Rightarrow> string \<times> string" where
  "host_port netloc = (let info = after_last (CHR ''@'') netloc in
     case partition_at (CHR ''['') info of (x, found, r) \<Rightarrow>
       if found then (before (CHR '']'') r, after (CHR '':'') (after (CHR '']'') r))
       else (before (CHR '':'') info, after (CHR '':'') info))"

definition url_hostname :: "url_parts \<Rightarrow> string option" where
  "url_hostname u = (case fst (host_port (u_netloc u)) of [] \<Rightarrow> None
     | h \<Rightarrow> (case partition_at (CHR ''%'') h of (a, found, z) \<Rightarrow> Some (lower a @ (if found then CHR ''%'' # z else []))))"

definition url_port :: "url_parts \<Rightarrow> nat option result" where
  "url_port u = (case snd (host_port (u_netloc u)) of [] \<Rightarrow> Inr None
     | p \<Rightarrow> if list_all is_digit p then
              (if digits_val 0 p \<le> 65535 then Inr (Some (digits_val 0 p)) else Inl (ValueError ''Port out of range 0-65535''))
            else Inl (ValueError (''Port could not be cast to integer value as '' @ py_repr p)))"

lemma partition_at_before: "c \<notin> set (before c s)"
  using partition_at_append [of c s] by (cases "partition_at c s") (auto simp: before_def)

lemma before_hd: "before c s = [] \<or> hd (before c s) = hd s \<and> hd s \<noteq> c"
  by (cases s) (auto simp: before_def split: prod.splits)

lemma after_last_shorter: "c \<in> set s \<Longrightarrow> length (after_last c s) < length s"
proof -
  have "\<exists>x \<in> set xs. \<not> P x \<Longrightarrow> length (takeWhile P xs) < length xs" for P :: "char \<Rightarrow> bool" and xs
    by (induction xs) auto
  from this [of "rev s" "\<lambda>x. x \<noteq> c"] show "c \<in> set s \<Longrightarrow> length (after_last c s) < length s" by (simp add: after_last_def)
qed

lemma drop_params_hd: "p = [] \<or> hd p = CHR ''/'' \<Longrightarrow> drop_params scheme p = [] \<or> hd (drop_params scheme p) = CHR ''/''"
proof (cases p)
  case Nil
  then show ?thesis by (simp add: drop_params_def after_last_def Let_def)
next
  case (Cons x xs)
  let ?seg = "after_last (CHR ''/'') p"
  assume "p = [] \<or> hd p = CHR ''/''"
  with Cons have x: "x = CHR ''/''" by simp
  with Cons have "length ?seg < length p" by (intro after_last_shorter) simp
  then have "take (length p - length ?seg) p \<noteq> []" using Cons by simp
  then have "hd (take (length p - length ?seg) p @ before (CHR '';'') ?seg) = hd p"
    by (simp add: hd_append hd_take)
  with Cons x show ?thesis by (simp add: drop_params_def Let_def)
qed

text \<open>The path of a URL with a network location is empty or absolute.\<close>

lemma url_path_absolute:
  assumes "urlparse raw = Inr u" "u_netloc u \<noteq> []"
  shows "u_path u = [] \<or> hd (u_path u) = CHR ''/''"
proof -
  obtain scheme u1 where s: "split_scheme (clean_url raw) = (scheme, u1)" by (metis prod.exhaust)
  obtain netloc u2 where n: "split_netloc u1 = (netloc, u2)" by (metis prod.exhaust)
  let ?p = "before (CHR ''?'') (before (CHR ''#'') u2)"
  have u: "u_netloc u = netloc" "u_path u = drop_params scheme ?p"
    using assms(1) s n by (auto simp: urlparse_def Let_def result_simps split: if_splits)
  with n assms(2) have "u2 = dropWhile (\<lambda>c. \<not> netloc_end c) (drop 2 u1)" by (auto simp: split_netloc_def split: if_splits)
  then have "u2 = [] \<or> netloc_end (hd u2)" using hd_dropWhile by blast
  then have "?p = [] \<or> hd ?p = CHR ''/''"
    using before_hd [of "CHR ''?''" "before (CHR ''#'') u2"] before_hd [of "CHR ''#''" u2]
    by (auto simp: before_def netloc_end_def)
  with u drop_params_hd show ?thesis by simp
qed

end
