(* ===== verification/Execution.thy ===== *)
theory Execution
  imports Prelude Url
begin

text \<open>
  \<open>src/custos/execution.py\<close>: the adapter that forwards an allowed request to its target, with the
  check of the target, the pinning of the connection to a checked address, and a circuit breaker
  per host. The resolver and the HTTP client are parameters: the resolver gives the addresses of
  a host or raises (\<open>socket.gaierror\<close> is \<open>OSError\<close> here), the client acts on a world of its own.
  Times and timeouts are whole microseconds.
\<close>

subsection \<open>The target check\<close>

definition blocked_prefixes :: "string list" where
  "blocked_prefixes = [''127.'', ''10.'', ''172.16.'', ''172.17.'', ''172.18.'', ''172.19.'', ''172.20.'', ''172.21.'',
     ''172.22.'', ''172.23.'', ''172.24.'', ''172.25.'', ''172.26.'', ''172.27.'', ''172.28.'', ''172.29.'', ''172.30.'',
     ''172.31.'', ''192.168.'', ''169.254.'', ''0.0.0.0'', ''::1'', ''fc00:'', ''fe80:'']"

type_synonym resolver = "string \<Rightarrow> string list result"

text \<open>The resolved addresses that are addresses; the first private one raises.\<close>

fun pin_addresses :: "string \<Rightarrow> string list \<Rightarrow> string list result" where
  "pin_addresses host [] = Inr []"
| "pin_addresses host (s # ss) = (case ip_address s of
     None \<Rightarrow> pin_addresses host ss
   | Some a \<Rightarrow> if ip_blocked a then
         Inl (SSRFError (''Target IP '' @ s @ '' for '' @ quoted host @ '' is private/loopback/reserved''))
       else try_bind (pin_addresses host ss) (\<lambda>pinned. Inr (ip_text a # pinned)))"

definition pin_hostname :: "resolver \<Rightarrow> string \<Rightarrow> string list result" where
  "pin_hostname resolve host =
     (if \<exists>p \<in> set blocked_prefixes. startswith (lower host) (lower p) then
        Inl (SSRFError (''Target hostname '' @ quoted (lower host) @ '' matches blocked prefix''))
      else (case resolve host of
        Inl (OSError m) \<Rightarrow> Inl (SSRFError (''DNS resolution failed for '' @ quoted host @ '' - failing closed: '' @ m))
      | Inl e \<Rightarrow> Inl e
      | Inr addrs \<Rightarrow> try_bind (pin_addresses host addrs) (\<lambda>pinned.
          if pinned = [] then Inl (SSRFError (''DNS returned no usable addresses for '' @ quoted host))
          else Inr (remdups pinned))))"

text \<open>\<open>\_validate\_target\_url\<close>: the URL and the pinned addresses.\<close>

definition validate_target :: "resolver \<Rightarrow> string \<Rightarrow> string list option \<Rightarrow> (string \<times> string list) result" where
  "validate_target resolve url allowlist = try_bind (urlparse url) (\<lambda>u.
     if u_scheme u \<noteq> ''https'' then Inl (SSRFError (''Only HTTPS targets are allowed, got: '' @ u_scheme u))
     else (case url_hostname u of
       None \<Rightarrow> Inl (SSRFError ''Target URL must have a hostname'')
     | Some host \<Rightarrow>
         if (case allowlist of None \<Rightarrow> False | Some hs \<Rightarrow> hs \<noteq> [] \<and> host \<notin> set hs) then
           Inl (SSRFError (''Target host '' @ quoted host @ '' not in allowlist''))
         else (case url_port u of
           Inl e \<Rightarrow> Inl (SSRFError (''Target URL has an invalid port: '' @ exn_text e))
         | Inr port \<Rightarrow>
             if (case port of None \<Rightarrow> False | Some p \<Rightarrow> p = 0 \<or> p < 1024 \<and> p \<noteq> 443) then
               Inl (SSRFError (''Target port '' @ nat_repr (the port) @ '' is privileged''))
             else (case ip_address host of
               Some a \<Rightarrow> if ip_blocked a then Inl (SSRFError (''Target IP '' @ host @ '' is private/loopback/reserved''))
                 else Inr (url, [ip_text a])
             | None \<Rightarrow> try_bind (pin_hostname resolve host) (\<lambda>pinned. Inr (url, pinned))))))"

definition validate_target_url :: "resolver \<Rightarrow> string \<Rightarrow> string list option \<Rightarrow> string result" where
  "validate_target_url resolve url allowlist = try_bind (validate_target resolve url allowlist) (\<lambda>r. Inr (fst r))"

subsection \<open>Circuits\<close>

record circuit_state =
  failure_count :: int
  failure_threshold :: int
  last_failure_time :: int
  reset_timeout :: int

definition circuit_status :: "int \<Rightarrow> circuit_state \<Rightarrow> string" where
  "circuit_status now c = (if failure_count c < failure_threshold c then ''closed''
     else if now - last_failure_time c > reset_timeout c then ''half_open'' else ''open'')"

definition circuit_success :: "circuit_state \<Rightarrow> circuit_state" where
  "circuit_success c = c\<lparr>failure_count := 0\<rparr>"

definition circuit_failure :: "int \<Rightarrow> circuit_state \<Rightarrow> circuit_state" where
  "circuit_failure now c = c\<lparr>failure_count := failure_count c + 1, last_failure_time := now\<rparr>"

definition can_proceed :: "int \<Rightarrow> circuit_state \<Rightarrow> bool" where
  "can_proceed now c = (circuit_status now c \<in> set [''closed'', ''half_open''])"

record http_adapter =
  ha_allowlist :: "string list"
  ha_timeout :: int
  ha_threshold :: int
  ha_reset :: int
  ha_circuits :: "(string \<times> circuit_state) list"

definition new_adapter :: "string list option \<Rightarrow> int \<Rightarrow> int \<Rightarrow> int \<Rightarrow> http_adapter" where
  "new_adapter allowlist timeout threshold reset = \<lparr>ha_allowlist = (case allowlist of None \<Rightarrow> [] | Some hs \<Rightarrow> hs),
     ha_timeout = timeout, ha_threshold = threshold, ha_reset = reset, ha_circuits = []\<rparr>"

definition get_circuit :: "string \<Rightarrow> http_adapter \<Rightarrow> circuit_state \<times> http_adapter" where
  "get_circuit host ad = (case map_of (ha_circuits ad) host of
     Some c \<Rightarrow> (c, ad)
   | None \<Rightarrow> (let c = \<lparr>failure_count = 0, failure_threshold = ha_threshold ad, last_failure_time = 0, reset_timeout = ha_reset ad\<rparr>
       in (c, ad\<lparr>ha_circuits := dict_set host c (ha_circuits ad)\<rparr>)))"

definition put_circuit :: "string \<Rightarrow> circuit_state \<Rightarrow> http_adapter \<Rightarrow> http_adapter" where
  "put_circuit host c ad = ad\<lparr>ha_circuits := dict_set host c (ha_circuits ad)\<rparr>"

definition can_request :: "int \<Rightarrow> string \<Rightarrow> http_adapter \<Rightarrow> bool \<times> http_adapter" where
  "can_request now host ad = (case get_circuit host ad of (c, ad1) \<Rightarrow>
     (case get_circuit ''default'' ad1 of (d, ad2) \<Rightarrow> (can_proceed now c \<and> can_proceed now d, ad2)))"

definition adapter_failure :: "int \<Rightarrow> string \<Rightarrow> http_adapter \<Rightarrow> http_adapter" where
  "adapter_failure now host ad = (case get_circuit host ad of (c, ad1) \<Rightarrow> put_circuit host (circuit_failure now c) ad1)"

definition adapter_success :: "string \<Rightarrow> http_adapter \<Rightarrow> http_adapter" where
  "adapter_success host ad = (if host = ''default''
     then ad\<lparr>ha_circuits := map (\<lambda>(h, c). (h, circuit_success c)) (ha_circuits ad)\<rparr>
     else (case get_circuit host ad of (c, ad1) \<Rightarrow> put_circuit host (circuit_success c) ad1))"

subsection \<open>Forwarding\<close>

record exec_result =
  er_forwarded :: bool
  er_status :: "int option"
  er_body :: "string option"
  er_error :: "string option"
  er_circuit_open :: bool
  er_timing :: int

record http_request =
  hr_method :: string
  hr_url :: string
  hr_content :: string
  hr_headers :: "(string \<times> string) list"
  hr_timeout :: int
  hr_sni :: string

datatype http_answer = Response int string | HttpTimeout | HttpConnectError | HttpFailed string string

definition not_forwarded :: "string \<Rightarrow> bool \<Rightarrow> int \<Rightarrow> exec_result" where
  "not_forwarded msg opened timing = \<lparr>er_forwarded = False, er_status = None, er_body = None, er_error = Some msg,
     er_circuit_open = opened, er_timing = timing\<rparr>"

definition target_host :: "string \<Rightarrow> string result" where
  "target_host url = try_bind (urlparse url) (\<lambda>u. Inr (lower (case url_hostname u of None \<Rightarrow> url | Some h \<Rightarrow> h)))"

text \<open>\<open>sorted(pinned, key=lambda a: (":" in a, a))[0]\<close>: IPv4 addresses come first.\<close>

definition pinned_first :: "string list \<Rightarrow> string" where
  "pinned_first ips = (case sort (filter (\<lambda>a. CHR '':'' \<notin> set a) ips) of
     a # as \<Rightarrow> a | [] \<Rightarrow> hd (sort ips))"

definition build_request ::
  "http_adapter \<Rightarrow> url_parts \<Rightarrow> string \<Rightarrow> string \<Rightarrow> string \<Rightarrow> string \<Rightarrow> (string \<times> string) list option \<Rightarrow> int option \<Rightarrow> http_request" where
  "build_request ad u host ip meth content headers timeout =
     (let base = fold (\<lambda>(k, v) d. dict_set k v d) (case headers of None \<Rightarrow> [] | Some hs \<Rightarrow> hs) [(''Content-Type'', ''application/json'')];
          port = (case url_port u of Inr (Some p) \<Rightarrow> if p \<noteq> 0 then CHR '':'' # nat_repr p else [] | _ \<Rightarrow> []) in
      \<lparr>hr_method = meth,
       hr_url = ''https://'' @ (if CHR '':'' \<in> set ip then ''['' @ ip @ '']'' else ip) @ port @
         (if u_path u = [] then ''/'' else u_path u) @ (if u_query u = [] then [] else CHR ''?'' # u_query u),
       hr_content = content, hr_headers = dict_set ''Host'' host base,
       hr_timeout = (case timeout of Some t \<Rightarrow> if t \<noteq> 0 then t else ha_timeout ad | None \<Rightarrow> ha_timeout ad),
       hr_sni = host\<rparr>)"

text \<open>\<open>forward\<close>: \<open>t0\<close> when it starts, \<open>t1\<close> when the circuits are read, \<open>t2\<close> when it ends.\<close>

definition forward ::
  "resolver \<Rightarrow> (http_request \<Rightarrow> 'w \<Rightarrow> 'w \<times> http_answer) \<Rightarrow> int \<Rightarrow> int \<Rightarrow> int \<Rightarrow> string \<Rightarrow> string \<Rightarrow> string \<Rightarrow>
   (string \<times> string) list option \<Rightarrow> int option \<Rightarrow> http_adapter \<times> 'w \<Rightarrow> (http_adapter \<times> 'w) \<times> exec_result result" where
  "forward resolve client t0 t1 t2 url meth content headers timeout adw = (case adw of (ad, w) \<Rightarrow>
     (case target_host url of
        Inl e \<Rightarrow> ((ad, w), Inl e)
      | Inr host \<Rightarrow> (case validate_target resolve url (Some (ha_allowlist ad)) of
          Inl (SSRFError m) \<Rightarrow> ((ad, w), Inr (not_forwarded (''SSRF blocked: '' @ m) False (t2 - t0)))
        | Inl e \<Rightarrow> ((ad, w), Inl e)
        | Inr (checked, ips) \<Rightarrow> (case can_request t1 host ad of (ok, ad1) \<Rightarrow>
            if \<not> ok then ((ad1, w), Inr (not_forwarded ''Circuit breaker open'' True (t2 - t0)))
            else (case urlparse url of
              Inl e \<Rightarrow> ((adapter_failure t2 host ad1, w),
                Inr (not_forwarded (''Forwarding failed: '' @ exn_type e @ '': '' @ exn_text e) False (t2 - t0)))
            | Inr u \<Rightarrow>
                let h = (case url_hostname u of None \<Rightarrow> [] | Some h \<Rightarrow> h) in
                (case client (build_request ad u h (pinned_first ips) meth content headers timeout) w of (w', ans) \<Rightarrow>
                  (case ans of
                     Response st body \<Rightarrow> ((adapter_success host ad1, w'),
                       Inr \<lparr>er_forwarded = True, er_status = Some st, er_body = (if body = [] then None else Some (take 500 body)),
                         er_error = None, er_circuit_open = False, er_timing = t2 - t0\<rparr>)
                   | HttpTimeout \<Rightarrow> ((adapter_failure t2 host ad1, w'), Inr (not_forwarded ''Downstream timeout'' False (t2 - t0)))
                   | HttpConnectError \<Rightarrow> ((adapter_failure t2 host ad1, w'), Inr (not_forwarded ''Downstream connection refused'' False (t2 - t0)))
                   | HttpFailed ty msg \<Rightarrow> ((adapter_failure t2 host ad1, w'),
                       Inr (not_forwarded (''Forwarding failed: '' @ ty @ '': '' @ msg) False (t2 - t0))))))))))"

subsection \<open>Checked requests\<close>

lemma pin_addresses_public:
  "pin_addresses host ss = Inr ips \<Longrightarrow> s \<in> set ss \<Longrightarrow> ip_address s = Some a \<Longrightarrow> \<not> ip_blocked a"
  by (induction ss arbitrary: ips) (auto simp: result_simps split: option.splits if_splits)

lemma pin_addresses_source:
  "pin_addresses host ss = Inr ips \<Longrightarrow> ip \<in> set ips \<Longrightarrow> \<exists>s \<in> set ss. \<exists>a. ip_address s = Some a \<and> ip = ip_text a"
proof (induction ss arbitrary: ips)
  case (Cons t ss)
  then show ?case by (auto simp: result_simps split: option.splits if_splits)
qed simp

lemma pinned_first_in: "ips \<noteq> [] \<Longrightarrow> pinned_first ips \<in> set ips"
proof (cases "sort (filter (\<lambda>a. CHR '':'' \<notin> set a) ips)")
  case Nil
  assume "ips \<noteq> []"
  then have "sort ips \<noteq> []" by (metis set_empty set_sort)
  then have "hd (sort ips) \<in> set ips" by (metis hd_in_set set_sort)
  with Nil show ?thesis by (simp add: pinned_first_def)
next
  case (Cons a as)
  then have "a \<in> set (sort (filter (\<lambda>a. CHR '':'' \<notin> set a) ips))" by simp
  then have "a \<in> set ips" by simp
  with Cons show ?thesis by (simp add: pinned_first_def)
qed

text \<open>The address a request may go to: the literal host, or one the resolver gave, none of them blocked.\<close>

definition address_ok :: "resolver \<Rightarrow> string \<Rightarrow> ip_address \<Rightarrow> bool" where
  "address_ok resolve host a \<longleftrightarrow> \<not> ip_blocked a \<and> (ip_address host = Some a \<or>
     ip_address host = None \<and> (\<exists>addrs s. resolve host = Inr addrs \<and> s \<in> set addrs \<and> ip_address s = Some a \<and>
       (\<forall>s' \<in> set addrs. \<forall>b. ip_address s' = Some b \<longrightarrow> \<not> ip_blocked b)))"

lemma validate_target_pins:
  assumes "validate_target resolve url (Some hs) = Inr (checked, ips)"
  obtains u host where "urlparse url = Inr u" "u_scheme u = ''https''" "url_hostname u = Some host" "checked = url"
    "hs \<noteq> [] \<longrightarrow> host \<in> set hs" "ips \<noteq> []" "\<forall>ip \<in> set ips. \<exists>a. ip = ip_text a \<and> address_ok resolve host a"
proof -
  obtain u where u: "urlparse url = Inr u" using assms by (auto simp: validate_target_def result_simps)
  obtain host where h: "url_hostname u = Some host" "u_scheme u = ''https''"
    using assms u by (auto simp: validate_target_def split: if_splits option.splits)
  have a: "hs \<noteq> [] \<longrightarrow> host \<in> set hs" using assms u h by (auto simp: validate_target_def split: if_splits)
  have c: "checked = url \<and> (case ip_address host of Some a \<Rightarrow> \<not> ip_blocked a \<and> ips = [ip_text a]
      | None \<Rightarrow> pin_hostname resolve host = Inr ips)"
    using assms u h by (auto simp: validate_target_def result_simps split: if_splits option.splits sum.splits)
  have "ips \<noteq> [] \<and> (\<forall>ip \<in> set ips. \<exists>a. ip = ip_text a \<and> address_ok resolve host a)"
  proof (cases "ip_address host")
    case (Some a)
    with c show ?thesis by (auto simp: address_ok_def)
  next
    case None
    with c obtain addrs pinned where r: "resolve host = Inr addrs" "pin_addresses host addrs = Inr pinned" "pinned \<noteq> []"
        "ips = remdups pinned"
      by (auto simp: pin_hostname_def result_simps split: if_splits sum.splits exn.splits)
    have "\<exists>a. ip = ip_text a \<and> address_ok resolve host a" if "ip \<in> set ips" for ip
    proof -
      from that r(4) have "ip \<in> set pinned" by simp
      from pin_addresses_source [OF r(2) this] obtain s a where "s \<in> set addrs" "ip_address s = Some a" "ip = ip_text a" by blast
      with None r(1) pin_addresses_public [OF r(2)] show ?thesis by (auto simp: address_ok_def)
    qed
    with r(3,4) show ?thesis by simp
  qed
  with that u h a c show thesis by blast
qed

text \<open>What the client was asked to send.\<close>

definition logged :: "(http_request \<Rightarrow> 'w \<Rightarrow> 'w \<times> http_answer) \<Rightarrow> http_request \<Rightarrow> http_request list \<times> 'w \<Rightarrow>
    (http_request list \<times> 'w) \<times> http_answer" where
  "logged client rq lw = (case client rq (snd lw) of (w', ans) \<Rightarrow> ((fst lw @ [rq], w'), ans))"

definition ip_in_url :: "string \<Rightarrow> string" where
  "ip_in_url ip = (if CHR '':'' \<in> set ip then ''['' @ ip @ '']'' else ip)"

text \<open>A request pinned to a checked address of the URL's host.\<close>

definition pinned_request :: "resolver \<Rightarrow> string list \<Rightarrow> string \<Rightarrow> string \<Rightarrow> http_request \<Rightarrow> bool" where
  "pinned_request resolve hs url content rq \<longleftrightarrow> (\<exists>u host a port path. urlparse url = Inr u \<and> u_scheme u = ''https'' \<and>
     url_hostname u = Some host \<and> (hs \<noteq> [] \<longrightarrow> host \<in> set hs) \<and> address_ok resolve host a \<and>
     hr_url rq = ''https://'' @ ip_in_url (ip_text a) @ port @ path \<and> (port = [] \<or> (\<exists>n. port = CHR '':'' # nat_repr n)) \<and>
     path \<noteq> [] \<and> hd path = CHR ''/'' \<and> hr_sni rq = host \<and> map_of (hr_headers rq) ''Host'' = Some host \<and> hr_content rq = content)"

lemma hostname_netloc: "url_hostname u = Some host \<Longrightarrow> u_netloc u \<noteq> []"
  by (auto simp: url_hostname_def host_port_def after_last_def before_def split: list.splits prod.splits)

lemma build_request_pinned:
  assumes "validate_target resolve url (Some hs) = Inr (checked, ips)" "urlparse url = Inr u"
  shows "pinned_request resolve hs url content
    (build_request ad u (case url_hostname u of None \<Rightarrow> [] | Some h \<Rightarrow> h) (pinned_first ips) meth content headers timeout)"
proof -
  from assms(1) obtain host where v: "u_scheme u = ''https''" "url_hostname u = Some host" "hs \<noteq> [] \<longrightarrow> host \<in> set hs" "ips \<noteq> []"
      "\<forall>ip \<in> set ips. \<exists>a. ip = ip_text a \<and> address_ok resolve host a"
    by (rule validate_target_pins) (use assms(2) in auto)
  from v(4,5) pinned_first_in obtain a where a: "pinned_first ips = ip_text a" "address_ok resolve host a" by blast
  let ?port = "case url_port u of Inr (Some p) \<Rightarrow> if p \<noteq> 0 then CHR '':'' # nat_repr p else [] | _ \<Rightarrow> []"
  let ?path = "(if u_path u = [] then ''/'' else u_path u) @ (if u_query u = [] then [] else CHR ''?'' # u_query u)"
  have "?port = [] \<or> (\<exists>n. ?port = CHR '':'' # nat_repr n)" by (auto split: sum.splits option.splits)
  moreover have "?path \<noteq> [] \<and> hd ?path = CHR ''/''"
    using url_path_absolute [OF assms(2) hostname_netloc [OF v(2)]] by auto
  ultimately show ?thesis unfolding pinned_request_def
    by (intro exI [of _ u] exI [of _ host] exI [of _ a] exI [of _ ?port] exI [of _ ?path])
       (simp add: v(1,2,3) a assms(2) build_request_def ip_in_url_def Let_def)
qed

lemma can_request_frame [simp]:
  "fst (can_request now host ad) \<Longrightarrow> ha_allowlist (snd (can_request now host ad)) = ha_allowlist ad"
  by (simp add: can_request_def get_circuit_def put_circuit_def Let_def split: option.splits prod.splits)

text \<open>What a call of \<open>forward\<close> may do: nothing, or one request after both checks passed.\<close>

lemma forward_cases:
  assumes "forward resolve client t0 t1 t2 url meth content headers timeout (ad, w) = ((ad', w'), res)"
  obtains (quiet) "w' = w" "\<And>r. res = Inr r \<Longrightarrow> \<not> er_forwarded r"
  | (sent) u checked ips ad1 host where "urlparse url = Inr u" "target_host url = Inr host"
      "validate_target resolve url (Some (ha_allowlist ad)) = Inr (checked, ips)" "can_request t1 host ad = (True, ad1)"
      "w' = fst (client (build_request ad u (case url_hostname u of None \<Rightarrow> [] | Some h \<Rightarrow> h) (pinned_first ips) meth content headers timeout) w)"
      "\<exists>r. res = Inr r"
proof (cases "target_host url")
  case (Inl e)
  with assms have "w' = w \<and> (\<forall>r. res = Inr r \<longrightarrow> \<not> er_forwarded r)" by (auto simp: forward_def)
  with quiet show ?thesis by blast
next
  case host: (Inr host)
  show ?thesis
  proof (cases "validate_target resolve url (Some (ha_allowlist ad))")
    case (Inl e)
    with assms host have "w' = w \<and> (\<forall>r. res = Inr r \<longrightarrow> \<not> er_forwarded r)"
      by (cases e) (auto simp: forward_def not_forwarded_def)
    with quiet show ?thesis by blast
  next
    case v: (Inr pinned)
    obtain checked ips where p: "pinned = (checked, ips)" by (cases pinned)
    obtain ok ad1 where c: "can_request t1 host ad = (ok, ad1)" by (metis prod.exhaust)
    obtain u where u: "urlparse url = Inr u" using host by (auto simp: target_host_def result_simps)
    show ?thesis
    proof (cases ok)
      case False
      with assms host v p c have "w' = w \<and> (\<forall>r. res = Inr r \<longrightarrow> \<not> er_forwarded r)"
        by (auto simp: forward_def not_forwarded_def)
      with quiet show ?thesis by blast
    next
      case True
      let ?rq = "build_request ad u (case url_hostname u of None \<Rightarrow> [] | Some h \<Rightarrow> h) (pinned_first ips) meth content headers timeout"
      obtain w1 ans where cl: "client ?rq w = (w1, ans)" by (metis prod.exhaust)
      from assms host v p c True u cl have "w' = w1 \<and> (\<exists>r. res = Inr r)"
        by (cases ans) (auto simp: forward_def Let_def)
      with sent [OF u host v [unfolded p] _ _ ] c True cl show ?thesis by simp
    qed
  qed
qed

lemma forward_log:
  assumes "forward resolve (logged client) t0 t1 t2 url meth content headers timeout (ad, ([], w)) = ((ad', (log, w')), res)"
  shows "(log = [] \<and> (\<forall>r. res \<noteq> Inr r \<or> \<not> er_forwarded r)) \<or>
    (\<exists>rq host. log = [rq] \<and> pinned_request resolve (ha_allowlist ad) url content rq \<and>
      target_host url = Inr host \<and> fst (can_request t1 host ad))"
  using assms
proof (cases rule: forward_cases)
  case quiet
  then show ?thesis by auto
next
  case (sent u checked ips ad1 host)
  let ?rq = "build_request ad u (case url_hostname u of None \<Rightarrow> [] | Some h \<Rightarrow> h) (pinned_first ips) meth content headers timeout"
  from sent(5) have "(log, w') = fst (logged client ?rq ([], w))" .
  then have "log = [?rq]" by (simp add: logged_def split: prod.splits)
  with build_request_pinned [OF sent(3,1)] sent(2,4) show ?thesis by auto
qed

subsection \<open>Properties\<close>

text \<open>C25: the adapter contacts nothing it has not checked: a call of \<open>forward\<close> sends at most one
  request, none when it reports the call as not forwarded before that, and the request it sends
  goes over https, on an absolute path, to an address of the URL's own host that is not private,
  loopback, link-local, reserved or unspecified, with no other address of that host being so; the
  host is on the allowlist if there is one, and is what the TLS name and the Host header say.\<close>

theorem forward_contacts_checked_address:
  assumes "forward resolve (logged client) t0 t1 t2 url meth content headers timeout (ad, ([], w)) = ((ad', (log, w')), res)"
  shows "(log = [] \<and> (\<forall>r. res \<noteq> Inr r \<or> \<not> er_forwarded r)) \<or>
    (\<exists>rq host. log = [rq] \<and> pinned_request resolve (ha_allowlist ad) url content rq \<and>
      target_host url = Inr host \<and> fst (can_request t1 host ad))"
  using assms by (rule forward_log)

definition demo_resolve :: resolver where "demo_resolve h = Inr [''8.8.8.8'', ''2606:4700::1'']"

definition demo_client :: "http_request \<Rightarrow> unit \<Rightarrow> unit \<times> http_answer" where "demo_client rq w = (w, Response 200 ''ok'')"

lemma demo_forward:
  "map_sum id er_forwarded (snd (forward demo_resolve (logged demo_client) 0 1 2 ''https://a.io/x'' ''POST'' ''hi'' None None
     (new_adapter None 10 5 30, ([], ())))) = Inr True"
  by code_simp

theorem forward_contacts_checked_address_witness:
  "\<exists>ad' rq w' res. forward demo_resolve (logged demo_client) 0 1 2 ''https://a.io/x'' ''POST'' ''hi'' None None
     (new_adapter None 10 5 30, ([], ())) = ((ad', ([rq], w')), res) \<and> pinned_request demo_resolve [] ''https://a.io/x'' ''hi'' rq"
proof -
  obtain ad' log w' res where run: "forward demo_resolve (logged demo_client) 0 1 2 ''https://a.io/x'' ''POST'' ''hi'' None None
     (new_adapter None 10 5 30, ([], ())) = ((ad', (log, w')), res)" by (metis prod.exhaust)
  have "map_sum id er_forwarded res = Inr True" using demo_forward run by simp
  then obtain r where "res = Inr r" "er_forwarded r" by (cases res) auto
  with forward_contacts_checked_address [OF run] obtain rq where "log = [rq]"
      "pinned_request demo_resolve (ha_allowlist (new_adapter None 10 5 30)) ''https://a.io/x'' ''hi'' rq" by auto
  with run show ?thesis by (simp add: new_adapter_def)
qed

subsection \<open>The circuit of a host\<close>

lemma failures_add_up:
  "failure_count (fold circuit_failure ts c) = failure_count c + int (length ts)"
  "failure_threshold (fold circuit_failure ts c) = failure_threshold c" "reset_timeout (fold circuit_failure ts c) = reset_timeout c"
  by (induction ts arbitrary: c) (simp_all add: circuit_failure_def)

lemma last_failure: "ts \<noteq> [] \<Longrightarrow> last_failure_time (fold circuit_failure ts c) = last ts"
  by (induction ts arbitrary: c rule: rev_induct) (simp_all add: circuit_failure_def)

text \<open>
  As many failures in a row as the threshold open the circuit until the reset time has passed
  since the last; then one call may pass, and a success closes it.
\<close>

lemma circuit_opens:
  assumes "failure_threshold c \<le> failure_count c + int (length ts)" "ts \<noteq> []"
  shows "can_proceed now (fold circuit_failure ts c) \<longleftrightarrow> now - last ts > reset_timeout c"
  using assms by (simp add: can_proceed_def circuit_status_def failures_add_up last_failure)

lemma success_closes: "0 < failure_threshold c \<Longrightarrow> can_proceed now (circuit_success c)"
  by (simp add: can_proceed_def circuit_status_def circuit_success_def)

subsection \<open>Where the adapter departs from what it says\<close>

text \<open>
  \<open>forward\<close> is documented never to raise, but it parses the URL before its first handler: a URL
  that \<open>urlparse\<close> refuses makes it raise.
\<close>

lemma bad_url_raises:
  assumes "urlparse url = Inl e"
  shows "forward resolve client t0 t1 t2 url meth content headers timeout (ad, w) = ((ad, w), Inl e)"
  using assms by (simp add: forward_def target_host_def)

lemma bad_url_example: "urlparse ''https://[::1'' = Inl (ValueError ''Invalid IPv6 URL'')"
  by code_simp

text \<open>The parameters of the last path segment are not part of \<open>parsed.path\<close>, so they are not forwarded.\<close>

lemma params_not_forwarded:
  "map_sum id (\<lambda>u. hr_url (build_request (new_adapter None 10 5 30) u ''a.io'' ''8.8.8.8'' ''GET'' [] None None)) (urlparse ''https://a.io/f;v=1'') =
     Inr ''https://8.8.8.8/f''"
  by code_simp

end
