(* ===== verification/Firewall.thy ===== *)
theory Firewall
  imports Execution Policy_Factory Validation Rate_Limiter Audit_Store
begin

text \<open>
  \<open>src/custos/firewall.py\<close>: the pipeline of one execution request: validate, rate limit, evaluate,
  forward or block, record. It is composed from the models of the validator, the limiter, the
  policy engines, the audit chain and the execution adapter. Tracing contributes the trace id.
\<close>

record firewall_result =
  fr_allowed :: bool
  fr_action :: string
  fr_rule :: "string option"
  fr_reason :: string
  fr_forwarded :: bool
  fr_status :: "int option"
  fr_preview :: "string option"
  fr_circuit_open :: bool
  fr_hash :: "string option"
  fr_trace :: "string option"
  fr_timing :: int

record 'w firewall =
  fw_engine :: engine
  fw_limiter :: rate_limiter
  fw_chain :: audit_chain
  fw_store :: audit_store
  fw_adapter :: http_adapter
  fw_world :: 'w

record firewall_request =
  rq_client :: string
  rq_content :: string
  rq_tenant :: string
  rq_tokens :: int
  rq_url :: string
  rq_method :: string
  rq_headers :: "(string \<times> string) list option"
  rq_timeout :: int
  rq_rate_key :: "string option"

text \<open>What the environment contributes to one call: the clock at its steps, the server, resolver and faults.\<close>

record firewall_input =
  fi_env :: environment
  fi_post :: opa_server
  fi_resolve :: resolver
  fi_trace :: "string option"
  fi_t0 :: int
  fi_t1 :: int
  fi_t2 :: int
  fi_fault :: "store_fault option"

definition stopped_result :: "string \<Rightarrow> string option \<Rightarrow> string \<Rightarrow> string option \<Rightarrow> firewall_input \<Rightarrow> firewall_result" where
  "stopped_result act rule why h inp = \<lparr>fr_allowed = False, fr_action = act, fr_rule = rule, fr_reason = why,
     fr_forwarded = False, fr_status = None, fr_preview = None, fr_circuit_open = False, fr_hash = h,
     fr_trace = fi_trace inp, fr_timing = fi_t2 inp - fi_t0 inp\<rparr>"

text \<open>\<open>self.\_audit.record(client\_id, action, reason, content, triggered\_rule=..., trace\_id=...)\<close>.\<close>

definition firewall_args :: "firewall_input \<Rightarrow> firewall_request \<Rightarrow> string \<Rightarrow> string \<Rightarrow> string option \<Rightarrow> record_args" where
  "firewall_args inp q act why rule = (call_args (rq_client q) act why (rq_content q))\<lparr>ra_rule := rule, ra_trace := fi_trace inp\<rparr>"

definition firewall_record ::
  "firewall_input \<Rightarrow> record_args \<Rightarrow> 'w firewall \<Rightarrow> 'w firewall \<times> audit_record result" where
  "firewall_record inp a fw = (case chain_record (fi_env inp) (fi_t2 inp) (fi_fault inp) a (fw_chain fw, fw_store fw) of
     ((c, st), res) \<Rightarrow> (fw\<lparr>fw_chain := c, fw_store := st\<rparr>, res))"

definition block_and_record ::
  "firewall_input \<Rightarrow> firewall_request \<Rightarrow> string \<Rightarrow> string option \<Rightarrow> string \<Rightarrow> string option \<Rightarrow> 'w firewall \<Rightarrow>
   'w firewall \<times> firewall_result result" where
  "block_and_record inp q act rule why rec_rule fw =
     (case firewall_record inp (firewall_args inp q act why rec_rule) fw of
        (fw', Inl e) \<Rightarrow> (fw', Inl e)
      | (fw', Inr r) \<Rightarrow> (fw', Inr (stopped_result act rule why (Some (record_hash r)) inp)))"

definition outcome_action :: "exec_result \<Rightarrow> string" where
  "outcome_action x = (if er_forwarded x then ''forwarded'' else if er_circuit_open x then ''circuit_open'' else ''forward_failed'')"

definition outcome_reason :: "string \<Rightarrow> exec_result \<Rightarrow> string" where
  "outcome_reason url x = (if er_forwarded x
       then ''Forwarded to '' @ url @ '' (HTTP '' @ (case er_status x of None \<Rightarrow> ''None'' | Some n \<Rightarrow> int_repr n) @ '')''
     else if er_circuit_open x then ''Circuit breaker open, request not forwarded''
     else ''Forward failed: '' @ (case er_error x of None \<Rightarrow> ''None'' | Some m \<Rightarrow> m))"

text \<open>The key of the limiter, and what is recorded and answered after the forward.\<close>

definition request_key :: "firewall_request \<Rightarrow> string" where
  "request_key q = (case rq_rate_key q of None \<Rightarrow> rq_client q | Some k \<Rightarrow> if k = [] then rq_client q else k)"

definition forward_answer :: "firewall_input \<Rightarrow> firewall_request \<Rightarrow> policy_result \<Rightarrow> exec_result \<Rightarrow> audit_record \<Rightarrow> firewall_result" where
  "forward_answer inp q d x r = \<lparr>fr_allowed = True,
     fr_action = (if er_forwarded x then action_value (res_action d) else outcome_action x),
     fr_rule = triggered_rule d, fr_reason = (if er_forwarded x then res_reason d else outcome_reason (rq_url q) x),
     fr_forwarded = er_forwarded x, fr_status = er_status x, fr_preview = er_body x,
     fr_circuit_open = er_circuit_open x, fr_hash = Some (record_hash r), fr_trace = fi_trace inp,
     fr_timing = fi_t2 inp - fi_t0 inp\<rparr>"

definition conclude_forward ::
  "firewall_input \<Rightarrow> firewall_request \<Rightarrow> policy_result \<Rightarrow> exec_result \<Rightarrow> 'w firewall \<Rightarrow> 'w firewall \<times> firewall_result result" where
  "conclude_forward inp q d x fw =
     (case firewall_record inp (firewall_args inp q (outcome_action x) (outcome_reason (rq_url q) x) (triggered_rule d)) fw of
        (fw', Inl e) \<Rightarrow> (fw', Inl e)
      | (fw', Inr r) \<Rightarrow> (fw', Inr (forward_answer inp q d x r)))"

definition enforce ::
  "firewall_input \<Rightarrow> (http_request \<Rightarrow> 'w \<Rightarrow> 'w \<times> http_answer) \<Rightarrow> firewall_request \<Rightarrow> 'w firewall \<Rightarrow>
   'w firewall \<times> firewall_result result" where
  "enforce inp client q fw =
     (let val = validate_request (JStr (rq_client q)) (JStr (rq_content q)) (JInt (rq_tokens q)) in
      if \<not> valid val then (fw, Inr (stopped_result ''blocked'' None
        (''Validation failed: '' @ (case error val of None \<Rightarrow> ''None'' | Some m \<Rightarrow> m)) None inp))
      else (case check_and_consume (request_key q) (rq_tokens q) (fi_t1 inp) (fw_limiter fw) of
           (rl, Inl e) \<Rightarrow> (fw\<lparr>fw_limiter := rl\<rparr>, Inl e)
         | (rl, Inr (ok, msg)) \<Rightarrow>
             let fw1 = fw\<lparr>fw_limiter := rl\<rparr> in
             if \<not> ok then block_and_record inp q ''rate_limited'' None msg None fw1
             else (case engine_evaluate (fi_post inp) (fw_engine fw) (rq_content q) of
               Inl e \<Rightarrow> (fw1, Inl e)
             | Inr d \<Rightarrow>
                 if \<not> allowed d then
                   block_and_record inp q (action_value (res_action d)) (triggered_rule d) (res_reason d) (triggered_rule d) fw1
                 else (case forward (fi_resolve inp) client (fi_t0 inp) (fi_t1 inp) (fi_t2 inp) (rq_url q) (rq_method q)
                     (rq_content q) (rq_headers q) (Some (rq_timeout q)) (fw_adapter fw, fw_world fw) of
                   ((ad, w), Inl e) \<Rightarrow> (fw1\<lparr>fw_adapter := ad, fw_world := w\<rparr>, Inl e)
                 | ((ad, w), Inr x) \<Rightarrow> conclude_forward inp q d x (fw1\<lparr>fw_adapter := ad, fw_world := w\<rparr>)))))"

subsection \<open>What one call leaves\<close>

lemma firewall_record_result:
  assumes "firewall_record inp a fw = (fw', Inr r)"
  shows "\<exists>c st. fw' = fw\<lparr>fw_chain := c, fw_store := st\<rparr> \<and> ac_records c = ac_records (fw_chain fw) @ [r] \<and>
    ar_action r = ra_action a \<and> content_hash r = sha256_text (ra_content a) \<and> ar_rule r = ra_rule a \<and> trace_id r = ra_trace a"
proof -
  obtain c st out where rec: "chain_record (fi_env inp) (fi_t2 inp) (fi_fault inp) a (fw_chain fw, fw_store fw) = ((c, st), out)"
    by (metis prod.exhaust)
  with assms have out: "out = Inr r" "fw' = fw\<lparr>fw_chain := c, fw_store := st\<rparr>" by (simp_all add: firewall_record_def)
  note r = chain_record_Inr [OF rec [unfolded out]]
  from seal_entry_Inr [OF r [THEN conjunct1]] r out show ?thesis by (auto simp: hash_content_def)
qed

lemma firewall_record_refused:
  assumes "firewall_record inp a fw = (fw', Inl e)"
  shows "fw' = fw"
proof -
  obtain c st out where rec: "chain_record (fi_env inp) (fi_t2 inp) (fi_fault inp) a (fw_chain fw, fw_store fw) = ((c, st), out)"
    by (metis prod.exhaust)
  with assms have out: "out = Inl e" "fw' = fw\<lparr>fw_chain := c, fw_store := st\<rparr>" by (simp_all add: firewall_record_def)
  with chain_record_Inl [OF rec [unfolded out]] show ?thesis by simp
qed

lemma block_and_record_cases:
  assumes "block_and_record inp q act rule why rec_rule fw = (fw', res)"
  shows "(\<exists>e. res = Inl e \<and> fw' = fw) \<or> (\<exists>r c st. res = Inr (stopped_result act rule why (Some (record_hash r)) inp) \<and>
    fw' = fw\<lparr>fw_chain := c, fw_store := st\<rparr> \<and> ac_records c = ac_records (fw_chain fw) @ [r] \<and> ar_action r = act \<and>
    content_hash r = sha256_text (rq_content q) \<and> trace_id r = fi_trace inp)"
proof (cases "firewall_record inp (firewall_args inp q act why rec_rule) fw")
  case (Pair fw1 out)
  show ?thesis
  proof (cases out)
    case (Inl e)
    with Pair assms have "res = Inl e" "fw' = fw1" by (simp_all add: block_and_record_def)
    with firewall_record_refused [OF Pair [unfolded Inl]] show ?thesis by simp
  next
    case (Inr r)
    with Pair assms have "res = Inr (stopped_result act rule why (Some (record_hash r)) inp)" "fw' = fw1"
      by (simp_all add: block_and_record_def)
    with firewall_record_result [OF Pair [unfolded Inr]] show ?thesis
      by (auto simp: firewall_args_def call_args_def)
  qed
qed

lemma conclude_forward_cases:
  assumes "conclude_forward inp q d x fw = (fw', res)"
  shows "(\<exists>e. res = Inl e \<and> fw' = fw) \<or> (\<exists>out r c st. res = Inr out \<and> fr_hash out = Some (record_hash r) \<and>
    fr_forwarded out = er_forwarded x \<and> fw' = fw\<lparr>fw_chain := c, fw_store := st\<rparr> \<and> ac_records c = ac_records (fw_chain fw) @ [r] \<and>
    ar_action r = outcome_action x \<and> content_hash r = sha256_text (rq_content q) \<and> trace_id r = fi_trace inp)"
proof (cases "firewall_record inp (firewall_args inp q (outcome_action x) (outcome_reason (rq_url q) x) (triggered_rule d)) fw")
  case (Pair fw1 out)
  show ?thesis
  proof (cases out)
    case (Inl e)
    with Pair assms have "res = Inl e" "fw' = fw1" by (simp_all add: conclude_forward_def)
    with firewall_record_refused [OF Pair [unfolded Inl]] show ?thesis by simp
  next
    case (Inr r)
    with Pair assms have "res = Inr (forward_answer inp q d x r)" "fw' = fw1"
      by (simp_all add: conclude_forward_def)
    moreover have "fr_hash (forward_answer inp q d x r) = Some (record_hash r)"
      "fr_forwarded (forward_answer inp q d x r) = er_forwarded x" by (simp_all add: forward_answer_def)
    ultimately show ?thesis using firewall_record_result [OF Pair [unfolded Inr]]
      by (auto simp: firewall_args_def call_args_def)
  qed
qed

lemma enforce_cases:
  assumes "enforce inp client q fw = (fw', res)"
  obtains (invalid) m where "fw' = fw" "res = Inr (stopped_result ''blocked'' None m None inp)"
  | (stopped) rl e where "fw' = fw\<lparr>fw_limiter := rl\<rparr>" "res = Inl e"
  | (blocked) rl act rule why rec where "block_and_record inp q act rule why rec (fw\<lparr>fw_limiter := rl\<rparr>) = (fw', res)"
  | (passed) rl msg d ad w fres where
      "valid (validate_request (JStr (rq_client q)) (JStr (rq_content q)) (JInt (rq_tokens q)))"
      "check_and_consume (request_key q) (rq_tokens q) (fi_t1 inp) (fw_limiter fw) = (rl, Inr (True, msg))"
      "engine_evaluate (fi_post inp) (fw_engine fw) (rq_content q) = Inr d" "allowed d"
      "forward (fi_resolve inp) client (fi_t0 inp) (fi_t1 inp) (fi_t2 inp) (rq_url q) (rq_method q) (rq_content q)
         (rq_headers q) (Some (rq_timeout q)) (fw_adapter fw, fw_world fw) = ((ad, w), fres)"
      "(case fres of Inl e \<Rightarrow> (fw\<lparr>fw_limiter := rl, fw_adapter := ad, fw_world := w\<rparr>, Inl e)
        | Inr x \<Rightarrow> conclude_forward inp q d x (fw\<lparr>fw_limiter := rl, fw_adapter := ad, fw_world := w\<rparr>)) = (fw', res)"
proof (cases "valid (validate_request (JStr (rq_client q)) (JStr (rq_content q)) (JInt (rq_tokens q)))")
  case False
  with assms have "fw' = fw" "\<exists>m. res = Inr (stopped_result ''blocked'' None m None inp)" by (auto simp: enforce_def Let_def)
  with invalid show ?thesis by blast
next
  case valid: True
  obtain rl chk where c: "check_and_consume (request_key q) (rq_tokens q) (fi_t1 inp) (fw_limiter fw) = (rl, chk)" by (metis prod.exhaust)
  consider e where "chk = Inl e" | msg where "chk = Inr (False, msg)"
    | msg e where "chk = Inr (True, msg)" "engine_evaluate (fi_post inp) (fw_engine fw) (rq_content q) = Inl e"
    | msg d where "chk = Inr (True, msg)" "engine_evaluate (fi_post inp) (fw_engine fw) (rq_content q) = Inr d"
    by (metis (full_types) obj_sumE prod.exhaust)
  then show ?thesis
  proof cases
    case 1
    with assms valid c have "fw' = fw\<lparr>fw_limiter := rl\<rparr>" "\<exists>e. res = Inl e" by (auto simp: enforce_def Let_def)
    with stopped show ?thesis by blast
  next
    case 2
    with assms valid c show ?thesis by (intro blocked) (simp add: enforce_def Let_def)
  next
    case 3
    with assms valid c have "fw' = fw\<lparr>fw_limiter := rl\<rparr>" "\<exists>e. res = Inl e" by (auto simp: enforce_def Let_def)
    with stopped show ?thesis by blast
  next
    case (4 msg d)
    show ?thesis
    proof (cases "allowed d")
      case False
      with assms valid c 4 show ?thesis by (intro blocked) (simp add: enforce_def Let_def)
    next
      case True
      obtain ad w fres where f: "forward (fi_resolve inp) client (fi_t0 inp) (fi_t1 inp) (fi_t2 inp) (rq_url q) (rq_method q) (rq_content q)
         (rq_headers q) (Some (rq_timeout q)) (fw_adapter fw, fw_world fw) = ((ad, w), fres)" by (metis prod.exhaust)
      from passed [OF valid c [unfolded 4(1)] 4(2) True f] assms valid c 4 True f show ?thesis
        by (cases fres) (simp_all add: enforce_def Let_def)
    qed
  qed
qed

subsection \<open>Properties\<close>

text \<open>C27: a blocked request never reaches its target, and every answer is on the chain: when
  \<open>enforce\<close> sends anything, the request was valid, the limiter accepted it, the policy engine
  allowed its content, and what was sent is one pinned request; a result that is not a validation
  failure carries the hash of one new record of that content, which says forwarded only of a
  request that was sent; a validation failure changes nothing.\<close>

theorem firewall_sends_only_allowed:
  assumes "enforce inp (logged client) q fw = (fw', res)" and "fw_world fw = ([], w)"
  shows "(fst (fw_world fw') \<noteq> [] \<longrightarrow>
      valid (validate_request (JStr (rq_client q)) (JStr (rq_content q)) (JInt (rq_tokens q))) \<and>
      (\<exists>msg. snd (check_and_consume (request_key q) (rq_tokens q) (fi_t1 inp) (fw_limiter fw)) = Inr (True, msg)) \<and>
      (\<exists>d. engine_evaluate (fi_post inp) (fw_engine fw) (rq_content q) = Inr d \<and> allowed d) \<and>
      (\<exists>rq. fst (fw_world fw') = [rq] \<and> pinned_request (fi_resolve inp) (ha_allowlist (fw_adapter fw)) (rq_url q) (rq_content q) rq)) \<and>
    (\<forall>out. res = Inr out \<longrightarrow>
      (fr_hash out = None \<and> fr_action out = ''blocked'' \<and> fw' = fw) \<or>
      (\<exists>r. fr_hash out = Some (record_hash r) \<and> ac_records (fw_chain fw') = ac_records (fw_chain fw) @ [r] \<and>
        content_hash r = sha256_text (rq_content q) \<and> trace_id r = fi_trace inp \<and>
        (fr_forwarded out \<longrightarrow> ar_action r = ''forwarded'' \<and> fst (fw_world fw') \<noteq> [])))"
  using assms(1)
proof (cases rule: enforce_cases)
  case (blocked rl act rule why rec)
  with block_and_record_cases [OF blocked] assms(2) show ?thesis by (auto simp: stopped_result_def)
next
  case (passed rl msg d ad wl fres)
  obtain log w1 where wl: "wl = (log, w1)" by (cases wl)
  let ?fw2 = "fw\<lparr>fw_limiter := rl, fw_adapter := ad, fw_world := wl\<rparr>"
  note log = forward_log [OF passed(5) [unfolded assms(2) wl]]
  have world: "fw_world fw' = (log, w1)"
  proof (cases fres)
    case (Inl e)
    with passed(6) wl show ?thesis by auto
  next
    case (Inr x)
    with passed(6) have "conclude_forward inp q d x ?fw2 = (fw', res)" by simp
    from conclude_forward_cases [OF this] wl show ?thesis by auto
  qed
  have sent: "log \<noteq> [] \<Longrightarrow> \<exists>rq. log = [rq] \<and> pinned_request (fi_resolve inp) (ha_allowlist (fw_adapter fw)) (rq_url q) (rq_content q) rq"
    using log by auto
  have answer: "\<exists>r. fr_hash out = Some (record_hash r) \<and> ac_records (fw_chain fw') = ac_records (fw_chain fw) @ [r] \<and>
      content_hash r = sha256_text (rq_content q) \<and> trace_id r = fi_trace inp \<and> (fr_forwarded out \<longrightarrow> ar_action r = ''forwarded'' \<and> log \<noteq> [])"
    if "res = Inr out" for out
  proof -
    from that passed(6) obtain x where x: "fres = Inr x" by (cases fres) auto
    with passed(6) have "conclude_forward inp q d x ?fw2 = (fw', res)" by simp
    from conclude_forward_cases [OF this] that log x show ?thesis by (auto simp: outcome_action_def)
  qed
  show ?thesis using passed(1-4) world sent answer by auto
qed (use assms(2) in \<open>auto simp: stopped_result_def\<close>)

definition demo_request :: firewall_request where
  "demo_request = \<lparr>rq_client = ''c'', rq_content = ''hi'', rq_tenant = ''t'', rq_tokens = 1, rq_url = ''https://a.io/x'',
     rq_method = ''POST'', rq_headers = None, rq_timeout = 10, rq_rate_key = None\<rparr>"

definition demo_firewall :: "(http_request list \<times> unit) firewall" where
  "demo_firewall = \<lparr>fw_engine = RegexE (new_policy_engine (Some [])), fw_limiter = register ''c'' demo_quota 0 new_rate_limiter,
     fw_chain = demo_chain, fw_store = [], fw_adapter = new_adapter None 10 5 30, fw_world = ([], ())\<rparr>"

definition demo_firewall_input :: "opa_server \<Rightarrow> firewall_input" where
  "demo_firewall_input post = \<lparr>fi_env = (\<lambda>_. None), fi_post = post, fi_resolve = demo_resolve, fi_trace = Some ''x'', fi_t0 = 0,
     fi_t1 = 1, fi_t2 = 2, fi_fault = None\<rparr>"

lemma demo_sent:
  "fst (snd (fst (forward demo_resolve (logged demo_client) 0 1 2 ''https://a.io/x'' ''POST'' ''hi'' None (Some 10)
     (new_adapter None 10 5 30, ([], ()))))) \<noteq> []"
  by code_simp

lemma demo_checked: "snd (check_and_consume ''c'' 1 1 (register ''c'' demo_quota 0 new_rate_limiter)) = Inr (True, ''OK'')"
  by code_simp

theorem firewall_sends_only_allowed_witness:
  "\<forall>post. \<exists>fw' res rq. enforce (demo_firewall_input post) (logged demo_client) demo_request demo_firewall = (fw', res) \<and>
     fst (fw_world fw') = [rq] \<and> pinned_request demo_resolve [] ''https://a.io/x'' ''hi'' rq"
proof
  fix post
  let ?inp = "demo_firewall_input post"
  obtain fw' res where run: "enforce ?inp (logged demo_client) demo_request demo_firewall = (fw', res)" by (metis prod.exhaust)
  obtain ad wl fres where f: "forward demo_resolve (logged demo_client) 0 1 2 ''https://a.io/x'' ''POST'' ''hi'' None (Some 10)
     (new_adapter None 10 5 30, ([], ())) = ((ad, wl), fres)" by (metis prod.exhaust)
  have sent: "fst wl \<noteq> []" using demo_sent f by simp
  obtain rl where c: "check_and_consume ''c'' 1 1 (register ''c'' demo_quota 0 new_rate_limiter) = (rl, Inr (True, ''OK''))"
    using demo_checked by (metis prod.collapse)
  have v: "valid (validate_request (JStr ''c'') (JStr ''hi'') (JInt 1))" by code_simp
  have e: "evaluate (new_policy_engine (Some [])) ''hi'' = Inr allow_result" by code_simp
  have "fw_world fw' = wl"
  proof (cases fres)
    case (Inl x)
    with run v c e f show ?thesis
      by (auto simp: enforce_def demo_request_def demo_firewall_def demo_firewall_input_def request_key_def allow_result_def Let_def)
  next
    case (Inr x)
    with run v c e f have "\<exists>d. conclude_forward ?inp demo_request d x (demo_firewall\<lparr>fw_limiter := rl, fw_adapter := ad, fw_world := wl\<rparr>) = (fw', res)"
      by (auto simp: enforce_def demo_request_def demo_firewall_def demo_firewall_input_def request_key_def allow_result_def Let_def)
    with conclude_forward_cases show ?thesis by fastforce
  qed
  with firewall_sends_only_allowed [OF run, of "()"] sent run
  show "\<exists>fw' res rq. enforce ?inp (logged demo_client) demo_request demo_firewall = (fw', res) \<and>
     fst (fw_world fw') = [rq] \<and> pinned_request demo_resolve [] ''https://a.io/x'' ''hi'' rq"
    by (auto simp: demo_firewall_def demo_request_def demo_firewall_input_def new_adapter_def)
qed

subsection \<open>In production nothing is recorded\<close>

text \<open>
  The firewall's records carry no policy digest, and a process that requires bound evidence
  refuses such a record: an allowed request is sent, and then the call raises, unrecorded.
\<close>

lemma unbound_record_refused:
  assumes "bound_evidence_required (fi_env inp)"
  shows "\<exists>e. firewall_record inp (firewall_args inp q act why rule) fw = (fw, Inl e)"
proof -
  have "\<exists>e. seal_entry (fi_env inp) (fw_chain fw) (fi_t2 inp) (firewall_args inp q act why rule) = Inl e"
    using assms by (auto simp: seal_entry_def firewall_args_def call_args_def record_tenant_def missing_evidence_def Let_def)
  then show ?thesis by (auto simp: firewall_record_def chain_record_def)
qed

lemma production_sends_unrecorded:
  assumes "bound_evidence_required (fi_env inp)"
    and "valid (validate_request (JStr (rq_client q)) (JStr (rq_content q)) (JInt (rq_tokens q)))"
    and "check_and_consume (request_key q) (rq_tokens q) (fi_t1 inp) (fw_limiter fw) = (rl, Inr (True, msg))"
    and "engine_evaluate (fi_post inp) (fw_engine fw) (rq_content q) = Inr d" "allowed d"
    and "forward (fi_resolve inp) client (fi_t0 inp) (fi_t1 inp) (fi_t2 inp) (rq_url q) (rq_method q) (rq_content q)
         (rq_headers q) (Some (rq_timeout q)) (fw_adapter fw, fw_world fw) = ((ad, w), Inr x)"
  shows "\<exists>fw' e. enforce inp client q fw = (fw', Inl e) \<and> fw_world fw' = w \<and> fw_chain fw' = fw_chain fw"
proof -
  let ?fw2 = "fw\<lparr>fw_limiter := rl, fw_adapter := ad, fw_world := w\<rparr>"
  obtain e where "firewall_record inp (firewall_args inp q (outcome_action x) (outcome_reason (rq_url q) x) (triggered_rule d)) ?fw2 = (?fw2, Inl e)"
    using unbound_record_refused [OF assms(1)] by blast
  with assms(2-) show ?thesis by (simp add: enforce_def conclude_forward_def Let_def)
qed

end
