(* ===== verification/Review.thy ===== *)
theory Review
  imports Policy_Factory Audit_Store
begin

text \<open>
  The review operations over the chain and the engines: \<open>src/custos/replay.py\<close> (a recorded
  decision re-evaluated), \<open>src/custos/snapshot.py\<close> (a hashed export of a range of records and
  its verification) and \<open>src/custos/policy\_diff.py\<close> (the decisions of two rule sets compared).
  A snapshot that has been serialised and parsed again is a parsed object, a list of keys and
  values. In \<open>change\_summary\<close> the dash and the arrow of the source are written in ASCII.
\<close>

subsection \<open>Replay\<close>

record replay_result =
  original_record_hash :: string
  original_timestamp :: int
  original_action :: string
  original_triggered_rule :: "string option"
  original_reason :: string
  original_trace_id :: "string option"
  replayed_action :: string
  replayed_triggered_rule :: "string option"
  replayed_reason :: string
  decision_matches :: bool
  replay_timestamp :: int
  replay_content_hash :: string

definition find_record :: "string \<Rightarrow> audit_chain \<Rightarrow> audit_record option" where
  "find_record h c = List.find (\<lambda>r. record_hash r = h) (ac_records c)"

definition replay_of :: "int \<Rightarrow> audit_record \<Rightarrow> policy_result \<Rightarrow> replay_result" where
  "replay_of now r res = \<lparr>original_record_hash = record_hash r, original_timestamp = timestamp r,
     original_action = ar_action r, original_triggered_rule = ar_rule r, original_reason = ar_reason r,
     original_trace_id = trace_id r, replayed_action = action_value (res_action res),
     replayed_triggered_rule = triggered_rule res, replayed_reason = res_reason res,
     decision_matches = (action_value (res_action res) = ar_action r \<and> triggered_rule res = ar_rule r),
     replay_timestamp = now, replay_content_hash = content_hash r\<rparr>"

definition replay_by_hash ::
  "opa_server \<Rightarrow> int \<Rightarrow> audit_chain \<Rightarrow> engine \<Rightarrow> string \<Rightarrow> string \<Rightarrow> replay_result result" where
  "replay_by_hash post now c e h content = (case find_record h c of
     None \<Rightarrow> Inl (ValueError (''Record hash not found in audit chain: '' @ h))
   | Some r \<Rightarrow>
       if sha256_text content \<noteq> content_hash r then
         Inl (ValueError ''Supplied content does not match stored content_hash. Cannot replay with mismatched content.'')
       else try_bind (engine_evaluate post e content) (\<lambda>res. Inr (replay_of now r res)))"

subsection \<open>Snapshots\<close>

record snapshot_result =
  sn_generated :: int
  sn_start :: "int option"
  sn_end :: int
  sn_count :: nat
  sn_records :: "dict list"
  sn_valid :: bool
  sn_reason :: string
  sn_latest :: string
  sn_hash :: string

definition opt_time :: "int option \<Rightarrow> json" where
  "opt_time x = (case x of None \<Rightarrow> JNull | Some t \<Rightarrow> JFloat t)"

definition snapshot_payload ::
  "int \<Rightarrow> int option \<Rightarrow> int \<Rightarrow> dict list \<Rightarrow> bool \<Rightarrow> string \<Rightarrow> string \<Rightarrow> dict" where
  "snapshot_payload now start effective_end records ok why latest =
     [(''generated_at'', JFloat now), (''start_time'', opt_time start), (''end_time'', JFloat effective_end),
      (''record_count'', JInt (int (length records))), (''records'', JList (map JObj records)),
      (''chain_valid'', JBool ok), (''chain_verification_reason'', JStr why), (''latest_hash'', JStr latest)]"

text \<open>\<open>\_sign\<close>: the hash of the canonical JSON. It takes no key.\<close>

definition canonical_text :: "dict \<Rightarrow> string" where
  "canonical_text payload = json_dumps default_fmt (JObj payload)"

definition sign_payload :: "dict \<Rightarrow> string" where
  "sign_payload payload = sha256_text (canonical_text payload)"

definition in_range :: "int \<Rightarrow> int option \<Rightarrow> int \<Rightarrow> bool" where
  "in_range t start stop = (if (case start of Some s \<Rightarrow> t < s | None \<Rightarrow> False) then False
     else if t > stop then False else True)"

text \<open>\<open>r["timestamp"]\<close> of a record's dict.\<close>

definition dict_time :: "dict \<Rightarrow> int" where
  "dict_time d = (case map_of d ''timestamp'' of Some (JFloat t) \<Rightarrow> t | _ \<Rightarrow> 0)"

definition generate_snapshot :: "int \<Rightarrow> int option \<Rightarrow> int option \<Rightarrow> audit_chain \<Rightarrow> snapshot_result result" where
  "generate_snapshot now start stop c =
     (let effective_end = (case stop of Some t \<Rightarrow> t | None \<Rightarrow> now);
          kept = filter (\<lambda>d. in_range (dict_time d) start effective_end) (get_records None c) in
      try_bind (chain_verify c) (\<lambda>(ok, why).
      let payload = snapshot_payload now start effective_end kept ok why (latest_hash c) in
      Inr \<lparr>sn_generated = now, sn_start = start, sn_end = effective_end, sn_count = length kept,
        sn_records = kept, sn_valid = ok, sn_reason = why, sn_latest = latest_hash c,
        sn_hash = sign_payload payload\<rparr>))"

text \<open>\<open>SnapshotResult.to\_dict\<close>.\<close>

definition snapshot_to_dict :: "snapshot_result \<Rightarrow> dict" where
  "snapshot_to_dict s =
     [(''generated_at'', JFloat (sn_generated s)), (''start_time'', opt_time (sn_start s)),
      (''end_time'', JFloat (sn_end s)), (''record_count'', JInt (int (sn_count s))),
      (''records'', JList (map JObj (sn_records s))), (''chain_valid'', JBool (sn_valid s)),
      (''chain_verification_reason'', JStr (sn_reason s)), (''latest_hash'', JStr (sn_latest s)),
      (''snapshot_hash'', JStr (sn_hash s))]"

definition without_hash :: "dict \<Rightarrow> dict" where
  "without_hash d = filter (\<lambda>(k, _). k \<noteq> ''snapshot_hash'') d"

definition verify_snapshot :: "dict \<Rightarrow> bool \<times> string" where
  "verify_snapshot d = (let stored = (case map_of d ''snapshot_hash'' of Some v \<Rightarrow> v | None \<Rightarrow> JNull) in
     if \<not> truthy stored then (False, ''No snapshot_hash present'')
     else if stored \<noteq> JStr (sign_payload (without_hash d)) then
       (False, ''Snapshot hash mismatch - snapshot may have been tampered with'')
     else (True, ''OK''))"

subsection \<open>Policy diff\<close>

record diff_result =
  content_preview :: string
  current_action :: string
  current_triggered_rule :: "string option"
  current_reason :: string
  proposed_action :: string
  proposed_triggered_rule :: "string option"
  proposed_reason :: string
  decision_changed :: bool
  change_summary :: string

definition rule_or_none :: "policy_result \<Rightarrow> string" where
  "rule_or_none r = (case str_or (triggered_rule r) (Some ''none'') of Some s \<Rightarrow> s | None \<Rightarrow> [])"

definition summarize :: "policy_result \<Rightarrow> policy_result \<Rightarrow> bool \<Rightarrow> string" where
  "summarize cur prop changed =
     (if \<not> changed then ''No change - both rule sets produce '' @ quoted (action_value (res_action cur))
      else ''Decision changed: '' @ quoted (action_value (res_action cur)) @ '' (rule: '' @ rule_or_none cur @
        '') -> '' @ quoted (action_value (res_action prop)) @ '' (rule: '' @ rule_or_none prop @ '')'')"

definition policy_diff :: "string \<Rightarrow> policy_rule list \<Rightarrow> policy_rule list \<Rightarrow> diff_result result" where
  "policy_diff content current_rules proposed_rules =
     try_bind (evaluate (new_policy_engine (Some current_rules)) content) (\<lambda>cur.
     try_bind (evaluate (new_policy_engine (Some proposed_rules)) content) (\<lambda>prop.
     let changed = (res_action cur \<noteq> res_action prop \<or> triggered_rule cur \<noteq> triggered_rule prop) in
     Inr \<lparr>content_preview = take 100 content, current_action = action_value (res_action cur),
       current_triggered_rule = triggered_rule cur, current_reason = res_reason cur,
       proposed_action = action_value (res_action prop), proposed_triggered_rule = triggered_rule prop,
       proposed_reason = res_reason prop, decision_changed = changed,
       change_summary = summarize cur prop changed\<rparr>))"

subsection \<open>The record a replay finds\<close>

lemma well_linked_member:
  "well_linked prev rs \<Longrightarrow> r \<in> set rs \<Longrightarrow> compute_record_hash r (previous_hash r) = Inr (record_hash r)"
  by (induction rs arbitrary: prev) auto

text \<open>In a verified chain a record hash names one piece of evidence.\<close>

lemma find_record_evidence:
  assumes ok: "chain_verify c = Inr (True, m)" and r: "r \<in> set (ac_records c)"
  shows "\<exists>s. find_record (record_hash r) c = Some s \<and> record_hash s = record_hash r \<and>
    (same_evidence r s \<or> hash_collision (ac_records c) (ac_records c))"
proof -
  have linked: "well_linked GENESIS_HASH (ac_records c)"
    using ok verify_records_ok unfolding chain_verify_def by blast
  obtain s where s: "find_record (record_hash r) c = Some s"
    using r by (cases "find_record (record_hash r) c") (auto simp: find_record_def find_None_iff_set)
  then have m: "s \<in> set (ac_records c)" "record_hash s = record_hash r"
    by (auto simp: find_record_def dest: find_Some_set)
  have "compute_record_hash s (previous_hash s) = Inr (record_hash r)"
    using well_linked_member [OF linked m(1)] m(2) by simp
  from same_hash_cases [OF well_linked_member [OF linked r] this]
  have "same_evidence r s \<or> hash_collision (ac_records c) (ac_records c)"
    using hash_collision_mono [of "[r]" "[s]"] r m(1) by auto
  with s m show ?thesis by blast
qed

subsection \<open>The keys of a snapshot\<close>

lemma snapshot_fields:
  assumes "generate_snapshot now start stop c = Inr s"
  shows "sn_count s = length (sn_records s)" "sn_latest s = latest_hash c"
    "sn_records s = map record_to_dict
       (filter (\<lambda>r. in_range (timestamp r) start (sn_end s)) (ac_records c))"
    "sn_end s = (case stop of Some t \<Rightarrow> t | None \<Rightarrow> now)"
    "chain_verify c = Inr (sn_valid s, sn_reason s)"
    "sn_hash s = sign_payload (without_hash (snapshot_to_dict s))"
proof -
  have time: "dict_time (record_to_dict r) = timestamp r" for r
    by (simp add: dict_time_def record_to_dict_def)
  show "sn_count s = length (sn_records s)" "sn_latest s = latest_hash c"
    "sn_records s = map record_to_dict
       (filter (\<lambda>r. in_range (timestamp r) start (sn_end s)) (ac_records c))"
    "sn_end s = (case stop of Some t \<Rightarrow> t | None \<Rightarrow> now)"
    "chain_verify c = Inr (sn_valid s, sn_reason s)"
    "sn_hash s = sign_payload (without_hash (snapshot_to_dict s))"
    using assms by (auto simp: generate_snapshot_def Let_def result_simps get_records_def filter_map o_def time
        snapshot_to_dict_def snapshot_payload_def without_hash_def)
qed

lemma snapshot_hash_ne: "generate_snapshot now start stop c = Inr s \<Longrightarrow> sn_hash s \<noteq> []"
  by (auto simp: snapshot_fields(6) sign_payload_def)

lemma without_hash_signed: "map_of d ''snapshot_hash'' = None \<Longrightarrow> without_hash (d @ [(''snapshot_hash'', v)]) = d"
  by (auto simp: without_hash_def filter_id_conv map_of_eq_None_iff image_iff)

text \<open>Two documents with the same fields but the hash, up to the order of their keys.\<close>

definition same_document :: "dict \<Rightarrow> dict \<Rightarrow> bool" where
  "same_document d e = (sort_keys (JObj (without_hash d)) = sort_keys (JObj (without_hash e)))"

lemma canonical_text_same: "canonical_text (without_hash d) = canonical_text (without_hash e) \<longleftrightarrow> same_document d e"
  unfolding canonical_text_def same_document_def
  by (metis fmt_ok_formats(1) json_dumps_inject json_dumps_def)

subsection \<open>Properties\<close>

definition review_record :: audit_record where
  "review_record = sealed \<lparr>timestamp = 1000000, client_id = ''a'', ar_action = ''allow'', ar_rule = None,
     ar_reason = ''ok'', content_hash = hash_content ''hi'', record_hash = [], previous_hash = GENESIS_HASH,
     trace_id = Some ''t'', ar_policy_digest = None, tenant_id = None, binding_version = 2,
     commitment = ''none''\<rparr>"

definition review_chain :: audit_chain where
  "review_chain = \<lparr>ac_records = [review_record], ac_tenant = None, ac_backend = InMemoryBackend, ac_db_path = None\<rparr>"

lemma review_chain_verifies: "\<exists>m. chain_verify review_chain = Inr (True, m)"
  unfolding review_chain_def review_record_def chain_verify_def verify_records_ok audit_chain.simps
  by (rule sealed_linked [of "\<lparr>timestamp = _, client_id = _, ar_action = _, ar_rule = _, ar_reason = _,
     content_hash = _, record_hash = _, previous_hash = GENESIS_HASH, trace_id = _, ar_policy_digest = _,
     tenant_id = _, binding_version = _, commitment = _\<rparr>", unfolded audit_record.simps])
    (simp add: RECORD_BINDING_CURRENT_def)

lemma sealed_fields [simp]:
  "ar_action (sealed r) = ar_action r" "ar_rule (sealed r) = ar_rule r" "content_hash (sealed r) = content_hash r"
  "timestamp (sealed r) = timestamp r"
  by (simp_all add: sealed_def split: sum.splits)

lemma no_self_collision: "\<not> hash_collision [r] [r]"
  by (cases "preimage_fields r (previous_hash r)") (auto simp: hash_collision_def preimages_def)

lemma review_record_fields:
  "ar_action review_record = ''allow''" "ar_rule review_record = None"
  "content_hash review_record = hash_content ''hi''" "timestamp review_record = 1000000"
  by (simp_all add: review_record_def)

text \<open>C32: a replay of a record of a verified chain, named by its hash and given its content, returns, and
  says that the decision is reproduced exactly when the engine now decides on that content
  the action and the rule that this record states, unless two records of the chain collide in
  their hash.\<close>

theorem replay_reproduces_decision:
  assumes "chain_verify c = Inr (True, m)" "r \<in> set (ac_records c)" "hash_content content = content_hash r"
    and "engine_evaluate post e content = Inr d"
  shows "(\<exists>res. replay_by_hash post now c e (record_hash r) content = Inr res \<and>
      (decision_matches res \<longleftrightarrow> action_value (res_action d) = ar_action r \<and> triggered_rule d = ar_rule r)) \<or>
    hash_collision (ac_records c) (ac_records c)"
proof -
  obtain s where "find_record (record_hash r) c = Some s"
    and "same_evidence r s \<or> hash_collision (ac_records c) (ac_records c)"
    using find_record_evidence [OF assms(1,2)] by blast
  with assms(3,4) show ?thesis
    by (auto simp: replay_by_hash_def replay_of_def same_evidence_def hash_content_def)
qed

theorem replay_reproduces_decision_witness:
  "\<forall>post. \<exists>res. replay_by_hash post 5 review_chain (RegexE (new_policy_engine (Some []))) (record_hash review_record) ''hi'' =
     Inr res \<and> decision_matches res"
proof
  fix post
  obtain m where ok: "chain_verify review_chain = Inr (True, m)" using review_chain_verifies by blast
  have "engine_evaluate post (RegexE (new_policy_engine (Some []))) ''hi'' = Inr allow_result"
    by (simp add: evaluate_def new_policy_engine_def)
  from replay_reproduces_decision [OF ok _ _ this, of review_record 5]
  have "(\<exists>res. replay_by_hash post 5 review_chain (RegexE (new_policy_engine (Some []))) (record_hash review_record) ''hi'' =
     Inr res \<and> (decision_matches res \<longleftrightarrow> action_value ALLOW = ''allow'' \<and> (None :: string option) = None)) \<or>
     hash_collision [review_record] [review_record]"
    by (simp add: review_chain_def review_record_fields allow_result_def del: action_value.simps)
  then show "\<exists>res. replay_by_hash post 5 review_chain (RegexE (new_policy_engine (Some []))) (record_hash review_record) ''hi'' =
     Inr res \<and> decision_matches res"
    by (simp add: no_self_collision)
qed

text \<open>A snapshot binds its content. A document that carries the hash of a generated snapshot is
  verified exactly when it has the snapshot's fields (in any order of the keys, so also after a
  trip through JSON), unless its canonical text and the snapshot's collide; the snapshot itself
  is always verified.\<close>

theorem snapshot_binds_content:
  assumes "generate_snapshot now start stop c = Inr s" "map_of d ''snapshot_hash'' = Some (JStr (sn_hash s))"
  shows "(verify_snapshot d = (True, ''OK'') \<longleftrightarrow> same_document d (snapshot_to_dict s)) \<or>
    (let x = canonical_text (without_hash d); y = canonical_text (without_hash (snapshot_to_dict s)) in
     x \<noteq> y \<and> sha256_text x = sha256_text y)"
proof -
  have "verify_snapshot d = (True, ''OK'') \<longleftrightarrow> sign_payload (without_hash d) = sn_hash s"
    using assms snapshot_hash_ne [OF assms(1)] by (auto simp: verify_snapshot_def)
  also have "\<dots> \<longleftrightarrow> sha256_text (canonical_text (without_hash d)) =
     sha256_text (canonical_text (without_hash (snapshot_to_dict s)))"
    by (simp add: snapshot_fields(6) [OF assms(1)] sign_payload_def)
  finally show ?thesis
    unfolding Let_def by (auto simp: canonical_text_same [symmetric])
qed

theorem snapshot_binds_content_witness:
  "\<exists>s. generate_snapshot 2000000 None None review_chain = Inr s \<and> sn_count s = 1 \<and>
     verify_snapshot (snapshot_to_dict s) = (True, ''OK'')"
proof -
  obtain m where ok: "chain_verify review_chain = Inr (True, m)" using review_chain_verifies by blast
  then obtain s where s: "generate_snapshot 2000000 None None review_chain = Inr s"
    by (simp add: generate_snapshot_def Let_def)
  have "map_of (snapshot_to_dict s) ''snapshot_hash'' = Some (JStr (sn_hash s))" by (simp add: snapshot_to_dict_def)
  from snapshot_binds_content [OF s this] have "verify_snapshot (snapshot_to_dict s) = (True, ''OK'')"
    by (auto simp: same_document_def Let_def)
  moreover have "sn_count s = 1"
    unfolding snapshot_fields(1,3) [OF s] by (simp add: snapshot_fields(4) [OF s] review_chain_def review_record_fields in_range_def)
  ultimately show ?thesis using s by blast
qed

subsection \<open>The hash of a snapshot needs no key\<close>

lemma resigned_snapshot_verifies:
  assumes "map_of d ''snapshot_hash'' = None"
  shows "verify_snapshot (d @ [(''snapshot_hash'', JStr (sign_payload d))]) = (True, ''OK'')"
proof -
  have "map_of (d @ [(''snapshot_hash'', v)]) ''snapshot_hash'' = Some v" for v :: json
    using assms by (simp add: map_add_def)
  then show ?thesis
    using assms by (simp add: verify_snapshot_def without_hash_signed sign_payload_def)
qed

subsection \<open>What a diff reports\<close>

lemma policy_diff_changed:
  assumes "policy_diff content cur prop = Inr d"
  shows "decision_changed d \<longleftrightarrow> current_action d \<noteq> proposed_action d \<or>
      current_triggered_rule d \<noteq> proposed_triggered_rule d"
    "prefix (content_preview d) content" "length (content_preview d) \<le> 100"
  using assms by (auto simp: policy_diff_def Let_def result_simps take_is_prefix)

text \<open>Appending a rule to a set that denies a content is reported as no change for it.\<close>

lemma appended_rule_diff:
  assumes "policy_diff content cur (cur @ [r]) = Inr d" "current_action d = ''deny''"
  shows "\<not> decision_changed d"
proof -
  obtain a b where a: "eval_rules cur content None = Inr a" and b: "eval_rules (cur @ [r]) content None = Inr b"
    and d: "current_action d = action_value (res_action a)" "proposed_action d = action_value (res_action b)"
      "current_triggered_rule d = triggered_rule a" "proposed_triggered_rule d = triggered_rule b"
    using assms(1) by (auto simp: policy_diff_def Let_def result_simps evaluate_def new_policy_engine_def)
  have "res_action a = DENY" using d(1) assms(2) by (cases "res_action a") simp_all
  with eval_rules_append [OF a b] have "b = a" by blast
  then show ?thesis unfolding policy_diff_changed(1) [OF assms(1)] d by simp
qed

end
