(* ===== verification/Deployment_Binding.thy ===== *)
theory Deployment_Binding
  imports Audit_Store Regex Url "HOL-Library.Multiset"
begin

text \<open>
  \<open>src/custos/deployment\_binding.py\<close>: the record that binds a running process to its declared
  configuration. Credentials appear as fingerprints; the payload is brought into a canonical
  form, written into the chain at startup and its digest reported. \<open>json.loads\<close> on the
  variables of the environment is a parameter that gives the parsed value or the message of
  its \<open>ValueError\<close>; on a document that was just dumped it gives the document back, with its
  keys in the dumped order, and \<open>canonical\_payload\<close> is written that way. A dict is the list of
  its keys and values.
\<close>

definition BINDING_RULE :: string where "BINDING_RULE = ''deployment_binding_startup''"
definition BINDING_CLIENT_ID :: string where "BINDING_CLIENT_ID = ''custos-binding''"
definition BINDING_SCHEMA :: int where "BINDING_SCHEMA = 2"
definition STARTUP_ENV_FLAG :: string where "STARTUP_ENV_FLAG = ''CUSTOS_DEPLOYMENT_BINDING''"

subsection \<open>Text\<close>

text \<open>\<open>f"{x}"\<close> of an optional string, and \<open>s.split()\<close>.\<close>

definition opt_str :: "string option \<Rightarrow> string" where
  "opt_str x = (case x of None \<Rightarrow> ''None'' | Some s \<Rightarrow> s)"

fun split_words :: "string \<Rightarrow> string \<Rightarrow> string list" where
  "split_words w [] = (if w = [] then [] else [rev w])"
| "split_words w (c # s) =
     (if is_space c then (if w = [] then split_words [] s else rev w # split_words [] s)
      else split_words (c # w) s)"

subsection \<open>Fingerprints and digests\<close>

definition credential_fingerprint :: "string option \<Rightarrow> string option" where
  "credential_fingerprint secret = (if \<not> truthy_str secret then None
     else Some (''sha256:'' @ sha256_text (opt_str secret)))"

definition sorted_set :: "string list \<Rightarrow> string list" where
  "sorted_set xs = sort (remdups xs)"

definition digest_of :: "json \<Rightarrow> string" where
  "digest_of j = ''sha256:'' @ sha256_text (json_dumps compact_raw_fmt j)"

definition tool_list_digest :: "json list \<Rightarrow> string" where
  "tool_list_digest names = digest_of (JList (map JStr (sorted_set (map json_str names))))"

definition descriptor :: "json \<Rightarrow> dict" where
  "descriptor entry = (case entry of
     JObj kvs \<Rightarrow>
       (let out = dict_del ''inputSchema'' kvs; schema = lookup_or kvs ''inputSchema'' JNull;
            (out, schema) = (if schema = JNull then (dict_del ''input_schema'' out, lookup_or out ''input_schema'' JNull)
                             else (out, schema));
            out = (if schema \<noteq> JNull then dict_set ''inputSchema'' schema out else out) in
        if map_of out ''name'' = None then dict_set ''name'' (JStr []) out else out)
   | _ \<Rightarrow> [(''name'', JStr (json_str entry))])"

definition tool_name :: "dict \<Rightarrow> string" where
  "tool_name d = json_str (lookup_or d ''name'' (JStr []))"

definition tool_descriptor_digest :: "json list \<Rightarrow> string" where
  "tool_descriptor_digest tools = digest_of (JList (map JObj (sort_key tool_name (map descriptor tools))))"

definition SECRET_HINTS :: "string list" where
  "SECRET_HINTS = [''secret'', ''token'', ''password'', ''passwd'', ''credential'', ''jwt'', ''api_key'', ''apikey'',
     ''database_url'', ''dsn'', ''private_key'']"

definition looks_secret :: "string \<Rightarrow> bool" where
  "looks_secret nm = list_ex (contains (lower nm)) SECRET_HINTS"

definition last_segment :: "string \<Rightarrow> string" where
  "last_segment path = hd (split_on (CHR ''['') (last (split_on (CHR ''.'') path)))"

text \<open>\<open>\_redact\_secrets\<close>: the redacted value and the paths it adds to \<open>found\<close>.\<close>

fun redact_secrets :: "string \<Rightarrow> json \<Rightarrow> json \<times> string list"
  and redact_items :: "string \<Rightarrow> nat \<Rightarrow> json list \<Rightarrow> json list \<times> string list"
  and redact_fields :: "string \<Rightarrow> dict \<Rightarrow> dict \<times> string list" where
  "redact_secrets path (JObj kvs) = (case redact_fields path kvs of (d, fs) \<Rightarrow> (JObj d, fs))"
| "redact_secrets path (JList xs) = (case redact_items path 0 xs of (ys, fs) \<Rightarrow> (JList ys, fs))"
| "redact_secrets path v =
     (if path \<noteq> [] \<and> looks_secret (last_segment path)
      then (opt_json (credential_fingerprint (Some (json_str v))), [path]) else (v, []))"
| "redact_items path i [] = ([], [])"
| "redact_items path i (x # xs) =
     (case redact_secrets (path @ ''['' @ int_repr (int i) @ '']'') x of (y, fs) \<Rightarrow>
      (case redact_items path (Suc i) xs of (ys, gs) \<Rightarrow> (y # ys, fs @ gs)))"
| "redact_fields path [] = ([], [])"
| "redact_fields path ((k, x) # kvs) =
     (case redact_secrets (if path \<noteq> [] then path @ ''.'' @ k else k) x of (y, fs) \<Rightarrow>
      (case redact_fields path kvs of (d, gs) \<Rightarrow> ((k, y) # d, fs @ gs)))"

definition config_digest :: "dict option \<Rightarrow> dict" where
  "config_digest config = (case config of
     None \<Rightarrow> []
   | Some c \<Rightarrow> if c = [] then [] else
       (case redact_secrets [] (JObj c) of (redacted, found) \<Rightarrow>
         [(''config_digest'', JStr (digest_of redacted)),
          (''secret_config_fields'', JList (map JStr (sort found))),
          (''config_keys'', JList (map JStr (sort (map fst c))))]))"

subsection \<open>Command lines and endpoints\<close>

definition SECRET_FLAG :: string where
  "SECRET_FLAG = ''(?i)^(--?[A-Za-z0-9_-]*(?:secret|token|key|password|passwd|credential|auth)[A-Za-z0-9_-]*)(?:=(.*))?$''"

text \<open>\<open>\_SECRET\_FLAG.match\<close>: the flag, and its value when there is one.\<close>

definition secret_flag :: "string \<Rightarrow> (string \<times> string option) option" where
  "secret_flag t = (case py_search SECRET_FLAG t of
     Inr (Some m) \<Rightarrow> Some (case map_of (m_groups m) 1 of Some g \<Rightarrow> g | None \<Rightarrow> [], map_of (m_groups m) 2)
   | _ \<Rightarrow> None)"

fun partition_str :: "string \<Rightarrow> string \<Rightarrow> string \<times> bool \<times> string" where
  "partition_str sep [] = ([], sep = [], [])"
| "partition_str sep (c # s) = (if startswith (c # s) sep then ([], True, drop (length sep) (c # s))
     else (case partition_str sep s of (u, f, v) \<Rightarrow> (c # u, f, v)))"

text \<open>\<open>s.rpartition("@")\<close>, without its middle part.\<close>

definition rpartition_at :: "char \<Rightarrow> string \<Rightarrow> string \<times> string" where
  "rpartition_at c s = (if c \<in> set s then
     (rev (drop 1 (dropWhile (\<lambda>x. x \<noteq> c) (rev s))), after_last c s) else ([], s))"

definition redact_url_userinfo :: "string \<Rightarrow> string" where
  "redact_url_userinfo t = (if \<not> contains t ''://'' \<or> \<not> contains t ''@'' then t
     else (case partition_str ''://'' t of (scheme, _, remaining) \<Rightarrow>
       (case rpartition_at (CHR ''@'') remaining of (userinfo, host) \<Rightarrow>
          scheme @ ''://'' @ opt_str (credential_fingerprint (Some userinfo)) @ ''@'' @ host)))"

definition fingerprint_or_empty :: "string \<Rightarrow> string" where
  "fingerprint_or_empty s = (case credential_fingerprint (Some s) of Some f \<Rightarrow> f | None \<Rightarrow> [])"

fun redact_tokens :: "bool \<Rightarrow> string list \<Rightarrow> string list" where
  "redact_tokens expect_value [] = (if expect_value then [fingerprint_or_empty []] else [])"
| "redact_tokens expect_value (t # ts) =
     (if expect_value then fingerprint_or_empty t # redact_tokens False ts
      else (case secret_flag t of
        Some (flag, None) \<Rightarrow> t # redact_tokens True ts
      | Some (flag, Some v) \<Rightarrow> (flag @ ''='' @ opt_str (credential_fingerprint (Some v))) # redact_tokens False ts
      | None \<Rightarrow> redact_url_userinfo t # redact_tokens False ts))"

definition redact_command :: "string option \<Rightarrow> string option" where
  "redact_command command = (case command of
     None \<Rightarrow> None
   | Some s \<Rightarrow> if s = [] then command else Some (join '' '' (redact_tokens False (split_words [] s))))"

definition redact_pair :: "string \<Rightarrow> string" where
  "redact_pair pair = (case partition_at (CHR ''='') pair of (nm, eq, v) \<Rightarrow>
     if eq \<and> looks_secret nm then nm @ ''='' @ opt_str (credential_fingerprint (Some v)) else pair)"

definition redact_endpoint :: "string option \<Rightarrow> string option" where
  "redact_endpoint endpoint = (case endpoint of
     None \<Rightarrow> None
   | Some s \<Rightarrow> if s = [] then endpoint else
       (case partition_at (CHR ''?'') (redact_url_userinfo s) of (base, sep, query) \<Rightarrow>
          if \<not> sep then Some base
          else Some (base @ ''?'' @ join ''&'' (map redact_pair (split_on (CHR ''&'') query)))))"

subsection \<open>The payload\<close>

definition truthy_list :: "string list option \<Rightarrow> bool" where
  "truthy_list xs = (xs \<noteq> None \<and> xs \<noteq> Some [])"

definition str_set_json :: "string list option \<Rightarrow> json" where
  "str_set_json xs = JList (map JStr (sorted_set (case xs of Some l \<Rightarrow> l | None \<Rightarrow> [])))"

definition credential_binding ::
  "string option \<Rightarrow> string option \<Rightarrow> string option \<Rightarrow> string \<Rightarrow> string list option \<Rightarrow> json" where
  "credential_binding runtime_secret upstream configured_secret src scope =
     (case credential_fingerprint runtime_secret of
        None \<Rightarrow> JNull
      | Some fp \<Rightarrow> JObj (
          [(''fingerprint'', JStr fp), (''source'', JStr src),
           (''configured_matches'', case credential_fingerprint configured_secret of
              None \<Rightarrow> JNull | Some cf \<Rightarrow> JBool (cf = fp))]
          @ (if truthy_str upstream then [(''upstream'', opt_json upstream)] else [])
          @ (if truthy_list scope then [(''scope'', str_set_json scope)] else [])))"

definition empty_value :: "json \<Rightarrow> bool" where
  "empty_value v = (v \<in> {JNull, JStr [], JList [], JObj []})"

definition sorted_fields :: "dict \<Rightarrow> dict" where
  "sorted_fields d = sort_key fst (map (\<lambda>kv. (fst kv, sort_keys (snd kv))) d)"

definition canonical_payload :: "dict \<Rightarrow> dict" where
  "canonical_payload fs =
     sorted_fields (dict_set ''binding_schema'' (JInt BINDING_SCHEMA) (filter (\<lambda>kv. \<not> empty_value (snd kv)) fs))"

definition payload_text :: "dict \<Rightarrow> string" where
  "payload_text payload = json_dumps compact_raw_fmt (JObj payload)"

definition payload_digest :: "dict \<Rightarrow> string" where
  "payload_digest payload = ''sha256:'' @ sha256_text (payload_text payload)"

record binding_inputs =
  bi_deployment_id :: string
  bi_build_commit :: "string option"
  bi_transport :: "string option"
  bi_command :: "string option"
  bi_endpoint :: "string option"
  bi_tool_names :: "json list option"
  bi_descriptors :: "json list option"
  bi_credential :: "string option"
  bi_runtime_credential :: "string option"
  bi_configured_credential :: "string option"
  bi_scope :: "string list option"
  bi_config :: "dict option"
  bi_entry_ids :: "string list option"

definition names_of :: "binding_inputs \<Rightarrow> json list option" where
  "names_of b = (case bi_tool_names b of
     Some ns \<Rightarrow> Some ns
   | None \<Rightarrow> map_option (map (\<lambda>t. json_or (lookup_or (descriptor t) ''name'' JNull) (JStr []))) (bi_descriptors b))"

definition build_payload :: "binding_inputs \<Rightarrow> dict" where
  "build_payload b =
     (let names = names_of b;
          payload = canonical_payload
           [(''deployment_id'', JStr (bi_deployment_id b)),
            (''build_commit'', opt_json (bi_build_commit b)),
            (''transport'', opt_json (bi_transport b)),
            (''upstream_command'', opt_json (redact_command (bi_command b))),
            (''upstream_endpoint'', opt_json (redact_endpoint (bi_endpoint b))),
            (''tool_list_digest'', opt_json (map_option tool_list_digest names)),
            (''tool_descriptor_digest'', opt_json (map_option tool_descriptor_digest (bi_descriptors b))),
            (''tool_count'', case names of None \<Rightarrow> JNull | Some ns \<Rightarrow> JInt (int (length ns))),
            (''credential_fingerprint'', opt_json (credential_fingerprint (bi_credential b))),
            (''credential_binding'', credential_binding (bi_runtime_credential b)
               (str_or (redact_endpoint (bi_endpoint b)) (redact_command (bi_command b)))
               (if bi_configured_credential b \<noteq> None then bi_configured_credential b else bi_credential b)
               ''runtime-connection'' (bi_scope b)),
            (''entry_ids'', if truthy_list (bi_entry_ids b) then str_set_json (bi_entry_ids b) else JNull)]
      in canonical_payload (fold (\<lambda>(k, v). dict_set k v) (config_digest (bi_config b)) payload))"

subsection \<open>Writing the binding at startup\<close>

definition record_binding ::
  "environment \<Rightarrow> int \<Rightarrow> store_fault option \<Rightarrow> string \<Rightarrow> dict \<Rightarrow> string option \<Rightarrow> string option \<Rightarrow>
   audit_chain \<times> audit_store \<Rightarrow> (audit_chain \<times> audit_store) \<times> (audit_record \<times> string) result" where
  "record_binding env now fault tenant payload trace digest cs =
     (case chain_record env now fault ((call_args BINDING_CLIENT_ID ''BINDING'' ''deployment binding written at startup''
          (payload_text payload))\<lparr>ra_rule := Some BINDING_RULE, ra_trace := trace, ra_digest := digest,
          ra_tenant := Some tenant\<rparr>) cs of
        (cs', Inl e) \<Rightarrow> (cs', Inl e)
      | (cs', Inr r) \<Rightarrow> (cs', Inr (r, payload_digest payload)))"

definition truthy_flag :: "string option \<Rightarrow> bool" where
  "truthy_flag v = (lower (strip (case v of Some s \<Rightarrow> s | None \<Rightarrow> [])) \<in> {''1'', ''true'', ''yes'', ''on''})"

text \<open>\<open>(env.get(k) or "").strip() or None\<close>.\<close>

definition env_given :: "string option \<Rightarrow> string option" where
  "env_given v = given (Some (strip (case v of Some s \<Rightarrow> s | None \<Rightarrow> [])))"

definition parse_descriptors :: "(string \<Rightarrow> string + json) \<Rightarrow> environment \<Rightarrow> json list option result" where
  "parse_descriptors loads env = (let raw = env ''CUSTOS_TOOL_DESCRIPTORS'' in
     if \<not> truthy_str raw then Inr None
     else (case loads (opt_str raw) of
       Inl m \<Rightarrow> Inl (BindingError (''CUSTOS_TOOL_DESCRIPTORS is not valid JSON: '' @ m))
     | Inr (JList xs) \<Rightarrow> Inr (Some xs)
     | Inr _ \<Rightarrow> Inl (BindingError ''CUSTOS_TOOL_DESCRIPTORS must be a JSON list of tool descriptors'')))"

definition parse_config :: "(string \<Rightarrow> string + json) \<Rightarrow> environment \<Rightarrow> dict option result" where
  "parse_config loads env = (let raw = env ''CUSTOS_BINDING_CONFIG'' in
     if \<not> truthy_str raw then Inr None
     else (case loads (opt_str raw) of
       Inl m \<Rightarrow> Inl (BindingError (''CUSTOS_BINDING_CONFIG is not valid JSON: '' @ m))
     | Inr (JObj kvs) \<Rightarrow> Inr (Some kvs)
     | Inr _ \<Rightarrow> Inl (BindingError ''CUSTOS_BINDING_CONFIG must be a JSON object'')))"

definition payload_from_env :: "(string \<Rightarrow> string + json) \<Rightarrow> environment \<Rightarrow> dict option result" where
  "payload_from_env loads env =
     (if \<not> truthy_flag (env STARTUP_ENV_FLAG) then Inr None
      else let deployment_id = strip (env_or_empty env ''CUSTOS_DEPLOYMENT_ID'') in
      if deployment_id = [] then Inl (BindingError (STARTUP_ENV_FLAG @
        '' is set but CUSTOS_DEPLOYMENT_ID is empty; a binding record without a deployment identity binds nothing''))
      else try_bind (parse_descriptors loads env) (\<lambda>descriptors.
        try_bind (parse_config loads env) (\<lambda>config.
        let entries = filter (\<lambda>e. e \<noteq> []) (map strip (split_on (CHR '','') (env_or_empty env ''CUSTOS_BINDING_ENTRIES'')))
        in Inr (Some (build_payload
          \<lparr>bi_deployment_id = deployment_id,
           bi_build_commit = env_given (str_or (env ''CUSTOS_BUILD_COMMIT'') (env ''GIT_SHA'')),
           bi_transport = env_given (env ''CUSTOS_TRANSPORT''),
           bi_command = env_given (env ''CUSTOS_UPSTREAM_COMMAND''),
           bi_endpoint = env_given (env ''CUSTOS_UPSTREAM_ENDPOINT''),
           bi_tool_names = None, bi_descriptors = descriptors, bi_credential = None,
           bi_runtime_credential = env_given (env ''CUSTOS_BINDING_CREDENTIAL''),
           bi_configured_credential = None, bi_scope = None, bi_config = config,
           bi_entry_ids = (if entries = [] then None else Some entries)\<rparr>)))))"

record binding_summary =
  bs_enabled :: bool
  bs_payload :: dict
  bs_deployment_id :: json
  bs_binding_digest :: string
  bs_trace_id :: string
  bs_policy_digest :: "string option"
  bs_record_hash :: string
  bs_established_at :: int
  bs_entry_ids :: json

text \<open>\<open>establish\<close>: \<open>fresh\<close> is the new \<open>uuid4().hex\<close>.\<close>

definition establish ::
  "(string \<Rightarrow> string + json) \<Rightarrow> environment \<Rightarrow> int \<Rightarrow> store_fault option \<Rightarrow> string \<Rightarrow> string \<Rightarrow> string option \<Rightarrow>
   string option \<Rightarrow> audit_chain \<times> audit_store \<Rightarrow> (audit_chain \<times> audit_store) \<times> binding_summary option result" where
  "establish loads env now fault fresh tenant digest trace cs =
     (case payload_from_env loads env of
        Inl e \<Rightarrow> (cs, Inl e)
      | Inr None \<Rightarrow> (cs, Inr None)
      | Inr (Some payload) \<Rightarrow>
          (let tr = (if truthy_str trace then opt_str trace else fresh) in
           case record_binding env now fault tenant payload (Some tr) digest cs of
             (cs', Inl e) \<Rightarrow> (cs', Inl (BindingError (''deployment binding could not be recorded: '' @ exn_text e)))
           | (cs', Inr (r, d)) \<Rightarrow> (cs', Inr (Some
               \<lparr>bs_enabled = True, bs_payload = payload, bs_deployment_id = lookup_or payload ''deployment_id'' JNull,
                bs_binding_digest = d, bs_trace_id = tr, bs_policy_digest = digest, bs_record_hash = record_hash r,
                bs_established_at = timestamp r,
                bs_entry_ids = json_or (lookup_or payload ''entry_ids'' JNull) (JList [])\<rparr>))))"

subsection \<open>What a digest determines\<close>

definition text_collision :: "string \<Rightarrow> string \<Rightarrow> bool" where
  "text_collision a b = (a \<noteq> b \<and> sha256_text a = sha256_text b)"

lemma digest_of_same: "sort_keys x = sort_keys y \<Longrightarrow> digest_of x = digest_of y"
  by (simp add: digest_of_def json_dumps_def)

lemma digest_of_cases:
  assumes "digest_of x = digest_of y"
  shows "sort_keys x = sort_keys y \<or> text_collision (json_dumps compact_raw_fmt x) (json_dumps compact_raw_fmt y)"
proof (cases "json_dumps compact_raw_fmt x = json_dumps compact_raw_fmt y")
  case True
  then show ?thesis using json_dumps_inject [OF fmt_ok_formats(3)] by blast
next
  case False
  with assms show ?thesis by (simp add: digest_of_def text_collision_def)
qed

subsection \<open>Tool descriptors\<close>

text \<open>A descriptor in canonical form, and the name it is sorted by.\<close>

definition canonical_tool :: "json \<Rightarrow> json" where
  "canonical_tool t = JObj (sorted_fields (descriptor t))"

definition json_name :: "json \<Rightarrow> string" where
  "json_name j = (case j of JObj d \<Rightarrow> tool_name d | _ \<Rightarrow> [])"

text \<open>What tools with different names look like.\<close>

definition named_tools :: "json list \<Rightarrow> bool" where
  "named_tools tools = (distinct (map (\<lambda>t. tool_name (descriptor t)) tools) \<and>
     (\<forall>t \<in> set tools. distinct (map fst (descriptor t)) \<and>
        (\<exists>s. map_of (descriptor t) ''name'' = Some (JStr s))))"

lemma map_of_sorted_fields:
  assumes "distinct (map fst d)"
  shows "map_of (sorted_fields d) k = map_option sort_keys (map_of d k)"
proof -
  have "distinct (map fst (map (\<lambda>kv. (fst kv, sort_keys (snd kv))) d))" using assms by (simp add: o_def)
  then have "map_of (sorted_fields d) k = map_of (map (\<lambda>kv. (fst kv, sort_keys (snd kv))) d) k"
    unfolding sorted_fields_def by (simp only: map_of_sort_key)
  also have "\<dots> = map_option sort_keys (map_of d k)" by (induction d) auto
  finally show ?thesis .
qed

lemma json_name_canonical:
  assumes "named_tools tools" "t \<in> set tools"
  shows "json_name (canonical_tool t) = tool_name (descriptor t)"
proof -
  obtain s where "map_of (descriptor t) ''name'' = Some (JStr s)" and d: "distinct (map fst (descriptor t))"
    using assms by (auto simp: named_tools_def)
  with map_of_sorted_fields [OF d] show ?thesis
    by (simp add: canonical_tool_def json_name_def tool_name_def lookup_or_def json_str_def)
qed

lemma sorted_tools:
  assumes "named_tools tools"
  shows "sort_keys (JList (map JObj (sort_key tool_name (map descriptor tools)))) =
    JList (sort_key json_name (map canonical_tool tools))"
proof -
  let ?c = "\<lambda>d. JObj (sorted_fields d)"
  have name: "json_name (?c d) = tool_name d" if "d \<in> set (map descriptor tools)" for d
    using that json_name_canonical [OF assms] by (auto simp: canonical_tool_def)
  have eq: "map canonical_tool tools = map ?c (map descriptor tools)" by (simp add: canonical_tool_def)
  have "sort_key json_name (map ?c (map descriptor tools)) = map ?c (sort_key tool_name (map descriptor tools))"
  proof (rule sort_key_inj_key_eq)
    show "mset (map ?c (map descriptor tools)) = mset (map ?c (sort_key tool_name (map descriptor tools)))"
      unfolding mset_map mset_sort ..
    have "map json_name (map ?c (map descriptor tools)) = map (\<lambda>t. tool_name (descriptor t)) tools"
      using name by simp
    moreover have "distinct (map (\<lambda>t. tool_name (descriptor t)) tools)" using assms by (simp add: named_tools_def)
    ultimately have "distinct (map json_name (map ?c (map descriptor tools)))" by (simp only:)
    then show "inj_on json_name (set (map ?c (map descriptor tools)))" unfolding distinct_map by blast
    have "map json_name (map ?c (sort_key tool_name (map descriptor tools))) =
      map tool_name (sort_key tool_name (map descriptor tools))" using name by simp
    then show "sorted (map json_name (map ?c (sort_key tool_name (map descriptor tools))))"
      using sorted_sort_key by metis
  qed
  then show ?thesis unfolding eq by (simp add: sorted_fields_def)
qed

lemma json_name_inj:
  assumes "named_tools tools"
  shows "inj_on json_name (set (map canonical_tool tools))"
proof -
  have "map json_name (map canonical_tool tools) = map (\<lambda>t. tool_name (descriptor t)) tools"
    using json_name_canonical [OF assms] by simp
  moreover have "distinct (map (\<lambda>t. tool_name (descriptor t)) tools)" using assms by (simp add: named_tools_def)
  ultimately have "distinct (map json_name (map canonical_tool tools))" by (simp only:)
  then show ?thesis unfolding distinct_map by blast
qed

subsection \<open>Redaction, leaf by leaf\<close>

text \<open>The leaves of a value with their paths, and what redaction makes of one.\<close>

fun leaves :: "string \<Rightarrow> json \<Rightarrow> (string \<times> json) list"
  and item_leaves :: "string \<Rightarrow> nat \<Rightarrow> json list \<Rightarrow> (string \<times> json) list"
  and field_leaves :: "string \<Rightarrow> dict \<Rightarrow> (string \<times> json) list" where
  "leaves path (JObj kvs) = field_leaves path kvs"
| "leaves path (JList xs) = item_leaves path 0 xs"
| "leaves path v = [(path, v)]"
| "item_leaves path i [] = []"
| "item_leaves path i (x # xs) = leaves (path @ ''['' @ int_repr (int i) @ '']'') x @ item_leaves path (Suc i) xs"
| "field_leaves path [] = []"
| "field_leaves path ((k, x) # kvs) = leaves (if path \<noteq> [] then path @ ''.'' @ k else k) x @ field_leaves path kvs"

definition secret_path :: "string \<Rightarrow> bool" where
  "secret_path p = (p \<noteq> [] \<and> looks_secret (last_segment p))"

definition mask_leaf :: "string \<times> json \<Rightarrow> string \<times> json" where
  "mask_leaf pv = (fst pv, if secret_path (fst pv) then opt_json (credential_fingerprint (Some (json_str (snd pv)))) else snd pv)"

lemma leaves_opt_json [simp]: "leaves path (opt_json x) = [(path, opt_json x)]"
  by (cases x) (simp_all add: opt_json_def)

lemma redact_leaves:
  "redact_secrets path v = (w, fs) \<Longrightarrow> leaves path w = map mask_leaf (leaves path v) \<and>
     fs = map fst (filter (\<lambda>pv. secret_path (fst pv)) (leaves path v))"
  "redact_items path i xs = (ys, fs) \<Longrightarrow> item_leaves path i ys = map mask_leaf (item_leaves path i xs) \<and>
     fs = map fst (filter (\<lambda>pv. secret_path (fst pv)) (item_leaves path i xs))"
  "redact_fields path kvs = (d, fs) \<Longrightarrow> field_leaves path d = map mask_leaf (field_leaves path kvs) \<and>
     fs = map fst (filter (\<lambda>pv. secret_path (fst pv)) (field_leaves path kvs))"
  by (induction path v and path i xs and path kvs arbitrary: w fs and ys fs and d fs
      rule: redact_secrets_redact_items_redact_fields.induct)
    (auto simp: mask_leaf_def secret_path_def split: prod.splits if_splits)

subsection \<open>What a start writes\<close>

lemma establish_cases:
  assumes run: "establish loads env now fault fresh tenant digest trace (c, st) = ((c', st'), res)"
  shows "case res of
        Inl e \<Rightarrow> truthy_flag (env STARTUP_ENV_FLAG) \<and> e \<in> range BindingError \<and> (c', st') = (c, st)
      | Inr None \<Rightarrow> \<not> truthy_flag (env STARTUP_ENV_FLAG) \<and> (c', st') = (c, st)
      | Inr (Some s) \<Rightarrow> truthy_flag (env STARTUP_ENV_FLAG) \<and> payload_from_env loads env = Inr (Some (bs_payload s)) \<and>
          (\<exists>r. ac_records c' = ac_records c @ [r] \<and> ar_action r = ''BINDING'' \<and> tenant_id r = Some tenant \<and>
             content_hash r = hash_content (payload_text (bs_payload s)) \<and>
             bs_binding_digest s = ''sha256:'' @ content_hash r \<and> bs_record_hash s = record_hash r \<and>
             ar_policy_digest r = digest \<and> trace_id r = Some (bs_trace_id s))"
proof (cases "payload_from_env loads env")
  case (Inl e)
  then have "e \<in> range BindingError" "truthy_flag (env STARTUP_ENV_FLAG)"
    by (auto simp: payload_from_env_def parse_descriptors_def parse_config_def result_simps Let_def
        split: if_splits sum.splits json.splits)
  with Inl run show ?thesis by (auto simp: establish_def)
next
  case (Inr p)
  have on: "truthy_flag (env STARTUP_ENV_FLAG) \<longleftrightarrow> p \<noteq> None"
    using Inr by (auto simp: payload_from_env_def result_simps Let_def split: if_splits)
  show ?thesis
  proof (cases p)
    case None
    with Inr run on show ?thesis by (auto simp: establish_def)
  next
    case (Some payload)
    show ?thesis
      using run Inr on unfolding Some establish_def Let_def
      by (auto simp: record_binding_def payload_digest_def hash_content_def record_tenant_def call_args_def
          dest!: chain_record_Inl chain_record_Inr seal_entry_Inr split: prod.splits sum.splits option.splits if_splits)
  qed
qed

subsection \<open>Properties\<close>

text \<open>The descriptor digest moves exactly when a descriptor does. For two lists of tools, each
  with different string names, the digests are equal exactly when the lists hold the same
  descriptors (both spellings of the input schema taken as one, the order of the tools and of
  the keys left aside), unless the two hashed texts collide.\<close>

theorem descriptor_digest_binds:
  assumes "named_tools tools" "named_tools tools'"
  shows "(tool_descriptor_digest tools = tool_descriptor_digest tools' \<longleftrightarrow>
      mset (map canonical_tool tools) = mset (map canonical_tool tools')) \<or>
    (\<exists>x y. tool_descriptor_digest tools = ''sha256:'' @ sha256_text x \<and>
       tool_descriptor_digest tools' = ''sha256:'' @ sha256_text y \<and> text_collision x y)"
proof -
  let ?j = "\<lambda>ts. JList (map JObj (sort_key tool_name (map descriptor ts)))"
  have "sort_keys (?j tools) = sort_keys (?j tools') \<longleftrightarrow> mset (map canonical_tool tools) = mset (map canonical_tool tools')"
    (is "?s \<longleftrightarrow> ?m")
  proof -
    have "?s \<longleftrightarrow> sort_key json_name (map canonical_tool tools) = sort_key json_name (map canonical_tool tools')"
      unfolding sorted_tools [OF assms(1)] sorted_tools [OF assms(2)] by simp
    also have "\<dots> \<longleftrightarrow> ?m"
    proof
      assume "sort_key json_name (map canonical_tool tools) = sort_key json_name (map canonical_tool tools')"
      then show ?m by (metis mset_sort)
    next
      assume ?m
      with sort_key_inj_key_eq [of "map canonical_tool tools" "sort_key json_name (map canonical_tool tools')" json_name]
      show "sort_key json_name (map canonical_tool tools) = sort_key json_name (map canonical_tool tools')"
        using json_name_inj [OF assms(1)] by (simp del: mset_map)
    qed
    finally show ?thesis .
  qed
  then show ?thesis
    using digest_of_same digest_of_cases [of "?j tools" "?j tools'"]
    unfolding tool_descriptor_digest_def by (auto simp: digest_of_def)
qed

theorem descriptor_digest_binds_witness:
  "tool_descriptor_digest [JStr ''b'', JStr ''a''] = tool_descriptor_digest [JStr ''a'', JStr ''b'']"
proof -
  have *: "named_tools [JStr ''b'', JStr ''a'']" "named_tools [JStr ''a'', JStr ''b'']"
    by (auto simp: named_tools_def descriptor_def tool_name_def lookup_or_def json_str_def)
  have "mset (map canonical_tool [JStr ''b'', JStr ''a'']) = mset (map canonical_tool [JStr ''a'', JStr ''b''])" by simp
  with descriptor_digest_binds [OF *] show ?thesis by (auto simp: text_collision_def)
qed

text \<open>C31: a deployment that asks to be bound is bound or refused. \<open>establish\<close> never writes and
  returns nothing when the flag is off; with the flag on it either raises \<open>BindingError\<close> and
  leaves the chain and the store as they were, or appends one BINDING record for the tenant
  whose content hash is the reported digest of the reported payload, and which carries the
  policy digest and the trace it reports.\<close>

theorem establish_binds_or_refuses:
  "case establish loads env now fault fresh tenant digest trace (c, st) of ((c', st'), res) \<Rightarrow>
     (case res of
        Inl e \<Rightarrow> truthy_flag (env STARTUP_ENV_FLAG) \<and> e \<in> range BindingError \<and> (c', st') = (c, st)
      | Inr None \<Rightarrow> \<not> truthy_flag (env STARTUP_ENV_FLAG) \<and> (c', st') = (c, st)
      | Inr (Some s) \<Rightarrow> truthy_flag (env STARTUP_ENV_FLAG) \<and> payload_from_env loads env = Inr (Some (bs_payload s)) \<and>
          (\<exists>r. ac_records c' = ac_records c @ [r] \<and> ar_action r = ''BINDING'' \<and> tenant_id r = Some tenant \<and>
             content_hash r = hash_content (payload_text (bs_payload s)) \<and>
             bs_binding_digest s = ''sha256:'' @ content_hash r \<and> bs_record_hash s = record_hash r \<and>
             ar_policy_digest r = digest \<and> trace_id r = Some (bs_trace_id s)))"
proof -
  obtain c' st' res where run: "establish loads env now fault fresh tenant digest trace (c, st) = ((c', st'), res)"
    by (metis prod.exhaust)
  from establish_cases [OF run] show ?thesis unfolding run by simp
qed

subsection \<open>Where redaction reaches too far\<close>

text \<open>
  The userinfo is taken up to the last \<open>@\<close> of everything after the scheme, so an address in the
  query hides the host: two different upstreams are recorded by fingerprints only.
\<close>

lemma query_address_hides_host:
  "redact_endpoint (Some ''https://api.io/x?user=a@b.io'') =
     Some (''https://'' @ ''sha256:'' @ sha256_text ''api.io/x?user=a'' @ ''@b.io'')"
proof -
  have h: "CHR ''?'' \<notin> set (sha256_text t)" for t
    using sha256_hex_chars by (fastforce simp: sha256_text_def hex_char_def)
  have p: "partition_at c (u @ v) = (case partition_at c v of (a, f, b) \<Rightarrow> (u @ a, f, b))" if "c \<notin> set u" for c u v
    using that by (induction u) (auto split: prod.splits)
  have "redact_url_userinfo ''https://api.io/x?user=a@b.io'' = ''https://sha256:'' @ sha256_text ''api.io/x?user=a'' @ ''@b.io''"
    by (simp add: redact_url_userinfo_def startswith_def rpartition_at_def after_last_def opt_str_def credential_fingerprint_def)
  moreover have "partition_at (CHR ''?'') (''https://sha256:'' @ sha256_text t @ ''@b.io'') =
     (''https://sha256:'' @ sha256_text t @ ''@b.io'', False, [])" for t
    by (subst p, simp, subst p, rule h, simp)
  ultimately show ?thesis by (simp add: redact_endpoint_def)
qed

end
