(* ===== verification/Auth.thy ===== *)
theory Auth
  imports Json Sha256 Url
begin

text \<open>
  \<open>src/custos/auth.py\<close> and \<open>src/custos/jwks.py\<close>: the verification of bearer tokens, the service key,
  and the cache of the key sets of tenants. PyJWT and \<open>cryptography\<close> are parameters, the record
  \<open>crypto\<close>: reading a header, decoding with a shared secret or with a public key (the RSA
  decodes require \<open>exp\<close> and \<open>sub\<close>), reading the claims without verification, loading and taking
  apart keys. The library refuses a key id that is not a string, so a header's key id is a
  string or absent. A key is of a type of the library (a type variable). The HTTP fetch of a
  key set (get, status check and parsing) is a parameter too, and so is the key the
  development fallback generates. Locks are not modelled.
\<close>

record token_header =
  th_alg :: json
  th_kid :: "string option"

record 'k crypto =
  cr_header :: "string \<Rightarrow> token_header result"
  cr_decode_hs :: "string \<Rightarrow> string \<Rightarrow> dict result"
  cr_decode_rs :: "'k \<Rightarrow> string option \<Rightarrow> string option \<Rightarrow> string \<Rightarrow> dict result"
  cr_claims :: "string \<Rightarrow> dict result"
  cr_load_pem :: "string \<Rightarrow> 'k option"
  cr_is_rsa :: "'k \<Rightarrow> bool"
  cr_public :: "'k \<Rightarrow> 'k"
  cr_numbers :: "'k \<Rightarrow> nat \<times> nat"
  cr_from_jwk :: "dict \<Rightarrow> 'k result"
  cr_encode_hs :: "string \<Rightarrow> dict \<Rightarrow> string"
  cr_encode_rs :: "'k \<Rightarrow> string \<Rightarrow> dict \<Rightarrow> string"

record jwks_entry =
  je_keys :: "(json \<times> dict) list"
  je_fetched :: int

text \<open>The process state: the service key and the cache with its last attempts, by URL.\<close>

record 'k auth_state =
  as_key :: "('k \<times> string) option"
  as_jwks :: "(string \<times> jwks_entry) list"
  as_attempt :: "(string \<times> int) list"

definition new_auth_state :: "'k auth_state" where
  "new_auth_state = \<lparr>as_key = None, as_jwks = [], as_attempt = []\<rparr>"

text \<open>What the world gives to one call.\<close>

record 'k auth_input =
  ai_env :: environment
  ai_crypto :: "'k crypto"
  ai_read :: "string \<Rightarrow> string option"
  ai_fresh :: 'k
  ai_fetch :: "string \<Rightarrow> json result"
  ai_now :: int
  ai_fetched :: int

subsection \<open>Configuration\<close>

definition DEV_DEFAULT_SECRET :: string where
  "DEV_DEFAULT_SECRET = ''dev-secret-change-in-production''"

record auth_config =
  au_secret :: string
  au_algorithm :: string
  au_expiry :: int

definition jwt_algorithm :: "environment \<Rightarrow> string" where
  "jwt_algorithm env = upper (case str_or (env ''CUSTOS_JWT_ALGORITHM'') (Some ''HS256'') of Some a \<Rightarrow> a | None \<Rightarrow> [])"

definition load_auth_config :: "environment \<Rightarrow> auth_config result" where
  "load_auth_config env =
     (let alg = jwt_algorithm env in
      if alg \<notin> {''HS256'', ''RS256''} then
        Inl (RuntimeError (''CUSTOS_JWT_ALGORITHM must be HS256 or RS256, got '' @ py_repr alg))
      else try_bind (py_int (getenv env ''CUSTOS_JWT_EXPIRY'' ''3600'')) (\<lambda>n.
        Inr \<lparr>au_secret = getenv env ''CUSTOS_JWT_SECRET'' DEV_DEFAULT_SECRET, au_algorithm = alg, au_expiry = n\<rparr>))"

definition production :: "environment \<Rightarrow> bool" where
  "production env = (lower (getenv env ''CUSTOS_ENV'' ''development'') = ''production'')"

definition weak_secret :: "environment \<Rightarrow> bool" where
  "weak_secret env = (\<not> truthy_str (env ''CUSTOS_JWT_SECRET'') \<or> env ''CUSTOS_JWT_SECRET'' = Some DEV_DEFAULT_SECRET)"

definition auth_enabled :: "environment \<Rightarrow> bool" where
  "auth_enabled env =
     (if production env \<and> getenv env ''AUTH_DISABLED'' ''0'' = ''1'' then True
      else getenv env ''AUTH_DISABLED'' ''0'' \<noteq> ''1'')"

subsection \<open>The service key\<close>

definition load_private_key :: "'k auth_input \<Rightarrow> 'k option" where
  "load_private_key inp = (case ai_env inp ''CUSTOS_JWT_PRIVATE_KEY'' of
     None \<Rightarrow> None
   | Some raw \<Rightarrow> if raw = [] then None
       else if contains raw ''-----BEGIN'' then cr_load_pem (ai_crypto inp) raw
       else (case ai_read inp raw of None \<Rightarrow> None | Some pem \<Rightarrow> cr_load_pem (ai_crypto inp) pem))"

text \<open>The shortest big-endian bytes of a number, and their unpadded URL-safe base64.\<close>

fun uint_bytes :: "nat \<Rightarrow> nat list" where
  "uint_bytes n = (if n = 0 then [] else uint_bytes (n div 256) @ [n mod 256])"

definition b64_char :: "nat \<Rightarrow> char" where
  "b64_char d = (if d < 26 then char_of (65 + d) else if d < 52 then char_of (71 + d)
     else if d < 62 then char_of (d - 4) else if d = 62 then CHR ''-'' else CHR ''_'')"

fun b64_bytes :: "nat list \<Rightarrow> string" where
  "b64_bytes [] = []"
| "b64_bytes [a] = [b64_char (a div 4), b64_char (a mod 4 * 16)]"
| "b64_bytes [a, b] = [b64_char (a div 4), b64_char (a mod 4 * 16 + b div 16), b64_char (b mod 16 * 4)]"
| "b64_bytes (a # b # c # xs) =
     b64_char (a div 4) # b64_char (a mod 4 * 16 + b div 16) # b64_char (b mod 16 * 4 + c div 64) #
     b64_char (c mod 64) # b64_bytes xs"

definition b64url_uint :: "nat \<Rightarrow> string" where
  "b64url_uint n = b64_bytes (uint_bytes n)"

definition jwk_from_public_key :: "nat \<times> nat \<Rightarrow> dict" where
  "jwk_from_public_key ne = [(''kty'', JStr ''RSA''), (''n'', JStr (b64url_uint (fst ne))), (''e'', JStr (b64url_uint (snd ne)))]"

definition kid_for_public_key :: "nat \<times> nat \<Rightarrow> string" where
  "kid_for_public_key ne = (let jwk = jwk_from_public_key ne in
     sha256_text (json_dumps compact_fmt (JObj [(''e'', lookup_or jwk ''e'' JNull), (''kty'', lookup_or jwk ''kty'' JNull),
       (''n'', lookup_or jwk ''n'' JNull)])))"

definition get_service_keypair :: "'k auth_input \<Rightarrow> 'k auth_state \<Rightarrow> 'k auth_state \<times> ('k \<times> string) result" where
  "get_service_keypair inp s = (case as_key s of
     Some k \<Rightarrow> (s, Inr k)
   | None \<Rightarrow>
       (let key = (case load_private_key inp of Some k \<Rightarrow> k | None \<Rightarrow> ai_fresh inp) in
        if \<not> cr_is_rsa (ai_crypto inp) key then
          (s, Inl (RuntimeError ''CUSTOS_JWT_PRIVATE_KEY must be an RSA private key for RS256''))
        else let kid = (case str_or (ai_env inp ''CUSTOS_JWT_KEY_ID'') None of
                 Some i \<Rightarrow> i | None \<Rightarrow> kid_for_public_key (cr_numbers (ai_crypto inp) (cr_public (ai_crypto inp) key)))
          in (s\<lparr>as_key := Some (key, kid)\<rparr>, Inr (key, kid))))"

definition get_jwks_document :: "'k auth_input \<Rightarrow> 'k auth_state \<Rightarrow> 'k auth_state \<times> dict result" where
  "get_jwks_document inp s = (case get_service_keypair inp s of
     (s', Inl e) \<Rightarrow> (s', Inl e)
   | (s', Inr (key, kid)) \<Rightarrow> (s', Inr [(''keys'', JList [JObj
       (jwk_from_public_key (cr_numbers (ai_crypto inp) (cr_public (ai_crypto inp) key)) @
        [(''kid'', JStr kid), (''alg'', JStr ''RS256''), (''use'', JStr ''sig'')])])]))"

definition create_token :: "'k auth_input \<Rightarrow> auth_config \<Rightarrow> string \<Rightarrow> int \<Rightarrow> 'k auth_state \<Rightarrow> 'k auth_state \<times> string result" where
  "create_token inp cfg client expires_in s =
     (let now = ai_now inp div usec;
          payload = [(''sub'', JStr client), (''iat'', JInt now), (''exp'', JInt (now + expires_in))] in
      if au_algorithm cfg = ''RS256'' then
        (case get_service_keypair inp s of
           (s', Inl e) \<Rightarrow> (s', Inl e)
         | (s', Inr (key, kid)) \<Rightarrow> (s', Inr (cr_encode_rs (ai_crypto inp) key kid payload)))
      else (s, Inr (cr_encode_hs (ai_crypto inp) (au_secret cfg) payload)))"

subsection \<open>Startup checks\<close>

definition validate_production_key :: "'k auth_input \<Rightarrow> unit result" where
  "validate_production_key inp =
     (if \<not> production (ai_env inp) then Inr ()
      else if jwt_algorithm (ai_env inp) \<noteq> ''RS256'' then Inr ()
      else if load_private_key inp = None then
        Inl (RuntimeError ''CUSTOS_JWT_ALGORITHM=RS256 in production requires CUSTOS_JWT_PRIVATE_KEY (PEM content or path). Fail-closed.'')
      else Inr ())"

definition validate_production_secrets :: "'k auth_input \<Rightarrow> unit result" where
  "validate_production_secrets inp =
     (if \<not> production (ai_env inp) then Inr ()
      else if jwt_algorithm (ai_env inp) = ''RS256'' then validate_production_key inp
      else if weak_secret (ai_env inp) then
        Inl (RuntimeError ''CUSTOS_JWT_SECRET is unset or set to the dev default while CUSTOS_ENV=production. Set a strong unique secret (fail-closed). (Or switch to RS256: CUSTOS_JWT_ALGORITHM=RS256 + CUSTOS_JWT_PRIVATE_KEY.)'')
      else Inr ())"

subsection \<open>Key sets of tenants\<close>

definition JWKS_CACHE_TTL :: int where "JWKS_CACHE_TTL = 300 * usec"
definition JWKS_REFRESH_BACKOFF :: int where "JWKS_REFRESH_BACKOFF = 30 * usec"

definition refused_url :: exn where
  "refused_url = ValueError ''tenant JWKS URL must be https:// (fail-closed)''"

text \<open>The keys of a fetched document: the loop of \<open>\_fetch\<close>. A key id that cannot be hashed raises.\<close>

fun hashable :: "json \<Rightarrow> bool" where
  "hashable (JList xs) = False"
| "hashable (JObj kvs) = False"
| "hashable j = True"

fun collect_keys :: "json list \<Rightarrow> (json \<times> dict) list \<Rightarrow> (json \<times> dict) list result" where
  "collect_keys [] ks = Inr ks"
| "collect_keys (JObj jwk # js) ks =
     (let kid = lookup_or jwk ''kid'' JNull in
      if lookup_or jwk ''kty'' JNull = JStr ''RSA'' \<and> truthy kid then
        (if hashable kid then collect_keys js (dict_set kid jwk ks) else Inl (TypeError ''unhashable type''))
      else collect_keys js ks)"
| "collect_keys (_ # js) ks = Inl (AttributeError ''object has no attribute get'')"

definition fetch_jwks :: "'k auth_input \<Rightarrow> string \<Rightarrow> jwks_entry result" where
  "fetch_jwks inp url = try_bind (urlparse url) (\<lambda>u.
     if u_scheme u \<noteq> ''https'' then Inl refused_url
     else try_bind (ai_fetch inp url) (\<lambda>doc. case doc of
       JObj d \<Rightarrow> try_bind (py_list (lookup_or d ''keys'' (JList []))) (\<lambda>js.
         try_bind (collect_keys js []) (\<lambda>ks. Inr \<lparr>je_keys = ks, je_fetched = ai_fetched inp\<rparr>))
     | _ \<Rightarrow> Inl (AttributeError ''object has no attribute get'')))"

text \<open>Whether \<open>get\_key\<close> tries a fetch: the entry is stale and the backoff is over.\<close>

definition refreshes :: "'k auth_input \<Rightarrow> string \<Rightarrow> 'k auth_state \<Rightarrow> bool" where
  "refreshes inp url s =
     (let stale = (case map_of (as_jwks s) url of None \<Rightarrow> True | Some en \<Rightarrow> ai_now inp - je_fetched en > JWKS_CACHE_TTL) in
      stale \<and> ai_now inp - (case map_of (as_attempt s) url of Some t \<Rightarrow> t | None \<Rightarrow> 0) > JWKS_REFRESH_BACKOFF)"

definition refresh :: "'k auth_input \<Rightarrow> string \<Rightarrow> 'k auth_state \<Rightarrow> 'k auth_state" where
  "refresh inp url s =
     (if refreshes inp url s then
        (let s1 = s\<lparr>as_attempt := dict_set url (ai_now inp) (as_attempt s)\<rparr> in
         case fetch_jwks inp url of Inr en \<Rightarrow> s1\<lparr>as_jwks := dict_set url en (as_jwks s1)\<rparr> | Inl e \<Rightarrow> s1)
      else s)"

definition get_key :: "'k auth_input \<Rightarrow> string \<Rightarrow> string \<Rightarrow> 'k auth_state \<Rightarrow> 'k auth_state \<times> dict option result" where
  "get_key inp url kid s = (case urlparse url of
     Inl e \<Rightarrow> (s, Inl e)
   | Inr u \<Rightarrow> if u_scheme u \<noteq> ''https'' then (s, Inl refused_url)
       else (let s' = refresh inp url s in (s', Inr (case map_of (as_jwks s') url of
         None \<Rightarrow> None | Some en \<Rightarrow> map_of (je_keys en) (JStr kid)))))"

definition issuer_slug :: "string \<Rightarrow> string" where
  "issuer_slug iss = upper (map (\<lambda>c. if is_letter c \<or> is_digit c then c else CHR ''_'') iss)"

definition tenant_jwks_url_for_issuer :: "environment \<Rightarrow> json \<Rightarrow> string option result" where
  "tenant_jwks_url_for_issuer env iss =
     (let fallback = str_or (env ''CUSTOS_TENANT_JWKS_URL'') None in
      if \<not> truthy iss then Inr fallback
      else (case iss of
        JStr i \<Rightarrow> Inr (str_or (env (''CUSTOS_TENANT_JWKS_URL_'' @ issuer_slug i)) fallback)
      | _ \<Rightarrow> Inl (TypeError ''expected string or bytes-like object'')))"

subsection \<open>Verification of a token\<close>

definition no_matching_key :: exn where
  "no_matching_key = InvalidTokenError ''RS256 token: no matching key (kid unknown or issuer unconfigured)''"

text \<open>The tenant part of \<open>verify\_rs256\_token\<close>, for the URL of the issuer.\<close>

definition verify_tenant_token ::
  "'k auth_input \<Rightarrow> string \<Rightarrow> string option \<Rightarrow> json \<Rightarrow> string \<Rightarrow> 'k auth_state \<Rightarrow> 'k auth_state \<times> dict result" where
  "verify_tenant_token inp url kid iss token s =
     (case get_key inp url (case kid of Some k \<Rightarrow> k | None \<Rightarrow> []) s of
        (s', Inl (ValueError m)) \<Rightarrow> (s', Inl (InvalidTokenError (''tenant JWKS refused: '' @ m)))
      | (s', Inl e) \<Rightarrow> (s', Inl e)
      | (s', Inr None) \<Rightarrow> (s', Inl no_matching_key)
      | (s', Inr (Some jwk)) \<Rightarrow> if jwk = [] then (s', Inl no_matching_key) else
          (s', try_bind (cr_from_jwk (ai_crypto inp) jwk) (\<lambda>key.
             cr_decode_rs (ai_crypto inp) key (str_or (ai_env inp ''CUSTOS_JWT_AUDIENCE'') None)
               (case iss of JStr i \<Rightarrow> (if i = [] then None else Some i) | _ \<Rightarrow> None) token)))"

definition verify_rs256_token :: "'k auth_input \<Rightarrow> string \<Rightarrow> 'k auth_state \<Rightarrow> 'k auth_state \<times> dict result" where
  "verify_rs256_token inp token s =
     (case cr_header (ai_crypto inp) token of
        Inl e \<Rightarrow> (s, Inl e)
      | Inr header \<Rightarrow>
         (case get_service_keypair inp s of
            (s1, Inl e) \<Rightarrow> (s1, Inl e)
          | (s1, Inr (key, service_kid)) \<Rightarrow>
              if th_kid header = Some service_kid then
                (s1, cr_decode_rs (ai_crypto inp) (cr_public (ai_crypto inp) key) None None token)
              else (case cr_claims (ai_crypto inp) token of
                Inl e \<Rightarrow> (s1, Inl e)
              | Inr claims \<Rightarrow>
                 (let iss = lookup_or claims ''iss'' JNull in
                  case tenant_jwks_url_for_issuer (ai_env inp) iss of
                    Inl e \<Rightarrow> (s1, Inl e)
                  | Inr None \<Rightarrow> (s1, Inl no_matching_key)
                  | Inr (Some url) \<Rightarrow> verify_tenant_token inp url (th_kid header) iss token s1))))"

definition verify_hs256_token :: "'k auth_input \<Rightarrow> auth_config \<Rightarrow> string \<Rightarrow> dict result" where
  "verify_hs256_token inp cfg token =
     (if production (ai_env inp) \<and> weak_secret (ai_env inp) then
        Inl (InvalidTokenError ''HS256 rejected: shared secret unset or dev-default (production)'')
      else cr_decode_hs (ai_crypto inp) (au_secret cfg) token)"

text \<open>The \<open>except\<close> clauses of \<open>verify\_token\<close>.\<close>

fun token_refusal :: "exn \<Rightarrow> exn" where
  "token_refusal ExpiredSignatureError = HTTPException 401 ''Token has expired''"
| "token_refusal (InvalidTokenError m) = HTTPException 401 (''Invalid token: '' @ m)"
| "token_refusal e = e"

definition payload_of :: "'k auth_input \<Rightarrow> auth_config \<Rightarrow> string \<Rightarrow> 'k auth_state \<Rightarrow> 'k auth_state \<times> dict result" where
  "payload_of inp cfg token s = (case cr_header (ai_crypto inp) token of
     Inl e \<Rightarrow> (s, Inl e)
   | Inr h \<Rightarrow>
       if th_alg h = JStr ''RS256'' then verify_rs256_token inp token s
       else if th_alg h = JStr ''HS256'' then (s, verify_hs256_token inp cfg token)
       else (s, Inl (InvalidTokenError (''Unsupported algorithm: '' @ json_repr (th_alg h)))))"

definition verify_token :: "'k auth_input \<Rightarrow> auth_config \<Rightarrow> string option \<Rightarrow> 'k auth_state \<Rightarrow> 'k auth_state \<times> json result" where
  "verify_token inp cfg credentials s = (case credentials of
     None \<Rightarrow> (s, Inl (HTTPException 401 ''Authorization header required''))
   | Some token \<Rightarrow> (case payload_of inp cfg token s of
       (s', Inl e) \<Rightarrow> (s', Inl (token_refusal e))
     | (s', Inr payload) \<Rightarrow>
         (let client = lookup_or payload ''sub'' (JStr []) in
          if \<not> truthy client then (s', Inl (HTTPException 401 ''Token missing subject claim''))
          else (s', Inr client))))"

text \<open>The dependencies of the routes, \<open>optional\_auth\<close> and \<open>require\_auth\<close> of \<open>src/main.py\<close>: the same body.\<close>

definition authenticate :: "'k auth_input \<Rightarrow> auth_config \<Rightarrow> string option \<Rightarrow> 'k auth_state \<Rightarrow> 'k auth_state \<times> json option result" where
  "authenticate inp cfg credentials s =
     (if \<not> auth_enabled (ai_env inp) then (s, Inr None)
      else (case verify_token inp cfg credentials s of
        (s', Inl e) \<Rightarrow> (s', Inl e) | (s', Inr client) \<Rightarrow> (s', Inr (Some client))))"

subsection \<open>The key id is a thumbprint\<close>

declare uint_bytes.simps [simp del]

lemma uint_bytes_value: "foldl (\<lambda>v d. 256 * v + d) 0 (uint_bytes n) = n"
proof (induction n rule: uint_bytes.induct)
  case (1 n)
  show ?case
  proof (cases "n = 0")
    case False
    then have "uint_bytes n = uint_bytes (n div 256) @ [n mod 256]" by (subst uint_bytes.simps) simp
    with 1 False show ?thesis by simp
  qed (simp add: uint_bytes.simps [of 0])
qed

lemma uint_bytes_lt: "d \<in> set (uint_bytes n) \<Longrightarrow> d < 256"
proof (induction n rule: uint_bytes.induct)
  case (1 n)
  have "uint_bytes n = (if n = 0 then [] else uint_bytes (n div 256) @ [n mod 256])" by (rule uint_bytes.simps)
  with 1 show ?case by (auto split: if_splits)
qed

definition b64_value :: "char \<Rightarrow> nat" where
  "b64_value c = (let n = code c in if n = 45 then 62 else if n = 95 then 63 else if n < 65 then n + 4
     else if n < 97 then n - 65 else n - 71)"

lemma b64_value_char: "d < 64 \<Longrightarrow> b64_value (b64_char d) = d"
proof -
  assume d: "d < 64"
  have "code (CHR ''-'') = (45::nat)" "code (CHR ''_'') = (95::nat)" by simp_all
  with d have "code (b64_char d) = (if d < 26 then 65 + d else if d < 52 then 71 + d else if d < 62 then d - 4
      else if d = 62 then 45 else 95)"
    by (simp only: b64_char_def if_distrib [of "of_char :: char \<Rightarrow> nat"]) (simp add: code_char_of)
  with d show ?thesis by (auto simp: b64_value_def Let_def)
qed

lemma b64_char_inj: "d < 64 \<Longrightarrow> e < 64 \<Longrightarrow> b64_char d = b64_char e \<longleftrightarrow> d = e"
  by (metis b64_value_char)

lemma digits_split:
  fixes x y n :: nat
  assumes "x * n + y = x' * n + y'" "y < n" "y' < n"
  shows "x = x' \<and> y = y'"
proof -
  have "(x * n + y) div n = x" "(x * n + y) mod n = y" "(x' * n + y') div n = x'" "(x' * n + y') mod n = y'"
    using assms(2,3) by simp_all
  with assms(1) show ?thesis by metis
qed

lemma digits_bound:
  fixes x y n m :: nat
  assumes "x < m" "y < n"
  shows "x * n + y < m * n"
proof -
  have "x * n + y < Suc x * n" using assms(2) by simp
  also have "\<dots> \<le> m * n" using assms(1) by (simp only: mult_le_mono1 Suc_leI)
  finally show ?thesis .
qed

lemma byte_split:
  fixes a b c :: nat
  shows "a < 256 \<Longrightarrow> a div 4 < 64" "a mod 4 * 16 < 64" "b < 256 \<Longrightarrow> a mod 4 * 16 + b div 16 < 64"
    "b mod 16 * 4 < 64" "c < 256 \<Longrightarrow> b mod 16 * 4 + c div 64 < 64" "c mod 64 < 64"
proof -
  have "a mod 4 < 4" "b mod 16 < 16" by simp_all
  then show "a mod 4 * 16 < 64" "b mod 16 * 4 < 64" by linarith+
  show "a < 256 \<Longrightarrow> a div 4 < 64" "c mod 64 < 64" by simp_all
  show "b < 256 \<Longrightarrow> a mod 4 * 16 + b div 16 < 64"
    using digits_bound [of "a mod 4" 4 "b div 16" 16] by simp
  show "c < 256 \<Longrightarrow> b mod 16 * 4 + c div 64 < 64"
    using digits_bound [of "b mod 16" 16 "c div 64" 4] by simp
qed

lemma byte_join:
  fixes a b :: nat
  assumes "a div 4 = a' div 4" "a mod 4 * 16 + b div 16 = a' mod 4 * 16 + b' div 16" "b < 256" "b' < 256"
  shows "a = a' \<and> b div 16 = b' div 16"
proof -
  have "a mod 4 = a' mod 4 \<and> b div 16 = b' div 16"
    using digits_split [OF assms(2)] assms(3,4) by simp
  with assms(1) show ?thesis by (metis mult_div_mod_eq)
qed

lemma byte_join_last:
  fixes b c :: nat
  assumes "b div 16 = b' div 16" "b mod 16 * 4 + c div 64 = b' mod 16 * 4 + c' div 64" "c mod 64 = c' mod 64" "c < 256" "c' < 256"
  shows "b = b' \<and> c = c'"
proof -
  have "b mod 16 = b' mod 16 \<and> c div 64 = c' div 64"
    using digits_split [OF assms(2)] assms(4,5) by simp
  with assms(1,3) show ?thesis by (metis mult_div_mod_eq)
qed

text \<open>A partial group is a full one whose missing bytes are zero.\<close>

lemma byte_join_two: "a div 4 = a' div 4 \<Longrightarrow> a mod 4 * 16 = a' mod 4 * 16 \<Longrightarrow> a = (a' :: nat)"
  using byte_join [of a a' 0 0] by simp

lemma byte_join_three: "b div 16 = b' div 16 \<Longrightarrow> b mod 16 * 4 = b' mod 16 * 4 \<Longrightarrow> b = (b' :: nat)"
  using byte_join_last [of b b' 0 0] by simp

lemma b64_bytes_inj:
  assumes "\<forall>d \<in> set xs. d < 256" "\<forall>d \<in> set ys. d < 256" "b64_bytes xs = b64_bytes ys"
  shows "xs = ys"
  using assms
proof (induction xs arbitrary: ys rule: b64_bytes.induct)
  case 1
  then show ?case by (cases ys rule: b64_bytes.cases) simp_all
next
  case (2 a)
  then obtain a' where ys: "ys = [a']" by (cases ys rule: b64_bytes.cases) simp_all
  with 2 have "a div 4 = a' div 4" "a mod 4 * 16 = a' mod 4 * 16" by (auto simp: b64_char_inj byte_split)
  with ys show ?case using byte_join_two by blast
next
  case (3 a b)
  then obtain a' b' where ys: "ys = [a', b']" by (cases ys rule: b64_bytes.cases) simp_all
  from 3 have eq: "a div 4 = a' div 4" "a mod 4 * 16 + b div 16 = a' mod 4 * 16 + b' div 16" "b mod 16 * 4 = b' mod 16 * 4"
    and lt: "b < 256" "b' < 256" by (auto simp: ys b64_char_inj byte_split)
  from byte_join [OF eq(1,2) lt] byte_join_three [OF _ eq(3)] show ?case by (simp add: ys)
next
  case (4 a b c xs)
  then obtain a' b' c' ys' where ys: "ys = a' # b' # c' # ys'"
    by (cases ys rule: b64_bytes.cases) simp_all
  from 4 have eq: "a div 4 = a' div 4" "a mod 4 * 16 + b div 16 = a' mod 4 * 16 + b' div 16"
    "b mod 16 * 4 + c div 64 = b' mod 16 * 4 + c' div 64" "c mod 64 = c' mod 64" "xs = ys'"
    by (auto simp: ys b64_char_inj byte_split)
  have lt: "b < 256" "b' < 256" "c < 256" "c' < 256" using 4 by (auto simp: ys)
  from byte_join [OF eq(1,2) lt(1,2)] byte_join_last [OF _ eq(3,4) lt(3,4)] eq(5)
  show ?case by (simp add: ys)
qed

lemma b64url_uint_inject [simp]: "b64url_uint m = b64url_uint n \<longleftrightarrow> m = n"
proof
  assume "b64url_uint m = b64url_uint n"
  then have "uint_bytes m = uint_bytes n"
    unfolding b64url_uint_def by (rule b64_bytes_inj [rotated 2]) (auto dest: uint_bytes_lt)
  then show "m = n" by (metis uint_bytes_value)
qed simp

definition text_clash :: "string \<Rightarrow> string \<Rightarrow> bool" where
  "text_clash x y = (x \<noteq> y \<and> sha256_text x = sha256_text y)"

definition thumbprint_text :: "nat \<times> nat \<Rightarrow> string" where
  "thumbprint_text ne = json_dumps compact_fmt (JObj [(''e'', JStr (b64url_uint (snd ne))), (''kty'', JStr ''RSA''),
     (''n'', JStr (b64url_uint (fst ne)))])"

lemma kid_thumbprint: "kid_for_public_key ne = sha256_text (thumbprint_text ne)"
  by (simp add: kid_for_public_key_def thumbprint_text_def jwk_from_public_key_def lookup_or_def)

lemma thumbprint_inject: "thumbprint_text ne = thumbprint_text ne' \<longleftrightarrow> ne = ne'"
proof
  assume "thumbprint_text ne = thumbprint_text ne'"
  then have "sort_keys (JObj [(''e'', JStr (b64url_uint (snd ne))), (''kty'', JStr ''RSA''), (''n'', JStr (b64url_uint (fst ne)))]) =
    sort_keys (JObj [(''e'', JStr (b64url_uint (snd ne'))), (''kty'', JStr ''RSA''), (''n'', JStr (b64url_uint (fst ne')))])"
    unfolding thumbprint_text_def by (rule json_dumps_inject [OF fmt_ok_formats(2)])
  then show "ne = ne'" by (cases ne; cases ne') simp
qed simp

subsection \<open>What stands behind an accepted token\<close>

definition shared_secret_token :: "'k auth_input \<Rightarrow> auth_config \<Rightarrow> token_header \<Rightarrow> string \<Rightarrow> dict \<Rightarrow> bool" where
  "shared_secret_token inp cfg h token payload \<longleftrightarrow> th_alg h = JStr ''HS256'' \<and>
     cr_decode_hs (ai_crypto inp) (au_secret cfg) token = Inr payload \<and>
     (production (ai_env inp) \<longrightarrow> au_secret cfg \<notin> {[], DEV_DEFAULT_SECRET})"

definition service_key_token :: "'k auth_input \<Rightarrow> 'k auth_state \<Rightarrow> token_header \<Rightarrow> string \<Rightarrow> dict \<Rightarrow> bool" where
  "service_key_token inp s h token payload \<longleftrightarrow> th_alg h = JStr ''RS256'' \<and>
     (\<exists>key kid. as_key s = Some (key, kid) \<and> th_kid h = Some kid \<and>
        cr_decode_rs (ai_crypto inp) (cr_public (ai_crypto inp) key) None None token = Inr payload)"

definition https_url :: "string \<Rightarrow> bool" where
  "https_url url = (case urlparse url of Inr u \<Rightarrow> u_scheme u = ''https'' | Inl e \<Rightarrow> False)"

definition tenant_key_token :: "'k auth_input \<Rightarrow> 'k auth_state \<Rightarrow> token_header \<Rightarrow> string \<Rightarrow> dict \<Rightarrow> bool" where
  "tenant_key_token inp s h token payload \<longleftrightarrow> th_alg h = JStr ''RS256'' \<and>
     (\<exists>claims url en jwk key iss. cr_claims (ai_crypto inp) token = Inr claims \<and>
        tenant_jwks_url_for_issuer (ai_env inp) (lookup_or claims ''iss'' JNull) = Inr (Some url) \<and> https_url url \<and>
        map_of (as_jwks s) url = Some en \<and>
        map_of (je_keys en) (JStr (case th_kid h of Some k \<Rightarrow> k | None \<Rightarrow> [])) = Some jwk \<and>
        cr_from_jwk (ai_crypto inp) jwk = Inr key \<and>
        cr_decode_rs (ai_crypto inp) key (str_or (ai_env inp ''CUSTOS_JWT_AUDIENCE'') None) iss token = Inr payload)"

lemma keypair_state: "get_service_keypair inp s = (s', Inr (key, kid)) \<Longrightarrow> as_key s' = Some (key, kid)"
  by (auto simp: get_service_keypair_def Let_def split: option.splits if_splits)

lemma get_key_keeps_key: "get_key inp url kid s = (s', r) \<Longrightarrow> as_key s' = as_key s"
  by (auto simp: get_key_def refresh_def Let_def split: sum.splits if_splits)

lemma get_key_cached:
  "get_key inp url kid s = (s', Inr (Some jwk)) \<Longrightarrow>
     https_url url \<and> (\<exists>en. map_of (as_jwks s') url = Some en \<and> map_of (je_keys en) (JStr kid) = Some jwk)"
  by (auto simp: get_key_def https_url_def Let_def split: sum.splits if_splits option.splits)

lemma verify_tenant_token_Inr:
  assumes "verify_tenant_token inp url kid iss token s = (s', Inr payload)"
  shows "\<exists>jwk key i. get_key inp url (case kid of Some k \<Rightarrow> k | None \<Rightarrow> []) s = (s', Inr (Some jwk)) \<and>
    cr_from_jwk (ai_crypto inp) jwk = Inr key \<and>
    cr_decode_rs (ai_crypto inp) key (str_or (ai_env inp ''CUSTOS_JWT_AUDIENCE'') None) i token = Inr payload"
  using assms
  by (auto simp: verify_tenant_token_def result_simps split: prod.splits sum.splits exn.splits option.splits if_splits)

lemma verify_rs256_cases:
  assumes "verify_rs256_token inp token s = (s', Inr payload)" "cr_header (ai_crypto inp) token = Inr h" "th_alg h = JStr ''RS256''"
  shows "service_key_token inp s' h token payload \<or> tenant_key_token inp s' h token payload"
proof -
  obtain s1 key kid where k: "get_service_keypair inp s = (s1, Inr (key, kid))"
    using assms(1,2) by (auto simp: verify_rs256_token_def split: prod.splits sum.splits)
  show ?thesis
  proof (cases "th_kid h = Some kid")
    case True
    with assms k have "s' = s1" "cr_decode_rs (ai_crypto inp) (cr_public (ai_crypto inp) key) None None token = Inr payload"
      by (auto simp: verify_rs256_token_def)
    with True keypair_state [OF k] assms(3) show ?thesis by (auto simp: service_key_token_def)
  next
    case False
    with assms(1,2) k obtain claims url where c: "cr_claims (ai_crypto inp) token = Inr claims"
      "tenant_jwks_url_for_issuer (ai_env inp) (lookup_or claims ''iss'' JNull) = Inr (Some url)"
      and v: "verify_tenant_token inp url (th_kid h) (lookup_or claims ''iss'' JNull) token s1 = (s', Inr payload)"
      by (auto simp: verify_rs256_token_def Let_def split: sum.splits option.splits)
    from verify_tenant_token_Inr [OF v] get_key_cached c assms(3) show ?thesis
      unfolding tenant_key_token_def by blast
  qed
qed

subsection \<open>How often a key set is fetched\<close>

type_synonym 'k key_call = "'k auth_input \<times> string \<times> string"

definition fetches :: "'k auth_input \<Rightarrow> string \<Rightarrow> 'k auth_state \<Rightarrow> bool" where
  "fetches inp url s = (https_url url \<and> refreshes inp url s)"

fun fetch_times :: "string \<Rightarrow> 'k key_call list \<Rightarrow> 'k auth_state \<Rightarrow> int list" where
  "fetch_times url [] s = []"
| "fetch_times url ((inp, u, kid) # cs) s =
     (if u = url \<and> fetches inp u s then [ai_now inp] else []) @ fetch_times url cs (fst (get_key inp u kid s))"

definition last_attempt :: "string \<Rightarrow> 'k auth_state \<Rightarrow> int" where
  "last_attempt url s = (case map_of (as_attempt s) url of Some t \<Rightarrow> t | None \<Rightarrow> 0)"

lemma get_key_attempt:
  "last_attempt url (fst (get_key inp u kid s)) = (if u = url \<and> fetches inp u s then ai_now inp else last_attempt url s)"
  by (auto simp: get_key_def refresh_def fetches_def https_url_def last_attempt_def Let_def split: sum.splits)

lemma fetches_late: "fetches inp url s \<Longrightarrow> last_attempt url s + JWKS_REFRESH_BACKOFF < ai_now inp"
  by (auto simp: fetches_def refreshes_def last_attempt_def)

lemma backoff_pos: "0 < JWKS_REFRESH_BACKOFF"
  by (simp add: JWKS_REFRESH_BACKOFF_def usec_def)

lemma fetch_times_late: "t \<in> set (fetch_times url cs s) \<Longrightarrow> last_attempt url s + JWKS_REFRESH_BACKOFF < t"
proof (induction url cs s rule: fetch_times.induct)
  case (2 url inp u kid cs s)
  then show ?case
    using fetches_late [of inp url s] backoff_pos by (auto simp: get_key_attempt split: if_splits)
qed simp

subsection \<open>Properties\<close>

text \<open>C11: an accepted token was verified with key material its own header selects. If
  \<open>verify\_token\<close> returns a client then a token was presented, the client is its subject, and
  either its header says HS256 and it decodes under the configured shared secret, which in
  production is neither empty nor the development default, or its header says RS256 and it
  decodes under the public key of the service (and carries its key id) or under the key
  that the key set of its issuer's configured https URL holds for its key id. A token with
  one algorithm in its header is never decoded with material of the other.\<close>

theorem accepted_token_is_authenticated:
  assumes "verify_token inp cfg credentials s = (s', Inr client)" and "load_auth_config (ai_env inp) = Inr cfg"
  shows "\<exists>token h payload. credentials = Some token \<and> cr_header (ai_crypto inp) token = Inr h \<and>
    lookup_or payload ''sub'' (JStr []) = client \<and>
    (shared_secret_token inp cfg h token payload \<or> service_key_token inp s' h token payload \<or>
     tenant_key_token inp s' h token payload)"
proof -
  obtain token payload where c: "credentials = Some token" and p: "payload_of inp cfg token s = (s', Inr payload)"
    and sub: "lookup_or payload ''sub'' (JStr []) = client"
    using assms(1) by (auto simp: verify_token_def Let_def split: option.splits prod.splits sum.splits if_splits)
  obtain h where h: "cr_header (ai_crypto inp) token = Inr h"
    using p by (auto simp: payload_of_def split: sum.splits)
  have "au_secret cfg = getenv (ai_env inp) ''CUSTOS_JWT_SECRET'' DEV_DEFAULT_SECRET"
    using assms(2) by (auto simp: load_auth_config_def Let_def result_simps split: if_splits)
  then have strong: "\<not> weak_secret (ai_env inp) \<Longrightarrow> au_secret cfg \<notin> {[], DEV_DEFAULT_SECRET}"
    by (auto simp: weak_secret_def getenv_def split: option.splits)
  have "shared_secret_token inp cfg h token payload \<or> service_key_token inp s' h token payload \<or> tenant_key_token inp s' h token payload"
  proof (cases "th_alg h = JStr ''RS256''")
    case True
    with p h have "verify_rs256_token inp token s = (s', Inr payload)" by (simp add: payload_of_def)
    from verify_rs256_cases [OF this h True] show ?thesis by blast
  next
    case False
    with p h have "th_alg h = JStr ''HS256''" "verify_hs256_token inp cfg token = Inr payload"
      by (auto simp: payload_of_def split: if_splits)
    with strong show ?thesis by (auto simp: verify_hs256_token_def shared_secret_token_def split: if_splits)
  qed
  with c h sub show ?thesis by blast
qed

definition demo_crypto :: "unit crypto" where
  "demo_crypto = \<lparr>cr_header = (\<lambda>t. Inr \<lparr>th_alg = JStr ''HS256'', th_kid = None\<rparr>),
     cr_decode_hs = (\<lambda>k t. if t = k then Inr [(''sub'', JStr ''a'')] else Inl (InvalidTokenError ''Signature verification failed'')),
     cr_decode_rs = (\<lambda>_ _ _ _. Inl (InvalidTokenError ''Signature verification failed'')), cr_claims = (\<lambda>_. Inr []),
     cr_load_pem = (\<lambda>_. None), cr_is_rsa = (\<lambda>_. True), cr_public = (\<lambda>k. k), cr_numbers = (\<lambda>_. (0, 0)),
     cr_from_jwk = (\<lambda>_. Inr ()), cr_encode_hs = (\<lambda>k _. k), cr_encode_rs = (\<lambda>_ _ _. [])\<rparr>"

definition demo_auth_env :: environment where
  "demo_auth_env k = (if k = ''CUSTOS_JWT_SECRET'' then Some ''s3'' else if k = ''CUSTOS_ENV'' then Some ''production'' else None)"

definition demo_auth_input :: "unit auth_input" where
  "demo_auth_input = \<lparr>ai_env = demo_auth_env, ai_crypto = demo_crypto, ai_read = (\<lambda>_. None), ai_fresh = (),
     ai_fetch = (\<lambda>_. Inl (OSError ''no route'')), ai_now = 0, ai_fetched = 0\<rparr>"

definition demo_auth_config :: auth_config where
  "demo_auth_config = \<lparr>au_secret = ''s3'', au_algorithm = ''HS256'', au_expiry = 3600\<rparr>"

lemma demo_auth_configured: "load_auth_config demo_auth_env = Inr demo_auth_config"
  by code_simp

lemma demo_verified: "verify_token demo_auth_input demo_auth_config (Some ''s3'') new_auth_state = (new_auth_state, Inr (JStr ''a''))"
  by code_simp

theorem accepted_token_is_authenticated_witness:
  "\<exists>h payload. shared_secret_token demo_auth_input demo_auth_config h ''s3'' payload \<and> lookup_or payload ''sub'' (JStr []) = JStr ''a''"
proof -
  have "load_auth_config (ai_env demo_auth_input) = Inr demo_auth_config"
    by (simp add: demo_auth_input_def demo_auth_configured)
  from accepted_token_is_authenticated [OF demo_verified this]
  obtain h payload where "lookup_or payload ''sub'' (JStr []) = JStr ''a''" "cr_header demo_crypto ''s3'' = Inr h"
    and "shared_secret_token demo_auth_input demo_auth_config h ''s3'' payload \<or>
      service_key_token demo_auth_input new_auth_state h ''s3'' payload \<or>
      tenant_key_token demo_auth_input new_auth_state h ''s3'' payload"
    by (auto simp: demo_auth_input_def)
  moreover from this(2) have "th_alg h = JStr ''HS256''" by (auto simp: demo_crypto_def)
  ultimately show ?thesis by (auto simp: service_key_token_def tenant_key_token_def)
qed

text \<open>Whatever tokens are presented and whatever the endpoint answers, the key set of one URL
  is fetched at most once in any span of \<open>\_JWKS\_REFRESH\_BACKOFF\_SECONDS\<close>: in every sequence of
  lookups the times of its fetches are more than the backoff apart.\<close>

theorem jwks_fetches_spaced:
  "sorted_wrt (\<lambda>a b. a + JWKS_REFRESH_BACKOFF < b) (fetch_times url calls s)"
proof (induction url calls s rule: fetch_times.induct)
  case (2 url inp u kid cs s)
  then show ?case
    using fetch_times_late [of _ url cs "fst (get_key inp u kid s)"] by (auto simp: get_key_attempt split: if_splits)
qed simp

text \<open>The default key id identifies the key: two RSA public keys with the same thumbprint have
  the same modulus and exponent, or the two hashed texts collide.\<close>

theorem thumbprint_identifies_key:
  "kid_for_public_key ne = kid_for_public_key ne' \<longleftrightarrow>
     ne = ne' \<or> text_clash (thumbprint_text ne) (thumbprint_text ne')"
  unfolding kid_thumbprint text_clash_def using thumbprint_inject by blast

subsection \<open>Where the key cache departs from its description\<close>

text \<open>A key whose set has expired stays in force for as long as the endpoint does not answer.\<close>

lemma unreachable_keys_stay:
  assumes "https_url url" "map_of (as_jwks s) url = Some en" "fetch_jwks inp url = Inl e"
  shows "\<exists>s'. get_key inp url kid s = (s', Inr (map_of (je_keys en) (JStr kid)))"
  using assms by (auto simp: get_key_def https_url_def refresh_def Let_def split: sum.splits)

text \<open>An unknown key id does not cause a fetch while the set is fresh.\<close>

lemma unknown_kid_not_fetched:
  assumes "https_url url" "map_of (as_jwks s) url = Some en" "ai_now inp - je_fetched en \<le> JWKS_CACHE_TTL"
    and "map_of (je_keys en) (JStr kid) = None"
  shows "get_key inp url kid s = (s, Inr None)"
  using assms by (auto simp: get_key_def https_url_def refresh_def refreshes_def Let_def split: sum.splits)

end
