(* ===== verification/Startup.thy ===== *)
theory Startup
  imports Action_Gate Auth Deployment_Binding
begin

text \<open>
  \<open>src/custos/scaling.py\<close>, and the state and the lifespan of \<open>src/main.py\<close>: the singletons of the
  process as one record, the counters, and the checks a start has to pass. The thread that
  \<open>custody\_manager.start\<close> launches is in \<open>Custody\_Loop\<close>; the log lines are not modelled.
\<close>

subsection \<open>The declared topology\<close>

definition STORE_PROCESS :: string where "STORE_PROCESS = ''process''"
definition STORE_EXTERNAL :: string where "STORE_EXTERNAL = ''external''"

lemmas store_defs = STORE_PROCESS_def STORE_EXTERNAL_def

definition is_memory_backend :: "string \<Rightarrow> bool" where
  "is_memory_backend b = contains (filter is_alnum (lower b)) ''memory''"

definition replica_count :: "environment \<Rightarrow> int result" where
  "replica_count env =
     (let raw = strip (env_or_empty env ''CUSTOS_REPLICA_COUNT'') in
      if raw = [] then Inr 1
      else (case py_int raw of
        Inl e \<Rightarrow> Inl (ScalingConfigError (''CUSTOS_REPLICA_COUNT='' @ py_repr raw @
          '' is not an integer. Declare the replica count as a positive integer, or leave it unset for a single replica.''))
      | Inr n \<Rightarrow> if n < 1 then Inl (ScalingConfigError (''CUSTOS_REPLICA_COUNT='' @ py_repr raw @
          '' must be at least 1. A deployment with no replicas is a deployment that is not running.''))
        else Inr n))"

definition rate_limit_store :: "environment \<Rightarrow> string result" where
  "rate_limit_store env =
     (let raw = lower (strip (env_or_empty env ''CUSTOS_RATE_LIMIT_STORE'')) in
      if raw = [] then Inr STORE_PROCESS
      else if raw \<notin> {STORE_PROCESS, STORE_EXTERNAL} then
        Inl (ScalingConfigError (''CUSTOS_RATE_LIMIT_STORE='' @ py_repr raw @ '' is not a recognised store. Supported values are '' @
          join '', '' [STORE_PROCESS, STORE_EXTERNAL] @ ''; leave it unset for '' @ STORE_PROCESS @ ''.''))
      else Inr raw)"

definition topology_conflicts :: "int \<Rightarrow> string \<Rightarrow> string \<Rightarrow> string list" where
  "topology_conflicts n_rep store audit_backend =
     (if store = STORE_EXTERNAL then [''CUSTOS_RATE_LIMIT_STORE=external is declared but this build has no shared rate-limit store implementation, so running in-process state under that declaration would report a topology the software does not provide''] else [])
     @ (if n_rep > 1 \<and> store = STORE_PROCESS then [''CUSTOS_REPLICA_COUNT='' @ int_repr n_rep @
          '' with CUSTOS_RATE_LIMIT_STORE=process: rate-limit state is per process, so each replica carries its own counters and the configured quota multiplies by '' @ int_repr n_rep] else [])
     @ (if n_rep > 1 \<and> is_memory_backend audit_backend then [''CUSTOS_REPLICA_COUNT='' @ int_repr n_rep @
          '' with audit backend '' @ py_repr audit_backend @ '': each process would hold its own chain, so '' @ int_repr n_rep @
          '' replicas produce '' @ int_repr n_rep @ '' chains and a verifier is only shown the one it reached''] else [])"

definition validate_replica_configuration :: "environment \<Rightarrow> string \<Rightarrow> dict result" where
  "validate_replica_configuration env audit_backend =
     try_bind (replica_count env) (\<lambda>n_rep. try_bind (rate_limit_store env) (\<lambda>store.
     let memory_audit = is_memory_backend audit_backend;
         conflicts = topology_conflicts n_rep store audit_backend in
     if conflicts \<noteq> [] then Inl (ScalingConfigError (''declared topology cannot be backed by this build: '' @
       join ''; '' conflicts @ ''. See docs/design/single-replica-constraint.md for the scaling path.''))
     else Inr ([(''replica_count'', JInt n_rep), (''rate_limit_store'', JStr store), (''audit_backend'', JStr audit_backend),
       (''shared_state_enforced'', JBool (n_rep = 1)),
       (''audit_durability'', JStr (if memory_audit then ''ephemeral'' else ''durable''))] @
       (if memory_audit then [(''audit_durability_note'', JStr ''records do not survive a restart, and the previous_hash constraint that prevents a forked chain does not apply because no store is shared'')] else []))))"

subsection \<open>The process\<close>

text \<open>The counters of \<open>\_metrics\<close>; those of the enterprise routes are only declared in this program.\<close>

record metrics =
  m_total :: int
  m_allowed :: int
  m_denied :: int
  m_audited :: int
  m_limit_hits :: int
  m_refused_invalid :: int
  m_refused_tenant :: int
  m_refused_rate :: int
  m_unrecorded :: int
  m_uptime_start :: int

definition new_metrics :: "int \<Rightarrow> metrics" where
  "new_metrics now = \<lparr>m_total = 0, m_allowed = 0, m_denied = 0, m_audited = 0, m_limit_hits = 0, m_refused_invalid = 0,
     m_refused_tenant = 0, m_refused_rate = 0, m_unrecorded = 0, m_uptime_start = now\<rparr>"

record 'k service =
  sv_config :: auth_config
  sv_auth :: "'k auth_state"
  sv_world :: gate_world
  sv_metrics :: metrics
  sv_binding :: "binding_summary option"

text \<open>
  What the world gives to one request: the inputs of the gate and of the token verification
  (each with the environment), the clock of the limiter, and the trace id of its span.
\<close>

record 'k request_input =
  ri_gate :: gate_input
  ri_auth :: "'k auth_input"
  ri_now :: int
  ri_trace :: string

text \<open>The module: the policy store, the tenant manager, the gate and the counters.\<close>

definition new_service ::
  "environment \<Rightarrow> audit_store \<Rightarrow> int \<Rightarrow> rule_backend \<Rightarrow> store_files \<Rightarrow> anchor_manager \<Rightarrow> bool \<Rightarrow> 'k service result" where
  "new_service env ast now rules files custody custody_on =
     try_bind (load_auth_config env) (\<lambda>cfg. try_bind (new_tenant_manager env ast now rules) (\<lambda>tm.
     Inr \<lparr>sv_config = cfg, sv_auth = new_auth_state,
       sv_world = \<lparr>gw_gate = set_custody custody_on (new_action_gate False), gw_tm = tm, gw_custody = custody,
         gw_files = files, gw_audit = ast\<rparr>,
       sv_metrics = new_metrics now, sv_binding = None\<rparr>))"

definition chain_backend :: "gate_world \<Rightarrow> string" where
  "chain_backend w = (case tenant_get ''default'' (gw_tm w) of
     Some ctx \<Rightarrow> audit_backend_type (ac_backend (tc_chain ctx)) | None \<Rightarrow> ''memory'')"

text \<open>\<open>establish\<close> on the default tenant's chain, with the digest the gate would cite.\<close>

definition startup_binding ::
  "(string \<Rightarrow> string + json) \<Rightarrow> gate_input \<Rightarrow> string \<Rightarrow> gate_world \<Rightarrow> gate_world \<times> binding_summary option result" where
  "startup_binding loads inp fresh w =
     (case tenant_get ''default'' (gw_tm w) of
        None \<Rightarrow> (w, Inl (AttributeError ''NoneType object has no attribute audit_chain''))
      | Some ctx0 \<Rightarrow> (case cited_policy_digest (gi_env inp) ''default'' w of (w1, digest) \<Rightarrow>
         (case tenant_get ''default'' (gw_tm w1) of
            None \<Rightarrow> (w1, Inl (AttributeError ''NoneType object has no attribute audit_chain''))
          | Some ctx \<Rightarrow> (case establish loads (gi_env inp) (gi_t2 inp) (gi_fault inp) fresh ''default'' digest None
                (tc_chain ctx, gw_audit w1) of
              ((c, st), res) \<Rightarrow> (w1\<lparr>gw_tm := put_context ''default'' (ctx\<lparr>tc_chain := c\<rparr>) (gw_tm w1), gw_audit := st\<rparr>, res)))))"

definition lifespan ::
  "(string \<Rightarrow> string + json) \<Rightarrow> (string \<Rightarrow> bool) \<Rightarrow> 'k request_input \<Rightarrow> 'k service \<Rightarrow> 'k service \<times> unit result" where
  "lifespan loads is_dir inp sv =
     (let env = gi_env (ri_gate inp); b = chain_backend (sv_world sv) in
      case try_bind (validate_production_secrets (ri_auth inp)) (\<lambda>_.
           try_bind (validate_production_key (ri_auth inp)) (\<lambda>_.
           try_bind (validate_replica_configuration env b) (\<lambda>_.
           try_bind (require_durable_audit env b None) (\<lambda>_.
           validate_content_retention env is_dir None)))) of
        Inl e \<Rightarrow> (sv, Inl e)
      | Inr _ \<Rightarrow> (case startup_binding loads (ri_gate inp) (ri_trace inp) (sv_world sv) of
          (w, Inl e) \<Rightarrow> (sv\<lparr>sv_world := w\<rparr>, Inl e)
        | (w, Inr s) \<Rightarrow> (sv\<lparr>sv_world := w, sv_binding := s\<rparr>, Inr ())))"

subsection \<open>What an accepted topology is\<close>

text \<open>A replica count above one conflicts with either store, so no accepted start declares one.\<close>

lemma accepted_topology_single:
  assumes "validate_replica_configuration env b = Inr s"
  shows "replica_count env = Inr 1 \<and> rate_limit_store env = Inr STORE_PROCESS"
proof -
  obtain n_rep store where c: "replica_count env = Inr n_rep" and s: "rate_limit_store env = Inr store"
    and none: "topology_conflicts n_rep store b = []"
    using assms by (auto simp: validate_replica_configuration_def result_simps Let_def split: if_splits)
  have "n_rep \<ge> 1" using c by (auto simp: replica_count_def Let_def split: if_splits sum.splits)
  moreover have "store \<in> {STORE_PROCESS, STORE_EXTERNAL}"
    using s by (auto simp: rate_limit_store_def Let_def split: if_splits)
  ultimately show ?thesis using none c s by (auto simp: topology_conflicts_def split: if_splits)
qed

lemma accepted_secrets:
  assumes "validate_production_secrets inp = Inr ()" "production (ai_env inp)"
  shows "if jwt_algorithm (ai_env inp) = ''RS256'' then load_private_key inp \<noteq> None else \<not> weak_secret (ai_env inp)"
  using assms by (auto simp: validate_production_secrets_def validate_production_key_def split: if_splits)

lemma accepted_durability:
  "require_durable_audit env b None = Inr s \<Longrightarrow> production env \<Longrightarrow> is_durable b"
  by (auto simp: require_durable_audit_def production_def Let_def lower_def split: if_splits)

text \<open>A started process either keeps no content, or has a directory and an operator for it.\<close>

lemma accepted_retention:
  assumes "validate_content_retention env is_dir None = Inr s"
  shows "content_retention_mode env = Inr MODE_OFF \<or>
    (\<exists>d tok. store_directory env = Some d \<and> is_dir d \<and> retention_admin_token env = Some tok)"
  using assms
  by (auto simp: validate_content_retention_def content_retention_mode_def MODE_OFF_def MODE_STORE_def result_simps Let_def
      split: if_splits option.splits)

lemma startup_binding_cases:
  assumes "startup_binding loads inp fresh w = (w', Inr s)"
  shows "(s = None \<and> \<not> truthy_flag (gi_env inp STARTUP_ENV_FLAG)) \<or>
    (\<exists>b ctx ctx' r. s = Some b \<and> tenant_get ''default'' (gw_tm w) = Some ctx \<and> tenant_get ''default'' (gw_tm w') = Some ctx' \<and>
       ac_records (tc_chain ctx') = ac_records (tc_chain ctx) @ [r] \<and> ar_action r = ''BINDING'' \<and>
       bs_record_hash b = record_hash r \<and> bs_binding_digest b = ''sha256:'' @ content_hash r)"
proof -
  obtain ctx where ctx: "tenant_get ''default'' (gw_tm w) = Some ctx"
    using assms by (auto simp: startup_binding_def split: option.splits)
  obtain dg e g where cite: "cite_policy (gi_env inp) ''default'' (tc_engine ctx) (gw_gate w) = (dg, e, g)"
    by (metis prod.exhaust)
  obtain c st res where est: "establish loads (gi_env inp) (gi_t2 inp) (gi_fault inp) fresh ''default'' dg None
     (tc_chain ctx, gw_audit w) = ((c, st), res)" by (metis prod.exhaust)
  have res: "res = Inr s" and w': "tenant_get ''default'' (gw_tm w') = Some (ctx\<lparr>tc_engine := e, tc_chain := c\<rparr>)"
    using assms ctx cite est by (auto simp: startup_binding_def cited_policy_digest_def)
  from establish_cases [OF est] res ctx w' show ?thesis by (cases s) auto
qed

subsection \<open>Properties\<close>

definition demo_start_world :: "anchor_manager \<Rightarrow> gate_world" where
  "demo_start_world m = \<lparr>gw_gate = new_action_gate False,
     gw_tm = \<lparr>tm_tenants = [(''default'', demo_context)], tm_custom = [], tm_store = SQLitePolicyBackend empty_rule_table\<rparr>,
     gw_custody = m, gw_files = [], gw_audit = []\<rparr>"

definition demo_start_gate :: "opa_server \<Rightarrow> (nat \<Rightarrow> nat \<Rightarrow> sink_world) \<Rightarrow> gate_input" where
  "demo_start_gate post sinks = (demo_input post sinks)\<lparr>gi_env := demo_auth_env\<rparr>"

definition demo_service :: "anchor_manager \<Rightarrow> unit service" where
  "demo_service m = \<lparr>sv_config = demo_auth_config, sv_auth = new_auth_state, sv_world = demo_start_world m,
     sv_metrics = new_metrics 0, sv_binding = None\<rparr>"

definition demo_request_input :: "opa_server \<Rightarrow> (nat \<Rightarrow> nat \<Rightarrow> sink_world) \<Rightarrow> unit request_input" where
  "demo_request_input post sinks = \<lparr>ri_gate = demo_start_gate post sinks, ri_auth = demo_auth_input, ri_now = 0, ri_trace = ''x''\<rparr>"

text \<open>C20: what a process that starts has. If the lifespan reaches the point where requests are served
  then one replica is declared; in production the token keys are explicit (an RSA key that
  loads, or a secret that is neither empty nor the development default) and the default
  tenant's chain is on a durable backend; content is not kept, or it has a directory and an
  operator credential; and the process reports a binding exactly when it was asked for one,
  which is then the last record of the default tenant's chain.\<close>

theorem start_is_fail_closed:
  assumes "lifespan loads is_dir inp sv = (sv', Inr ())" and "gi_env (ri_gate inp) = env" and "ai_env (ri_auth inp) = env"
  shows "replica_count env = Inr 1 \<and>
    (production env \<longrightarrow> is_durable (chain_backend (sv_world sv)) \<and>
       (if jwt_algorithm env = ''RS256'' then load_private_key (ri_auth inp) \<noteq> None else \<not> weak_secret env)) \<and>
    (content_retention_mode env = Inr MODE_OFF \<or>
       (\<exists>d tok. store_directory env = Some d \<and> is_dir d \<and> retention_admin_token env = Some tok)) \<and>
    (case sv_binding sv' of
       None \<Rightarrow> \<not> truthy_flag (env STARTUP_ENV_FLAG)
     | Some b \<Rightarrow> (\<exists>ctx r. tenant_get ''default'' (gw_tm (sv_world sv')) = Some ctx \<and> ac_records (tc_chain ctx) \<noteq> [] \<and>
          r = last (ac_records (tc_chain ctx)) \<and> ar_action r = ''BINDING'' \<and> bs_record_hash b = record_hash r \<and>
          bs_binding_digest b = ''sha256:'' @ content_hash r))"
proof -
  obtain s1 s2 s3 where checks: "validate_production_secrets (ri_auth inp) = Inr ()"
    "validate_replica_configuration env (chain_backend (sv_world sv)) = Inr s1"
    "require_durable_audit env (chain_backend (sv_world sv)) None = Inr s2" "validate_content_retention env is_dir None = Inr s3"
    using assms(1,2) by (auto simp: lifespan_def Let_def result_simps split: sum.splits)
  then obtain w s where b: "startup_binding loads (ri_gate inp) (ri_trace inp) (sv_world sv) = (w, Inr s)"
    "sv' = sv\<lparr>sv_world := w, sv_binding := s\<rparr>"
    using assms(1,2) by (auto simp: lifespan_def Let_def result_simps split: sum.splits prod.splits)
  from startup_binding_cases [OF b(1)] assms(2)
  have "case s of None \<Rightarrow> \<not> truthy_flag (env STARTUP_ENV_FLAG)
     | Some x \<Rightarrow> (\<exists>ctx r. tenant_get ''default'' (gw_tm w) = Some ctx \<and> ac_records (tc_chain ctx) \<noteq> [] \<and>
          r = last (ac_records (tc_chain ctx)) \<and> ar_action r = ''BINDING'' \<and> bs_record_hash x = record_hash r \<and>
          bs_binding_digest x = ''sha256:'' @ content_hash r)" by fastforce
  moreover have "sv_binding sv' = s" "sv_world sv' = w" using b(2) by simp_all
  moreover have "production env \<longrightarrow> is_durable (chain_backend (sv_world sv)) \<and>
     (if jwt_algorithm env = ''RS256'' then load_private_key (ri_auth inp) \<noteq> None else \<not> weak_secret env)"
    using accepted_secrets [OF checks(1)] accepted_durability [OF checks(3)] assms(3) by blast
  ultimately show ?thesis
    using accepted_topology_single [OF checks(2)] accepted_retention [OF checks(4)] by (simp only: simp_thms)
qed

lemma demo_start_checks:
  "production demo_auth_env" "replica_count demo_auth_env = Inr 1" "rate_limit_store demo_auth_env = Inr STORE_PROCESS"
  "\<not> truthy_flag (demo_auth_env STARTUP_ENV_FLAG)" "\<not> weak_secret demo_auth_env" "jwt_algorithm demo_auth_env = ''HS256''"
  "is_durable ''SQLiteBackend''" "\<not> is_memory_backend ''SQLiteBackend''"
  "raised (validate_content_retention demo_auth_env (\<lambda>_. False) None) = False"
  by code_simp+

lemma demo_starts:
  "snd (lifespan loads (\<lambda>_. False) (demo_request_input post sinks) (demo_service m)) = Inr ()"
proof -
  have b: "chain_backend (demo_start_world m) = ''SQLiteBackend''"
    by (simp add: chain_backend_def demo_start_world_def tenant_get_def demo_context_def demo_chain_def)
  have "validate_production_secrets demo_auth_input = Inr ()" "validate_production_key demo_auth_input = Inr ()"
    using demo_start_checks(1,5,6)
    by (simp_all add: validate_production_secrets_def validate_production_key_def demo_auth_input_def)
  moreover have "\<exists>s. validate_replica_configuration demo_auth_env ''SQLiteBackend'' = Inr s"
    using demo_start_checks(2,3,8) by (simp add: validate_replica_configuration_def topology_conflicts_def store_defs)
  moreover have "\<exists>s. require_durable_audit demo_auth_env ''SQLiteBackend'' None = Inr s"
    using demo_start_checks(7) by (simp add: require_durable_audit_def Let_def)
  moreover have "\<exists>s. validate_content_retention demo_auth_env (\<lambda>_. False) None = Inr s"
    using demo_start_checks(9) by (auto simp: raised_def split: sum.splits)
  moreover have "\<exists>w. startup_binding loads (demo_start_gate post sinks) ''x'' (demo_start_world m) = (w, Inr None)"
    using demo_start_checks(4)
    by (simp add: startup_binding_def cited_policy_digest_def demo_start_world_def demo_start_gate_def establish_def
        payload_from_env_def tenant_get_def put_context_def split: prod.splits)
  ultimately show ?thesis
    by (auto simp: lifespan_def demo_request_input_def demo_service_def b demo_start_gate_def)
qed

theorem start_is_fail_closed_witness:
  "\<forall>loads post sinks m. \<exists>sv'. lifespan loads (\<lambda>_. False) (demo_request_input post sinks) (demo_service m) = (sv', Inr ()) \<and>
     production demo_auth_env \<and> is_durable (chain_backend (demo_start_world m)) \<and> \<not> weak_secret demo_auth_env"
proof (intro allI)
  fix loads post sinks m
  obtain sv' where run: "lifespan loads (\<lambda>_. False) (demo_request_input post sinks) (demo_service m) = (sv', Inr ())"
    using demo_starts by (metis prod.collapse)
  have "gi_env (ri_gate (demo_request_input post sinks)) = demo_auth_env" "ai_env (ri_auth (demo_request_input post sinks)) = demo_auth_env"
    by (simp_all add: demo_request_input_def demo_start_gate_def demo_auth_input_def)
  from start_is_fail_closed [OF run this] demo_start_checks(1,6) run
  show "\<exists>sv'. lifespan loads (\<lambda>_. False) (demo_request_input post sinks) (demo_service m) = (sv', Inr ()) \<and>
     production demo_auth_env \<and> is_durable (chain_backend (demo_start_world m)) \<and> \<not> weak_secret demo_auth_env"
    by (auto simp: demo_service_def)
qed

subsection \<open>Where the modules read production differently\<close>

text \<open>
  The audit chain strips \<open>CUSTOS\_ENV\<close> before it compares, the other modules do not: with a space
  after the word the chain requires bound evidence while the token checks accept the
  development secret and honour \<open>AUTH\_DISABLED\<close>.
\<close>

lemma spaced_production:
  assumes "env ''CUSTOS_ENV'' = Some ''production ''" "env ''CUSTOS_JWT_SECRET'' = None"
    "env ''CUSTOS_JWT_ALGORITHM'' = None" "env ''AUTH_DISABLED'' = Some ''1''" "ai_env inp = env"
  shows "bound_evidence_required env \<and> \<not> production env \<and> validate_production_secrets inp = Inr () \<and> \<not> auth_enabled env"
proof -
  have "lower (strip ''production '') = ''production''" "lower ''production '' \<noteq> ''production''" by code_simp+
  then show ?thesis
    using assms by (simp add: bound_evidence_required_def env_or_empty_def getenv_def production_def auth_enabled_def
        validate_production_secrets_def)
qed

end
