(* ===== verification/Models.thy ===== *)
theory Models
  imports Audit_Chain Policy_Engine
begin

text \<open>
  \<open>src/custos/models.py\<close>: the bodies of the requests with the constraints their schemas declare, and
  the fields a record is published with. A body is modelled after Pydantic has given its fields
  their types; lengths count characters.
\<close>

definition len_between :: "nat \<Rightarrow> nat \<Rightarrow> string \<Rightarrow> bool" where
  "len_between lo hi s = (lo \<le> length s \<and> length s \<le> hi)"

definition int_between :: "int \<Rightarrow> int \<Rightarrow> int \<Rightarrow> bool" where
  "int_between lo hi n = (lo \<le> n \<and> n \<le> hi)"

definition trimmed :: "string \<Rightarrow> bool" where
  "trimmed s = (s = strip s)"

definition not_blank :: "string \<Rightarrow> bool" where
  "not_blank s = (strip s \<noteq> [])"

record evaluate_request =
  ev_client :: string
  ev_content :: string
  ev_tokens :: int
  ev_tenant :: string

definition evaluate_request_ok :: "evaluate_request \<Rightarrow> bool" where
  "evaluate_request_ok r = (len_between 1 128 (ev_client r) \<and> trimmed (ev_client r) \<and>
     len_between 1 32768 (ev_content r) \<and> not_blank (ev_content r) \<and>
     int_between 1 100000 (ev_tokens r) \<and> len_between 1 64 (ev_tenant r) \<and> trimmed (ev_tenant r))"

record action_body =
  ab_client :: string
  ab_tenant :: string
  ab_tool :: string
  ab_command :: string
  ab_args :: "dict option"

definition action_body_ok :: "action_body \<Rightarrow> bool" where
  "action_body_ok r = (len_between 1 128 (ab_client r) \<and> len_between 1 64 (ab_tenant r) \<and>
     len_between 1 128 (ab_tool r) \<and> len_between 0 8192 (ab_command r))"

record evaluate_response =
  er_allowed :: bool
  er_action :: string
  er_rule :: "string option"
  er_reason :: string
  er_client :: string
  er_tenant :: string
  er_record_hash :: "string option"
  er_trace :: "string option"

record replay_request =
  rp_hash :: string
  rp_content :: string
  rp_tenant :: string

definition replay_request_ok :: "replay_request \<Rightarrow> bool" where
  "replay_request_ok r = (len_between 64 64 (rp_hash r) \<and> len_between 1 32768 (rp_content r) \<and> len_between 1 64 (rp_tenant r))"

record rule_request =
  ru_name :: string
  ru_pattern :: string
  ru_action :: string
  ru_reason :: string

definition rule_request_ok :: "rule_request \<Rightarrow> bool" where
  "rule_request_ok r = (ru_action r \<in> {''allow'', ''deny'', ''audit''})"

definition rule_request_json :: "rule_request \<Rightarrow> json" where
  "rule_request_json r = JObj [(''name'', JStr (ru_name r)), (''pattern'', JStr (ru_pattern r)),
     (''action'', JStr (ru_action r)), (''reason'', JStr (ru_reason r))]"

record diff_request =
  df_content :: string
  df_current :: "rule_request list"
  df_proposed :: "rule_request list"

definition diff_request_ok :: "diff_request \<Rightarrow> bool" where
  "diff_request_ok r = (len_between 1 32768 (df_content r) \<and> list_all rule_request_ok (df_current r) \<and>
     list_all rule_request_ok (df_proposed r))"

record tenant_request =
  tr_tenant :: string
  tr_rpm :: int
  tr_rph :: int
  tr_tpm :: int

definition tenant_request_ok :: "tenant_request \<Rightarrow> bool" where
  "tenant_request_ok r = (len_between 1 64 (tr_tenant r) \<and> trimmed (tr_tenant r) \<and> int_between 1 10000 (tr_rpm r) \<and>
     int_between 1 100000 (tr_rph r) \<and> int_between 1 10000000 (tr_tpm r))"

text \<open>A purge body: the validator stores the digest in lower case.\<close>

record purge_request =
  pq_tenant :: string
  pq_hash :: string
  pq_reason :: string

definition purge_request_ok :: "purge_request \<Rightarrow> bool" where
  "purge_request_ok r = (len_between 1 64 (pq_tenant r) \<and> len_between 64 64 (pq_hash r) \<and>
     list_all (\<lambda>c. c \<in> set ''0123456789abcdef'') (lower (pq_hash r)) \<and>
     len_between 1 512 (pq_reason r) \<and> not_blank (pq_reason r))"

definition purge_request_hash :: "purge_request \<Rightarrow> string" where
  "purge_request_hash r = lower (pq_hash r)"

text \<open>\<open>ExecuteRequest\<close>: its route belongs to the enterprise package, its schema to this one.\<close>

record execute_request =
  xr_client :: string
  xr_content :: string
  xr_tenant :: string
  xr_tokens :: int
  xr_url :: string
  xr_method :: string
  xr_timeout :: int

definition execute_request_ok :: "execute_request \<Rightarrow> bool" where
  "execute_request_ok r = (len_between 1 128 (xr_client r) \<and> trimmed (xr_client r) \<and>
     len_between 1 32768 (xr_content r) \<and> not_blank (xr_content r) \<and> len_between 1 64 (xr_tenant r) \<and>
     int_between 1 100000 (xr_tokens r) \<and> len_between 1 2048 (xr_url r) \<and> startswith (xr_url r) ''https://'' \<and>
     xr_method r \<in> {''GET'', ''POST'', ''PUT'', ''PATCH'', ''DELETE''} \<and> int_between usec (60 * usec) (xr_timeout r))"

text \<open>The fields \<open>AuditRecordResponse\<close> publishes of a record's dict.\<close>

definition AUDIT_RESPONSE_FIELDS :: "string list" where
  "AUDIT_RESPONSE_FIELDS = [''timestamp'', ''client_id'', ''action'', ''triggered_rule'', ''reason'', ''content_hash'',
     ''record_hash'', ''previous_hash'', ''trace_id'', ''binding_version'', ''commitment'']"

definition audit_record_response :: "dict \<Rightarrow> dict" where
  "audit_record_response d = filter (\<lambda>kv. fst kv \<in> set AUDIT_RESPONSE_FIELDS) d"

subsection \<open>What the read surface leaves out\<close>

text \<open>
  The policy digest and the tenant are bound in a record's hash but not published with it: two
  records that differ in their policy digest are published alike, so a reader of the API
  cannot recompute the hash of a record that has one.
\<close>

lemma published_alike:
  "audit_record_response (record_to_dict (r\<lparr>ar_policy_digest := d, tenant_id := t\<rparr>)) = audit_record_response (record_to_dict r)"
  by (simp add: audit_record_response_def record_to_dict_def AUDIT_RESPONSE_FIELDS_def)

end
