(* ===== verification/Service.thy ===== *)
theory Service
  imports Models Startup Validation
begin

text \<open>
  The request path of \<open>src/main.py\<close>: authentication, \<open>/v1/evaluate\<close> and \<open>/v1/evaluate\_action\<close>, the
  counters, and the handler of a full audit store. An answer is a body, an HTTP error with its
  detail and headers, or an exception that leaves the handler (served as a 500). Spans and log
  lines are not modelled; of a span only its trace id is. The quota a client inherits is that
  of the tenant.
\<close>

subsection \<open>Answers\<close>

datatype 'a answer =
    Answer 'a
  | Http nat string "(string \<times> string) list"
  | Failed exn

fun of_exn :: "exn \<Rightarrow> 'a answer" where
  "of_exn (HTTPException c s) = Http c s []"
| "of_exn e = Failed e"

definition bump :: "(metrics \<Rightarrow> metrics) \<Rightarrow> 'k service \<Rightarrow> 'k service" where
  "bump f sv = sv\<lparr>sv_metrics := f (sv_metrics sv)\<rparr>"

definition count_total :: "metrics \<Rightarrow> metrics" where "count_total m = m\<lparr>m_total := m_total m + 1\<rparr>"
definition count_invalid :: "metrics \<Rightarrow> metrics" where "count_invalid m = m\<lparr>m_refused_invalid := m_refused_invalid m + 1\<rparr>"
definition count_unknown :: "metrics \<Rightarrow> metrics" where "count_unknown m = m\<lparr>m_refused_tenant := m_refused_tenant m + 1\<rparr>"
definition count_limited :: "metrics \<Rightarrow> metrics" where
  "count_limited m = m\<lparr>m_limit_hits := m_limit_hits m + 1, m_refused_rate := m_refused_rate m + 1\<rparr>"

definition count_decision :: "policy_result \<Rightarrow> metrics \<Rightarrow> metrics" where
  "count_decision d m = (if allowed d then (if res_action d = AUDIT then m\<lparr>m_audited := m_audited m + 1\<rparr>
       else m\<lparr>m_allowed := m_allowed m + 1\<rparr>)
     else m\<lparr>m_denied := m_denied m + 1\<rparr>)"

definition count_action :: "policy_result \<Rightarrow> metrics \<Rightarrow> metrics" where
  "count_action d m = (if allowed d then m\<lparr>m_allowed := m_allowed m + 1\<rparr> else m\<lparr>m_denied := m_denied m + 1\<rparr>)"

lemmas count_defs = count_total_def count_invalid_def count_unknown_def count_limited_def count_decision_def count_action_def

definition set_world :: "gate_world \<Rightarrow> 'k service \<Rightarrow> 'k service" where
  "set_world w sv = sv\<lparr>sv_world := w\<rparr>"

definition put_ctx :: "string \<Rightarrow> tenant_context \<Rightarrow> 'k service \<Rightarrow> 'k service" where
  "put_ctx t ctx sv = set_world ((sv_world sv)\<lparr>gw_tm := put_context t ctx (gw_tm (sv_world sv))\<rparr>) sv"

definition service_tenant :: "string \<Rightarrow> 'k service \<Rightarrow> tenant_context option" where
  "service_tenant t sv = get_strict t (gw_tm (sv_world sv))"

lemma service_simps [simp]:
  "sv_world (bump f sv) = sv_world sv" "sv_metrics (bump f sv) = f (sv_metrics sv)" "sv_binding (bump f sv) = sv_binding sv"
  "sv_config (bump f sv) = sv_config sv" "sv_auth (bump f sv) = sv_auth sv"
  "sv_world (set_world w sv) = w" "sv_metrics (set_world w sv) = sv_metrics sv" "sv_binding (set_world w sv) = sv_binding sv"
  "sv_config (set_world w sv) = sv_config sv" "sv_auth (set_world w sv) = sv_auth sv"
  "sv_metrics (put_ctx t ctx sv) = sv_metrics sv" "sv_binding (put_ctx t ctx sv) = sv_binding sv"
  "sv_config (put_ctx t ctx sv) = sv_config sv" "sv_auth (put_ctx t ctx sv) = sv_auth sv"
  "service_tenant u (bump f sv) = service_tenant u sv"
  "service_tenant u (put_ctx t ctx sv) = (if u = t then Some ctx else service_tenant u sv)"
  by (simp_all add: bump_def set_world_def put_ctx_def service_tenant_def get_strict_get)

subsection \<open>Recording\<close>

text \<open>\<open>\_record\_decision\<close>: the record, with the exception when there is none.\<close>

definition record_for :: "gate_input \<Rightarrow> string \<Rightarrow> tenant_context \<Rightarrow> record_args \<Rightarrow> 'k service \<Rightarrow> 'k service \<times> audit_record result" where
  "record_for inp t ctx a sv = (let w = sv_world sv in
     case record_decision (gi_env inp) (gi_salt inp) (gi_t1 inp) (gi_t2 inp) (gi_fault inp) (Some (tc_id ctx)) a
            (gw_files w, tc_chain ctx, gw_audit w) of
       ((files, c, st), res) \<Rightarrow>
         (set_world (w\<lparr>gw_files := files, gw_audit := st, gw_tm := put_context t (ctx\<lparr>tc_chain := c\<rparr>) (gw_tm w)\<rparr>) sv, res))"

definition evaluate_args ::
  "'k request_input \<Rightarrow> tenant_context \<Rightarrow> evaluate_request \<Rightarrow> string \<Rightarrow> string \<Rightarrow> string option \<Rightarrow> record_args" where
  "evaluate_args inp ctx r act why rule = (call_args (ev_client r) act why (ev_content r))
     \<lparr>ra_rule := rule, ra_trace := Some (ri_trace inp),
      ra_digest := content_engine_digest (gi_env (ri_gate inp)) (tc_engine ctx)\<rparr>"

subsection \<open>Evaluate\<close>

definition rate_key :: "evaluate_request \<Rightarrow> string" where
  "rate_key r = (if ev_tenant r \<noteq> ''default'' then ev_tenant r @ '':'' @ ev_client r else ev_client r)"

text \<open>The quota a new key inherits: the tenant's, else the default one.\<close>

definition inherited_quota :: "tenant_context \<Rightarrow> quota_config" where
  "inherited_quota ctx = (case get_quota (tc_id ctx) (tc_limiter ctx) of Some q \<Rightarrow> q | None \<Rightarrow> DEFAULT_QUOTA)"

definition ensure_quota :: "int \<Rightarrow> string \<Rightarrow> tenant_context \<Rightarrow> rate_limiter result" where
  "ensure_quota now key ctx = try_bind (get_all_quotas (tc_limiter ctx)) (\<lambda>qs.
     Inr (if map_of qs key = None then register key (inherited_quota ctx) now (tc_limiter ctx) else tc_limiter ctx))"

definition throttle :: "'k request_input \<Rightarrow> evaluate_request \<Rightarrow> string \<Rightarrow> tenant_context \<Rightarrow> 'k service \<Rightarrow> 'k service \<times> 'a answer" where
  "throttle inp r msg ctx sv =
     (case record_for (ri_gate inp) (ev_tenant r) ctx (evaluate_args inp ctx r ''rate_limited'' msg None) (bump count_limited sv) of
        (sv', Inl e) \<Rightarrow> (sv', of_exn e)
      | (sv', Inr rec) \<Rightarrow> (sv', Http 429 msg (case retry_after_seconds (rate_key r) (ev_tokens r) (ri_now inp) (tc_limiter ctx) of
           Some wait \<Rightarrow> [(''Retry-After'', int_repr wait)] | None \<Rightarrow> [])))"

definition decided :: "'k request_input \<Rightarrow> evaluate_request \<Rightarrow> policy_result \<Rightarrow> tenant_context \<Rightarrow> 'k service \<Rightarrow>
    'k service \<times> evaluate_response answer" where
  "decided inp r d ctx sv =
     (case record_for (ri_gate inp) (ev_tenant r) ctx
         (evaluate_args inp ctx r (action_value (res_action d)) (res_reason d) (triggered_rule d)) (bump (count_decision d) sv) of
        (sv', Inl e) \<Rightarrow> (sv', of_exn e)
      | (sv', Inr rec) \<Rightarrow> (sv', Answer \<lparr>er_allowed = allowed d, er_action = action_value (res_action d),
           er_rule = triggered_rule d, er_reason = res_reason d, er_client = ev_client r, er_tenant = ev_tenant r,
           er_record_hash = Some (record_hash rec), er_trace = Some (ri_trace inp)\<rparr>))"

definition wrong_client :: "'a answer" where
  "wrong_client = Http 403 ''Client identity does not match request client_id'' []"

definition unknown_tenant_answer :: "string \<Rightarrow> 'a answer" where
  "unknown_tenant_answer t = Http 403 (''Unknown tenant: '' @ t) []"

text \<open>What follows the tenant lookup: the limiter, then the engine.\<close>

definition evaluate_tenant ::
  "'k request_input \<Rightarrow> evaluate_request \<Rightarrow> tenant_context \<Rightarrow> 'k service \<Rightarrow> 'k service \<times> evaluate_response answer" where
  "evaluate_tenant inp r ctx sv =
     (case ensure_quota (ri_now inp) (rate_key r) ctx of
        Inl e \<Rightarrow> (sv, of_exn e)
      | Inr rl \<Rightarrow> (case check_and_consume (rate_key r) (ev_tokens r) (ri_now inp) rl of (rl', res) \<Rightarrow>
          let ctx' = ctx\<lparr>tc_limiter := rl'\<rparr>; sv1 = put_ctx (ev_tenant r) ctx' sv in
          case res of
            Inl e \<Rightarrow> (sv1, of_exn e)
          | Inr (False, msg) \<Rightarrow> throttle inp r msg ctx' sv1
          | Inr (True, msg) \<Rightarrow> (case engine_evaluate (gi_post (ri_gate inp)) (tc_engine ctx') (ev_content r) of
              Inl e \<Rightarrow> (sv1, of_exn e)
            | Inr d \<Rightarrow> decided inp r d ctx' sv1)))"

definition evaluate_route ::
  "'k request_input \<Rightarrow> json option \<Rightarrow> evaluate_request \<Rightarrow> 'k service \<Rightarrow> 'k service \<times> evaluate_response answer" where
  "evaluate_route inp auth r sv =
     (if auth \<noteq> None \<and> auth \<noteq> Some (JStr (ev_client r)) then (sv, wrong_client)
      else let sv1 = bump count_total sv; v = validate_request (JStr (ev_client r)) (JStr (ev_content r)) (JInt (ev_tokens r)) in
      if \<not> valid v then (bump count_invalid sv1, Http 422 (case error v of Some m \<Rightarrow> m | None \<Rightarrow> []) [])
      else (case service_tenant (ev_tenant r) sv1 of
        None \<Rightarrow> (bump count_unknown sv1, unknown_tenant_answer (ev_tenant r))
      | Some ctx \<Rightarrow> evaluate_tenant inp r ctx sv1))"

subsection \<open>Evaluate action\<close>

definition action_route ::
  "'k request_input \<Rightarrow> json option \<Rightarrow> action_body \<Rightarrow> 'k service \<Rightarrow> 'k service \<times> evaluate_response answer" where
  "action_route inp auth r sv =
     (if auth \<noteq> None \<and> auth \<noteq> Some (JStr (ab_client r)) then (sv, wrong_client)
      else (case evaluate_action (ri_gate inp) (ab_tenant r)
          \<lparr>tool = ab_tool r, command = ab_command r, args = ab_args r\<rparr> (ab_client r) None (sv_world sv) of
        (w, Inl e) \<Rightarrow> (set_world w sv, of_exn e)
      | (w, Inr g) \<Rightarrow> (bump (count_action (decision g)) (set_world w sv),
          Answer \<lparr>er_allowed = allowed (decision g), er_action = action_value (res_action (decision g)),
            er_rule = triggered_rule (decision g), er_reason = res_reason (decision g), er_client = ab_client r,
            er_tenant = ab_tenant r, er_record_hash = audit_record_hash g, er_trace = Some (ri_trace inp)\<rparr>)))"

subsection \<open>Serving\<close>

definition STORE_FULL_RETRY :: int where "STORE_FULL_RETRY = 30"

text \<open>\<open>audit\_store\_full\_handler\<close>: the one exception the application handles itself.\<close>

definition handle_full :: "'k service \<times> 'a answer \<Rightarrow> 'k service \<times> 'a answer" where
  "handle_full x = (case x of
     (sv, Failed (AuditStoreFull m)) \<Rightarrow> (bump (\<lambda>c. c\<lparr>m_unrecorded := m_unrecorded c + 1\<rparr>) sv,
        Http 503 ''the audit store is full, so this decision was not recorded and the chain was not advanced. Retrying will not succeed until the store has space; nothing was served unrecorded''
          [(''Retry-After'', int_repr STORE_FULL_RETRY), (''X-CUSTOS-Refusal'', ''audit-store-full'')])
   | _ \<Rightarrow> x)"

text \<open>A route behind an authentication dependency; a body its schema refuses is a 422 before the handler.\<close>

definition with_auth ::
  "'k request_input \<Rightarrow> string option \<Rightarrow> (json option \<Rightarrow> 'k service \<Rightarrow> 'k service \<times> 'a answer) \<Rightarrow> 'k service \<Rightarrow> 'k service \<times> 'a answer" where
  "with_auth inp credentials route sv =
     (case authenticate (ri_auth inp) (sv_config sv) credentials (sv_auth sv) of
        (s, Inl e) \<Rightarrow> (sv\<lparr>sv_auth := s\<rparr>, of_exn e)
      | (s, Inr auth) \<Rightarrow> handle_full (route auth (sv\<lparr>sv_auth := s\<rparr>)))"

definition bad_body :: "'a answer" where
  "bad_body = Http 422 ''Unprocessable Entity'' []"

definition serve_evaluate ::
  "'k request_input \<Rightarrow> string option \<Rightarrow> evaluate_request \<Rightarrow> 'k service \<Rightarrow> 'k service \<times> evaluate_response answer" where
  "serve_evaluate inp credentials r = with_auth inp credentials (\<lambda>auth sv.
     if \<not> evaluate_request_ok r then (sv, bad_body) else evaluate_route inp auth r sv)"

definition serve_action ::
  "'k request_input \<Rightarrow> string option \<Rightarrow> action_body \<Rightarrow> 'k service \<Rightarrow> 'k service \<times> evaluate_response answer" where
  "serve_action inp credentials r = with_auth inp credentials (\<lambda>auth sv.
     if \<not> action_body_ok r then (sv, bad_body) else action_route inp auth r sv)"

subsection \<open>What a recording leaves\<close>

lemma record_for_cases:
  assumes "record_for inp t ctx a sv = (sv', res)"
  obtains (raised) e where "res = Inl e" "service_tenant t sv' = Some ctx" "sv_metrics sv' = sv_metrics sv" "sv_auth sv' = sv_auth sv"
  | (done_) rec c where "res = Inr rec" "service_tenant t sv' = Some (ctx\<lparr>tc_chain := c\<rparr>)" "sv_metrics sv' = sv_metrics sv"
      "sv_auth sv' = sv_auth sv" "ac_records c = ac_records (tc_chain ctx) @ [rec]" "ar_action rec = ra_action a"
      "content_hash rec = sha256_text (ra_content a)" "ar_policy_digest rec = ra_digest a" "trace_id rec = ra_trace a"
      "ar_rule rec = ra_rule a" "client_id rec = ra_client a"
proof -
  let ?w = "sv_world sv"
  obtain files c st out where rec: "record_decision (gi_env inp) (gi_salt inp) (gi_t1 inp) (gi_t2 inp) (gi_fault inp)
      (Some (tc_id ctx)) a (gw_files ?w, tc_chain ctx, gw_audit ?w) = ((files, c, st), out)"
    by (metis prod.exhaust)
  have sv': "sv' = set_world (?w\<lparr>gw_files := files, gw_audit := st, gw_tm := put_context t (ctx\<lparr>tc_chain := c\<rparr>) (gw_tm ?w)\<rparr>) sv"
    and res: "res = out" using assms rec by (simp_all add: record_for_def Let_def)
  show ?thesis
  proof (cases out)
    case (Inl e)
    with refused_fields [OF rec [unfolded Inl]] sv' res show ?thesis
      by (intro raised [of e]) (simp_all add: service_tenant_def get_strict_get)
  next
    case (Inr r)
    with recorded_fields [OF rec [unfolded Inr]] sv' res show ?thesis
      by (intro done_ [of r c]) (simp_all add: service_tenant_def get_strict_get)
  qed
qed

lemma evaluate_args_fields [simp]:
  "ra_action (evaluate_args inp ctx r a why rule) = a" "ra_content (evaluate_args inp ctx r a why rule) = ev_content r"
  "ra_client (evaluate_args inp ctx r a why rule) = ev_client r" "ra_trace (evaluate_args inp ctx r a why rule) = Some (ri_trace inp)"
  "ra_digest (evaluate_args inp ctx r a why rule) = content_engine_digest (gi_env (ri_gate inp)) (tc_engine ctx)"
  "ra_rule (evaluate_args inp ctx r a why rule) = rule"
  by (simp_all add: evaluate_args_def call_args_def)

lemma of_exn_not_answer [simp]: "of_exn e \<noteq> Answer x" "Answer x \<noteq> of_exn e"
  by (cases e; simp)+

lemma handle_full_answer: "handle_full x = (sv, Answer y) \<longleftrightarrow> x = (sv, Answer y)"
  by (auto simp: handle_full_def split: prod.splits answer.splits exn.splits)

text \<open>How an accepted request was let through by the limiter.\<close>

definition limiter_accepts :: "int \<Rightarrow> evaluate_request \<Rightarrow> tenant_context \<Rightarrow> bool" where
  "limiter_accepts now r ctx = (case ensure_quota now (rate_key r) ctx of
     Inl e \<Rightarrow> False
   | Inr rl \<Rightarrow> (case snd (check_and_consume (rate_key r) (ev_tokens r) now rl) of Inr (True, m) \<Rightarrow> True | _ \<Rightarrow> False))"

lemma throttle_not_answer [simp]: "throttle inp r msg ctx sv \<noteq> (sv', Answer res)"
  by (auto simp: throttle_def split: prod.splits sum.splits)

lemma decided_answer:
  assumes "decided inp r d ctx sv = (sv', Answer res)"
  shows "\<exists>rec c. service_tenant (ev_tenant r) sv' = Some (ctx\<lparr>tc_chain := c\<rparr>) \<and>
    ac_records c = ac_records (tc_chain ctx) @ [rec] \<and> er_record_hash res = Some (record_hash rec) \<and>
    er_allowed res = allowed d \<and> er_action res = action_value (res_action d) \<and> ar_action rec = er_action res \<and>
    content_hash rec = sha256_text (ev_content r) \<and> client_id rec = ev_client r \<and> trace_id rec = Some (ri_trace inp) \<and>
    ar_policy_digest rec = content_engine_digest (gi_env (ri_gate inp)) (tc_engine ctx)"
proof -
  obtain sv1 out where rec: "record_for (ri_gate inp) (ev_tenant r) ctx
      (evaluate_args inp ctx r (action_value (res_action d)) (res_reason d) (triggered_rule d)) (bump (count_decision d) sv) = (sv1, out)"
    by (metis prod.exhaust)
  from rec show ?thesis
  proof (cases rule: record_for_cases)
    case (raised e)
    with assms rec show ?thesis by (simp add: decided_def)
  next
    case (done_ rc c)
    with assms rec show ?thesis by (intro exI [of _ rc] exI [of _ c]) (auto simp: decided_def)
  qed
qed

lemma evaluate_tenant_answer:
  assumes "evaluate_tenant inp r ctx sv = (sv', Answer res)"
  shows "limiter_accepts (ri_now inp) r ctx \<and>
    (\<exists>d rl. engine_evaluate (gi_post (ri_gate inp)) (tc_engine ctx) (ev_content r) = Inr d \<and>
       decided inp r d (ctx\<lparr>tc_limiter := rl\<rparr>) (put_ctx (ev_tenant r) (ctx\<lparr>tc_limiter := rl\<rparr>) sv) = (sv', Answer res))"
  using assms
  by (auto simp: evaluate_tenant_def limiter_accepts_def Let_def split: sum.splits prod.splits bool.splits)

lemma evaluate_route_answer:
  assumes "evaluate_route inp auth r sv = (sv', Answer res)"
  shows "(auth = None \<or> auth = Some (JStr (ev_client r))) \<and>
    (\<exists>ctx. service_tenant (ev_tenant r) sv = Some ctx \<and> evaluate_tenant inp r ctx (bump count_total sv) = (sv', Answer res))"
  using assms
  by (auto simp: evaluate_route_def wrong_client_def unknown_tenant_answer_def Let_def split: if_splits option.splits)

text \<open>What \<open>with\_auth\<close> lets through.\<close>

lemma with_auth_answer:
  assumes "with_auth inp credentials route sv = (sv', Answer res)"
  shows "\<exists>s auth. authenticate (ri_auth inp) (sv_config sv) credentials (sv_auth sv) = (s, Inr auth) \<and>
    route auth (sv\<lparr>sv_auth := s\<rparr>) = (sv', Answer res)"
  using assms by (auto simp: with_auth_def handle_full_answer split: prod.splits sum.splits)

lemma authenticate_client:
  assumes "authenticate inp cfg credentials s = (s', Inr auth)" "auth_enabled (ai_env inp)"
  shows "\<exists>client. auth = Some client \<and> verify_token inp cfg credentials s = (s', Inr client)"
  using assms by (auto simp: authenticate_def split: prod.splits sum.splits)

lemma service_tenant_auth [simp]: "service_tenant t (sv\<lparr>sv_auth := s\<rparr>) = service_tenant t sv"
  by (simp add: service_tenant_def)

subsection \<open>The accounting of decisions\<close>

text \<open>The decided and the refused requests, the right-hand side of the service objective SLO-1.\<close>

definition settled :: "metrics \<Rightarrow> int" where
  "settled m = m_allowed m + m_audited m + m_denied m + m_refused_invalid m + m_refused_tenant m + m_refused_rate m"

definition unsettled :: "metrics \<Rightarrow> int" where
  "unsettled m = m_total m - settled m"

text \<open>A request that is counted and then raises before a decision: in the limiter or in the engine.\<close>

definition undecided :: "'k request_input \<Rightarrow> evaluate_request \<Rightarrow> tenant_context \<Rightarrow> bool" where
  "undecided inp r ctx = (case ensure_quota (ri_now inp) (rate_key r) ctx of
     Inl e \<Rightarrow> True
   | Inr rl \<Rightarrow> (case snd (check_and_consume (rate_key r) (ev_tokens r) (ri_now inp) rl) of
       Inl e \<Rightarrow> True
     | Inr (ok, m) \<Rightarrow> ok \<and> raised (engine_evaluate (gi_post (ri_gate inp)) (tc_engine ctx) (ev_content r))))"

datatype 'k call =
    Evaluate "'k request_input" "string option" evaluate_request
  | Action "'k request_input" "string option" action_body

fun run_call :: "'k call \<Rightarrow> 'k service \<Rightarrow> 'k service" where
  "run_call (Evaluate inp cred r) sv = fst (serve_evaluate inp cred r sv)"
| "run_call (Action inp cred r) sv = fst (serve_action inp cred r sv)"

text \<open>Whether a call reaches its handler's work: the caller is authenticated as the client it names.\<close>

definition admitted :: "'k request_input \<Rightarrow> string option \<Rightarrow> string \<Rightarrow> 'k service \<Rightarrow> bool" where
  "admitted inp cred client sv = (case snd (authenticate (ri_auth inp) (sv_config sv) cred (sv_auth sv)) of
     Inl e \<Rightarrow> False | Inr auth \<Rightarrow> auth = None \<or> auth = Some (JStr client))"

definition body_valid :: "evaluate_request \<Rightarrow> bool" where
  "body_valid r = valid (validate_request (JStr (ev_client r)) (JStr (ev_content r)) (JInt (ev_tokens r)))"

fun answered :: "'a answer \<Rightarrow> bool" where
  "answered (Answer x) = True"
| "answered (Http c m hs) = False"
| "answered (Failed e) = False"

text \<open>By how much a call moves the total away from the sum of its terms.\<close>

fun drift :: "'k call \<Rightarrow> 'k service \<Rightarrow> int" where
  "drift (Evaluate inp cred r) sv =
     (if admitted inp cred (ev_client r) sv \<and> evaluate_request_ok r \<and> body_valid r \<and>
         (case service_tenant (ev_tenant r) sv of None \<Rightarrow> False | Some ctx \<Rightarrow> undecided inp r ctx) then 1 else 0)"
| "drift (Action inp cred r) sv = (if answered (snd (serve_action inp cred r sv)) then - 1 else 0)"

fun drifts :: "'k call list \<Rightarrow> 'k service \<Rightarrow> int" where
  "drifts [] sv = 0"
| "drifts (c # cs) sv = drift c sv + drifts cs (run_call c sv)"

lemma unsettled_counts [simp]:
  "unsettled (count_total m) = unsettled m + 1" "unsettled (count_invalid m) = unsettled m - 1"
  "unsettled (count_unknown m) = unsettled m - 1" "unsettled (count_limited m) = unsettled m - 1"
  "unsettled (count_decision d m) = unsettled m - 1" "unsettled (count_action d m) = unsettled m - 1"
  "unsettled (m\<lparr>m_unrecorded := n\<rparr>) = unsettled m"
  by (simp_all add: unsettled_def settled_def count_defs)

lemma record_for_metrics: "record_for inp t ctx a sv = (sv', res) \<Longrightarrow> sv_metrics sv' = sv_metrics sv"
  by (cases rule: record_for_cases) auto

lemma throttle_unsettled: "unsettled (sv_metrics (fst (throttle inp r msg ctx sv))) = unsettled (sv_metrics sv) - 1"
  by (auto simp: throttle_def dest: record_for_metrics split: prod.splits sum.splits)

lemma decided_unsettled: "unsettled (sv_metrics (fst (decided inp r d ctx sv))) = unsettled (sv_metrics sv) - 1"
  by (auto simp: decided_def dest: record_for_metrics split: prod.splits sum.splits)

lemma evaluate_tenant_unsettled:
  "unsettled (sv_metrics (fst (evaluate_tenant inp r ctx sv))) =
     unsettled (sv_metrics sv) - (if undecided inp r ctx then 0 else 1)"
  by (auto simp: evaluate_tenant_def undecided_def Let_def throttle_unsettled decided_unsettled raised_def
      split: sum.splits prod.splits bool.splits)

lemma handle_full_unsettled: "unsettled (sv_metrics (fst (handle_full x))) = unsettled (sv_metrics (fst x))"
  by (auto simp: handle_full_def split: prod.splits answer.splits exn.splits)

lemma serve_evaluate_unsettled:
  "unsettled (sv_metrics (fst (serve_evaluate inp cred r sv))) = unsettled (sv_metrics sv) + drift (Evaluate inp cred r) sv"
proof -
  obtain s out where auth: "authenticate (ri_auth inp) (sv_config sv) cred (sv_auth sv) = (s, out)" by (metis prod.exhaust)
  show ?thesis
    by (cases out)
      (auto simp: serve_evaluate_def with_auth_def auth admitted_def handle_full_unsettled evaluate_route_def body_valid_def
        evaluate_tenant_unsettled Let_def split: option.splits)
qed

lemma answered_simps [simp]: "\<not> answered (of_exn e)" "answered (snd (handle_full x)) = answered (snd x)"
proof -
  show "\<not> answered (of_exn e)" by (cases e) simp_all
  show "answered (snd (handle_full x)) = answered (snd x)"
    by (auto simp: handle_full_def split: prod.splits answer.splits exn.splits)
qed

lemma action_route_unsettled:
  "unsettled (sv_metrics (fst (action_route inp auth r sv))) =
     unsettled (sv_metrics sv) - (if answered (snd (action_route inp auth r sv)) then 1 else 0)"
  by (simp add: action_route_def wrong_client_def split: prod.split sum.split)

lemma serve_action_unsettled:
  "unsettled (sv_metrics (fst (serve_action inp cred r sv))) = unsettled (sv_metrics sv) + drift (Action inp cred r) sv"
proof -
  obtain s out where auth: "authenticate (ri_auth inp) (sv_config sv) cred (sv_auth sv) = (s, out)" by (metis prod.exhaust)
  show ?thesis
    by (cases out) (simp_all add: serve_action_def with_auth_def auth handle_full_unsettled action_route_unsettled bad_body_def)
qed

subsection \<open>Properties\<close>

text \<open>C4: an evaluation answered as allowed was allowed and is on the record. If \<open>/v1/evaluate\<close> answers
  with \<open>allowed\<close> then the tenant is registered, the limiter accepted the request, the tenant's
  engine allows the content, the tenant's chain grew by exactly one record of that content,
  client, decision and trace that cites the digest of the tenant's content policy, and the
  hash in the answer is that record's; and unless authentication is disabled the caller
  presented a token whose subject is the client of the request.\<close>

theorem allowed_evaluation_is_recorded:
  assumes "serve_evaluate inp cred r sv = (sv', Answer res)" and "er_allowed res"
  shows "\<exists>ctx ctx' d rec. service_tenant (ev_tenant r) sv = Some ctx \<and> service_tenant (ev_tenant r) sv' = Some ctx' \<and>
    limiter_accepts (ri_now inp) r ctx \<and>
    engine_evaluate (gi_post (ri_gate inp)) (tc_engine ctx) (ev_content r) = Inr d \<and> allowed d \<and>
    ac_records (tc_chain ctx') = ac_records (tc_chain ctx) @ [rec] \<and> er_record_hash res = Some (record_hash rec) \<and>
    content_hash rec = sha256_text (ev_content r) \<and> client_id rec = ev_client r \<and>
    ar_action rec = action_value (res_action d) \<and> trace_id rec = Some (ri_trace inp) \<and>
    ar_policy_digest rec = content_engine_digest (gi_env (ri_gate inp)) (tc_engine ctx) \<and>
    (auth_enabled (ai_env (ri_auth inp)) \<longrightarrow>
       snd (verify_token (ri_auth inp) (sv_config sv) cred (sv_auth sv)) = Inr (JStr (ev_client r)))"
proof -
  obtain s auth where a: "authenticate (ri_auth inp) (sv_config sv) cred (sv_auth sv) = (s, Inr auth)"
    and route: "evaluate_route inp auth r (sv\<lparr>sv_auth := s\<rparr>) = (sv', Answer res)"
    using with_auth_answer [OF assms(1) [unfolded serve_evaluate_def]] by (auto simp: bad_body_def split: if_splits)
  from evaluate_route_answer [OF route] obtain ctx where
    client: "auth = None \<or> auth = Some (JStr (ev_client r))" and ctx: "service_tenant (ev_tenant r) sv = Some ctx"
    and ev: "evaluate_tenant inp r ctx (bump count_total (sv\<lparr>sv_auth := s\<rparr>)) = (sv', Answer res)" by auto
  from evaluate_tenant_answer [OF ev] obtain d rl where acc: "limiter_accepts (ri_now inp) r ctx"
    and d: "engine_evaluate (gi_post (ri_gate inp)) (tc_engine ctx) (ev_content r) = Inr d"
    and dec: "decided inp r d (ctx\<lparr>tc_limiter := rl\<rparr>)
      (put_ctx (ev_tenant r) (ctx\<lparr>tc_limiter := rl\<rparr>) (bump count_total (sv\<lparr>sv_auth := s\<rparr>))) = (sv', Answer res)" by auto
  have tok: "auth_enabled (ai_env (ri_auth inp)) \<longrightarrow>
      snd (verify_token (ri_auth inp) (sv_config sv) cred (sv_auth sv)) = Inr (JStr (ev_client r))"
    using authenticate_client [OF a] client by auto
  from decided_answer [OF dec] assms(2) ctx acc d tok show ?thesis by auto
qed

definition demo_evaluate :: evaluate_request where
  "demo_evaluate = \<lparr>ev_client = ''a'', ev_content = ''hi'', ev_tokens = 1, ev_tenant = ''default''\<rparr>"

definition demo_limiter :: rate_limiter where
  "demo_limiter = fst (check_and_consume ''a'' 1 0 (register ''a'' DEFAULT_QUOTA 0 new_rate_limiter))"

lemma demo_checks:
  "evaluate_request_ok demo_evaluate" "valid (validate_request (JStr ''a'') (JStr ''hi'') (JInt 1))"
  "content_store_for demo_auth_env ''t'' = Inr None" "auth_enabled demo_auth_env" "rate_key demo_evaluate = ''a''"
  "snd (check_and_consume ''a'' 1 0 (register ''a'' DEFAULT_QUOTA 0 new_rate_limiter)) = Inr (True, ''OK'')"
  by code_simp+

lemma demo_authenticated:
  "authenticate demo_auth_input demo_auth_config (Some ''s3'') new_auth_state = (new_auth_state, Inr (Some (JStr ''a'')))"
  using demo_checks(4) demo_verified by (simp add: authenticate_def demo_auth_input_def)

lemma demo_digest: "\<exists>d. content_engine_digest demo_auth_env (RegexE (new_policy_engine (Some []))) = Some d \<and> d \<noteq> []"
proof -
  have "sha256_hex x \<noteq> []" for x by (metis length_sha256_hex list.size(3) zero_neq_numeral)
  then show ?thesis
    by (simp add: content_engine_digest_def engine_policy_digest_def REGEX_ENGINE_def)
qed

lemma demo_recorded:
  assumes "gw_files (sv_world sv) = []" "gw_audit (sv_world sv) = []"
  shows "\<exists>sv' rec. record_for (demo_start_gate post sinks) ''default'' (demo_context\<lparr>tc_limiter := rl\<rparr>)
    (evaluate_args (demo_request_input post sinks) (demo_context\<lparr>tc_limiter := rl\<rparr>) demo_evaluate act why rule) sv = (sv', Inr rec)"
proof -
  let ?a = "evaluate_args (demo_request_input post sinks) (demo_context\<lparr>tc_limiter := rl\<rparr>) demo_evaluate act why rule"
  have "\<exists>r. seal_entry demo_auth_env demo_chain 5 (?a\<lparr>ra_commitment := COMMITMENT_NONE\<rparr>) = Inr r"
    using demo_digest
    by (intro seal_entry_total)
      (auto simp: commitment_defs record_tenant_def missing_evidence_def evaluate_args_def call_args_def demo_context_def
        demo_request_input_def demo_start_gate_def demo_input_def demo_chain_def)
  then obtain r where "seal_entry demo_auth_env demo_chain 5 (?a\<lparr>ra_commitment := COMMITMENT_NONE\<rparr>) = Inr r" ..
  then have "chain_record demo_auth_env 5 None (?a\<lparr>ra_commitment := COMMITMENT_NONE\<rparr>) (demo_chain, []) =
     ((demo_chain\<lparr>ac_records := [r]\<rparr>, [r]), Inr r)" by (simp add: chain_record_def demo_chain_def)
  then have "record_decision demo_auth_env [] 4 5 None (Some ''t'') ?a ([], demo_chain, []) = (([], demo_chain\<lparr>ac_records := [r]\<rparr>, [r]), Inr r)"
    using demo_checks(3) by (simp add: record_decision_def record_none_def evaluate_args_def call_args_def str_or_def)
  then show ?thesis
    using assms by (simp add: record_for_def demo_start_gate_def demo_input_def demo_context_def Let_def)
qed

lemma demo_evaluated:
  "\<exists>sv' res. serve_evaluate (demo_request_input post sinks) (Some ''s3'') demo_evaluate (demo_service m) = (sv', Answer res) \<and>
     er_allowed res"
proof -
  let ?inp = "demo_request_input post sinks" and ?ctx = "demo_context\<lparr>tc_limiter := demo_limiter\<rparr>"
  let ?sv = "put_ctx ''default'' ?ctx (bump count_total (demo_service m))"
  have ev: "evaluate (new_policy_engine (Some [])) ''hi'' = Inr allow_result" by (simp add: evaluate_def new_policy_engine_def)
  have demo_gate: "ri_gate ?inp = demo_start_gate post sinks" by (simp add: demo_request_input_def)
  have world: "gw_files (sv_world ?sv) = []" "gw_audit (sv_world ?sv) = []"
    by (simp_all add: put_ctx_def demo_service_def demo_start_world_def)
  obtain sv' rec where "record_for (ri_gate ?inp) ''default'' ?ctx
     (evaluate_args ?inp ?ctx demo_evaluate (action_value (res_action allow_result)) (res_reason allow_result) (triggered_rule allow_result))
     (bump (count_decision allow_result) ?sv) = (sv', Inr rec)"
    unfolding demo_gate
    using demo_recorded [where sv = "bump (count_decision allow_result) ?sv" and post = post and sinks = sinks
      and rl = demo_limiter and act = "action_value (res_action allow_result)" and why = "res_reason allow_result"
      and rule = "triggered_rule allow_result"] world
    by (simp only: service_simps) blast
  then have "\<exists>res. decided ?inp demo_evaluate allow_result ?ctx ?sv = (sv', Answer res) \<and> er_allowed res"
    by (simp add: decided_def demo_evaluate_def allow_result_def)
  moreover have "ensure_quota 0 ''a'' demo_context = Inr (register ''a'' DEFAULT_QUOTA 0 new_rate_limiter)"
    by (simp add: ensure_quota_def demo_context_def get_all_quotas_def new_rate_limiter_def inherited_quota_def get_quota_def)
  moreover have "check_and_consume ''a'' 1 0 (register ''a'' DEFAULT_QUOTA 0 new_rate_limiter) = (demo_limiter, Inr (True, ''OK''))"
    using demo_checks(6) by (simp add: demo_limiter_def prod_eq_iff)
  ultimately obtain res where "evaluate_tenant ?inp demo_evaluate demo_context (bump count_total (demo_service m)) = (sv', Answer res)"
    "er_allowed res"
    using demo_checks(5) ev by (auto simp: evaluate_tenant_def demo_evaluate_def demo_request_input_def demo_context_def Let_def)
  moreover have "service_tenant ''default'' (demo_service m) = Some demo_context"
    by (simp add: service_tenant_def demo_service_def demo_start_world_def get_strict_def)
  moreover have "authenticate (ri_auth ?inp) (sv_config (demo_service m)) (Some ''s3'') (sv_auth (demo_service m)) =
     (sv_auth (demo_service m), Inr (Some (JStr ''a'')))"
    using demo_authenticated by (simp add: demo_request_input_def demo_service_def)
  ultimately show ?thesis
    using demo_checks(1,2)
    by (auto simp: serve_evaluate_def with_auth_def evaluate_route_def demo_evaluate_def handle_full_def Let_def)
qed

theorem allowed_evaluation_is_recorded_witness:
  "\<forall>post sinks m. \<exists>sv' ctx' rec. fst (serve_evaluate (demo_request_input post sinks) (Some ''s3'') demo_evaluate (demo_service m)) = sv' \<and>
     service_tenant ''default'' sv' = Some ctx' \<and> ac_records (tc_chain ctx') = [rec] \<and> content_hash rec = sha256_text ''hi''"
proof (intro allI)
  fix post sinks m
  obtain sv' res where run: "serve_evaluate (demo_request_input post sinks) (Some ''s3'') demo_evaluate (demo_service m) = (sv', Answer res)"
    and ok: "er_allowed res" using demo_evaluated by blast
  have "service_tenant ''default'' (demo_service m) = Some demo_context"
    by (simp add: service_tenant_def demo_service_def demo_start_world_def get_strict_def)
  with allowed_evaluation_is_recorded [OF run ok] run
  show "\<exists>sv' ctx' rec. fst (serve_evaluate (demo_request_input post sinks) (Some ''s3'') demo_evaluate (demo_service m)) = sv' \<and>
     service_tenant ''default'' sv' = Some ctx' \<and> ac_records (tc_chain ctx') = [rec] \<and> content_hash rec = sha256_text ''hi''"
    by (auto simp: demo_evaluate_def demo_context_def demo_chain_def)
qed

text \<open>C17: the accounting of SLO-1. After any calls of the two evaluation routes, the total minus the
  sum of its six terms (allowed, audited, denied, and the three kinds of refusal) has moved by
  exactly one for every request that raised before a decision and by minus one for every
  action that was answered: nothing else opens a remainder, whatever is refused, throttled,
  recorded or not recorded.\<close>

theorem request_accounting:
  "unsettled (sv_metrics (fold run_call calls sv)) = unsettled (sv_metrics sv) + drifts calls sv"
proof (induction calls arbitrary: sv)
  case (Cons c cs)
  then show ?case
    by (cases c) (simp_all del: drift.simps add: serve_evaluate_unsettled serve_action_unsettled)
qed simp

subsection \<open>What production does to actions\<close>

text \<open>
  The route passes no trace id to the gate, and a process that requires bound evidence refuses
  such a record: there an action is never allowed, whatever the policy says.
\<close>

lemma production_denies_actions:
  assumes "serve_action inp cred r sv = (sv', Answer res)" "bound_evidence_required (gi_env (ri_gate inp))"
  shows "\<not> er_allowed res"
proof
  assume ok: "er_allowed res"
  obtain s auth where route: "action_route inp auth r (sv\<lparr>sv_auth := s\<rparr>) = (sv', Answer res)"
    using with_auth_answer [OF assms(1) [unfolded serve_action_def]] by (auto simp: bad_body_def split: if_splits)
  then obtain w g where "evaluate_action (ri_gate inp) (ab_tenant r) \<lparr>tool = ab_tool r, command = ab_command r, args = ab_args r\<rparr>
      (ab_client r) None (sv_world sv) = (w, Inr g)" "er_allowed res = allowed (decision g)"
    by (auto simp: action_route_def wrong_client_def split: if_splits prod.splits sum.splits)
  from allowed_run [OF this(1)] this(2) ok assms(2) show False by auto
qed

text \<open>An answered action is counted as decided but not in the total.\<close>

lemma action_opens_remainder:
  "answered (snd (serve_action inp cred r sv)) \<Longrightarrow>
     unsettled (sv_metrics (fst (serve_action inp cred r sv))) = unsettled (sv_metrics sv) - 1"
  using serve_action_unsettled [of inp cred r sv] by simp

end
