(* ===== verification/Service_Admin.thy ===== *)
theory Service_Admin
  imports Service Review
begin

text \<open>
  The administrative routes of \<open>src/main.py\<close>, each behind \<open>require\_auth\<close>: the audit log and its
  verification, snapshots, retention status and erasure (behind the operator credential as
  well), replay, policy diff, and the rules and the registration of tenants. The clock of a
  snapshot, a replay and a purge is that of the gate's input. A response that repeats the
  fields of a modelled value is that value.
\<close>

subsection \<open>Requests and responses\<close>

datatype admin_request =
    AuditLog "string option" string
  | AuditVerify string
  | SnapshotGet string "int option" "int option"
  | SnapshotCheck dict
  | RetentionStatus "string option" string
  | RetentionPurge "string option" purge_request
  | ReplayRecord replay_request
  | DiffRules diff_request
  | AddTenantRule string rule_request
  | ListTenantRules string
  | RegisterTenant tenant_request
  | ListTenants
  | DeleteTenant string

datatype admin_response =
    Records "dict list"
  | ChainStatus bool string nat string string
  | SnapshotBody snapshot_result
  | SnapshotVerdict bool string
  | RetentionReport string string string reconciliation
  | Purged string string string string
  | Replayed replay_result
  | DiffBody diff_result
  | RuleAdded string rule_request nat
  | RuleList string "rule_request list"
  | TenantBody tenant_request
  | TenantIds "string list"
  | Deleted string

type_synonym 'k step = "'k service \<times> admin_response answer"

definition of_result :: "'a result \<Rightarrow> 'a answer" where
  "of_result r = (case r of Inl e \<Rightarrow> of_exn e | Inr x \<Rightarrow> Answer x)"

text \<open>The tenant lookup the handlers begin with.\<close>

definition known_tenant :: "string \<Rightarrow> 'k service \<Rightarrow> (tenant_context \<Rightarrow> 'k step) \<Rightarrow> 'k step" where
  "known_tenant t sv f = (case service_tenant t sv of None \<Rightarrow> (sv, unknown_tenant_answer t) | Some ctx \<Rightarrow> f ctx)"

definition on_tm :: "(tenant_manager \<Rightarrow> tenant_manager) \<Rightarrow> 'k service \<Rightarrow> 'k service" where
  "on_tm f sv = set_world ((sv_world sv)\<lparr>gw_tm := f (gw_tm (sv_world sv))\<rparr>) sv"

subsection \<open>Audit log and snapshots\<close>

definition get_audit_log :: "string option \<Rightarrow> string \<Rightarrow> 'k service \<Rightarrow> 'k step" where
  "get_audit_log client t sv = known_tenant t sv (\<lambda>ctx.
     (sv, Answer (Records (map audit_record_response (get_records client (tc_chain ctx))))))"

definition verify_audit_chain :: "string \<Rightarrow> 'k service \<Rightarrow> 'k step" where
  "verify_audit_chain t sv = known_tenant t sv (\<lambda>ctx. let c = tc_chain ctx in
     (sv, of_result (try_bind (chain_verify c) (\<lambda>(ok, why).
       Inr (ChainStatus ok why (chain_length c) t (audit_backend_type (ac_backend c)))))))"

definition get_snapshot :: "int \<Rightarrow> string \<Rightarrow> int option \<Rightarrow> int option \<Rightarrow> 'k service \<Rightarrow> 'k step" where
  "get_snapshot now t start stop sv = known_tenant t sv (\<lambda>ctx.
     (sv, of_result (try_bind (generate_snapshot now start stop (tc_chain ctx)) (\<lambda>s. Inr (SnapshotBody s)))))"

definition check_snapshot :: "dict \<Rightarrow> 'k service \<Rightarrow> 'k step" where
  "check_snapshot d sv = (case tenant_get ''default'' (gw_tm (sv_world sv)) of
     None \<Rightarrow> (sv, Failed (AttributeError ''NoneType object has no attribute audit_chain''))
   | Some ctx \<Rightarrow> (case verify_snapshot d of (ok, why) \<Rightarrow> (sv, Answer (SnapshotVerdict ok why))))"

subsection \<open>Retention\<close>

definition is_ascii :: "string \<Rightarrow> bool" where
  "is_ascii s = list_all (\<lambda>c. code c < 128) s"

text \<open>\<open>hmac.compare\_digest\<close> of two texts.\<close>

definition compare_digest :: "string \<Rightarrow> string \<Rightarrow> bool result" where
  "compare_digest a b = (if is_ascii a \<and> is_ascii b then Inr (a = b)
     else Inl (TypeError ''comparing strings with non-ASCII characters is not supported''))"

definition wrong_operator :: exn where
  "wrong_operator = HTTPException 401 ''retention admin token missing or wrong''"

definition require_retention_admin :: "environment \<Rightarrow> string option \<Rightarrow> unit result" where
  "require_retention_admin env header = try_bind (content_retention_mode env) (\<lambda>mode.
     if mode = MODE_OFF then Inl (HTTPException 503 ''content retention is off (CUSTOS_CONTENT_RETENTION=off); the served path keeps no content, so an erasure request has nothing to act on. This is a refusal, not a completed deletion'')
     else (case retention_admin_token env of
       None \<Rightarrow> Inl (HTTPException 503 ''retention administration is not configured; set CUSTOS_RETENTION_ADMIN_TOKEN. Content is being withheld from erasure until an operator credential exists, and this endpoint stays closed rather than open'')
     | Some token \<Rightarrow> (case header of
         None \<Rightarrow> Inl wrong_operator
       | Some shown \<Rightarrow> try_bind (compare_digest shown token) (\<lambda>same. if same then Inr () else Inl wrong_operator))))"

definition base_name :: "string \<Rightarrow> string" where
  "base_name p = rev (takeWhile (\<lambda>c. c \<noteq> CHR ''/'') (rev p))"

definition retention_status :: "gate_input \<Rightarrow> string \<Rightarrow> 'k service \<Rightarrow> 'k step" where
  "retention_status inp t sv = known_tenant t sv (\<lambda>ctx. let env = gi_env inp in
     (sv, of_result (try_bind (content_store_for env t) (\<lambda>po. case po of
        None \<Rightarrow> Inl (AttributeError ''NoneType object has no attribute status'')
      | Some path \<Rightarrow> try_bind (content_retention_mode env) (\<lambda>mode.
          Inr (RetentionReport t mode (base_name path)
            (reconcile (ac_records (tc_chain ctx)) (store_at path (gw_files (sv_world sv))))))))))"

definition never_stored :: "string \<Rightarrow> 'a answer" where
  "never_stored h = Http 409 (''the store holds no content at '' @ short h @
     ''; a purge of something never stored would be recorded as a deletion that never happened'') []"

definition purged_before :: "string \<Rightarrow> content_store \<Rightarrow> 'a answer" where
  "purged_before h s = Http 409 (''content '' @ short h @ '' was already purged at '' @
     (case map_of (purges s) h of Some p \<Rightarrow> float_repr (pr_purged_at p) | None \<Rightarrow> ''an earlier time'')) []"

definition purge_answer :: "string result \<Rightarrow> (string \<Rightarrow> admin_response) \<Rightarrow> admin_response answer" where
  "purge_answer res f = (case res of
     Inr ah \<Rightarrow> Answer (f ah)
   | Inl (PurgeRefused m) \<Rightarrow> Http 409 m []
   | Inl (ContentPurged m) \<Rightarrow> Http 409 m []
   | Inl e \<Rightarrow> of_exn e)"

text \<open>The call of \<open>store.purge\<close>: no trace id is passed.\<close>

definition purge_stored :: "gate_input \<Rightarrow> string \<Rightarrow> purge_request \<Rightarrow> tenant_context \<Rightarrow> 'k service \<Rightarrow> 'k step" where
  "purge_stored inp path r ctx sv =
     (let w = sv_world sv; t = pq_tenant r; h = purge_request_hash r in
      case purge (gi_env inp) (gi_t1 inp) (gi_t2 inp) (gi_fault inp) h ''retention-admin'' (pq_reason r) None
            (content_engine_digest (gi_env inp) (tc_engine ctx)) (store_at path (gw_files w), tc_chain ctx, gw_audit w) of
        ((s, c, st), res) \<Rightarrow>
          (set_world (w\<lparr>gw_files := dict_set path s (gw_files w), gw_audit := st,
              gw_tm := put_context t (ctx\<lparr>tc_chain := c\<rparr>) (gw_tm w)\<rparr>) sv,
           purge_answer res (\<lambda>ah. Purged h ah (store_status h s) t)))"

definition retention_purge :: "gate_input \<Rightarrow> purge_request \<Rightarrow> 'k service \<Rightarrow> 'k step" where
  "retention_purge inp r sv = known_tenant (pq_tenant r) sv (\<lambda>ctx.
     let h = purge_request_hash r in
     case content_store_for (gi_env inp) (pq_tenant r) of
       Inl e \<Rightarrow> (sv, of_exn e)
     | Inr None \<Rightarrow> (sv, Failed (AttributeError ''NoneType object has no attribute status''))
     | Inr (Some path) \<Rightarrow>
         let s = store_at path (gw_files (sv_world sv)) in
         if store_status h s = STATUS_UNKNOWN then (sv, never_stored h)
         else if store_status h s = STATUS_PURGED then (sv, purged_before h s)
         else purge_stored inp path r ctx sv)"

subsection \<open>Replay and diff\<close>

definition chain_call :: "gate_input \<Rightarrow> string \<Rightarrow> tenant_context \<Rightarrow> record_args \<Rightarrow> 'k service \<Rightarrow> 'k service \<times> audit_record result" where
  "chain_call inp t ctx a sv = (let w = sv_world sv in
     case chain_record (gi_env inp) (gi_t2 inp) (gi_fault inp) a (tc_chain ctx, gw_audit w) of
       ((c, st), res) \<Rightarrow> (set_world (w\<lparr>gw_audit := st, gw_tm := put_context t (ctx\<lparr>tc_chain := c\<rparr>) (gw_tm w)\<rparr>) sv, res))"

definition replay_args :: "replay_request \<Rightarrow> record_args" where
  "replay_args r = call_args ''system'' ''replay'' (''Replayed record '' @ short (rp_hash r) @ ''...'') (rp_content r)"

definition replay :: "gate_input \<Rightarrow> replay_request \<Rightarrow> 'k service \<Rightarrow> 'k step" where
  "replay inp r sv = known_tenant (rp_tenant r) sv (\<lambda>ctx.
     case replay_by_hash (gi_post inp) (gi_t1 inp) (tc_chain ctx) (tc_engine ctx) (rp_hash r) (rp_content r) of
       Inl (ValueError m) \<Rightarrow> (sv, Http 404 m [])
     | Inl e \<Rightarrow> (sv, of_exn e)
     | Inr res \<Rightarrow> (case chain_call inp (rp_tenant r) ctx (replay_args r) sv of
         (sv', Inl e) \<Rightarrow> (sv', of_exn e)
       | (sv', Inr _) \<Rightarrow> (sv', Answer (Replayed res))))"

definition action_map :: "string \<Rightarrow> policy_action result" where
  "action_map a = (if a = ''allow'' then Inr ALLOW else if a = ''deny'' then Inr DENY
     else if a = ''audit'' then Inr AUDIT else Inl (KeyError a))"

definition rule_of :: "rule_request \<Rightarrow> policy_rule result" where
  "rule_of r = try_bind (action_map (ru_action r)) (\<lambda>a.
     Inr \<lparr>name = ru_name r, pattern = ru_pattern r, action = a, reason = ru_reason r\<rparr>)"

definition diff_route :: "diff_request \<Rightarrow> admin_response answer" where
  "diff_route r = (case try_bind (try_map rule_of (df_current r)) (\<lambda>cur.
        try_bind (try_map rule_of (df_proposed r)) (\<lambda>prop. Inr (cur, prop))) of
      Inl e \<Rightarrow> Http 422 (''Invalid action: '' @ exn_text e) []
    | Inr (cur, prop) \<Rightarrow> of_result (try_bind (policy_diff (df_content r) cur prop) (\<lambda>d. Inr (DiffBody d))))"

subsection \<open>Tenants\<close>

definition add_tenant_rule :: "string \<Rightarrow> rule_request \<Rightarrow> 'k service \<Rightarrow> 'k step" where
  "add_tenant_rule t r sv = (case rule_of r of
     Inl e \<Rightarrow> (sv, Http 422 (''Invalid action: '' @ ru_action r) [])
   | Inr rule \<Rightarrow> (case add_policy_rule t rule (gw_tm (sv_world sv)) of
       (tm, Inl e) \<Rightarrow> (on_tm (\<lambda>_. tm) sv, of_exn e)
     | (tm, Inr _) \<Rightarrow> (on_tm (\<lambda>_. tm) sv, Answer (RuleAdded t r (length (list_policy_rules t tm))))))"

definition request_of_rule :: "policy_rule \<Rightarrow> rule_request" where
  "request_of_rule r = \<lparr>ru_name = name r, ru_pattern = pattern r, ru_action = action_value (action r), ru_reason = reason r\<rparr>"

definition list_tenant_rules :: "string \<Rightarrow> 'k service \<Rightarrow> 'k step" where
  "list_tenant_rules t sv = (sv, Answer (RuleList t (map request_of_rule (list_policy_rules t (gw_tm (sv_world sv))))))"

definition request_quota :: "tenant_request \<Rightarrow> quota_config" where
  "request_quota r = \<lparr>requests_per_minute = tr_rpm r, requests_per_hour = tr_rph r, tokens_per_minute = tr_tpm r\<rparr>"

definition register_tenant :: "'k request_input \<Rightarrow> tenant_request \<Rightarrow> 'k service \<Rightarrow> 'k step" where
  "register_tenant inp r sv = (let w = sv_world sv; t = tr_tenant r in
     if t = ''default'' then (sv, Http 400 ''Cannot re-register the default tenant'' [])
     else if tenant_get t (gw_tm w) \<noteq> None then (sv, Http 409 (''Tenant '' @ quoted t @ '' already exists'') [])
     else (case tenant_register (gi_env (ri_gate inp)) (gw_audit w) (ri_now inp) t (request_quota r) (gw_tm w) of
         (tm, Inl e) \<Rightarrow> (on_tm (\<lambda>_. tm) sv, of_exn e)
       | (tm, Inr _) \<Rightarrow> (on_tm (\<lambda>_. tm) sv, Answer (TenantBody r))))"

definition delete_tenant :: "string \<Rightarrow> 'k service \<Rightarrow> 'k step" where
  "delete_tenant t sv =
     (if t = ''default'' then (sv, Http 400 ''Cannot delete the default tenant'' [])
      else (case tenant_unregister t (gw_tm (sv_world sv)) of
        (tm, True) \<Rightarrow> (on_tm (\<lambda>_. tm) sv, Answer (Deleted t))
      | (tm, False) \<Rightarrow> (on_tm (\<lambda>_. tm) sv, Http 404 (''Tenant '' @ quoted t @ '' not found'') [])))"

subsection \<open>The router\<close>

definition with_body :: "bool \<Rightarrow> 'k step \<Rightarrow> 'k service \<Rightarrow> 'k step" where
  "with_body ok step sv = (if ok then step else (sv, bad_body))"

definition with_operator :: "gate_input \<Rightarrow> string option \<Rightarrow> 'k step \<Rightarrow> 'k service \<Rightarrow> 'k step" where
  "with_operator inp header step sv = (case require_retention_admin (gi_env inp) header of
     Inl e \<Rightarrow> (sv, of_exn e) | Inr _ \<Rightarrow> step)"

fun admin_route :: "'k request_input \<Rightarrow> admin_request \<Rightarrow> 'k service \<Rightarrow> 'k step" where
  "admin_route inp (AuditLog client t) sv = get_audit_log client t sv"
| "admin_route inp (AuditVerify t) sv = verify_audit_chain t sv"
| "admin_route inp (SnapshotGet t start stop) sv = get_snapshot (gi_t1 (ri_gate inp)) t start stop sv"
| "admin_route inp (SnapshotCheck d) sv = check_snapshot d sv"
| "admin_route inp (RetentionStatus header t) sv = with_operator (ri_gate inp) header (retention_status (ri_gate inp) t sv) sv"
| "admin_route inp (RetentionPurge header r) sv = with_operator (ri_gate inp) header
     (with_body (purge_request_ok r) (retention_purge (ri_gate inp) r sv) sv) sv"
| "admin_route inp (ReplayRecord r) sv = with_body (replay_request_ok r) (replay (ri_gate inp) r sv) sv"
| "admin_route inp (DiffRules r) sv = with_body (diff_request_ok r) (sv, diff_route r) sv"
| "admin_route inp (AddTenantRule t r) sv = with_body (rule_request_ok r) (add_tenant_rule t r sv) sv"
| "admin_route inp (ListTenantRules t) sv = list_tenant_rules t sv"
| "admin_route inp (RegisterTenant r) sv = with_body (tenant_request_ok r) (register_tenant inp r sv) sv"
| "admin_route inp ListTenants sv = (sv, Answer (TenantIds (tenant_list (gw_tm (sv_world sv)))))"
| "admin_route inp (DeleteTenant t) sv = delete_tenant t sv"

definition serve_admin :: "'k request_input \<Rightarrow> string option \<Rightarrow> admin_request \<Rightarrow> 'k service \<Rightarrow> 'k step" where
  "serve_admin inp credentials req = with_auth inp credentials (\<lambda>_. admin_route inp req)"

subsection \<open>What the routes leave\<close>

lemma service_tenant_set_world [simp]: "service_tenant t (set_world w sv) = tenant_get t (gw_tm w)"
  by (simp add: service_tenant_def get_strict_get)

lemma on_tm_simps [simp]:
  "sv_world (on_tm f sv) = (sv_world sv)\<lparr>gw_tm := f (gw_tm (sv_world sv))\<rparr>" "sv_metrics (on_tm f sv) = sv_metrics sv"
  "sv_auth (on_tm f sv) = sv_auth sv" "sv_config (on_tm f sv) = sv_config sv" "sv_binding (on_tm f sv) = sv_binding sv"
  "service_tenant t (on_tm f sv) = tenant_get t (f (gw_tm (sv_world sv)))"
  by (simp_all add: on_tm_def)

lemma base_name_plain:
  assumes "CHR ''/'' \<notin> set b" "x = [] \<or> last x = CHR ''/''"
  shows "base_name (x @ b) = b"
proof -
  let ?P = "\<lambda>c. c \<noteq> CHR ''/''"
  have "takeWhile ?P (rev b @ rev x) = rev b @ takeWhile ?P (rev x)"
    by (rule takeWhile_append2) (use assms(1) in auto)
  moreover have "takeWhile ?P (rev x) = []" using assms(2) by (cases x rule: rev_cases) auto
  ultimately show ?thesis by (simp add: base_name_def)
qed

text \<open>The status answers with the name of the tenant's file, not with its path.\<close>

lemma base_name_store_path: "base_name (store_path_for d t) = store_file_name t"
proof -
  have plain: "CHR ''/'' \<notin> set (store_file_name t)" by (rule store_file_name_plain)
  moreover have "\<not> startswith (store_file_name t) ''/''"
    using plain by (cases "store_file_name t") (auto simp: startswith_def)
  ultimately show ?thesis
    using base_name_plain [of "store_file_name t" "[]"] base_name_plain [of "store_file_name t" d]
      base_name_plain [of "store_file_name t" "d @ ''/''"]
    by (simp add: store_path_for_def path_join_def)
qed

lemma require_retention_admin_ok:
  "require_retention_admin env header = Inr () \<longleftrightarrow>
     (\<exists>tok mode. retention_admin_token env = Some tok \<and> header = Some tok \<and> is_ascii tok \<and>
        content_retention_mode env = Inr mode \<and> mode \<noteq> MODE_OFF)"
  by (auto simp: require_retention_admin_def compare_digest_def result_simps wrong_operator_def
      split: option.splits if_splits)

lemma purge_answer_Answer: "purge_answer res f = Answer x \<longleftrightarrow> (\<exists>ah. res = Inr ah \<and> x = f ah)"
  by (auto simp: purge_answer_def split: sum.splits exn.splits)

lemma retention_purge_answer:
  assumes "retention_purge inp r sv = (sv', Answer res)"
  shows "\<exists>ctx path. service_tenant (pq_tenant r) sv = Some ctx \<and> content_store_for (gi_env inp) (pq_tenant r) = Inr (Some path) \<and>
    purge_stored inp path r ctx sv = (sv', Answer res)"
  using assms
  by (auto simp: retention_purge_def known_tenant_def unknown_tenant_answer_def never_stored_def purged_before_def Let_def
      split: option.splits sum.splits if_splits)

subsection \<open>Without a token\<close>

text \<open>C13: no governed route serves a caller without a verified token. With authentication enabled (in
  production it always is), a request to an evaluation route or to any administrative route
  whose token does not verify is answered with the refusal of the verification, and leaves the
  policies, the tenants, the chains, the content, the counters and the binding as they were.\<close>

theorem unverified_caller_is_refused:
  assumes "auth_enabled (ai_env (ri_auth inp))" and "verify_token (ri_auth inp) (sv_config sv) cred (sv_auth sv) = (s, Inl e)"
  shows "serve_evaluate inp cred ev sv = (sv\<lparr>sv_auth := s\<rparr>, of_exn e) \<and>
    serve_action inp cred act sv = (sv\<lparr>sv_auth := s\<rparr>, of_exn e) \<and>
    serve_admin inp cred req sv = (sv\<lparr>sv_auth := s\<rparr>, of_exn e)"
  using assms
  by (simp add: serve_evaluate_def serve_action_def serve_admin_def with_auth_def authenticate_def)

theorem unverified_caller_is_refused_witness:
  "\<forall>post sinks m. \<exists>e. serve_admin (demo_request_input post sinks) None ListTenants (demo_service m) = (demo_service m, of_exn e) \<and>
     (\<forall>x. of_exn e \<noteq> (Answer x :: admin_response answer))"
proof (intro allI)
  fix post sinks m
  let ?inp = "demo_request_input post sinks"
  obtain e where e: "verify_token (ri_auth ?inp) (sv_config (demo_service m)) None (sv_auth (demo_service m)) =
     (sv_auth (demo_service m), Inl e)" by (auto simp: verify_token_def)
  have en: "auth_enabled (ai_env (ri_auth ?inp))"
    using demo_checks(4) by (simp add: demo_request_input_def demo_auth_input_def)
  show "\<exists>e. serve_admin ?inp None ListTenants (demo_service m) = (demo_service m, of_exn e) \<and>
     (\<forall>x. of_exn e \<noteq> (Answer x :: admin_response answer))"
    using unverified_caller_is_refused [OF en e, of undefined undefined ListTenants] by (intro exI [of _ e]) simp
qed

subsection \<open>Erasure\<close>

text \<open>C15: a served erasure is authorised, effective and attested. If the purge route answers then the caller
  holds the operator's token (and, with authentication enabled, a verified one), content is
  kept, the tenant is registered, its store held the body before and holds it no more, reading
  it raises, the tenant's chain grew by exactly one record of that digest with the commitment
  purged-v1 that cites the content policy, and the answer names that record.\<close>

theorem served_purge_is_authorised:
  assumes "serve_admin inp cred (RetentionPurge header r) sv = (sv', Answer res)"
    and "content_store_for (gi_env (ri_gate inp)) (pq_tenant r) = Inr (Some path)"
    and "store_ok (store_at path (gw_files (sv_world sv)))"
  shows "header \<noteq> None \<and> header = retention_admin_token (gi_env (ri_gate inp)) \<and>
    (auth_enabled (ai_env (ri_auth inp)) \<longrightarrow>
       (\<exists>client. snd (verify_token (ri_auth inp) (sv_config sv) cred (sv_auth sv)) = Inr client)) \<and>
    (\<exists>ctx ctx' rec m. service_tenant (pq_tenant r) sv = Some ctx \<and> service_tenant (pq_tenant r) sv' = Some ctx' \<and>
       store_status (purge_request_hash r) (store_at path (gw_files (sv_world sv))) = STATUS_PRESENT \<and>
       open_body (purge_request_hash r) (store_at path (gw_files (sv_world sv'))) = Inl (ContentPurged m) \<and>
       ac_records (tc_chain ctx') = ac_records (tc_chain ctx) @ [rec] \<and> content_hash rec = purge_request_hash r \<and>
       commitment rec = COMMITMENT_PURGED_V1 \<and>
       ar_policy_digest rec = content_engine_digest (gi_env (ri_gate inp)) (tc_engine ctx) \<and>
       res = Purged (purge_request_hash r) (record_hash rec) STATUS_PURGED (pq_tenant r))"
proof -
  let ?g = "ri_gate inp" and ?h = "purge_request_hash r"
  obtain s auth where a: "authenticate (ri_auth inp) (sv_config sv) cred (sv_auth sv) = (s, Inr auth)"
    and route: "with_operator ?g header (with_body (purge_request_ok r) (retention_purge ?g r (sv\<lparr>sv_auth := s\<rparr>)) (sv\<lparr>sv_auth := s\<rparr>))
      (sv\<lparr>sv_auth := s\<rparr>) = (sv', Answer res)"
    using with_auth_answer [OF assms(1) [unfolded serve_admin_def]] by auto
  from route have op: "require_retention_admin (gi_env ?g) header = Inr ()"
    and purge: "retention_purge ?g r (sv\<lparr>sv_auth := s\<rparr>) = (sv', Answer res)"
    by (auto simp: with_operator_def with_body_def bad_body_def split: sum.splits if_splits)
  from retention_purge_answer [OF purge] assms(2) obtain ctx where ctx: "service_tenant (pq_tenant r) sv = Some ctx"
    and stored: "purge_stored ?g path r ctx (sv\<lparr>sv_auth := s\<rparr>) = (sv', Answer res)" by auto
  let ?w = "sv_world sv"
  obtain s' c st out where p: "Retention.purge (gi_env ?g) (gi_t1 ?g) (gi_t2 ?g) (gi_fault ?g) ?h ''retention-admin'' (pq_reason r) None
      (content_engine_digest (gi_env ?g) (tc_engine ctx)) (store_at path (gw_files ?w), tc_chain ctx, gw_audit ?w) = ((s', c, st), out)"
    by (metis prod.exhaust)
  have sv': "service_tenant (pq_tenant r) sv' = Some (ctx\<lparr>tc_chain := c\<rparr>)" "store_at path (gw_files (sv_world sv')) = s'"
    and out: "purge_answer out (\<lambda>ah. Purged ?h ah (store_status ?h s') (pq_tenant r)) = Answer res"
    using stored p by (auto simp: purge_stored_def Let_def store_at_def)
  have auth: "auth_enabled (ai_env (ri_auth inp)) \<longrightarrow>
      (\<exists>client. snd (verify_token (ri_auth inp) (sv_config sv) cred (sv_auth sv)) = Inr client)"
    using authenticate_client [OF a] by auto
  from p assms(3) show ?thesis
  proof (cases rule: purge_cases)
    case (attested rec body)
    note sealed = seal_entry_Inr [OF chain_record_Inr [OF attested(2), THEN conjunct1]]
    have "ac_records c = ac_records (tc_chain ctx) @ [rec]" "commitment rec = COMMITMENT_PURGED_V1"
      "ar_policy_digest rec = content_engine_digest (gi_env ?g) (tc_engine ctx)"
      using sealed chain_record_Inr [OF attested(2)] by (simp_all add: purge_args_def call_args_def)
    then show ?thesis
      using attested op ctx sv' out auth
      by (auto simp: require_retention_admin_ok purge_answer_Answer status_cases open_body_def)
  qed (use out in \<open>auto simp: purge_answer_Answer\<close>)
qed

definition demo_purge_env :: environment where
  "demo_purge_env k = map_of [(''CUSTOS_CONTENT_RETENTION'', ''store''), (''CUSTOS_CONTENT_STORE_DIR'', ''d''),
     (''CUSTOS_RETENTION_ADMIN_TOKEN'', ''op''), (''AUTH_DISABLED'', ''1'')] k"

definition demo_purge_input :: "opa_server \<Rightarrow> (nat \<Rightarrow> nat \<Rightarrow> sink_world) \<Rightarrow> unit request_input" where
  "demo_purge_input post sinks = (demo_request_input post sinks)
     \<lparr>ri_gate := (demo_start_gate post sinks)\<lparr>gi_env := demo_purge_env\<rparr>, ri_auth := demo_auth_input\<lparr>ai_env := demo_purge_env\<rparr>\<rparr>"

definition demo_purge :: purge_request where
  "demo_purge = \<lparr>pq_tenant = ''default'', pq_hash = sha256_text ''hi'', pq_reason = ''erase''\<rparr>"

definition demo_kept_store :: content_store where
  "demo_kept_store = fst (put_body (replicate 32 (CHR ''x'')) 4 ''hi'' empty_store)"

definition demo_path :: string where "demo_path = store_path_for ''d'' ''default''"

definition demo_kept :: "anchor_manager \<Rightarrow> unit service" where
  "demo_kept m = set_world ((demo_start_world m)\<lparr>gw_files := [(demo_path, demo_kept_store)]\<rparr>) (demo_service m)"

lemma demo_purge_config:
  "\<not> auth_enabled demo_purge_env" "content_retention_mode demo_purge_env = Inr MODE_STORE" "MODE_STORE \<noteq> MODE_OFF"
  "store_directory demo_purge_env = Some ''d''" "retention_admin_token demo_purge_env = Some ''op''"
  "is_ascii ''op''" "\<not> bound_evidence_required demo_purge_env" "not_blank ''erase''"
  by code_simp+

lemma lower_hex: "lower (sha256_text x) = sha256_text x" "\<forall>c \<in> set (sha256_text x). c \<in> set ''0123456789abcdef''"
proof -
  have hex: "c \<in> set ''0123456789abcdef''" if "c \<in> set (sha256_text x)" for c
    using sha256_hex_chars [OF that [unfolded sha256_text_def]] by (simp add: hex_char_def)
  have "lower_char c = c" if "c \<in> set ''0123456789abcdef''" for c
    using that by (auto simp: lower_char_def Let_def)
  then show "lower (sha256_text x) = sha256_text x" using hex by (simp add: lower_def map_idI)
  show "\<forall>c \<in> set (sha256_text x). c \<in> set ''0123456789abcdef''" using hex by blast
qed

lemma demo_purge_ok: "purge_request_ok demo_purge" "purge_request_hash demo_purge = sha256_text ''hi''"
  using lower_hex(2) [of "''hi''"] demo_purge_config(8)
  by (simp_all add: purge_request_ok_def purge_request_hash_def demo_purge_def lower_hex(1) len_between_def list_all_iff)

lemma demo_purged:
  "\<exists>sv' res. serve_admin (demo_purge_input post sinks) None (RetentionPurge (Some ''op'') demo_purge) (demo_kept m) = (sv', Answer res)"
proof -
  let ?g = "ri_gate (demo_purge_input post sinks)" and ?h = "sha256_text ''hi''"
  let ?a = "purge_args ''retention-admin'' ''erase'' ''hi'' None (content_engine_digest demo_purge_env (tc_engine demo_context))"
  have env: "gi_env ?g = demo_purge_env" "gi_fault ?g = None"
    by (simp_all add: demo_purge_input_def demo_start_gate_def demo_input_def)
  have store: "content_store_for demo_purge_env ''default'' = Inr (Some demo_path)"
    using demo_purge_config(2-4) by (simp add: content_store_for_def demo_path_def)
  obtain row where kept: "demo_kept_store = \<lparr>bodies = [(?h, row)], purges = []\<rparr>" "br_body row = ''hi''"
    by (simp add: demo_kept_store_def put_body_def empty_store_def Let_def)
  have at: "store_at demo_path (gw_files (sv_world (demo_kept m))) = demo_kept_store"
    by (simp add: demo_kept_def store_at_def)
  have "\<exists>rec. seal_entry demo_purge_env demo_chain (gi_t2 ?g) ?a = Inr rec"
    using demo_purge_config(7)
    by (intro seal_entry_total) (auto simp: purge_args_def call_args_def commitment_defs record_tenant_def demo_chain_def)
  then obtain rec where rec: "seal_entry demo_purge_env demo_chain (gi_t2 ?g) ?a = Inr rec" ..
  then have chain: "chain_record demo_purge_env (gi_t2 ?g) None ?a (demo_chain, []) = ((demo_chain\<lparr>ac_records := [rec]\<rparr>, [rec]), Inr rec)"
    by (simp add: chain_record_def demo_chain_def)
  have "content_hash rec = ?h" using seal_entry_Inr [OF rec] by (simp add: purge_args_def call_args_def hash_content_def)
  then have "\<exists>s. Retention.purge demo_purge_env (gi_t1 ?g) (gi_t2 ?g) None ?h ''retention-admin'' ''erase'' None
      (content_engine_digest demo_purge_env (tc_engine demo_context)) (demo_kept_store, demo_chain, []) =
    ((s, demo_chain\<lparr>ac_records := [rec]\<rparr>, [rec]), Inr (record_hash rec))"
    using chain kept(2) unfolding kept(1) by (simp add: purge_def delete_body_def)
  moreover have "sv_world (demo_kept m) = (demo_start_world m)\<lparr>gw_files := [(demo_path, demo_kept_store)]\<rparr>"
    by (simp add: demo_kept_def)
  moreover have "service_tenant ''default'' (demo_kept m) = Some demo_context" "tc_chain demo_context = demo_chain"
    by (simp_all add: demo_kept_def demo_start_world_def tenant_get_def demo_context_def)
  moreover have "store_status ?h demo_kept_store = STATUS_PRESENT" by (simp add: kept store_status_def)
  ultimately have "\<exists>sv' res. retention_purge ?g demo_purge (demo_kept m) = (sv', Answer res)"
    using at store demo_purge_ok(2)
    by (auto simp: retention_purge_def known_tenant_def env purge_stored_def purge_answer_def status_defs Let_def
        demo_purge_def demo_start_world_def)
  then show ?thesis
    using demo_purge_config(1) demo_purge_ok(1) env require_retention_admin_ok [of demo_purge_env "Some ''op''"] demo_purge_config(2,3,5,6)
    by (auto simp: serve_admin_def with_auth_def authenticate_def demo_purge_input_def with_operator_def with_body_def handle_full_def)
qed

theorem served_purge_is_authorised_witness:
  "\<forall>post sinks m. \<exists>sv' ctx' rec. fst (serve_admin (demo_purge_input post sinks) None (RetentionPurge (Some ''op'') demo_purge) (demo_kept m)) = sv' \<and>
     service_tenant ''default'' sv' = Some ctx' \<and> ac_records (tc_chain ctx') = [rec] \<and> commitment rec = COMMITMENT_PURGED_V1"
proof (intro allI)
  fix post sinks m
  obtain sv' res where run: "serve_admin (demo_purge_input post sinks) None (RetentionPurge (Some ''op'') demo_purge) (demo_kept m) =
    (sv', Answer res)" using demo_purged by blast
  have store: "content_store_for (gi_env (ri_gate (demo_purge_input post sinks))) (pq_tenant demo_purge) = Inr (Some demo_path)"
    using demo_purge_config(2-4)
    by (simp add: content_store_for_def demo_path_def demo_purge_input_def demo_start_gate_def demo_purge_def)
  have "store_ok demo_kept_store"
    using put_body_ok [of "replicate 32 (CHR ''x'')" 4 "''hi''" empty_store]
    by (simp add: demo_kept_store_def prod_eq_iff store_ok_def empty_store_def SALT_BYTES_def)
  then have ok: "store_ok (store_at demo_path (gw_files (sv_world (demo_kept m))))" by (simp add: demo_kept_def store_at_def)
  have "service_tenant ''default'' (demo_kept m) = Some demo_context"
    by (simp add: demo_kept_def demo_start_world_def tenant_get_def)
  with served_purge_is_authorised [OF run store ok] run
  show "\<exists>sv' ctx' rec. fst (serve_admin (demo_purge_input post sinks) None (RetentionPurge (Some ''op'') demo_purge) (demo_kept m)) = sv' \<and>
     service_tenant ''default'' sv' = Some ctx' \<and> ac_records (tc_chain ctx') = [rec] \<and> commitment rec = COMMITMENT_PURGED_V1"
    by (auto simp: demo_purge_def demo_context_def demo_chain_def)
qed

subsection \<open>What the routes get wrong\<close>

text \<open>
  Neither the purge nor the replay passes a trace id, and a process that requires bound evidence
  refuses a record without one. There a purge deletes the body and then fails, so the erasure
  is never attested, and a replay always fails.
\<close>

lemma unbound_refused:
  assumes "bound_evidence_required env" "ra_trace a = None" "ra_tenant a = None" "ra_commitment a \<in> set COMMITMENT_FORMS"
  shows "\<exists>m. chain_record env now fault a (c, st) = ((c, st), Inl (ValueError m))"
  using assms by (simp add: chain_record_def seal_entry_def record_tenant_def missing_evidence_def Let_def)

lemma unbound_calls:
  "ra_trace (purge_args c why b None dg) = None" "ra_tenant (purge_args c why b None dg) = None"
  "ra_commitment (purge_args c why b None dg) \<in> set COMMITMENT_FORMS"
  "ra_trace (replay_args r) = None" "ra_tenant (replay_args r) = None" "ra_commitment (replay_args r) \<in> set COMMITMENT_FORMS"
  by (simp_all add: purge_args_def replay_args_def call_args_def commitment_defs)

lemma production_purge_unattested:
  assumes "bound_evidence_required (gi_env inp)" and "service_tenant (pq_tenant r) sv = Some ctx"
    and "content_store_for (gi_env inp) (pq_tenant r) = Inr (Some path)"
    and "store_status (purge_request_hash r) (store_at path (gw_files (sv_world sv))) = STATUS_PRESENT"
    and "map_of (purges (store_at path (gw_files (sv_world sv)))) (purge_request_hash r) = None"
  shows "\<exists>sv' m p. retention_purge inp r sv = (sv', Failed (ValueError m)) \<and>
    map_of (bodies (store_at path (gw_files (sv_world sv')))) (purge_request_hash r) = None \<and>
    map_of (purges (store_at path (gw_files (sv_world sv')))) (purge_request_hash r) = Some p \<and> pr_attestation p = None"
proof -
  let ?h = "purge_request_hash r" and ?s = "store_at path (gw_files (sv_world sv))"
  obtain row where row: "map_of (bodies ?s) ?h = Some row" using assms(4) by (auto simp: status_cases)
  let ?a = "purge_args ''retention-admin'' (pq_reason r) (br_body row) None (content_engine_digest (gi_env inp) (tc_engine ctx))"
  obtain m where m: "chain_record (gi_env inp) (gi_t2 inp) (gi_fault inp) ?a (tc_chain ctx, gw_audit (sv_world sv)) =
     ((tc_chain ctx, gw_audit (sv_world sv)), Inl (ValueError m))"
    using unbound_refused [OF assms(1) unbound_calls(1-3)] by blast
  have fresh: "map_of (purges ?s @ [(?h, p)]) ?h = Some p" for p using assms(5) by (simp add: map_add_def)
  show ?thesis
    using assms row m fresh
    by (auto simp: retention_purge_def known_tenant_def purge_stored_def purge_def delete_body_def purge_answer_def
        store_at_def status_defs Let_def)
qed

lemma production_replay_fails:
  assumes "bound_evidence_required (gi_env inp)"
  shows "snd (replay inp r sv) \<noteq> Answer res"
proof
  assume "snd (replay inp r sv) = Answer res"
  then obtain ctx rec sv' where "chain_call inp (rp_tenant r) ctx (replay_args r) sv = (sv', Inr rec)"
    by (auto simp: replay_def known_tenant_def unknown_tenant_answer_def split: option.splits sum.splits exn.splits prod.splits)
  moreover obtain m where "chain_record (gi_env inp) (gi_t2 inp) (gi_fault inp) (replay_args r) (tc_chain ctx, gw_audit (sv_world sv)) =
     ((tc_chain ctx, gw_audit (sv_world sv)), Inl (ValueError m))"
    using unbound_refused [OF assms unbound_calls(4-6)] by blast
  ultimately show False by (simp add: chain_call_def Let_def)
qed

text \<open>
  A pattern is not compiled when a rule is added: after a malformed one every evaluation of the
  tenant that no rule denied before raises, on this route as on \<open>/v1/evaluate\<close>.
\<close>

lemma eval_rules_snoc_raises:
  "eval_rules rs content a = Inr d \<Longrightarrow> res_action d \<noteq> DENY \<Longrightarrow> raised (rule_hit r content) \<Longrightarrow>
     raised (eval_rules (rs @ [r]) content a)"
proof (induction rs arbitrary: a)
  case Nil
  then show ?case by (auto simp: raised_def split: sum.splits)
next
  case (Cons x rs)
  then obtain h where "rule_hit x content = Inr h" by (auto simp: result_simps)
  with Cons show ?case by (auto simp: deny_result_def split: if_splits)
qed

lemma malformed_rule_breaks_tenant:
  assumes "service_tenant t sv = Some ctx" "tc_engine ctx = RegexE e" "evaluate e content = Inr d" "res_action d \<noteq> DENY"
    and "raised (re_compile (ru_pattern r))" and "add_tenant_rule t r sv = (sv', Answer x)"
  shows "\<exists>ctx' err. service_tenant t sv' = Some ctx' \<and> engine_evaluate post (tc_engine ctx') content = Inl err"
proof -
  obtain rule where rule: "rule_of r = Inr rule" using assms(6) by (auto simp: add_tenant_rule_def split: sum.splits)
  have pat: "pattern rule = ru_pattern r" using rule by (auto simp: rule_of_def result_simps)
  have get: "tenant_get t (gw_tm (sv_world sv)) = Some ctx" using assms(1) by (simp add: service_tenant_def get_strict_get)
  have after: "service_tenant t sv' = Some (ctx\<lparr>tc_engine := RegexE (add_rule rule e)\<rparr>)"
    using assms(2,6) rule get
    by (auto simp: add_tenant_rule_def add_policy_rule_def get_or_default_def default_key_def tenant_get_def Let_def
        split: prod.splits sum.splits)
  have "raised (rule_hit rule content)" using assms(5) pat rule_hit_raises_iff by simp
  then have "raised (evaluate (add_rule rule e) content)"
    using eval_rules_snoc_raises assms(3,4) by (simp add: evaluate_def add_rule_def)
  then show ?thesis using after by (auto simp: raised_def split: sum.splits)
qed

text \<open>
  Deleting a tenant leaves its tool allowlist in the gate: a tenant registered later under the
  same id starts with the tools of the deleted one.
\<close>

lemma deleted_tenant_keeps_tools:
  "list_tools t (gw_gate (sv_world (fst (register_tenant inp r (fst (delete_tenant t sv)))))) = list_tools t (gw_gate (sv_world sv))"
  by (simp add: register_tenant_def delete_tenant_def Let_def split: prod.splits sum.splits bool.splits)

end
