(* ===== verification/Service_State.thy ===== *)
theory Service_State
  imports Service_Admin
begin

text \<open>
  What holds of the whole service whatever requests it has served: the contexts of the tenants
  are well formed, the default tenant is there, and every chain verifies and is held by the
  store it is written to. The state of a service is what its tenants and the audit store are
  to each other, so the invariant is stated on the two and carried through every route.
\<close>

subsection \<open>The invariant\<close>

definition rows_linked :: "audit_store \<Rightarrow> bool" where
  "rows_linked st \<longleftrightarrow> (\<forall>u. well_linked GENESIS_HASH (scoped_rows u st))"

definition chain_wf :: "audit_store \<Rightarrow> string \<Rightarrow> audit_chain \<Rightarrow> bool" where
  "chain_wf st t c \<longleftrightarrow> ac_tenant c = Some t \<and> well_linked GENESIS_HASH (ac_records c) \<and>
     (ac_backend c = InMemoryBackend \<or> chain_in_store c st)"

definition context_wf :: "audit_store \<Rightarrow> string \<Rightarrow> tenant_context \<Rightarrow> bool" where
  "context_wf st t ctx \<longleftrightarrow> tc_id ctx = t \<and> limiter_ok (tc_limiter ctx) \<and> chain_wf st t (tc_chain ctx)"

definition tenants_wf :: "audit_store \<Rightarrow> tenant_manager \<Rightarrow> bool" where
  "tenants_wf st tm \<longleftrightarrow> rows_linked st \<and> tenant_get ''default'' tm \<noteq> None \<and>
     (\<forall>t ctx. tenant_get t tm = Some ctx \<longrightarrow> context_wf st t ctx)"

definition service_wf :: "'k service \<Rightarrow> bool" where
  "service_wf sv = tenants_wf (gw_audit (sv_world sv)) (gw_tm (sv_world sv))"

text \<open>What every operation does to a chain and its store: nothing, or one call of \<open>record\<close>.\<close>

definition chain_moves :: "audit_chain \<times> audit_store \<Rightarrow> audit_chain \<times> audit_store \<Rightarrow> bool" where
  "chain_moves x y \<longleftrightarrow> y = x \<or> (\<exists>env now fault a res. chain_record env now fault a x = (y, res))"

subsection \<open>One chain\<close>

lemma chain_record_wf:
  assumes "chain_record env now fault a (c, st) = ((c', st'), res)" "chain_wf st t c" "rows_linked st"
  shows "rows_linked st' \<and> chain_wf st' t c' \<and> (\<forall>u d. chain_wf st u d \<longrightarrow> chain_wf st' u d)"
proof -
  have linked: "well_linked GENESIS_HASH (ac_records c')"
    using chain_record_keeps_linked [OF assms(1)] assms(2) by (simp add: chain_wf_def)
  have own: "ac_tenant c' = ac_tenant c" "ac_backend c' = ac_backend c"
    using chain_record_Inl [of env now fault a c st c' st'] chain_record_Inr [of env now fault a c st c' st'] assms(1)
    by (cases res; simp)+
  show ?thesis
  proof (cases "ac_backend c = InMemoryBackend")
    case True
    have "st' = st"
      using chain_record_Inl [of env now fault a c st c' st'] chain_record_Inr [of env now fault a c st c' st'] assms(1) True
      by (cases res) auto
    then show ?thesis using assms(2,3) linked own True by (auto simp: chain_wf_def)
  next
    case False
    then have "chain_in_store c st" using assms(2) by (auto simp: chain_wf_def)
    note store = chain_record_store [OF this assms(3) [unfolded rows_linked_def] assms(1)]
    have "chain_in_store d st'" if "chain_in_store d st" for d
      using that store by (auto simp: chain_in_store_def intro: prefix_order.trans)
    with store linked own assms(2) show ?thesis by (auto simp: chain_wf_def rows_linked_def)
  qed
qed

lemma chain_moves_wf:
  assumes "chain_moves (c, st) (c', st')" "chain_wf st t c" "rows_linked st"
  shows "rows_linked st' \<and> chain_wf st' t c' \<and> (\<forall>u d. chain_wf st u d \<longrightarrow> chain_wf st' u d)"
  using assms chain_record_wf by (auto simp: chain_moves_def)

lemma new_chain_wf:
  assumes "new_chain env None None (Some t) None st = Inr c" "rows_linked st"
  shows "chain_wf st t c"
  using assms
  by (auto simp: new_chain_def build_backend_def chain_wf_def chain_in_store_def rows_linked_def result_simps Let_def
      split: if_splits)

lemma record_decision_moves:
  "record_decision env salt t1 t2 fault ctx a (files, c, st) = ((files', c', st'), res) \<Longrightarrow> chain_moves (c, st) (c', st')"
  using record_decision_appends by (fastforce simp: chain_moves_def)

lemma purge_moves:
  "purge env t1 t2 fault h client why trace dg (s, c, st) = ((s', c', st'), res) \<Longrightarrow> chain_moves (c, st) (c', st')"
  by (fastforce simp: purge_def chain_moves_def split: prod.splits sum.splits if_splits)

lemma establish_moves:
  "establish loads env now fault fresh t dg trace (c, st) = ((c', st'), res) \<Longrightarrow> chain_moves (c, st) (c', st')"
  by (fastforce simp: establish_def record_binding_def chain_moves_def Let_def split: prod.splits sum.splits option.splits)

subsection \<open>One tenant\<close>

lemma tenants_wfD: "tenants_wf st tm \<Longrightarrow> tenant_get t tm = Some ctx \<Longrightarrow> context_wf st t ctx"
  by (simp add: tenants_wf_def)

lemma context_wf_simps [simp]:
  "context_wf st t (ctx\<lparr>tc_engine := e\<rparr>) = context_wf st t ctx"
  "context_wf st t (ctx\<lparr>tc_limiter := rl\<rparr>) = (tc_id ctx = t \<and> limiter_ok rl \<and> chain_wf st t (tc_chain ctx))"
  by (simp_all add: context_wf_def)

lemma tenants_wf_put: "tenants_wf st tm \<Longrightarrow> context_wf st t ctx \<Longrightarrow> tenants_wf st (put_context t ctx tm)"
  by (simp add: tenants_wf_def)

lemma tenants_wf_chain:
  assumes "chain_moves (tc_chain ctx, st) (c', st')" "context_wf st t ctx" "tenants_wf st tm"
  shows "tenants_wf st' (put_context t (ctx\<lparr>tc_chain := c'\<rparr>) tm)"
  using chain_moves_wf [OF assms(1)] assms(2,3) by (auto simp: context_wf_def tenants_wf_def)

subsection \<open>The tenant manager\<close>

lemma register_wf:
  assumes "tenant_register env st now t quota tm = (tm', res)" "rows_linked st"
    and "\<forall>u ctx. tenant_get u tm = Some ctx \<longrightarrow> context_wf st u ctx"
  shows "(\<forall>u ctx. tenant_get u tm' = Some ctx \<longrightarrow> context_wf st u ctx) \<and>
    (\<forall>u. tenant_get u tm \<noteq> None \<longrightarrow> tenant_get u tm' \<noteq> None) \<and> (\<forall>ctx. res = Inr ctx \<longrightarrow> tenant_get t tm' \<noteq> None)"
  using assms new_chain_wf [of env t st]
  by (auto simp: tenant_register_def tenant_get_def context_wf_def Let_def split: sum.splits if_splits)

lemma restore_wf:
  assumes "restore_tenants env st now ts tm = Inr tm'" "tenants_wf st tm"
  shows "tenants_wf st tm'"
  using assms
proof (induction ts arbitrary: tm)
  case (Cons t ts)
  show ?case
  proof (cases "tenant_get t tm \<noteq> None")
    case False
    then obtain tm1 ctx where reg: "tenant_register env st now t DEFAULT_QUOTA tm = (tm1, Inr ctx)"
      and rest: "restore_tenants env st now ts tm1 = Inr tm'"
      using Cons.prems(1) by (auto split: prod.splits sum.splits)
    from register_wf [OF reg] Cons.prems(2) have "tenants_wf st tm1" by (simp add: tenants_wf_def)
    from Cons.IH [OF rest this] show ?thesis .
  qed (use Cons in auto)
qed simp

lemma new_manager_wf:
  assumes "new_tenant_manager env st now b = Inr tm" "rows_linked st"
  shows "tenants_wf st tm"
proof -
  let ?none = "\<lparr>tm_tenants = [], tm_custom = [], tm_store = b\<rparr>"
  obtain tm0 ctx where reg: "tenant_register env st now ''default'' DEFAULT_QUOTA ?none = (tm0, Inr ctx)"
    and rest: "restore_tenants env st now (store_list (tm_store tm0)) tm0 = Inr tm"
    using assms(1) by (auto simp: new_tenant_manager_def split: prod.splits sum.splits)
  have "tenants_wf st tm0" using register_wf [OF reg assms(2)] assms(2) by (simp add: tenants_wf_def tenant_get_def)
  then show ?thesis by (rule restore_wf [OF rest])
qed

lemma add_rule_wf: "tenants_wf st tm \<Longrightarrow> tenants_wf st (fst (add_policy_rule t r tm))"
  by (auto simp: add_policy_rule_def get_or_default_def tenants_wf_def tenant_get_def Let_def split: option.splits prod.splits sum.splits)

lemma unregister_wf: "tenants_wf st tm \<Longrightarrow> tenants_wf st (fst (tenant_unregister t tm))"
  by (simp add: tenant_unregister_def tenants_wf_def tenant_get_def)

subsection \<open>The evaluation routes\<close>

lemma service_wf_simps [simp]:
  "service_wf (bump f sv) = service_wf sv" "service_wf (sv\<lparr>sv_auth := s\<rparr>) = service_wf sv"
  "service_wf (set_world w sv) = tenants_wf (gw_audit w) (gw_tm w)"
  "service_wf (on_tm g sv) = tenants_wf (gw_audit (sv_world sv)) (g (gw_tm (sv_world sv)))"
  by (simp_all add: service_wf_def)

lemma service_wf_tenant:
  "service_wf sv \<Longrightarrow> service_tenant t sv = Some ctx \<Longrightarrow> context_wf (gw_audit (sv_world sv)) t ctx"
  by (simp add: service_wf_def service_tenant_def get_strict_get tenants_wfD)

lemma put_ctx_wf:
  "service_wf sv \<Longrightarrow> context_wf (gw_audit (sv_world sv)) t ctx \<Longrightarrow> service_wf (put_ctx t ctx sv)"
  by (simp add: put_ctx_def tenants_wf_put) (simp add: service_wf_def tenants_wf_put)

lemma sv_world_put_ctx [simp]: "gw_audit (sv_world (put_ctx t ctx sv)) = gw_audit (sv_world sv)"
  by (simp add: put_ctx_def)

lemma record_for_wf:
  assumes "service_wf sv" "context_wf (gw_audit (sv_world sv)) t ctx"
  shows "service_wf (fst (record_for inp t ctx a sv))"
proof -
  let ?w = "sv_world sv"
  obtain files c st out where rec: "record_decision (gi_env inp) (gi_salt inp) (gi_t1 inp) (gi_t2 inp) (gi_fault inp)
      (Some (tc_id ctx)) a (gw_files ?w, tc_chain ctx, gw_audit ?w) = ((files, c, st), out)"
    by (metis prod.exhaust)
  have "tenants_wf st (put_context t (ctx\<lparr>tc_chain := c\<rparr>) (gw_tm ?w))"
    by (rule tenants_wf_chain [OF record_decision_moves [OF rec] assms(2)]) (use assms(1) in \<open>simp add: service_wf_def\<close>)
  with rec show ?thesis by (simp add: record_for_def Let_def)
qed

lemma fst_case_answer:
  "fst (case x of (s, Inl e) \<Rightarrow> (s, f e) | (s, Inr r) \<Rightarrow> (s, g r)) = fst x"
  by (simp split: prod.split sum.split)

lemma throttle_wf:
  assumes "service_wf sv" "context_wf (gw_audit (sv_world sv)) (ev_tenant r) ctx"
  shows "service_wf (fst (throttle inp r msg ctx sv))"
  using record_for_wf [of "bump count_limited sv" "ev_tenant r" ctx "ri_gate inp"] assms
  by (simp add: throttle_def fst_case_answer)

lemma decided_wf:
  assumes "service_wf sv" "context_wf (gw_audit (sv_world sv)) (ev_tenant r) ctx"
  shows "service_wf (fst (decided inp r d ctx sv))"
  using record_for_wf [of "bump (count_decision d) sv" "ev_tenant r" ctx "ri_gate inp"] assms
  by (simp add: decided_def fst_case_answer)

lemma ensure_quota_ok: "ensure_quota now key ctx = Inr rl \<Longrightarrow> limiter_ok (tc_limiter ctx) \<Longrightarrow> limiter_ok rl"
  by (auto simp: ensure_quota_def result_simps split: if_splits)

lemma evaluate_tenant_wf:
  assumes "service_wf sv" "context_wf (gw_audit (sv_world sv)) (ev_tenant r) ctx"
  shows "service_wf (fst (evaluate_tenant inp r ctx sv))"
proof (cases "ensure_quota (ri_now inp) (rate_key r) ctx")
  case (Inl e)
  with assms show ?thesis by (simp add: evaluate_tenant_def)
next
  case (Inr rl)
  obtain rl' out where check: "check_and_consume (rate_key r) (ev_tokens r) (ri_now inp) rl = (rl', out)" by (metis prod.exhaust)
  have "limiter_ok rl" using ensure_quota_ok [OF Inr] assms(2) by (simp add: context_wf_def)
  then have "limiter_ok rl'" using limiter_ok_ops(3) [of rl "rate_key r" "ev_tokens r" "ri_now inp"] check by simp
  then have ctx: "context_wf (gw_audit (sv_world sv)) (ev_tenant r) (ctx\<lparr>tc_limiter := rl'\<rparr>)"
    using assms(2) by (simp add: context_wf_def)
  note sv1 = put_ctx_wf [OF assms(1) this]
  let ?ctx = "ctx\<lparr>tc_limiter := rl'\<rparr>" and ?sv = "put_ctx (ev_tenant r) (ctx\<lparr>tc_limiter := rl'\<rparr>) sv"
  have "service_wf (fst (throttle inp r msg ?ctx ?sv))" "service_wf (fst (decided inp r d ?ctx ?sv))" for msg d
    using throttle_wf [OF sv1, of r ?ctx inp msg] decided_wf [OF sv1, of r ?ctx inp d] ctx by simp_all
  then show ?thesis
    using Inr check sv1
    by (auto simp: evaluate_tenant_def Let_def split: sum.splits prod.splits bool.splits)
qed

lemma handle_full_wf: "service_wf (fst (handle_full x)) = service_wf (fst x)"
  by (simp add: handle_full_def split: prod.splits answer.splits exn.splits)

lemma with_auth_wf:
  assumes "service_wf sv" "\<And>auth s. service_wf (fst (route auth (sv\<lparr>sv_auth := s\<rparr>)))"
  shows "service_wf (fst (with_auth inp cred route sv))"
  using assms by (simp add: with_auth_def handle_full_wf split: prod.split sum.split)

lemma serve_evaluate_wf: "service_wf sv \<Longrightarrow> service_wf (fst (serve_evaluate inp cred r sv))"
  unfolding serve_evaluate_def
  by (rule with_auth_wf)
    (auto simp: evaluate_route_def Let_def split: option.splits intro!: evaluate_tenant_wf dest: service_wf_tenant)

lemma conclude_wf:
  assumes "conclude inp t ctx client trace blob cited d w = (w', res)"
    and "tenants_wf (gw_audit w) (gw_tm w)" "context_wf (gw_audit w) t ctx"
  shows "tenants_wf (gw_audit w') (gw_tm w')"
proof -
  obtain files c st out where rec: "record_decision (gi_env inp) (gi_salt inp) (gi_t1 inp) (gi_t2 inp) (gi_fault inp)
      (Some (tc_id ctx)) (decision_args t client trace d blob cited) (gw_files w, tc_chain ctx, gw_audit w) = ((files, c, st), out)"
    by (metis prod.exhaust)
  have "tenants_wf st (put_context t (ctx\<lparr>tc_chain := c\<rparr>) (gw_tm w))"
    by (rule tenants_wf_chain [OF record_decision_moves [OF rec] assms(3,2)])
  with rec assms(1) show ?thesis by (auto simp: conclude_def gate_record_def split: if_splits)
qed

lemma evaluate_action_wf:
  assumes "evaluate_action inp t a client trace w = (w', res)" "tenants_wf (gw_audit w) (gw_tm w)"
  shows "tenants_wf (gw_audit w') (gw_tm w')"
  using assms(1)
proof (cases rule: gate_cases)
  case (stopped ctx cited e g exn)
  then show ?thesis using assms(2) by (simp add: tenants_wf_put tenants_wfD)
next
  case (decided ctx cited e g d out)
  have "context_wf (gw_audit w) t (ctx\<lparr>tc_engine := e\<rparr>)" using decided(1) assms(2) by (simp add: tenants_wfD)
  then show ?thesis by (intro conclude_wf [OF decided(4)]) (simp_all add: tenants_wf_put assms(2))
qed (use assms(2) in simp)

lemma serve_action_wf:
  assumes "service_wf sv"
  shows "service_wf (fst (serve_action inp cred r sv))"
  unfolding serve_action_def
proof (rule with_auth_wf [OF assms])
  fix auth s
  let ?a = "\<lparr>tool = ab_tool r, command = ab_command r, args = ab_args r\<rparr>"
  obtain w res where ev: "evaluate_action (ri_gate inp) (ab_tenant r) ?a (ab_client r) None (sv_world sv) = (w, res)"
    by (metis prod.exhaust)
  have "tenants_wf (gw_audit w) (gw_tm w)" using evaluate_action_wf [OF ev] assms by (simp add: service_wf_def)
  then show "service_wf (fst (if \<not> action_body_ok r then (sv\<lparr>sv_auth := s\<rparr>, bad_body) else action_route inp auth r (sv\<lparr>sv_auth := s\<rparr>)))"
    using assms ev by (simp add: action_route_def wrong_client_def split: sum.split)
qed

subsection \<open>The administrative routes\<close>

lemma known_tenant_wf:
  assumes "service_wf sv" "\<And>ctx. context_wf (gw_audit (sv_world sv)) t ctx \<Longrightarrow> service_wf (fst (f ctx))"
  shows "service_wf (fst (known_tenant t sv f))"
  using assms service_wf_tenant [OF assms(1)] by (simp add: known_tenant_def split: option.split)

lemma purge_stored_wf:
  assumes "service_wf sv" "context_wf (gw_audit (sv_world sv)) (pq_tenant r) ctx"
  shows "service_wf (fst (purge_stored inp path r ctx sv))"
proof -
  let ?w = "sv_world sv"
  obtain s c st out where p: "purge (gi_env inp) (gi_t1 inp) (gi_t2 inp) (gi_fault inp) (purge_request_hash r) ''retention-admin''
      (pq_reason r) None (content_engine_digest (gi_env inp) (tc_engine ctx))
      (store_at path (gw_files ?w), tc_chain ctx, gw_audit ?w) = ((s, c, st), out)"
    by (metis prod.exhaust)
  have "tenants_wf st (put_context (pq_tenant r) (ctx\<lparr>tc_chain := c\<rparr>) (gw_tm ?w))"
    by (rule tenants_wf_chain [OF purge_moves [OF p] assms(2)]) (use assms(1) in \<open>simp add: service_wf_def\<close>)
  with p show ?thesis by (simp add: purge_stored_def Let_def)
qed

lemma chain_call_wf:
  assumes "service_wf sv" "context_wf (gw_audit (sv_world sv)) t ctx"
  shows "service_wf (fst (chain_call inp t ctx a sv))"
proof -
  let ?w = "sv_world sv"
  obtain c st out where p: "chain_record (gi_env inp) (gi_t2 inp) (gi_fault inp) a (tc_chain ctx, gw_audit ?w) = ((c, st), out)"
    by (metis prod.exhaust)
  have "chain_moves (tc_chain ctx, gw_audit ?w) (c, st)" using p by (auto simp: chain_moves_def)
  then have "tenants_wf st (put_context t (ctx\<lparr>tc_chain := c\<rparr>) (gw_tm ?w))"
    by (rule tenants_wf_chain [OF _ assms(2)]) (use assms(1) in \<open>simp add: service_wf_def\<close>)
  with p show ?thesis by (simp add: chain_call_def Let_def)
qed

lemma retention_purge_wf: "service_wf sv \<Longrightarrow> service_wf (fst (retention_purge inp r sv))"
  unfolding retention_purge_def
  by (rule known_tenant_wf) (auto simp: purge_stored_wf Let_def split: sum.split option.split)

lemma replay_wf: "service_wf sv \<Longrightarrow> service_wf (fst (replay inp r sv))"
  unfolding replay_def
  by (rule known_tenant_wf) (auto simp: fst_case_answer chain_call_wf split: sum.split exn.split)

lemma reading_wf:
  "service_wf sv \<Longrightarrow> service_wf (fst (get_audit_log client t sv))" "service_wf sv \<Longrightarrow> service_wf (fst (verify_audit_chain t sv))"
  "service_wf sv \<Longrightarrow> service_wf (fst (get_snapshot now t start stop sv))" "service_wf sv \<Longrightarrow> service_wf (fst (check_snapshot d sv))"
  "service_wf sv \<Longrightarrow> service_wf (fst (retention_status inp t sv))" "service_wf sv \<Longrightarrow> service_wf (fst (list_tenant_rules t sv))"
  by (simp_all add: get_audit_log_def verify_audit_chain_def get_snapshot_def retention_status_def known_tenant_def
      check_snapshot_def list_tenant_rules_def Let_def split: option.split prod.split)

lemma add_tenant_rule_wf: "service_wf sv \<Longrightarrow> service_wf (fst (add_tenant_rule t r sv))"
  using add_rule_wf [of "gw_audit (sv_world sv)" "gw_tm (sv_world sv)" t]
  by (auto simp: add_tenant_rule_def service_wf_def split: sum.split prod.split) (metis fst_conv)+

lemma register_tenant_wf: "service_wf sv \<Longrightarrow> service_wf (fst (register_tenant inp r sv))"
  using register_wf [of "gi_env (ri_gate inp)" "gw_audit (sv_world sv)" "ri_now inp" "tr_tenant r" "request_quota r" "gw_tm (sv_world sv)"]
  by (auto simp: register_tenant_def service_wf_def tenants_wf_def Let_def split: sum.split prod.split)

lemma delete_tenant_wf: "service_wf sv \<Longrightarrow> service_wf (fst (delete_tenant t sv))"
  using unregister_wf [of "gw_audit (sv_world sv)" "gw_tm (sv_world sv)" t]
  by (auto simp: delete_tenant_def service_wf_def split: prod.split bool.split)

lemmas admin_wf = retention_purge_wf replay_wf reading_wf add_tenant_rule_wf register_tenant_wf delete_tenant_wf

lemma admin_route_wf: "service_wf sv \<Longrightarrow> service_wf (fst (admin_route inp req sv))"
  by (cases req) (simp_all add: admin_wf with_operator_def with_body_def split: sum.split)

lemma serve_admin_wf: "service_wf sv \<Longrightarrow> service_wf (fst (serve_admin inp cred req sv))"
  unfolding serve_admin_def by (rule with_auth_wf) (simp_all add: admin_route_wf)

subsection \<open>The life of a service\<close>

datatype 'k request =
    Served "'k call"
  | Admin "'k request_input" "string option" admin_request

fun run_request :: "'k request \<Rightarrow> 'k service \<Rightarrow> 'k service" where
  "run_request (Served c) sv = run_call c sv"
| "run_request (Admin inp cred req) sv = fst (serve_admin inp cred req sv)"

lemma run_call_wf: "service_wf sv \<Longrightarrow> service_wf (run_call c sv)"
  by (cases c) (simp_all add: serve_evaluate_wf serve_action_wf)

lemma run_requests_wf: "service_wf sv \<Longrightarrow> service_wf (fold run_request rs sv)"
proof (induction rs arbitrary: sv)
  case (Cons r rs)
  then have "service_wf (run_request r sv)" by (cases r) (simp_all add: run_call_wf serve_admin_wf)
  with Cons.IH show ?case by simp
qed simp

lemma new_service_wf:
  assumes "new_service env ast now rules files custody on = Inr sv" "rows_linked ast"
  shows "service_wf sv"
  using assms new_manager_wf [of env ast now rules] by (auto simp: new_service_def service_wf_def result_simps)

lemma startup_binding_wf:
  assumes "startup_binding loads inp fresh w = (w', res)" "tenants_wf (gw_audit w) (gw_tm w)"
  shows "tenants_wf (gw_audit w') (gw_tm w')"
proof (cases "tenant_get ''default'' (gw_tm w)")
  case None
  with assms show ?thesis by (simp add: startup_binding_def)
next
  case (Some ctx)
  obtain dg e g where cite: "cite_policy (gi_env inp) ''default'' (tc_engine ctx) (gw_gate w) = (dg, e, g)" by (metis prod.exhaust)
  obtain c st out where est: "establish loads (gi_env inp) (gi_t2 inp) (gi_fault inp) fresh ''default'' dg None
      (tc_chain ctx, gw_audit w) = ((c, st), out)" by (metis prod.exhaust)
  let ?ctx = "ctx\<lparr>tc_engine := e\<rparr>"
  have ctx: "context_wf (gw_audit w) ''default'' ?ctx" using tenants_wfD [OF assms(2) Some] by simp
  have "tenants_wf st (put_context ''default'' (?ctx\<lparr>tc_chain := c\<rparr>) (put_context ''default'' ?ctx (gw_tm w)))"
    using establish_moves [OF est] by (intro tenants_wf_chain [OF _ ctx] tenants_wf_put [OF assms(2) ctx]) simp
  with assms(1) Some cite est show ?thesis by (auto simp: startup_binding_def cited_policy_digest_def)
qed

lemma lifespan_wf:
  assumes "lifespan loads is_dir inp sv = (sv', res)" "service_wf sv"
  shows "service_wf sv'"
proof -
  obtain w out where b: "startup_binding loads (ri_gate inp) (ri_trace inp) (sv_world sv) = (w, out)" by (metis prod.exhaust)
  have "tenants_wf (gw_audit w) (gw_tm w)" using startup_binding_wf [OF b] assms(2) by (simp add: service_wf_def)
  with assms b show ?thesis by (auto simp: lifespan_def service_wf_def Let_def split: sum.splits)
qed

lemma writers_rows_linked: "writers_reachable (ps, ast) \<Longrightarrow> rows_linked ast"
  using writers_reachable_inv by (auto simp: writers_inv_def rows_linked_def)

lemma lived_wf:
  assumes "writers_reachable (ps, ast)" "new_service env ast now rules files custody on = Inr sv0"
    and "lifespan loads is_dir inp sv0 = (sv, out)"
  shows "service_wf (fold run_request rs sv)"
  by (rule run_requests_wf, rule lifespan_wf [OF assms(3)], rule new_service_wf [OF assms(2) writers_rows_linked [OF assms(1)]])

lemma try_map_returns: "\<forall>x \<in> set xs. \<not> raised (f x) \<Longrightarrow> \<not> raised (try_map f xs)"
  by (induction xs) (auto simp: raised_def split: sum.splits)

text \<open>In a well-formed limiter nothing raises: neither reading the quotas nor consuming from one.\<close>

lemma quotas_readable:
  assumes "limiter_ok rl"
  shows "\<not> raised (get_all_quotas rl)"
proof -
  have "\<not> raised (quota_view rl (c, q))" if "(c, q) \<in> set (rl_quotas rl)" for c q
  proof -
    have "map_of (rl_quotas rl) c \<noteq> None" using that weak_map_of_SomeI [of c q "rl_quotas rl"] by auto
    then show ?thesis using limiter_ok_known [OF assms] by (auto simp: quota_view_def split: option.splits)
  qed
  then show ?thesis unfolding get_all_quotas_def by (intro try_map_returns) auto
qed

lemma undecided_by_engine:
  assumes "limiter_ok (tc_limiter ctx)" "undecided inp r ctx"
  shows "limiter_accepts (ri_now inp) r ctx \<and> raised (engine_evaluate (gi_post (ri_gate inp)) (tc_engine ctx) (ev_content r))"
proof -
  obtain rl where rl: "ensure_quota (ri_now inp) (rate_key r) ctx = Inr rl"
    using quotas_readable [OF assms(1)] by (auto simp: ensure_quota_def raised_def result_simps split: sum.splits)
  obtain ok m where "snd (check_and_consume (rate_key r) (ev_tokens r) (ri_now inp) rl) = Inr (ok, m)"
    using check_no_error [OF ensure_quota_ok [OF rl assms(1)]] by blast
  with rl assms(2) show ?thesis by (simp add: undecided_def limiter_accepts_def)
qed

subsection \<open>Properties\<close>

text \<open>C1: every chain the service keeps verifies, always. Start the process on a store that any earlier
  processes of this program left, with any environment, and let it serve any requests on any
  route in any order, with any faults of the store: every tenant's chain verifies and is
  scoped to that tenant, and with a durable backend the store holds all of its records in
  their order.\<close>

theorem served_chains_verify:
  assumes "writers_reachable (ps, ast)" "new_service env ast now rules files custody on = Inr sv0"
    and "lifespan loads is_dir inp sv0 = (sv, out)" "service_tenant t (fold run_request rs sv) = Some ctx"
  shows "(\<exists>m. chain_verify (tc_chain ctx) = Inr (True, m)) \<and> ac_tenant (tc_chain ctx) = Some t \<and>
    (durable (ac_backend (tc_chain ctx)) \<longrightarrow>
       prefix (ac_records (tc_chain ctx)) (scoped_rows t (gw_audit (sv_world (fold run_request rs sv)))))"
proof -
  have "chain_wf (gw_audit (sv_world (fold run_request rs sv))) t (tc_chain ctx)"
    using service_wf_tenant [OF lived_wf [OF assms(1-3)] assms(4)] by (simp add: context_wf_def)
  then show ?thesis by (auto simp: chain_wf_def chain_verify_def verify_records_ok chain_in_store_def)
qed

text \<open>C22: the state of the service is well formed and well-formed states do not go wrong. In the same
  situation the default tenant is registered, every context carries the id it is registered
  under, and the limiter of a tenant never raises: a request that is counted and ends without
  a decision was accepted by the limiter and raised in the tenant's engine.\<close>

theorem service_state_well_formed:
  assumes "writers_reachable (ps, ast)" "new_service env ast now rules files custody on = Inr sv0"
    and "lifespan loads is_dir inp sv0 = (sv, out)"
  shows "service_tenant ''default'' (fold run_request rs sv) \<noteq> None \<and>
    (\<forall>t ctx. service_tenant t (fold run_request rs sv) = Some ctx \<longrightarrow> tc_id ctx = t \<and>
       (undecided rq r ctx \<longrightarrow> limiter_accepts (ri_now rq) r ctx \<and>
          raised (engine_evaluate (gi_post (ri_gate rq)) (tc_engine ctx) (ev_content r))))"
proof -
  note wf = lived_wf [OF assms]
  have "service_tenant ''default'' (fold run_request rs sv) \<noteq> None"
    using wf [of rs] by (simp add: service_wf_def tenants_wf_def service_tenant_def get_strict_get)
  moreover have "tc_id ctx = t \<and> limiter_ok (tc_limiter ctx)" if "service_tenant t (fold run_request rs sv) = Some ctx" for t ctx
    using service_wf_tenant [OF wf that] by (simp add: context_wf_def)
  ultimately show ?thesis using undecided_by_engine by blast
qed

lemma demo_life:
  "writers_reachable ((\<lambda>_. None), [])"
  "\<exists>sv0. new_service (\<lambda>_. None) [] 0 (SQLitePolicyBackend empty_rule_table) [] m False = Inr (sv0 :: unit service)"
proof -
  show "writers_reachable ((\<lambda>_. None), [])" by (rule writers_reachable.start)
  have "\<not> raised (load_auth_config (\<lambda>_. None))" by code_simp
  then show "\<exists>sv0. new_service (\<lambda>_. None) [] 0 (SQLitePolicyBackend empty_rule_table) [] m False = Inr (sv0 :: unit service)"
    using demo_manager_starts [of 0] by (auto simp: new_service_def raised_def split: sum.splits)
qed

theorem served_chains_verify_witness:
  "\<forall>m loads inp cred ev. \<exists>sv0 sv out ctx. new_service (\<lambda>_. None) [] 0 (SQLitePolicyBackend empty_rule_table) [] m False = Inr (sv0 :: unit service) \<and>
     lifespan loads (\<lambda>_. True) inp sv0 = (sv, out) \<and>
     service_tenant ''default'' (fold run_request [Served (Evaluate inp cred ev)] sv) = Some ctx \<and>
     (\<exists>msg. chain_verify (tc_chain ctx) = Inr (True, msg))"
proof (intro allI)
  fix m loads inp cred ev
  obtain sv0 :: "unit service" where new: "new_service (\<lambda>_. None) [] 0 (SQLitePolicyBackend empty_rule_table) [] m False = Inr sv0"
    using demo_life(2) by blast
  obtain sv out where life: "lifespan loads (\<lambda>_. True) inp sv0 = (sv, out)" by (metis prod.exhaust)
  have "service_tenant ''default'' (fold run_request [Served (Evaluate inp cred ev)] sv) \<noteq> None"
    using lived_wf [OF demo_life(1) new life, of "[Served (Evaluate inp cred ev)]"]
    by (simp add: service_wf_def tenants_wf_def service_tenant_def get_strict_get)
  then obtain ctx where "service_tenant ''default'' (fold run_request [Served (Evaluate inp cred ev)] sv) = Some ctx" by blast
  with served_chains_verify [OF demo_life(1) new life this] new life
  show "\<exists>sv0 sv out ctx. new_service (\<lambda>_. None) [] 0 (SQLitePolicyBackend empty_rule_table) [] m False = Inr (sv0 :: unit service) \<and>
     lifespan loads (\<lambda>_. True) inp sv0 = (sv, out) \<and>
     service_tenant ''default'' (fold run_request [Served (Evaluate inp cred ev)] sv) = Some ctx \<and>
     (\<exists>msg. chain_verify (tc_chain ctx) = Inr (True, msg))" by blast
qed

theorem service_state_well_formed_witness:
  "\<forall>m loads inp. \<exists>sv0 sv out. new_service (\<lambda>_. None) [] 0 (SQLitePolicyBackend empty_rule_table) [] m False = Inr (sv0 :: unit service) \<and>
     lifespan loads (\<lambda>_. True) inp sv0 = (sv, out) \<and>
     service_tenant ''default'' (fold run_request [Admin inp None (DeleteTenant ''default'')] sv) \<noteq> None"
proof (intro allI)
  fix m loads inp
  obtain sv0 :: "unit service" where new: "new_service (\<lambda>_. None) [] 0 (SQLitePolicyBackend empty_rule_table) [] m False = Inr sv0"
    using demo_life(2) by blast
  obtain sv out where life: "lifespan loads (\<lambda>_. True) inp sv0 = (sv, out)" by (metis prod.exhaust)
  from service_state_well_formed [OF demo_life(1) new life, of "[Admin inp None (DeleteTenant ''default'')]"] new life
  show "\<exists>sv0 sv out. new_service (\<lambda>_. None) [] 0 (SQLitePolicyBackend empty_rule_table) [] m False = Inr (sv0 :: unit service) \<and>
     lifespan loads (\<lambda>_. True) inp sv0 = (sv, out) \<and>
     service_tenant ''default'' (fold run_request [Admin inp None (DeleteTenant ''default'')] sv) \<noteq> None" by blast
qed

end
