(* ===== verification/Status.thy ===== *)
theory Status
  imports Startup
begin

text \<open>
  The status routes of \<open>src/main.py\<close> (\<open>/health\<close>, \<open>/ready\<close>, \<open>/metrics\<close>, \<open>/v1/info\<close> and the published
  key set) and what they read: \<open>AnchorManager.health\<close> of \<open>src/custos/custody.py\<close>. The stamps
  of the anchors are those \<open>strftime\<close> writes, so their fields have a fixed width. The uptime is
  given as the text of the rounded difference; the clock of the custody surface is in
  microseconds since 1970.
\<close>

subsection \<open>Reading a stamp\<close>

definition leap_year :: "nat \<Rightarrow> bool" where
  "leap_year y = (4 dvd y \<and> (\<not> 100 dvd y \<or> 400 dvd y))"

definition month_days :: "nat \<Rightarrow> nat list" where
  "month_days y = [31, if leap_year y then 29 else 28, 31, 30, 31, 30, 31, 31, 30, 31, 30, 31]"

text \<open>The days from the first day of the year 1, as \<open>date.toordinal\<close> counts them.\<close>

definition day_ordinal :: "nat \<Rightarrow> nat \<Rightarrow> nat \<Rightarrow> nat" where
  "day_ordinal y m d = (let p = y - 1 in
     365 * p + p div 4 - p div 100 + p div 400 + sum_list (take (m - 1) (month_days y)) + d)"

definition EPOCH_ORDINAL :: nat where
  "EPOCH_ORDINAL = day_ordinal 1970 1 1"

text \<open>The digits of a stamp and what separates them; any other text does not match the format.\<close>

definition stamp_fields :: "string \<Rightarrow> (nat \<times> nat \<times> nat \<times> nat \<times> nat \<times> nat) option" where
  "stamp_fields s = (if length s = 20 \<and>
       map ((!) s) [4, 7, 10, 13, 16, 19] = ''--T::Z'' \<and>
       list_all (\<lambda>i. is_digit (s ! i)) [0, 1, 2, 3, 5, 6, 8, 9, 11, 12, 14, 15, 17, 18]
     then (let field = (\<lambda>i n. digits_val 0 (take n (drop i s))) in
       Some (field 0 4, field 5 2, field 8 2, field 11 2, field 14 2, field 17 2)) else None)"

definition stamp_valid :: "nat \<times> nat \<times> nat \<times> nat \<times> nat \<times> nat \<Rightarrow> bool" where
  "stamp_valid f = (case f of (y, m, d, hh, mm, ss) \<Rightarrow>
     1 \<le> y \<and> 1 \<le> m \<and> m \<le> 12 \<and> 1 \<le> d \<and> d \<le> month_days y ! (m - 1) \<and> hh < 24 \<and> mm < 60 \<and> ss < 60)"

definition stamp_seconds :: "nat \<times> nat \<times> nat \<times> nat \<times> nat \<times> nat \<Rightarrow> int" where
  "stamp_seconds f = (case f of (y, m, d, hh, mm, ss) \<Rightarrow>
     (int (day_ordinal y m d) - int EPOCH_ORDINAL) * 86400 + int (hh * 3600 + mm * 60 + ss))"

definition parse_stamp :: "string \<Rightarrow> int result" where
  "parse_stamp s = (case stamp_fields s of
     Some f \<Rightarrow> if stamp_valid f then Inr (usec * stamp_seconds f)
       else Inl (ValueError ''day is out of range for month'')
   | None \<Rightarrow> Inl (ValueError (''time data '' @ py_repr s @ '' does not match format '' @ py_repr ''%Y-%m-%dT%H:%M:%SZ'')))"

subsection \<open>The health of custody\<close>

record tenant_health =
  th_epoch :: int
  th_pending :: bool
  th_age :: "int option"
  th_stale :: bool

record health_report =
  ch_sinks :: "string list"
  ch_healthy :: bool
  ch_tenants :: "(string \<times> tenant_health) list"
  ch_error :: "string option"

definition tenant_health_of :: "int \<Rightarrow> int \<Rightarrow> tenant_anchors \<Rightarrow> tenant_health result" where
  "tenant_health_of interval now st =
     try_bind (case truthy_str (ta_last st) of False \<Rightarrow> Inr None
       | True \<Rightarrow> try_bind (parse_stamp (the (ta_last st))) (\<lambda>at. Inr (Some (now - at)))) (\<lambda>age.
     Inr \<lparr>th_epoch = ta_epoch st, th_pending = (ta_gap st \<noteq> None), th_age = age,
       th_stale = (case age of None \<Rightarrow> False | Some a \<Rightarrow> a > 2 * interval)\<rparr>)"

definition custody_health :: "bool \<Rightarrow> int \<Rightarrow> int \<Rightarrow> anchor_manager \<Rightarrow> health_report result" where
  "custody_health git_ok interval now m =
     try_bind (try_map (\<lambda>(t, st). try_bind (tenant_health_of interval now st) (\<lambda>h. Inr (t, h))) (am_state m)) (\<lambda>ts.
     Inr \<lparr>ch_sinks = map sink_name (am_sinks m),
       ch_healthy = (am_sinks m \<noteq> [] \<and> list_all (sink_healthcheck git_ok) (am_sinks m)),
       ch_tenants = ts, ch_error = am_error m\<rparr>)"

text \<open>What the surface reads of the world: the clock, the interval, and whether git answers.\<close>

record status_input =
  st_env :: environment
  st_now :: int
  st_interval :: int
  st_git :: bool
  st_uptime :: string

definition health_of :: "status_input \<Rightarrow> 'k service \<Rightarrow> health_report result" where
  "health_of inp sv = custody_health (st_git inp) (st_interval inp) (st_now inp) (gw_custody (sv_world sv))"

definition custody_enabled :: "'k service \<Rightarrow> bool" where
  "custody_enabled sv = ag_custody (gw_gate (sv_world sv))"

definition custody_check_status :: "status_input \<Rightarrow> 'k service \<Rightarrow> string result" where
  "custody_check_status inp sv =
     (if \<not> custody_enabled sv then Inr ''disabled''
      else try_bind (health_of inp sv) (\<lambda>h.
        Inr (if \<not> ch_healthy h then ''fail''
          else if ch_tenants h = [] then ''pending''
          else if list_ex (\<lambda>(t, x). th_stale x \<or> th_pending x) (ch_tenants h) then ''stale''
          else ''ok'')))"

subsection \<open>The routes\<close>

text \<open>The checks of \<open>/ready\<close>; those of the limiter and the chain cannot fail once there is a tenant.\<close>

definition ready_checks :: "'k service \<Rightarrow> (string \<times> bool) list" where
  "ready_checks sv = (let tm = gw_tm (sv_world sv); ctx = tenant_get ''default'' tm in
     [(''policy_engine'', case ctx of None \<Rightarrow> False | Some c \<Rightarrow> engine_rule_count (tc_engine c) > 0),
      (''rate_limiter'', True), (''audit_chain'', ctx \<noteq> None), (''tenant_manager'', tenant_count tm > 0)])"

definition ready :: "status_input \<Rightarrow> 'k service \<Rightarrow> (string \<times> (string \<times> string) list) result" where
  "ready inp sv = try_bind (custody_check_status inp sv) (\<lambda>custody.
     Inr (if list_all snd (ready_checks sv) then ''ready'' else ''not_ready'',
       map (\<lambda>(k, v). (k, if v then ''ok'' else ''fail'')) (ready_checks sv) @ [(''custody'', custody)]))"

definition health_route :: "status_input \<Rightarrow> string \<times> string" where
  "health_route inp = (''ok'', st_uptime inp)"

definition metric_lines :: "string \<Rightarrow> string \<Rightarrow> string \<Rightarrow> string \<Rightarrow> string list" where
  "metric_lines m help kind v =
     [''# HELP '' @ m @ '' '' @ help, ''# TYPE '' @ m @ '' '' @ kind, m @ '' '' @ v]"

definition refused_line :: "string \<Rightarrow> int \<Rightarrow> string" where
  "refused_line kind n = ''custos_refused_total{kind='' @ [dquote] @ kind @ [dquote] @ ''} '' @ int_repr n"

definition counter_lines :: "metrics \<Rightarrow> string list" where
  "counter_lines m =
     metric_lines ''custos_requests_total'' ''Total requests evaluated'' ''counter'' (int_repr (m_total m))
   @ metric_lines ''custos_requests_allowed'' ''Requests allowed'' ''counter'' (int_repr (m_allowed m))
   @ metric_lines ''custos_requests_denied'' ''Requests denied by policy'' ''counter'' (int_repr (m_denied m))
   @ metric_lines ''custos_requests_audited'' ''Requests flagged for audit'' ''counter'' (int_repr (m_audited m))
   @ metric_lines ''custos_rate_limit_hits'' ''Requests rejected by rate limiter'' ''counter'' (int_repr (m_limit_hits m))
   @ [''# HELP custos_refused_total Requests refused before a decision was reached'',
      ''# TYPE custos_refused_total counter'', refused_line ''invalid_request'' (m_refused_invalid m),
      refused_line ''unknown_tenant'' (m_refused_tenant m), refused_line ''rate_limited'' (m_refused_rate m)]
   @ metric_lines ''custos_decisions_unrecorded'' ''Decisions whose record could not be persisted'' ''counter'' (int_repr (m_unrecorded m))"

text \<open>The newest anchor's age; without one the gauge is -1.\<close>

definition anchor_age :: "health_report \<Rightarrow> string" where
  "anchor_age h = (case List.map_filter (\<lambda>(t, x). th_age x) (ch_tenants h) of
     [] \<Rightarrow> ''-1'' | a # as \<Rightarrow> float_repr (foldl max a as))"

definition custody_lines :: "status_input \<Rightarrow> 'k service \<Rightarrow> string list result" where
  "custody_lines inp sv =
     (if \<not> custody_enabled sv then Inr []
      else try_bind (health_of inp sv) (\<lambda>h. Inr
        (metric_lines ''custos_custody_sink_health'' ''All custody sinks healthy'' ''gauge'' (if ch_healthy h then ''1'' else ''0'')
         @ metric_lines ''custos_custody_anchor_age_seconds'' ''Age of newest anchor'' ''gauge'' (anchor_age h))))"

definition metrics_route :: "status_input \<Rightarrow> 'k service \<Rightarrow> string result" where
  "metrics_route inp sv = (let tm = gw_tm (sv_world sv) in
     try_bind (custody_lines inp sv) (\<lambda>cl. Inr (join [nl]
       (counter_lines (sv_metrics sv)
        @ metric_lines ''custos_audit_chain_length'' ''Total audit records (default tenant)'' ''gauge''
            (int_repr (case tenant_get ''default'' tm of None \<Rightarrow> 0 | Some ctx \<Rightarrow> int (chain_length (tc_chain ctx))))
        @ metric_lines ''custos_tenant_count'' ''Registered tenants'' ''gauge'' (int_repr (int (tenant_count tm)))
        @ metric_lines ''custos_uptime_seconds'' ''Seconds since startup'' ''gauge'' (st_uptime inp)
        @ metric_lines ''custos_custody_enabled'' ''Chain-head custody enabled'' ''gauge'' (if custody_enabled sv then ''1'' else ''0'')
        @ cl) @ [nl])))"

text \<open>\<open>\_startup\_binding\_or\_disabled\<close>.\<close>

definition binding_report :: "binding_summary option \<Rightarrow> dict" where
  "binding_report b = (case b of
     None \<Rightarrow> [(''enabled'', JBool False), (''established'', JBool False)]
   | Some s \<Rightarrow> [(''enabled'', JBool (bs_enabled s)), (''deployment_id'', bs_deployment_id s),
       (''binding_digest'', JStr (bs_binding_digest s)), (''trace_id'', JStr (bs_trace_id s)),
       (''policy_digest'', opt_json (bs_policy_digest s)), (''record_hash'', JStr (bs_record_hash s)),
       (''established_at'', JFloat (bs_established_at s)), (''entry_ids'', bs_entry_ids s),
       (''established'', JBool True)])"

definition info_route :: "status_input \<Rightarrow> 'k service \<Rightarrow> dict result" where
  "info_route inp sv = (let tm = gw_tm (sv_world sv) in
     case tenant_get ''default'' tm of
       None \<Rightarrow> Inl (AttributeError ''NoneType object has no attribute audit_chain'')
     | Some ctx \<Rightarrow> let b = audit_backend_type (ac_backend (tc_chain ctx)) in
        try_bind (content_retention_mode (st_env inp)) (\<lambda>mode. Inr
          [(''version'', JStr ''1.4.0''), (''audit_backend'', JStr b), (''audit_durable'', JBool (is_durable b)),
           (''audit_store_source'', JStr (audit_store_source (st_env inp))), (''content_retention'', JStr mode),
           (''policy_backend'', JStr (policy_backend tm)), (''tenant_count'', JInt (int (tenant_count tm))),
           (''uptime_seconds'', JStr (st_uptime inp)), (''deployment_binding'', JObj (binding_report (sv_binding sv)))]))"

subsection \<open>Properties\<close>

lemmas stamp_defs = parse_stamp_def stamp_fields_def stamp_valid_def stamp_seconds_def day_ordinal_def EPOCH_ORDINAL_def
  month_days_def leap_year_def

lemma stamp_examples:
  "parse_stamp ''1970-01-01T00:00:00Z'' = Inr 0" "parse_stamp ''2024-02-29T12:34:56Z'' = Inr (1709210096 * usec)"
  "raised (parse_stamp ''2023-02-29T12:34:56Z'')" "raised (parse_stamp ''2024-02-29 12:34:56Z'')"
  by (simp_all add: stamp_defs is_digit_def Let_def usec_def)

text \<open>Readiness is a matter of the default tenant; custody is reported beside it and never decides it.\<close>

lemma ready_iff:
  assumes "ready inp sv = Inr (s, checks)"
  shows "s = ''ready'' \<longleftrightarrow> (\<exists>ctx. tenant_get ''default'' (gw_tm (sv_world sv)) = Some ctx \<and>
    engine_rule_count (tc_engine ctx) > 0)"
  using assms
  by (auto simp: ready_def ready_checks_def result_simps Let_def tenant_count_def tenant_get_def split: option.splits if_splits)

text \<open>
  The OPA engine counts its custom rules only: a deployment whose policy is in Rego, with no rule
  of its own, is never ready.
\<close>

lemma opa_never_ready:
  assumes "tenant_get ''default'' (gw_tm (sv_world sv)) = Some ctx" "tc_engine ctx = OpaE e" "rule_count (custom_rules e) = 0"
    "ready inp sv = Inr (s, checks)"
  shows "s \<noteq> ''ready''"
  using ready_iff [OF assms(4)] assms(1-3) by simp

lemma failed_anchor_pending:
  assumes "am_error (emit_anchor w now t len head m) \<noteq> None"
  shows "\<exists>st. map_of (am_state (emit_anchor w now t len head m)) t = Some st \<and> ta_gap st \<noteq> None"
  using assms by (auto simp: emit_anchor_def Let_def split: prod.splits if_splits)

lemma health_shows_gap:
  assumes "custody_health git interval now m = Inr h" "map_of (am_state m) t = Some st" "ta_gap st \<noteq> None"
  shows "\<exists>x. (t, x) \<in> set (ch_tenants h) \<and> th_pending x"
proof -
  obtain ts where ts: "try_map (\<lambda>(t, st). try_bind (tenant_health_of interval now st) (\<lambda>h. Inr (t, h))) (am_state m) = Inr ts"
    and h: "ch_tenants h = ts" using assms(1) by (auto simp: custody_health_def result_simps)
  have "(t, st) \<in> set (am_state m)" using assms(2) by (rule map_of_SomeD)
  then obtain y where "y \<in> set ts" "try_bind (tenant_health_of interval now st) (\<lambda>h. Inr (t, h)) = Inr y"
    using try_map_set [OF ts] by force
  then show ?thesis using h assms(3) by (auto simp: tenant_health_of_def result_simps)
qed

text \<open>C34: an outage of custody shows. After an anchor that some sink refused, whatever the clock and the
  sinks answer at the time of the question, \<open>/ready\<close> does not report custody as ok, pending or
  disabled: it says that it failed or is stale, and the status of the service does not change.\<close>

theorem custody_outage_is_visible:
  assumes "custody_enabled sv" and "gw_custody (sv_world sv) = emit_anchor w at t len head m"
    and "am_error (gw_custody (sv_world sv)) \<noteq> None" and "ready inp sv = Inr (s, checks)"
  shows "map_of checks ''custody'' \<in> {Some ''fail'', Some ''stale''} \<and>
    (s = ''ready'' \<longleftrightarrow> list_all snd (ready_checks sv))"
proof -
  obtain c where c: "custody_check_status inp sv = Inr c" and checks: "map_of checks ''custody'' = Some c"
    and s: "s = ''ready'' \<longleftrightarrow> list_all snd (ready_checks sv)"
    using assms(4) by (auto simp: ready_def ready_checks_def result_simps Let_def split: if_splits)
  obtain h where h: "health_of inp sv = Inr h" using c assms(1) by (auto simp: custody_check_status_def result_simps)
  obtain st where st: "map_of (am_state (gw_custody (sv_world sv))) t = Some st" "ta_gap st \<noteq> None"
    using failed_anchor_pending [of w at t len head m] assms(2,3) by auto
  obtain x where "(t, x) \<in> set (ch_tenants h)" "th_pending x"
    using health_shows_gap [OF h [unfolded health_of_def] st] by blast
  then have "ch_tenants h \<noteq> []" "list_ex (\<lambda>(t, x). th_stale x \<or> th_pending x) (ch_tenants h)"
    by (auto simp: list_ex_iff)
  then have "c \<in> {''fail'', ''stale''}" using c h assms(1) by (auto simp: custody_check_status_def split: if_splits)
  with checks s show ?thesis by auto
qed

definition demo_outage :: anchor_manager where
  "demo_outage = emit_anchor (\<lambda>_. calm) ''2024-02-29T12:34:56Z'' ''default'' 1 ''h'' (new_anchor_manager [MemorySink [] True] 1)"

definition demo_down :: "unit service" where
  "demo_down = (demo_service demo_outage)\<lparr>sv_world := (demo_start_world demo_outage)\<lparr>gw_gate := new_action_gate True\<rparr>\<rparr>"

definition demo_status :: status_input where
  "demo_status = \<lparr>st_env = demo_auth_env, st_now = 0, st_interval = 300 * usec, st_git = True, st_uptime = ''1.0''\<rparr>"

lemma demo_outage_fails: "am_error demo_outage \<noteq> None"
  by (simp add: demo_outage_def emit_anchor_def new_anchor_manager_def memory_append_def Let_def)

lemma demo_down_ready: "\<exists>s checks. ready demo_status demo_down = Inr (s, checks)"
proof -
  show ?thesis
    by (simp add: ready_def custody_check_status_def health_of_def custody_health_def demo_down_def demo_start_world_def
        demo_outage_def emit_anchor_def new_anchor_manager_def memory_append_def tenant_state_def tenant_health_of_def Let_def)
qed

theorem custody_outage_is_visible_witness:
  "\<exists>s checks. ready demo_status demo_down = Inr (s, checks) \<and> map_of checks ''custody'' \<in> {Some ''fail'', Some ''stale''}"
proof -
  have "custody_enabled demo_down" "gw_custody (sv_world demo_down) = demo_outage"
    by (simp_all add: custody_enabled_def demo_down_def demo_start_world_def new_action_gate_def)
  then show ?thesis
    using demo_down_ready demo_outage_fails custody_outage_is_visible [of demo_down, OF _ _ _, unfolded demo_outage_def]
    by (metis demo_outage_def)
qed

end
