(* ===== verification/Surplus_Pack.thy ===== *)
theory Surplus_Pack
  imports Tenant
begin

text \<open>
  \<open>src/packs/surplus\_recovery.py\<close>: the outreach policy pack. Two citation gates compare what a draft
  cites with registries the owner fills, the rest are rules of the tenant's engine. The content
  of a registry file is an argument: None when it cannot be read or parsed.
\<close>

subsection \<open>The rules\<close>

definition apostrophe :: string where "apostrophe = [CHR 0x27]"

definition DEFAULT_TENANT_ID :: string where "DEFAULT_TENANT_ID = ''surplus_recovery''"

definition pack_rules :: "policy_rule list" where
  "pack_rules =
    [\<lparr>name = ''surplus_guarantee_language'',
      pattern = rx ''(?i)~b(guarantee[ds]?|guaranteed|risk[-~s]?free|no risk|100% (?:success|guaranteed))~b'',
      action = DENY, reason = ''Guaranteed-outcome language is prohibited in surplus-recovery outreach.''\<rparr>,
     \<lparr>name = ''surplus_upl_risk'',
      pattern = rx (''(?i)~b(legal advice|(?:i am|we are|we'' @ apostrophe @
        ''re) (?:an? )?(?:lawyers?|law firm|attorneys?)|represent (?:you|the owner) in court)~b''),
      action = DENY, reason = ''UPL risk: outreach must not claim legal advice, attorney identity, or court representation.''\<rparr>,
     \<lparr>name = ''surplus_predatory_urgency'',
      pattern = rx (''(?i)~b(act now|final notice|last chance|immediately or (?:you'' @ apostrophe @ ''?ll|you will) lose)~b''),
      action = DENY, reason = ''Predatory urgency/pressure tactics are prohibited in owner outreach.''\<rparr>,
     \<lparr>name = ''surplus_fee_structure'',
      pattern = rx ''(?i)~b~d{1,3}~s*%~s*(?:of|commission|contingency|fee)~b'',
      action = AUDIT, reason = ''Fee-structure claim: owner must verify against the executed fee agreement before sending.''\<rparr>]"

subsection \<open>The registries\<close>

definition load_verified :: "string \<Rightarrow> json option \<Rightarrow> dict result" where
  "load_verified key file = (case file of
     None \<Rightarrow> Inr []
   | Some (JObj d) \<Rightarrow> Inr (case map_of d key of Some (JObj r) \<Rightarrow> r | _ \<Rightarrow> [])
   | Some _ \<Rightarrow> Inl (AttributeError ''object has no attribute get''))"

definition registry_or :: "dict option \<Rightarrow> string \<Rightarrow> json option \<Rightarrow> dict result" where
  "registry_or reg key file = (case reg of Some r \<Rightarrow> Inr r | None \<Rightarrow> load_verified key file)"

text \<open>The findings of a gate: each once, in the order of the text.\<close>

fun note_new :: "(string \<Rightarrow> bool) \<Rightarrow> string list \<Rightarrow> string list \<Rightarrow> string list" where
  "note_new good [] acc = acc"
| "note_new good (x # xs) acc = note_new good xs (if \<not> good x \<and> x \<notin> set acc then acc @ [x] else acc)"

subsection \<open>Statutes\<close>

definition section_sign :: string where "section_sign = [CHR 0xA7]"

definition STATUTE_CITATION :: string where
  "STATUTE_CITATION = rx (''(?:'' @ section_sign @
     ''|~bF~.?S~.?|~bFla~.?~s+Stat~.?|~bSection~b|~bStatute~b|~bSec~.?|~bs~.)~s*'' @ section_sign @
     ''?~s*(~d{1,4}~.~d{1,4})'')"

definition match_group :: "nat \<Rightarrow> rmatch \<Rightarrow> string" where
  "match_group n m = (case map_of (m_groups m) n of Some s \<Rightarrow> s | None \<Rightarrow> [])"

definition find_unverified_citations :: "dict \<Rightarrow> string \<Rightarrow> string list result" where
  "find_unverified_citations reg content = try_bind (finditer STATUTE_CITATION content) (\<lambda>ms.
     Inr (note_new (\<lambda>s. map_of reg s \<noteq> None) (map (match_group 1) ms) []))"

subsection \<open>Court cases\<close>

definition case_word :: string where
  "case_word = ''[A-Z][~w&.'' @ apostrophe @ ''~u2019]*''"

definition case_name :: string where
  "case_name = case_word @ ''(?:~s+'' @ case_word @ ''){0,4}''"

definition CASE_CITATION :: string where
  "CASE_CITATION = rx (''~b'' @ case_name @ ''~s+v~.?~s+'' @ case_name @
     '',?~s*~d+~s+(?:U~.S~.?|F~.2d|F~.3d|F~.4th|F~.?~s?Supp~.?~s?~d?d?|So~.?~s?~d?d?|WL|Fla~.?)(?:~s+~d+)?'')"

definition REPORTER_CITATION :: string where
  "REPORTER_CITATION =
     rx ''~b~d+~s+(?:U~.S~.?|F~.2d|F~.3d|F~.4th|F~.?~s?Supp~.?~s?~d?d?|So~.?~s?~d?d?|WL)~s+~d+~b''"

definition registry_key :: "string \<Rightarrow> string" where
  "registry_key k = lower (strip (squeeze k))"

definition cite_text :: "rmatch \<Rightarrow> string" where
  "cite_text m = rstrip_chars '',.'' (strip (squeeze (m_text m)))"

definition covered :: "string list \<Rightarrow> string \<Rightarrow> bool" where
  "covered keys cite = list_ex (\<lambda>k. contains (lower cite) k \<or> contains k (lower cite)) keys"

definition overlaps :: "rmatch list \<Rightarrow> rmatch \<Rightarrow> bool" where
  "overlaps spans m = list_ex (\<lambda>c. \<not> (m_end m \<le> m_start c \<or> m_end c \<le> m_start m)) spans"

definition find_unverified_case_citations :: "dict \<Rightarrow> string \<Rightarrow> string list result" where
  "find_unverified_case_citations reg content =
     (let keys = map (\<lambda>(k, _). registry_key k) reg in
      try_bind (finditer CASE_CITATION content) (\<lambda>cs.
      try_bind (finditer REPORTER_CITATION content) (\<lambda>rs.
      let first = note_new (covered keys) (map cite_text cs) [] in
      Inr (note_new (covered keys) (map cite_text (filter (\<lambda>m. \<not> overlaps cs m) rs)) first))))"

subsection \<open>The pack\<close>

fun add_rules :: "string \<Rightarrow> policy_rule list \<Rightarrow> tenant_manager \<Rightarrow> tenant_manager \<times> unit result" where
  "add_rules t [] tm = (tm, Inr ())"
| "add_rules t (r # rs) tm = (case add_policy_rule t r tm of
     (tm', Inl e) \<Rightarrow> (tm', Inl e) | (tm', Inr _) \<Rightarrow> add_rules t rs tm')"

definition load_pack ::
  "environment \<Rightarrow> audit_store \<Rightarrow> int \<Rightarrow> string \<Rightarrow> tenant_manager \<Rightarrow> tenant_manager \<times> tenant_context option result" where
  "load_pack env ast now t tm =
     (case (case tenant_get t tm of Some _ \<Rightarrow> (tm, Inr ())
         | None \<Rightarrow> map_prod id (map_sum id (\<lambda>_. ())) (tenant_register env ast now t DEFAULT_QUOTA tm)) of
        (tm1, Inl e) \<Rightarrow> (tm1, Inl e)
      | (tm1, Inr _) \<Rightarrow> (case add_rules t pack_rules tm1 of
          (tm2, Inl e) \<Rightarrow> (tm2, Inl e) | (tm2, Inr _) \<Rightarrow> (tm2, Inr (tenant_get t tm2))))"

definition pack_deny :: "string \<Rightarrow> string \<Rightarrow> policy_result" where
  "pack_deny rule why = \<lparr>allowed = False, res_action = DENY, triggered_rule = Some rule, res_reason = why\<rparr>"

definition unverified_statutes :: "string list \<Rightarrow> policy_result" where
  "unverified_statutes us = pack_deny ''surplus_statute_gate'' (''Unverified statute citation(s): '' @ join '', '' us @
     ''. Only statutes the owner has verified against official Florida sources and entered into packs/verified_statutes.json may appear in outreach drafts.'')"

definition unverified_cases :: "string list \<Rightarrow> policy_result" where
  "unverified_cases us = pack_deny ''surplus_court_citation_gate'' (''Unverified court citation(s): '' @ join ''; '' us @
     ''. Only citations the owner has verified against official sources and entered into packs/verified_cases.json may appear in outreach drafts (the Nippon v. OpenAI fabricated-citation class).'')"

definition pack_not_loaded :: policy_result where
  "pack_not_loaded = pack_deny ''surplus_pack_not_loaded''
     ''Surplus-recovery pack not loaded - fail-closed. No ungoverned outreach evaluation.''"

definition evaluate_outreach ::
  "opa_server \<Rightarrow> json option \<Rightarrow> json option \<Rightarrow> string \<Rightarrow> string \<Rightarrow> dict option \<Rightarrow> dict option \<Rightarrow> tenant_manager \<Rightarrow>
   policy_result result" where
  "evaluate_outreach post statutes cases t content registry case_registry tm =
     try_bind (try_bind (registry_or registry ''florida'' statutes) (\<lambda>reg. find_unverified_citations reg content)) (\<lambda>us.
     if us \<noteq> [] then Inr (unverified_statutes us)
     else try_bind (try_bind (registry_or case_registry ''cases'' cases) (\<lambda>reg. find_unverified_case_citations reg content)) (\<lambda>cs.
     if cs \<noteq> [] then Inr (unverified_cases cs)
     else (case get_strict t tm of
       None \<Rightarrow> Inr pack_not_loaded
     | Some ctx \<Rightarrow> engine_evaluate post (tc_engine ctx) content)))"

subsection \<open>What the gates look at\<close>

lemma set_note_new: "set (note_new good xs acc) = set acc \<union> {x \<in> set xs. \<not> good x}"
  by (induction good xs acc rule: note_new.induct) auto

lemma note_new_Nil: "note_new good xs [] = [] \<longleftrightarrow> (\<forall>x \<in> set xs. good x)"
  using set_note_new [of good xs "[]"] by (metis (mono_tags, lifting) Un_empty_left empty_Collect_eq empty_set set_empty)

lemma note_new_acc_Nil: "note_new good xs acc = [] \<longleftrightarrow> acc = [] \<and> (\<forall>x \<in> set xs. good x)"
proof (cases "acc = []")
  case False
  then have "set (note_new good xs acc) \<noteq> {}" by (simp add: set_note_new)
  then show ?thesis using False by auto
qed (simp add: note_new_Nil)

lemma covered_none [simp]: "\<not> covered [] c" "\<not> overlaps [] m"
  by (simp_all add: covered_def overlaps_def)

lemma pack_deny_denied [simp]: "\<not> allowed (pack_deny rule why)"
  by (simp add: pack_deny_def)

lemma verified_statutes:
  assumes "find_unverified_citations reg content = Inr []"
  shows "\<exists>ms. finditer STATUTE_CITATION content = Inr ms \<and> (\<forall>m \<in> set ms. map_of reg (match_group 1 m) \<noteq> None) \<and>
    (reg = [] \<longrightarrow> py_search STATUTE_CITATION content = Inr None)"
proof -
  obtain ms where ms: "finditer STATUTE_CITATION content = Inr ms" and all: "\<forall>m \<in> set ms. map_of reg (match_group 1 m) \<noteq> None"
    using assms by (auto simp: find_unverified_citations_def result_simps note_new_Nil)
  have "reg = [] \<longrightarrow> ms = []" using all by (cases ms) auto
  then show ?thesis using ms all finditer_Nil by blast
qed

lemma verified_cases:
  assumes "find_unverified_case_citations reg content = Inr []"
  shows "\<exists>cs rs. finditer CASE_CITATION content = Inr cs \<and> finditer REPORTER_CITATION content = Inr rs \<and>
    (\<forall>m \<in> set cs \<union> {m \<in> set rs. \<not> overlaps cs m}. covered (map (\<lambda>(k, _). registry_key k) reg) (cite_text m)) \<and>
    (reg = [] \<longrightarrow> py_search CASE_CITATION content = Inr None \<and> py_search REPORTER_CITATION content = Inr None)"
proof -
  obtain cs rs where f: "finditer CASE_CITATION content = Inr cs" "finditer REPORTER_CITATION content = Inr rs"
    and all: "\<forall>m \<in> set cs \<union> {m \<in> set rs. \<not> overlaps cs m}. covered (map (\<lambda>(k, _). registry_key k) reg) (cite_text m)"
    using assms by (auto simp: find_unverified_case_citations_def result_simps note_new_acc_Nil Let_def)
  have "cs = [] \<and> rs = []" if "reg = []"
  proof -
    have cs: "cs = []" using all that by (cases cs) auto
    then have "rs = []" using all that by (cases rs) auto
    with cs show ?thesis ..
  qed
  then show ?thesis using f all finditer_Nil by blast
qed

subsection \<open>Properties\<close>

text \<open>C30: an outreach draft that is allowed passed both citation gates. The pack's tenant is loaded
  and its engine allows the draft; every statute citation the pattern recognises in it is in the
  statute registry; every case citation the pattern recognises, and every reporter citation outside
  one, is covered by the case registry, that is, a registered citation is a part of it or it is a part
  of a registered citation (so it need not be registered itself, lemma \<open>prefix_covers\<close>); and with an
  empty registry (the one shipped, or a file that cannot be read) the draft contains nothing the
  patterns recognise as a citation.\<close>

theorem allowed_outreach_is_verified:
  assumes "evaluate_outreach post statutes cases t content registry case_registry tm = Inr d" and "allowed d"
  shows "\<exists>reg creg ms cs rs ctx. registry_or registry ''florida'' statutes = Inr reg \<and> registry_or case_registry ''cases'' cases = Inr creg \<and>
    finditer STATUTE_CITATION content = Inr ms \<and> finditer CASE_CITATION content = Inr cs \<and> finditer REPORTER_CITATION content = Inr rs \<and>
    (\<forall>m \<in> set ms. map_of reg (match_group 1 m) \<noteq> None) \<and>
    (\<forall>m \<in> set cs \<union> {m \<in> set rs. \<not> overlaps cs m}. covered (map (\<lambda>(k, _). registry_key k) creg) (cite_text m)) \<and>
    (reg = [] \<longrightarrow> py_search STATUTE_CITATION content = Inr None) \<and>
    (creg = [] \<longrightarrow> py_search CASE_CITATION content = Inr None \<and> py_search REPORTER_CITATION content = Inr None) \<and>
    get_strict t tm = Some ctx \<and> engine_evaluate post (tc_engine ctx) content = Inr d"
proof -
  obtain reg creg where r: "registry_or registry ''florida'' statutes = Inr reg" "registry_or case_registry ''cases'' cases = Inr creg"
    and none: "find_unverified_citations reg content = Inr []" "find_unverified_case_citations creg content = Inr []"
    and rest: "(case get_strict t tm of None \<Rightarrow> Inr pack_not_loaded | Some ctx \<Rightarrow> engine_evaluate post (tc_engine ctx) content) = Inr d"
    using assms
    by (auto simp: evaluate_outreach_def result_simps unverified_statutes_def Surplus_Pack.unverified_cases_def split: if_splits)
  obtain ctx where "get_strict t tm = Some ctx" "engine_evaluate post (tc_engine ctx) content = Inr d"
    using rest assms(2) by (auto simp: pack_not_loaded_def split: option.splits)
  with r verified_statutes [OF none(1)] verified_cases [OF none(2)] show ?thesis by blast
qed

definition demo_pack :: tenant_manager where
  "demo_pack = \<lparr>tm_tenants = [(''t'', \<lparr>tc_id = ''t'', tc_engine = RegexE (new_policy_engine (Some [])), tc_limiter = new_rate_limiter,
     tc_chain = demo_chain\<rparr>)], tm_custom = [], tm_store = InMemoryPolicyBackend []\<rparr>"

lemma demo_draft:
  "find_unverified_citations [] ''hi'' = Inr []" "find_unverified_case_citations [] ''hi'' = Inr []"
  by code_simp+

theorem allowed_outreach_is_verified_witness:
  "\<forall>post. evaluate_outreach post None None ''t'' ''hi'' None None demo_pack = Inr allow_result \<and>
     py_search STATUTE_CITATION ''hi'' = Inr None"
proof
  fix post
  have run: "evaluate_outreach post None None ''t'' ''hi'' None None demo_pack = Inr allow_result"
    using demo_draft
    by (simp add: evaluate_outreach_def registry_or_def load_verified_def get_strict_def demo_pack_def evaluate_def new_policy_engine_def)
  have "allowed allow_result" by (simp add: allow_result_def)
  from allowed_outreach_is_verified [OF run this] run
  show "evaluate_outreach post None None ''t'' ''hi'' None None demo_pack = Inr allow_result \<and>
     py_search STATUTE_CITATION ''hi'' = Inr None" by (auto simp: registry_or_def load_verified_def)
qed

subsection \<open>What the gates miss\<close>

text \<open>
  The statute pattern is case sensitive and takes the singular only: \<open>section 1.5\<close> is no citation
  to it. A registry entry covers any citation it is a part of: \<open>5 WL 1\<close> covers \<open>5 WL 12\<close>.
\<close>

lemma lower_case_section_passes:
  "find_unverified_citations [] ''section 1.5'' = Inr []" "find_unverified_citations [] ''Section 1.5'' = Inr [''1.5'']"
  by code_simp+

lemma prefix_covers:
  "covered (map registry_key [''5 WL 1'']) ''5 WL 12''" "\<not> covered (map registry_key [''5 WL 3'']) ''5 WL 12''"
  by code_simp+

end
