(* ===== verification/Custody_Loop.thy ===== *)
theory Custody_Loop
  imports Custody Tenant
begin

text \<open>
  \<open>AnchorManager.\_loop\<close>, \<open>start\<close> and \<open>stop\<close> of \<open>src/custos/custody.py\<close>: the background thread that
  anchors. The loop body is a pass over what happened since the last one (the commits queued by
  requests, the chains of the tenants, the answers of the sinks); the waits on the stop event
  are a sequence of booleans. The loop may run for ever, so it is a partial function. \<open>start\<close> and
  \<open>stop\<close> race with the threads they own, which is a labelled step relation.
\<close>

subsection \<open>The loop\<close>

definition tenant_chains :: "tenant_manager \<Rightarrow> (string \<times> audit_chain) list" where
  "tenant_chains tm = map (\<lambda>(t, ctx). (t, tc_chain ctx)) (tm_tenants tm)"

record anchor_tick =
  at_queued :: "(string \<times> string \<times> string) list"
  at_now :: string
  at_commits :: "nat \<Rightarrow> nat \<Rightarrow> sink_world"
  at_worlds :: "string \<Rightarrow> nat \<Rightarrow> sink_world"
  at_chains :: "(string \<times> audit_chain) list result"

text \<open>One iteration: whatever it raises is discarded, what it did before stays done.\<close>

definition anchor_pass :: "anchor_tick \<Rightarrow> anchor_manager \<Rightarrow> anchor_manager \<times> unit result" where
  "anchor_pass k m =
     (let m0 = fold (\<lambda>(t, digest, canonical). anchor_policy_commit t digest canonical) (at_queued k) m in
      case at_chains k of
        Inl e \<Rightarrow> (fst (drain_policy_commits (at_commits k) (at_now k) m0), Inl e)
      | Inr cs \<Rightarrow> (anchor_due (at_commits k) (at_worlds k) (at_now k) False cs m0, Inr ()))"

text \<open>\<open>stopped i\<close> is what the \<open>i\<close>-th \<open>wait\<close> on the stop event returns.\<close>

partial_function (option) custody_loop ::
  "(nat \<Rightarrow> bool) \<Rightarrow> (nat \<Rightarrow> anchor_tick) \<Rightarrow> nat \<Rightarrow> anchor_manager \<Rightarrow> anchor_manager option" where
  "custody_loop stopped ticks i m =
     (if stopped i then Some m
      else case anchor_pass (ticks i) m of
        (m', Inl e) \<Rightarrow> custody_loop stopped ticks (Suc i) m'
      | (m', Inr _) \<Rightarrow> custody_loop stopped ticks (Suc i) m')"

subsection \<open>The thread\<close>

text \<open>
  A loop thread waits or is in a pass. \<open>ct\_handle\<close> is \<open>\_thread\<close>, \<open>ct\_stop\<close> the event, \<open>ct\_joining\<close> the
  thread a \<open>stop\<close> in progress waits for. \<open>join(timeout=5)\<close> ends when the thread has ended or the
  time is up. \<open>start\<close> and \<open>stop\<close> are called by one owner.
\<close>

datatype phase = Waiting | Passing

record custody_threads =
  ct_handle :: "nat option"
  ct_stop :: bool
  ct_joining :: "nat option"
  ct_live :: "(nat \<times> phase) list"
  ct_next :: nat

datatype thread_act = Start | StopBegin | Joined | JoinTimeout | WaitOver nat | PassDone nat | LoopEnds nat

definition idle_threads :: custody_threads where
  "idle_threads = \<lparr>ct_handle = None, ct_stop = False, ct_joining = None, ct_live = [], ct_next = 0\<rparr>"

inductive thread_step :: "custody_threads \<Rightarrow> thread_act \<Rightarrow> custody_threads \<Rightarrow> bool" where
  start_again: "ct_joining s = None \<Longrightarrow> ct_handle s = Some t \<Longrightarrow> thread_step s Start s"
| start_new: "ct_joining s = None \<Longrightarrow> ct_handle s = None \<Longrightarrow>
    thread_step s Start (s\<lparr>ct_stop := False, ct_handle := Some (ct_next s),
      ct_live := (ct_next s, Waiting) # ct_live s, ct_next := Suc (ct_next s)\<rparr>)"
| stop_begin: "ct_joining s = None \<Longrightarrow>
    thread_step s StopBegin (s\<lparr>ct_stop := True, ct_joining := ct_handle s\<rparr>)"
| joined: "ct_joining s = Some t \<Longrightarrow> t \<notin> fst ` set (ct_live s) \<Longrightarrow>
    thread_step s Joined (s\<lparr>ct_joining := None, ct_handle := None\<rparr>)"
| join_timeout: "ct_joining s = Some t \<Longrightarrow> t \<in> fst ` set (ct_live s) \<Longrightarrow>
    thread_step s JoinTimeout (s\<lparr>ct_joining := None, ct_handle := None\<rparr>)"
| wait_over: "map_of (ct_live s) t = Some Waiting \<Longrightarrow> \<not> ct_stop s \<Longrightarrow>
    thread_step s (WaitOver t) (s\<lparr>ct_live := dict_set t Passing (ct_live s)\<rparr>)"
| pass_done: "map_of (ct_live s) t = Some Passing \<Longrightarrow>
    thread_step s (PassDone t) (s\<lparr>ct_live := dict_set t Waiting (ct_live s)\<rparr>)"
| loop_ends: "map_of (ct_live s) t = Some Waiting \<Longrightarrow> ct_stop s \<Longrightarrow>
    thread_step s (LoopEnds t) (s\<lparr>ct_live := dict_del t (ct_live s)\<rparr>)"

inductive threads_run :: "custody_threads \<Rightarrow> thread_act list \<Rightarrow> custody_threads \<Rightarrow> bool" where
  threads_idle: "threads_run s [] s"
| threads_more: "threads_run s acts s1 \<Longrightarrow> thread_step s1 a s2 \<Longrightarrow> threads_run s (acts @ [a]) s2"

subsection \<open>What a pass keeps and reaches\<close>

fun sink_up :: "sink \<Rightarrow> bool" where
  "sink_up (MemorySink anchors fails) = (\<not> fails)"
| "sink_up s = True"

definition calm_world :: "(nat \<Rightarrow> sink_world) \<Rightarrow> bool" where
  "calm_world w = (\<forall>i. sw_before (w i) = None \<and> sw_after (w i) = None)"

definition calm_tick :: "anchor_tick \<Rightarrow> bool" where
  "calm_tick k = ((\<forall>t. calm_world (at_worlds k t)) \<and> (\<forall>i. calm_world (at_commits k i)))"

lemma sink_up_append: "sink_append w d t e s = (s', res) \<Longrightarrow> sink_up s' = sink_up s"
  by (cases s) (auto simp: memory_append_def git_commit_def tsa_append_def Let_def split: if_splits option.splits)

lemma sink_append_calm:
  "sw_before w = None \<Longrightarrow> sw_after w = None \<Longrightarrow> sink_up s \<Longrightarrow> \<exists>s' ref. sink_append w d t e s = (s', Inr ref)"
  by (cases s) (auto simp: memory_append_def git_commit_def tsa_append_def Let_def)

lemma append_all_up: "append_all w i d t e ss = (ss', errors) \<Longrightarrow> list_all sink_up ss' = list_all sink_up ss"
  by (induction w i d t e ss arbitrary: ss' errors rule: append_all.induct)
    (auto split: prod.splits dest: sink_up_append)

lemma append_all_calm:
  "calm_world w \<Longrightarrow> list_all sink_up ss \<Longrightarrow> append_all w i d t e ss = (ss', errors) \<Longrightarrow> errors = []"
proof (induction w i d t e ss arbitrary: ss' errors rule: append_all.induct)
  case (2 w i d t e s ss)
  obtain s1 ref where s1: "sink_append (w i) d t e s = (s1, Inr ref)"
    using sink_append_calm [of "w i" s d t e] 2(2,3) by (auto simp: calm_world_def)
  obtain ss1 errors1 where ss1: "append_all w (Suc i) d t e ss = (ss1, errors1)" by (cases "append_all w (Suc i) d t e ss")
  have "errors1 = []" by (rule 2(1) [OF s1 [symmetric] 2(2) _ ss1]) (use 2(3) in simp)
  then show ?case using 2(4) s1 ss1 by simp
qed simp

text \<open>What a pass does to the manager besides the anchors: nothing.\<close>

definition same_setup :: "anchor_manager \<Rightarrow> anchor_manager \<Rightarrow> bool" where
  "same_setup m m' = (am_n m' = am_n m \<and> list_all sink_up (am_sinks m') = list_all sink_up (am_sinks m))"

lemma same_setup_trans: "same_setup m m1 \<Longrightarrow> same_setup m1 m2 \<Longrightarrow> same_setup m m2"
  by (simp add: same_setup_def)

lemma emit_anchor_setup: "same_setup m (emit_anchor w now t len head m)"
  by (auto simp: same_setup_def emit_anchor_def Let_def split: prod.splits dest: append_all_up)

lemma emit_commit_setup:
  "emit_policy_commit w now item m = (m', ok) \<Longrightarrow>
     same_setup m m' \<and> am_state m' = am_state m \<and> am_queue m' = am_queue m"
  by (auto simp: same_setup_def emit_policy_commit_def Let_def split: prod.splits if_splits dest: append_all_up)

lemma drain_items_setup:
  "drain_items w now i items m = (m', failed) \<Longrightarrow>
     same_setup m m' \<and> am_state m' = am_state m \<and> am_queue m' = am_queue m"
proof (induction w now i items m arbitrary: m' failed rule: drain_items.induct)
  case (2 w now i item items m)
  obtain m1 ok where m1: "emit_policy_commit (w i) now item m = (m1, ok)" by (cases "emit_policy_commit (w i) now item m")
  obtain m2 fs where m2: "drain_items w now (Suc i) items m1 = (m2, fs)" by (cases "drain_items w now (Suc i) items m1")
  have "m' = m2" using 2(2) m1 m2 by simp
  then show ?case using emit_commit_setup [OF m1] 2(1) [OF m1 [symmetric] m2] same_setup_trans by metis
qed (simp add: same_setup_def)

lemma drain_setup:
  "same_setup m (fst (drain_policy_commits w now m))" "am_state (fst (drain_policy_commits w now m)) = am_state m"
proof -
  obtain m' failed where d: "drain_items w now 0 (am_queue m) (m\<lparr>am_queue := []\<rparr>) = (m', failed)"
    by (cases "drain_items w now 0 (am_queue m) (m\<lparr>am_queue := []\<rparr>)")
  with drain_items_setup [OF d] show "same_setup m (fst (drain_policy_commits w now m))"
    "am_state (fst (drain_policy_commits w now m)) = am_state m"
    by (simp_all add: drain_policy_commits_def same_setup_def)
qed

lemma anchor_chains_setup: "same_setup m (anchor_chains w now force cs m)"
proof (induction w now force cs m rule: anchor_chains.induct)
  case (2 w now force t c cs m)
  obtain len head where h: "chain_head c = (len, head)" by (cases "chain_head c")
  let ?m1 = "m\<lparr>am_state := dict_set t (tenant_state t m) (am_state m)\<rparr>"
  have "same_setup m ?m1" by (simp add: same_setup_def)
  then show ?case
    using 2 [OF h [symmetric] refl refl refl] emit_anchor_setup [of ?m1 "w t" now t "int len" head]
    by (auto simp: h Let_def intro: same_setup_trans)
qed (simp add: same_setup_def)

lemma enqueue_setup: "same_setup m (fold (\<lambda>(t, digest, canonical). anchor_policy_commit t digest canonical) qs m)"
proof (induction qs arbitrary: m)
  case (Cons q qs)
  have "same_setup m ((\<lambda>(t, digest, canonical). anchor_policy_commit t digest canonical) q m)"
    by (cases q) (simp add: same_setup_def anchor_policy_commit_def)
  then show ?case using Cons.IH by (simp add: same_setup_def)
qed (simp add: same_setup_def)

lemma anchor_pass_setup: "same_setup m (fst (anchor_pass k m))"
proof -
  let ?m0 = "fold (\<lambda>(t, digest, canonical). anchor_policy_commit t digest canonical) (at_queued k) m"
  let ?m1 = "fst (drain_policy_commits (at_commits k) (at_now k) ?m0)"
  have m1: "same_setup m ?m1" by (rule same_setup_trans [OF enqueue_setup drain_setup(1)])
  show ?thesis
  proof (cases "at_chains k")
    case (Inl e)
    then show ?thesis using m1 by (simp add: anchor_pass_def)
  next
    case (Inr cs)
    then show ?thesis using same_setup_trans [OF m1 anchor_chains_setup] by (simp add: anchor_pass_def anchor_due_def)
  qed
qed

text \<open>With healthy sinks a pass empties the queue and leaves no tenant \<open>am\_n\<close> records behind.\<close>

lemma drain_items_calm:
  "\<forall>i. calm_world (w i) \<Longrightarrow> list_all sink_up (am_sinks m) \<Longrightarrow> drain_items w now i items m = (m', failed) \<Longrightarrow> failed = []"
proof (induction w now i items m arbitrary: m' failed rule: drain_items.induct)
  case (2 w now i item items m)
  obtain m1 ok where m1: "emit_policy_commit (w i) now item m = (m1, ok)" by (cases "emit_policy_commit (w i) now item m")
  obtain m2 fs where m2: "drain_items w now (Suc i) items m1 = (m2, fs)" by (cases "drain_items w now (Suc i) items m1")
  have calm: "calm_world (w i)" using 2(2) by simp
  have "ok" using m1 append_all_calm [OF calm 2(3)]
    by (auto simp: emit_policy_commit_def Let_def split: prod.splits if_splits)
  moreover have "fs = []"
    by (rule 2(1) [OF m1 [symmetric] 2(2) _ m2]) (use emit_commit_setup [OF m1] 2(3) in \<open>simp add: same_setup_def\<close>)
  ultimately show ?case using 2(4) m1 m2 by simp
qed simp

lemma drain_calm:
  assumes "\<forall>i. calm_world (w i)" and "list_all sink_up (am_sinks m)"
  shows "am_queue (fst (drain_policy_commits w now m)) = []"
proof -
  obtain m' failed where d: "drain_items w now 0 (am_queue m) (m\<lparr>am_queue := []\<rparr>) = (m', failed)"
    by (cases "drain_items w now 0 (am_queue m) (m\<lparr>am_queue := []\<rparr>)")
  have "failed = []" by (rule drain_items_calm [OF assms(1) _ d]) (use assms(2) in simp)
  with d drain_items_setup [OF d] show ?thesis by (simp add: drain_policy_commits_def)
qed

lemma emit_anchor_state:
  "t' \<noteq> t \<Longrightarrow> tenant_state t' (emit_anchor w now t len head m) = tenant_state t' m"
  by (auto simp: emit_anchor_def Let_def tenant_state_def split: prod.splits)

lemma emit_anchor_calm:
  "calm_world w \<Longrightarrow> list_all sink_up (am_sinks m) \<Longrightarrow> ta_length (tenant_state t (emit_anchor w now t len head m)) = len"
  by (auto simp: emit_anchor_def Let_def tenant_state_def split: prod.splits dest: append_all_calm)

lemma anchor_chains_queue: "am_queue (anchor_chains w now force cs m) = am_queue m"
proof (induction w now force cs m rule: anchor_chains.induct)
  case (2 w now force t c cs m)
  obtain len head where h: "chain_head c = (len, head)" by (cases "chain_head c")
  show ?case using 2 [OF h [symmetric] refl refl refl]
    by (auto simp: h Let_def emit_anchor_def split: prod.splits)
qed simp

lemma anchor_chains_calm:
  assumes "\<forall>t. calm_world (w t)" and "list_all sink_up (am_sinks m)" and "1 \<le> am_n m" and "distinct (map fst cs)"
  shows "(\<forall>(t, c) \<in> set cs. int (length (ac_records c)) - ta_length (tenant_state t (anchor_chains w now False cs m)) < am_n m) \<and>
    (\<forall>t. t \<notin> fst ` set cs \<longrightarrow> tenant_state t (anchor_chains w now False cs m) = tenant_state t m)"
  using assms
proof (induction cs arbitrary: m)
  case (Cons x cs)
  obtain t c where x: "x = (t, c)" by (cases x)
  obtain len head where h: "chain_head c = (len, head)" by (cases "chain_head c")
  have len: "len = length (ac_records c)" using h by (simp add: chain_head_def head_of_def split: if_splits)
  define m1 where "m1 = m\<lparr>am_state := dict_set t (tenant_state t m) (am_state m)\<rparr>"
  define m2 where "m2 = (if int len - ta_length (tenant_state t m) \<ge> am_n m then emit_anchor (w t) now t (int len) head m1 else m1)"
  have run: "anchor_chains w now False (x # cs) m = anchor_chains w now False cs m2"
    by (simp add: x h Let_def m1_def m2_def)
  have m1: "tenant_state t' m1 = tenant_state t' m" "am_sinks m1 = am_sinks m" "am_n m1 = am_n m" for t'
    by (auto simp: m1_def tenant_state_def)
  have m2: "same_setup m m2" using emit_anchor_setup [of m1] by (auto simp: m2_def same_setup_def m1)
  have lag: "int len - ta_length (tenant_state t m2) < am_n m"
    using Cons.prems(1,2,3) by (auto simp: m2_def m1 emit_anchor_calm)
  have other: "tenant_state t' m2 = tenant_state t' m" if "t' \<noteq> t" for t'
    using that by (auto simp: m2_def m1 emit_anchor_state)
  have t: "t \<notin> fst ` set cs" "distinct (map fst cs)" using Cons.prems(4) by (auto simp: x)
  have up: "list_all sink_up (am_sinks m2)" "1 \<le> am_n m2" "am_n m2 = am_n m"
    using m2 Cons.prems(2,3) by (auto simp: same_setup_def)
  note IH = Cons.IH [OF Cons.prems(1) up(1,2) t(2)]
  have "tenant_state t (anchor_chains w now False cs m2) = tenant_state t m2" using IH t(1) by blast
  then show ?case using IH lag other up(3) unfolding run by (auto simp: x len)
qed simp

subsection \<open>What the sinks receive\<close>

text \<open>
  A document with its tenant and epoch. \<open>took ds s s'\<close>: the sink \<open>s\<close> received exactly \<open>ds\<close>, in order,
  and became \<open>s'\<close>; the time-stamping sink keeps one token of the authority per document.
\<close>

type_synonym document = "dict \<times> string \<times> int"

fun took :: "document list \<Rightarrow> sink \<Rightarrow> sink \<Rightarrow> bool" where
  "took ds (MemorySink anchors fails) s' = (s' = MemorySink (anchors @ map fst ds) fails)"
| "took ds (GitAnchorSink repo files) s' =
     (s' = GitAnchorSink repo (fold (\<lambda>(d, t, e). dict_set (anchor_path repo t e ''.json'') d) ds files))"
| "took ds (TSAAnchorSink url token_dir files) s' = (\<exists>tokens. length tokens = length ds \<and>
     s' = TSAAnchorSink url token_dir (fold (\<lambda>((d, t, e), token). dict_set (token_path token_dir t e) token) (zip ds tokens) files))"

definition commit_doc :: "policy_commit \<Rightarrow> document" where
  "commit_doc p = (commit_to_dict p, pc_tenant p, pc_epoch p)"

definition anchor_doc :: "anchor \<Rightarrow> document" where
  "anchor_doc a = (anchor_to_dict a, an_tenant a, an_epoch a)"

text \<open>The commits of a queue, each linked to the last one of its tenant.\<close>

fun queue_commits :: "string \<Rightarrow> (string \<times> string \<times> string) list \<Rightarrow> anchor_manager \<Rightarrow> policy_commit list" where
  "queue_commits now [] m = []"
| "queue_commits now ((t, digest, canonical) # items) m =
     (let p = new_commit now t digest canonical (policy_state t m) in
      p # queue_commits now items (m\<lparr>am_policy := dict_set (''policy::'' @ t) \<lparr>pa_epoch = pc_epoch p, pa_hash = pc_hash p\<rparr> (am_policy m)\<rparr>))"

text \<open>One anchor of its present head for every chain that is due.\<close>

definition due_anchors :: "string \<Rightarrow> (string \<times> audit_chain) list \<Rightarrow> anchor_manager \<Rightarrow> anchor list" where
  "due_anchors now cs m =
     map (\<lambda>(t, c). new_anchor now t (int (fst (chain_head c))) (snd (chain_head c)) (tenant_state t m))
       (filter (\<lambda>(t, c). am_n m \<le> int (fst (chain_head c)) - ta_length (tenant_state t m)) cs)"

lemma took_none [simp]: "took [] s s"
  by (cases s) simp_all

lemma took_append: "took ds s s1 \<Longrightarrow> took es s1 s2 \<Longrightarrow> took (ds @ es) s s2"
proof (cases s)
  case (TSAAnchorSink url token_dir files)
  assume "took ds s s1" "took es s1 s2"
  then obtain xs ys where x: "length xs = length ds" "length ys = length es"
      "s1 = TSAAnchorSink url token_dir (fold (\<lambda>((d, t, e), token). dict_set (token_path token_dir t e) token) (zip ds xs) files)"
      "s2 = TSAAnchorSink url token_dir (fold (\<lambda>((d, t, e), token). dict_set (token_path token_dir t e) token) (zip es ys)
        (fold (\<lambda>((d, t, e), token). dict_set (token_path token_dir t e) token) (zip ds xs) files))"
    unfolding TSAAnchorSink by auto
  then show "took (ds @ es) s s2" unfolding TSAAnchorSink by (auto intro!: exI [of _ "xs @ ys"])
qed auto

lemma all_took_append: "list_all2 (took ds) ss ss1 \<Longrightarrow> list_all2 (took es) ss1 ss2 \<Longrightarrow> list_all2 (took (ds @ es)) ss ss2"
  using list_all2_trans [of "took ds" "took es" "took (ds @ es)" ss ss1 ss2] took_append by blast

lemma append_all_took:
  "calm_world w \<Longrightarrow> list_all sink_up ss \<Longrightarrow> append_all w i d t e ss = (ss', errors) \<Longrightarrow> list_all2 (took [(d, t, e)]) ss ss'"
proof (induction ss arbitrary: i ss' errors)
  case (Cons s ss)
  obtain ss1 errors1 where rest: "append_all w (Suc i) d t e ss = (ss1, errors1)" by (metis prod.exhaust)
  have "took [(d, t, e)] s (fst (sink_append (w i) d t e s))"
    using Cons.prems(1,2) by (cases s) (auto simp: calm_world_def memory_append_def git_commit_def tsa_append_def Let_def
      intro!: exI [of _ "[sw_reply (w i)]"])
  with Cons.IH [OF Cons.prems(1) _ rest] Cons.prems(2,3) rest show ?case by (auto split: prod.splits)
qed simp

lemma queue_commits_items: "map (\<lambda>p. (pc_tenant p, pc_head p, pc_canonical p)) (queue_commits now items m) = items"
  by (induction now items m rule: queue_commits.induct) (simp_all add: new_commit_def Let_def)

lemma queue_commits_policy: "am_policy m = am_policy m' \<Longrightarrow> queue_commits now items m = queue_commits now items m'"
proof (induction items arbitrary: m m')
  case (Cons item items)
  obtain t digest canonical where item: "item = (t, digest, canonical)" by (cases item)
  have "policy_state t m = policy_state t m'" using Cons.prems by (simp add: policy_state_def)
  moreover have "queue_commits now items (m\<lparr>am_policy := P\<rparr>) = queue_commits now items (m'\<lparr>am_policy := P\<rparr>)" for P
    by (rule Cons.IH) simp
  ultimately show ?case using Cons.prems by (simp add: item Let_def)
qed simp

lemma drain_items_took:
  "\<forall>i. calm_world (w i) \<Longrightarrow> list_all sink_up (am_sinks m) \<Longrightarrow> drain_items w now i items m = (m', failed) \<Longrightarrow>
     list_all2 (took (map commit_doc (queue_commits now items m))) (am_sinks m) (am_sinks m')"
proof (induction items arbitrary: i m m' failed)
  case Nil
  then show ?case by (simp add: list_all2_same)
next
  case (Cons item items)
  obtain t digest canonical where item: "item = (t, digest, canonical)" by (cases item)
  let ?p = "new_commit now t digest canonical (policy_state t m)"
  let ?pol = "dict_set (''policy::'' @ t) \<lparr>pa_epoch = pc_epoch ?p, pa_hash = pc_hash ?p\<rparr> (am_policy m)"
  obtain ss errors where app: "append_all (w i) 0 (commit_to_dict ?p) t (pc_epoch ?p) (am_sinks m) = (ss, errors)"
    by (metis prod.exhaust)
  have calm: "calm_world (w i)" using Cons.prems(1) by simp
  have "errors = []" by (rule append_all_calm [OF calm Cons.prems(2) app])
  have p: "pc_tenant ?p = t" "pc_epoch ?p = pa_epoch (policy_state t m) + 1" by (simp_all add: new_commit_def Let_def)
  have m1: "emit_policy_commit (w i) now item m = (m\<lparr>am_sinks := ss, am_policy := ?pol\<rparr>, True)"
    using app \<open>errors = []\<close> by (simp add: emit_policy_commit_def item p Let_def)
  let ?m1 = "m\<lparr>am_sinks := ss, am_policy := ?pol\<rparr>"
  obtain fs where rest: "drain_items w now (Suc i) items ?m1 = (m', fs)"
    using Cons.prems(3) m1 by (auto split: prod.splits)
  have "list_all sink_up (am_sinks ?m1)" using append_all_up [OF app] Cons.prems(2) by simp
  from Cons.IH [OF Cons.prems(1) this rest]
  have "list_all2 (took (map commit_doc (queue_commits now items ?m1))) ss (am_sinks m')" by simp
  moreover have "queue_commits now items ?m1 = queue_commits now items (m\<lparr>am_policy := ?pol\<rparr>)"
    by (rule queue_commits_policy) simp
  moreover have "list_all2 (took [commit_doc ?p]) (am_sinks m) ss"
    using append_all_took [OF calm Cons.prems(2) app] by (simp add: commit_doc_def p)
  ultimately show ?case
    using all_took_append [of "[commit_doc ?p]"] by (simp add: item Let_def)
qed

lemma drain_took:
  assumes "\<forall>i. calm_world (w i)" "list_all sink_up (am_sinks m)"
  shows "list_all2 (took (map commit_doc (queue_commits now (am_queue m) m))) (am_sinks m) (am_sinks (fst (drain_policy_commits w now m)))"
proof -
  obtain m' failed where d: "drain_items w now 0 (am_queue m) (m\<lparr>am_queue := []\<rparr>) = (m', failed)"
    by (metis prod.exhaust)
  have "queue_commits now (am_queue m) (m\<lparr>am_queue := []\<rparr>) = queue_commits now (am_queue m) m"
    by (rule queue_commits_policy) simp
  with drain_items_took [OF assms(1) _ d] assms(2) d show ?thesis by (simp add: drain_policy_commits_def)
qed

lemma due_anchors_cong:
  assumes "\<forall>t \<in> fst ` set cs. tenant_state t m' = tenant_state t m" "am_n m' = am_n m"
  shows "due_anchors now cs m' = due_anchors now cs m"
  using assms unfolding due_anchors_def by (induction cs) (auto split: if_splits)

lemma anchor_chains_took:
  assumes "\<forall>t. calm_world (w t)" and "list_all sink_up (am_sinks m)" and "distinct (map fst cs)"
  shows "list_all2 (took (map anchor_doc (due_anchors now cs m))) (am_sinks m) (am_sinks (anchor_chains w now False cs m))"
  using assms
proof (induction cs arbitrary: m)
  case Nil
  then show ?case by (simp add: due_anchors_def list_all2_same)
next
  case (Cons x cs)
  obtain t c where x: "x = (t, c)" by (cases x)
  obtain len head where h: "chain_head c = (len, head)" by (cases "chain_head c")
  define m1 where "m1 = m\<lparr>am_state := dict_set t (tenant_state t m) (am_state m)\<rparr>"
  have m1: "tenant_state t' m1 = tenant_state t' m" "am_sinks m1 = am_sinks m" "am_n m1 = am_n m" for t'
    by (auto simp: m1_def tenant_state_def)
  let ?due = "am_n m \<le> int len - ta_length (tenant_state t m)"
  define m2 where "m2 = (if ?due then emit_anchor (w t) now t (int len) head m1 else m1)"
  have run: "anchor_chains w now False (x # cs) m = anchor_chains w now False cs m2"
    by (simp add: x h Let_def m1_def m2_def)
  have "same_setup m m2" using emit_anchor_setup [of m1] by (auto simp: m2_def same_setup_def m1)
  then have up: "list_all sink_up (am_sinks m2)" "am_n m2 = am_n m" using Cons.prems(2) by (simp_all add: same_setup_def)
  have t: "t \<notin> fst ` set cs" "distinct (map fst cs)" using Cons.prems(3) by (auto simp: x)
  have other: "tenant_state t' m2 = tenant_state t' m" if "t' \<noteq> t" for t'
    using that by (auto simp: m2_def m1 emit_anchor_state)
  have "due_anchors now cs m2 = due_anchors now cs m"
  proof (rule due_anchors_cong)
    show "\<forall>t' \<in> fst ` set cs. tenant_state t' m2 = tenant_state t' m" using other t(1) by metis
  qed (rule up(2))
  with Cons.IH [OF Cons.prems(1) up(1) t(2)]
  have rest: "list_all2 (took (map anchor_doc (due_anchors now cs m))) (am_sinks m2) (am_sinks (anchor_chains w now False cs m2))"
    by simp
  let ?a = "new_anchor now t (int len) head (tenant_state t m)"
  have "list_all2 (took (if ?due then [anchor_doc ?a] else [])) (am_sinks m) (am_sinks m2)"
  proof (cases ?due)
    case True
    obtain ss errors where app: "append_all (w t) 0 (anchor_to_dict ?a) t (an_epoch ?a) (am_sinks m) = (ss, errors)"
      by (metis prod.exhaust)
    have "am_sinks m2 = ss" using app True by (simp add: m2_def emit_anchor_def m1 Let_def)
    moreover have "anchor_doc ?a = (anchor_to_dict ?a, t, an_epoch ?a)" by (simp add: anchor_doc_def new_anchor_def Let_def)
    ultimately show ?thesis
      using True append_all_took [OF spec [OF Cons.prems(1)] Cons.prems(2) app] by simp
  next
    case False
    then show ?thesis by (simp add: m2_def m1 list_all2_same)
  qed
  from all_took_append [OF this rest] show ?case
    unfolding run by (simp add: due_anchors_def x h split: if_splits)
qed

lemma enqueue_fields:
  "am_queue (fold (\<lambda>(t, digest, canonical). anchor_policy_commit t digest canonical) qs m) = am_queue m @ qs"
  "am_sinks (fold (\<lambda>(t, digest, canonical). anchor_policy_commit t digest canonical) qs m) = am_sinks m"
  "am_policy (fold (\<lambda>(t, digest, canonical). anchor_policy_commit t digest canonical) qs m) = am_policy m"
  "am_state (fold (\<lambda>(t, digest, canonical). anchor_policy_commit t digest canonical) qs m) = am_state m"
  by (induction qs arbitrary: m) (auto simp: anchor_policy_commit_def)

lemma anchor_pass_took:
  assumes "calm_tick k" "at_chains k = Inr cs" "list_all sink_up (am_sinks m)" "distinct (map fst cs)"
  shows "list_all2 (took (map commit_doc (queue_commits (at_now k) (am_queue m @ at_queued k) m) @
      map anchor_doc (due_anchors (at_now k) cs m))) (am_sinks m) (am_sinks (fst (anchor_pass k m)))"
proof -
  define m0 where "m0 = fold (\<lambda>(t, digest, canonical). anchor_policy_commit t digest canonical) (at_queued k) m"
  define m1 where "m1 = fst (drain_policy_commits (at_commits k) (at_now k) m0)"
  have pass: "fst (anchor_pass k m) = anchor_chains (at_worlds k) (at_now k) False cs m1"
    using assms(2) by (simp add: anchor_pass_def m0_def m1_def anchor_due_def)
  have m0: "am_queue m0 = am_queue m @ at_queued k" "am_sinks m0 = am_sinks m" "am_policy m0 = am_policy m" "am_state m0 = am_state m"
    unfolding m0_def by (rule enqueue_fields)+
  have calm: "\<forall>i. calm_world (at_commits k i)" "\<forall>t. calm_world (at_worlds k t)" using assms(1) by (simp_all add: calm_tick_def)
  have "list_all2 (took (map commit_doc (queue_commits (at_now k) (am_queue m0) m0))) (am_sinks m0) (am_sinks m1)"
    unfolding m1_def by (rule drain_took [OF calm(1)]) (simp add: m0 assms(3))
  then have commits: "list_all2 (took (map commit_doc (queue_commits (at_now k) (am_queue m @ at_queued k) m))) (am_sinks m) (am_sinks m1)"
    using queue_commits_policy [OF m0(3)] by (simp add: m0)
  have kept: "same_setup m0 m1" "am_state m1 = am_state m" unfolding m1_def using drain_setup m0(4) by simp_all
  have "same_setup m m0" unfolding m0_def by (rule enqueue_setup)
  with kept(1) have "am_n m1 = am_n m" "list_all sink_up (am_sinks m1)" using assms(3) by (simp_all add: same_setup_def)
  moreover from this(1) have "due_anchors (at_now k) cs m1 = due_anchors (at_now k) cs m"
    by (intro due_anchors_cong) (simp_all add: tenant_state_def kept(2))
  ultimately show ?thesis
    using all_took_append [OF commits] anchor_chains_took [OF calm(2) _ assms(4), of m1 "at_now k"] by (simp add: pass)
qed

text \<open>
  Over any stretch, healthy or not: \<open>sinks\_took Hs ss ss'\<close> says what each sink received, and a
  queued commitment is delivered to a sink when a sealed commit with its tenant, digest and text
  is among what that sink received.
\<close>

fun sinks_took :: "document list list \<Rightarrow> sink list \<Rightarrow> sink list \<Rightarrow> bool" where
  "sinks_took [] [] [] = True"
| "sinks_took (H # Hs) (s # ss) (s' # ss') = (took H s s' \<and> sinks_took Hs ss ss')"
| "sinks_took _ _ _ = False"

definition delivered :: "string \<times> string \<times> string \<Rightarrow> document list \<Rightarrow> bool" where
  "delivered q H \<longleftrightarrow> (\<exists>p. commit_doc p \<in> set H \<and> (pc_tenant p, pc_head p, pc_canonical p) = q \<and>
     pc_kind p = ''policy_commit'' \<and> pc_hash p = commit_compute_hash p)"

definition keeps_commits :: "(string \<times> string \<times> string) set \<Rightarrow> anchor_manager \<Rightarrow> anchor_manager \<Rightarrow> bool" where
  "keeps_commits Q m m' \<longleftrightarrow> (\<exists>Hs. sinks_took Hs (am_sinks m) (am_sinks m') \<and>
     (\<forall>q \<in> Q. q \<in> set (am_queue m') \<or> (\<forall>H \<in> set Hs. delivered q H)))"

lemma sinks_took_none: "sinks_took (map (\<lambda>_. []) ss) ss ss"
  by (induction ss) simp_all

lemma sinks_took_Nil [simp]: "sinks_took Hs [] ss' \<longleftrightarrow> Hs = [] \<and> ss' = []"
  by (cases Hs; cases ss') simp_all

lemma sinks_took_append: "sinks_took Hs a b \<Longrightarrow> sinks_took Ks b c \<Longrightarrow> sinks_took (map2 (@) Hs Ks) a c"
proof (induction Hs a b arbitrary: Ks c rule: sinks_took.induct)
  case 1
  then show ?case by (cases Ks; cases c) simp_all
next
  case (2 H Hs s ss s' ss')
  then obtain K Ks' x c' where "Ks = K # Ks'" "c = x # c'" by (cases Ks; cases c) simp_all
  with 2 show ?case by (auto intro: took_append)
qed simp_all

lemma delivered_append: "delivered q h \<Longrightarrow> delivered q (h @ k)" "delivered q k \<Longrightarrow> delivered q (h @ k)"
  by (auto simp: delivered_def)

lemma map2_append_mem: "H \<in> set (map2 (@) Hs Ks) \<Longrightarrow> \<exists>h \<in> set Hs. \<exists>k \<in> set Ks. H = h @ k"
  by (auto dest: set_zip_leftD set_zip_rightD)

lemma keeps_commits_refl: "am_sinks m' = am_sinks m \<Longrightarrow> Q \<subseteq> set (am_queue m') \<Longrightarrow> keeps_commits Q m m'"
  unfolding keeps_commits_def using sinks_took_none [of "am_sinks m"] by (metis subsetD)

lemma keeps_commits_subset: "keeps_commits R m m' \<Longrightarrow> Q \<subseteq> R \<Longrightarrow> keeps_commits Q m m'"
  unfolding keeps_commits_def by blast

lemma keeps_commits_trans:
  assumes "keeps_commits Q m m1" "keeps_commits R m1 m2" "set (am_queue m1) \<subseteq> R"
  shows "keeps_commits (Q \<union> R) m m2"
proof -
  obtain Hs where h: "sinks_took Hs (am_sinks m) (am_sinks m1)"
      "\<forall>q \<in> Q. q \<in> set (am_queue m1) \<or> (\<forall>H \<in> set Hs. delivered q H)"
    using assms(1) by (auto simp: keeps_commits_def)
  obtain Ks where k: "sinks_took Ks (am_sinks m1) (am_sinks m2)"
      "\<forall>q \<in> R. q \<in> set (am_queue m2) \<or> (\<forall>H \<in> set Ks. delivered q H)"
    using assms(2) by (auto simp: keeps_commits_def)
  have "q \<in> set (am_queue m2) \<or> (\<forall>H \<in> set (map2 (@) Hs Ks). delivered q H)" if q: "q \<in> Q \<union> R" for q
  proof (cases "q \<in> set (am_queue m2)")
    case False
    then have "(\<forall>H \<in> set Hs. delivered q H) \<or> (\<forall>H \<in> set Ks. delivered q H)"
      using q h(2) k(2) assms(3) by blast
    then show ?thesis using map2_append_mem delivered_append by metis
  qed simp
  with sinks_took_append [OF h(1) k(1)] show ?thesis unfolding keeps_commits_def by blast
qed

text \<open>Whatever fails, an append gives each sink the document or nothing; without errors, all have it.\<close>

lemma sink_append_any:
  "sink_append w d t e s = (s', res) \<Longrightarrow> took [] s s' \<and> raised res \<or> took [(d, t, e)] s s'"
  by (cases s) (auto simp: memory_append_def git_commit_def tsa_append_def Let_def split: if_splits option.splits
    intro!: exI [of _ "[sw_reply w]"])

lemma append_all_any:
  "append_all w i d t e ss = (ss', errors) \<Longrightarrow> \<exists>Hs. sinks_took Hs ss ss' \<and> (errors = [] \<longrightarrow> (\<forall>H \<in> set Hs. H = [(d, t, e)]))"
proof (induction ss arbitrary: i ss' errors)
  case Nil
  then show ?case by (auto intro: exI [of _ "[]"])
next
  case (Cons s ss)
  obtain s1 res where s1: "sink_append (w i) d t e s = (s1, res)" by (metis prod.exhaust)
  obtain ss1 errors1 where rest: "append_all w (Suc i) d t e ss = (ss1, errors1)" by (metis prod.exhaust)
  from Cons.IH [OF rest] obtain Hs where h: "sinks_took Hs ss ss1" "errors1 = [] \<longrightarrow> (\<forall>H \<in> set Hs. H = [(d, t, e)])" by blast
  have out: "ss' = s1 # ss1" "errors = [] \<Longrightarrow> errors1 = [] \<and> \<not> raised res"
    using Cons.prems s1 rest by (auto split: sum.splits)
  from sink_append_any [OF s1] show ?case
  proof
    assume "took [] s s1 \<and> raised res"
    with h out show ?thesis by (intro exI [of _ "[] # Hs"]) auto
  next
    assume "took [(d, t, e)] s s1"
    with h out show ?thesis by (intro exI [of _ "[(d, t, e)] # Hs"]) auto
  qed
qed

lemma emit_commit_keeps:
  assumes "emit_policy_commit w now q m = (m', ok)" "am_queue m = []"
  shows "keeps_commits (if ok then {q} else {}) m m'"
proof -
  obtain t digest canonical where q: "q = (t, digest, canonical)" by (cases q)
  let ?p = "new_commit now t digest canonical (policy_state t m)"
  obtain ss errors where app: "append_all w 0 (commit_to_dict ?p) t (pc_epoch ?p) (am_sinks m) = (ss, errors)"
    by (metis prod.exhaust)
  have p: "pc_tenant ?p = t" "(pc_tenant ?p, pc_head ?p, pc_canonical ?p) = q" "pc_kind ?p = ''policy_commit''"
      "pc_hash ?p = commit_compute_hash ?p"
    by (simp_all add: new_commit_def commit_compute_hash_def q Let_def)
  have m': "am_sinks m' = ss" "ok \<longleftrightarrow> errors = []"
    using assms(1) app by (auto simp: emit_policy_commit_def q Let_def split: if_splits)
  have "delivered q [(commit_to_dict ?p, t, pc_epoch ?p)]"
    unfolding delivered_def by (rule exI [of _ ?p]) (use p in \<open>simp add: commit_doc_def\<close>)
  with append_all_any [OF app] m' show ?thesis unfolding keeps_commits_def by auto
qed

lemma drain_items_keeps:
  "drain_items w now i items m = (m', failed) \<Longrightarrow> am_queue m = [] \<Longrightarrow> keeps_commits (set items) m (m'\<lparr>am_queue := failed\<rparr>)"
proof (induction items arbitrary: i m m' failed)
  case Nil
  then show ?case by (auto intro: keeps_commits_refl)
next
  case (Cons item items)
  obtain m1 ok where e: "emit_policy_commit (w i) now item m = (m1, ok)" by (metis prod.exhaust)
  obtain m2 fs where d: "drain_items w now (Suc i) items m1 = (m2, fs)" by (metis prod.exhaust)
  have q: "am_queue m1 = []" using emit_commit_setup [OF e] Cons.prems(2) by simp
  have out: "m' = m2" "failed = (if ok then fs else item # fs)" using Cons.prems(1) e d by simp_all
  have "keeps_commits (if ok then {item} else {}) m m1" by (rule emit_commit_keeps [OF e Cons.prems(2)])
  from keeps_commits_trans [OF this Cons.IH [OF d q]] q
  have "keeps_commits ((if ok then {item} else {}) \<union> set items) m (m2\<lparr>am_queue := fs\<rparr>)" by simp
  then show ?case unfolding keeps_commits_def out by (cases ok) auto
qed

lemma drain_keeps: "keeps_commits (set (am_queue m)) m (fst (drain_policy_commits w now m))"
proof -
  obtain m' failed where d: "drain_items w now 0 (am_queue m) (m\<lparr>am_queue := []\<rparr>) = (m', failed)"
    by (metis prod.exhaust)
  have "am_queue m' = []" using drain_items_setup [OF d] by simp
  with drain_items_keeps [OF d] show ?thesis by (simp add: drain_policy_commits_def d keeps_commits_def)
qed

lemma emit_anchor_keeps: "Q \<subseteq> set (am_queue m) \<Longrightarrow> keeps_commits Q m (emit_anchor w now t len head m)"
proof -
  assume Q: "Q \<subseteq> set (am_queue m)"
  let ?a = "new_anchor now t len head (tenant_state t m)"
  obtain ss errors where app: "append_all w 0 (anchor_to_dict ?a) t (an_epoch ?a) (am_sinks m) = (ss, errors)"
    by (metis prod.exhaust)
  have "am_sinks (emit_anchor w now t len head m) = ss" "am_queue (emit_anchor w now t len head m) = am_queue m"
    using app by (simp_all add: emit_anchor_def Let_def)
  with append_all_any [OF app] Q show ?thesis unfolding keeps_commits_def by auto
qed

lemma anchor_chains_keeps: "keeps_commits (set (am_queue m)) m (anchor_chains w now force cs m)"
proof (induction cs arbitrary: m)
  case (Cons x cs)
  obtain t c len head where x: "x = (t, c)" "chain_head c = (len, head)" by (metis prod.exhaust)
  let ?m1 = "m\<lparr>am_state := dict_set t (tenant_state t m) (am_state m)\<rparr>"
  define m2 where "m2 = (if force \<or> int len - ta_length (tenant_state t m) \<ge> am_n m then emit_anchor (w t) now t (int len) head ?m1 else ?m1)"
  have "keeps_commits (set (am_queue m)) ?m1 m2"
    unfolding m2_def by (auto intro: emit_anchor_keeps keeps_commits_refl)
  then have "keeps_commits (set (am_queue m)) m m2" by (simp add: keeps_commits_def)
  moreover have "am_queue m2 = am_queue m"
    by (simp add: m2_def emit_anchor_def Let_def split: prod.splits)
  ultimately have "keeps_commits (set (am_queue m)) m (anchor_chains w now force cs m2)"
    using keeps_commits_trans [OF _ Cons.IH [of m2], of "set (am_queue m)" m] by simp
  then show ?case by (simp add: x m2_def Let_def)
qed (simp add: keeps_commits_refl)

lemma anchor_pass_keeps: "keeps_commits (set (am_queue m) \<union> set (at_queued k)) m (fst (anchor_pass k m))"
proof -
  define m0 where "m0 = fold (\<lambda>(t, digest, canonical). anchor_policy_commit t digest canonical) (at_queued k) m"
  define m1 where "m1 = fst (drain_policy_commits (at_commits k) (at_now k) m0)"
  have "set (am_queue m0) = set (am_queue m) \<union> set (at_queued k)" "am_sinks m0 = am_sinks m"
    unfolding m0_def enqueue_fields by simp_all
  with drain_keeps [of m0 "at_commits k" "at_now k"] have m1: "keeps_commits (set (am_queue m) \<union> set (at_queued k)) m m1"
    by (simp add: m1_def keeps_commits_def)
  have "keeps_commits (set (am_queue m) \<union> set (at_queued k)) m (anchor_chains w now force cs m1)" for w now force cs
    using keeps_commits_subset [OF keeps_commits_trans [OF m1 anchor_chains_keeps order_refl]] by blast
  with m1 show ?thesis
    by (cases "at_chains k") (simp_all add: anchor_pass_def m0_def m1_def anchor_due_def Let_def)
qed

subsection \<open>Runs of the loop\<close>

definition passes :: "(nat \<Rightarrow> anchor_tick) \<Rightarrow> nat \<Rightarrow> nat \<Rightarrow> anchor_manager \<Rightarrow> anchor_manager" where
  "passes ticks i n m = fold (\<lambda>j m. fst (anchor_pass (ticks j) m)) [i..<n] m"

lemma custody_loop_step:
  "custody_loop stopped ticks i m =
     (if stopped i then Some m else custody_loop stopped ticks (Suc i) (fst (anchor_pass (ticks i) m)))"
  by (subst custody_loop.simps) (auto split: prod.splits sum.splits)

lemma custody_loop_runs:
  "i \<le> n \<Longrightarrow> \<forall>j. i \<le> j \<longrightarrow> j < n \<longrightarrow> \<not> stopped j \<Longrightarrow>
     custody_loop stopped ticks i m = custody_loop stopped ticks n (passes ticks i n m)"
proof (induction "n - i" arbitrary: i m)
  case 0
  then show ?case by (simp add: passes_def)
next
  case (Suc d)
  then have i: "i < n" "\<not> stopped i" by auto
  have "custody_loop stopped ticks i m = custody_loop stopped ticks (Suc i) (fst (anchor_pass (ticks i) m))"
    using i by (subst custody_loop_step) simp
  also have "\<dots> = custody_loop stopped ticks n (passes ticks (Suc i) n (fst (anchor_pass (ticks i) m)))"
    by (rule Suc.hyps(1)) (use Suc.hyps(2) Suc.prems i in auto)
  finally show ?case using i by (simp add: passes_def upt_conv_Cons)
qed

lemma custody_loop_returned:
  assumes ret: "custody_loop stopped ticks i m = Some m'"
  shows "\<exists>j \<ge> i. stopped j"
proof (rule custody_loop.raw_induct [where P = "\<lambda>stopped ticks i m m'. \<exists>j \<ge> i. stopped j", OF _ ret])
  fix loop :: "(nat \<Rightarrow> bool) \<Rightarrow> (nat \<Rightarrow> anchor_tick) \<Rightarrow> nat \<Rightarrow> anchor_manager \<Rightarrow> anchor_manager option"
    and stopped ticks i m m'
  assume IH: "\<And>stopped ticks i m m'. loop stopped ticks i m = Some m' \<Longrightarrow> \<exists>j \<ge> i. stopped j"
    and run: "(if stopped i then Some m else case anchor_pass (ticks i) m of
        (m', Inl e) \<Rightarrow> loop stopped ticks (Suc i) m' | (m', Inr _) \<Rightarrow> loop stopped ticks (Suc i) m') = Some m'"
  show "\<exists>j \<ge> i. stopped j"
  proof (cases "stopped i")
    case False
    obtain m1 r where "anchor_pass (ticks i) m = (m1, r)" by (cases "anchor_pass (ticks i) m")
    then have "loop stopped ticks (Suc i) m1 = Some m'" using run False by (cases r) simp_all
    from IH [OF this] obtain j where "Suc i \<le> j" "stopped j" by blast
    then show ?thesis by (intro exI [of _ j]) simp
  qed auto
qed

lemma passes_setup: "same_setup m (passes ticks i n m)"
  unfolding passes_def
proof (induction n)
  case (Suc n)
  let ?m = "fold (\<lambda>j m. fst (anchor_pass (ticks j) m)) [i..<n] m"
  have "same_setup m (fst (anchor_pass (ticks n) ?m))"
    using same_setup_trans [OF Suc.IH anchor_pass_setup] .
  then show ?case by (simp add: same_setup_def)
qed (simp add: same_setup_def)

lemma passes_keeps:
  "keeps_commits (set (am_queue m) \<union> (\<Union>i \<in> {i..<n}. set (at_queued (ticks i)))) m (passes ticks i n m)"
proof (induction n)
  case 0
  then show ?case by (simp add: passes_def keeps_commits_refl)
next
  case (Suc n)
  show ?case
  proof (cases "i \<le> n")
    case True
    let ?m = "passes ticks i n m"
    have run: "passes ticks i (Suc n) m = fst (anchor_pass (ticks n) ?m)" using True by (simp add: passes_def)
    have "{i..<Suc n} = insert n {i..<n}" using True by auto
    then have Q: "set (am_queue m) \<union> (\<Union>i \<in> {i..<Suc n}. set (at_queued (ticks i))) \<subseteq>
        (set (am_queue m) \<union> (\<Union>i \<in> {i..<n}. set (at_queued (ticks i)))) \<union> (set (am_queue ?m) \<union> set (at_queued (ticks n)))"
      by auto
    have "keeps_commits ((set (am_queue m) \<union> (\<Union>i \<in> {i..<n}. set (at_queued (ticks i)))) \<union>
        (set (am_queue ?m) \<union> set (at_queued (ticks n)))) m (passes ticks i (Suc n) m)"
      unfolding run by (rule keeps_commits_trans [OF Suc.IH anchor_pass_keeps]) simp
    from keeps_commits_subset [OF this Q] show ?thesis .
  next
    case False
    then show ?thesis by (simp add: passes_def keeps_commits_refl)
  qed
qed

lemma anchor_pass_calm:
  assumes "calm_tick k" and "at_chains k = Inr cs" and "list_all sink_up (am_sinks m)" and "1 \<le> am_n m" and "distinct (map fst cs)"
  shows "am_queue (fst (anchor_pass k m)) = [] \<and>
    (\<forall>(t, c) \<in> set cs. int (length (ac_records c)) - ta_length (tenant_state t (fst (anchor_pass k m))) < am_n m)"
proof -
  define m0 where "m0 = fold (\<lambda>(t, digest, canonical). anchor_policy_commit t digest canonical) (at_queued k) m"
  define m1 where "m1 = fst (drain_policy_commits (at_commits k) (at_now k) m0)"
  have pass: "fst (anchor_pass k m) = anchor_chains (at_worlds k) (at_now k) False cs m1"
    using assms(2) by (simp add: anchor_pass_def m0_def m1_def anchor_due_def)
  have m0: "same_setup m m0" unfolding m0_def by (rule enqueue_setup)
  have m1: "same_setup m m1" using same_setup_trans [OF m0 drain_setup(1)] by (simp add: m1_def)
  have "am_queue m1 = []" unfolding m1_def
    by (rule drain_calm) (use assms(1,3) m0 in \<open>simp_all add: calm_tick_def same_setup_def\<close>)
  moreover have "list_all sink_up (am_sinks m1)" "1 \<le> am_n m1" "am_n m1 = am_n m"
    using m1 assms(3,4) by (simp_all add: same_setup_def)
  moreover have "\<forall>t. calm_world (at_worlds k t)" using assms(1) by (simp add: calm_tick_def)
  ultimately show ?thesis
    using anchor_chains_calm [of "at_worlds k" m1 cs "at_now k"] assms(5) by (simp add: pass anchor_chains_queue)
qed

subsection \<open>Loop threads\<close>

definition lone_loop :: "custody_threads \<Rightarrow> bool" where
  "lone_loop s = (distinct (map fst (ct_live s)) \<and> (\<forall>t \<in> fst ` set (ct_live s). ct_handle s = Some t) \<and>
     (ct_joining s = None \<or> ct_joining s = ct_handle s))"

lemma lone_dict_set:
  assumes "lone_loop s" and "map_of (ct_live s) t = Some p"
  shows "lone_loop (s\<lparr>ct_live := dict_set t q (ct_live s)\<rparr>)"
proof -
  have t: "ct_handle s = Some t" using assms map_of_SomeD [OF assms(2)] by (force simp: lone_loop_def)
  have "fst ` set (dict_set t q (ct_live s)) = insert t (fst ` set (ct_live s))" by (rule keys_dict_set)
  then have "\<forall>u \<in> fst ` set (dict_set t q (ct_live s)). ct_handle s = Some u"
    using assms(1) t unfolding lone_loop_def by auto
  then show ?thesis using assms(1) by (simp add: lone_loop_def distinct_dict_set)
qed

lemma thread_step_lone: "thread_step s a s' \<Longrightarrow> a \<noteq> JoinTimeout \<Longrightarrow> lone_loop s \<Longrightarrow> lone_loop s'"
proof (induction rule: thread_step.induct)
  case (start_new s)
  then have "ct_live s = []" by (cases "ct_live s") (auto simp: lone_loop_def)
  then show ?case using start_new by (simp add: lone_loop_def)
next
  case (joined s t)
  then have "ct_live s = []" by (cases "ct_live s") (auto simp: lone_loop_def)
  then show ?case by (simp add: lone_loop_def)
next
  case (loop_ends s t)
  then have "set (dict_del t (ct_live s)) \<subseteq> set (ct_live s)" "distinct (map fst (dict_del t (ct_live s)))"
    by (auto simp: lone_loop_def dict_del_def distinct_map_filter)
  then show ?case using loop_ends(4) by (auto simp: lone_loop_def)
next
  case (wait_over s t)
  then show ?case using lone_dict_set by blast
next
  case (pass_done s t)
  then show ?case using lone_dict_set by blast
qed (auto simp: lone_loop_def)

lemma threads_run_lone:
  "threads_run s acts s' \<Longrightarrow> JoinTimeout \<notin> set acts \<Longrightarrow> lone_loop s \<Longrightarrow> lone_loop s'"
  by (induction rule: threads_run.induct) (auto intro: thread_step_lone)

lemma lone_loop_live:
  assumes "lone_loop s"
  shows "length (ct_live s) \<le> 1" "ct_handle s = None \<Longrightarrow> ct_live s = []"
proof -
  have "set (map fst (ct_live s)) \<subseteq> {the (ct_handle s)}" using assms by (auto simp: lone_loop_def)
  then have "card (set (map fst (ct_live s))) \<le> 1"
    by (metis card.empty card_insert_disjoint card_mono empty_iff finite.intros One_nat_def)
  then show "length (ct_live s) \<le> 1" using assms distinct_card by (fastforce simp: lone_loop_def)
  show "ct_handle s = None \<Longrightarrow> ct_live s = []" using assms by (cases "ct_live s") (auto simp: lone_loop_def)
qed

text \<open>What a loop still does after the stop event: end, after the pass it is in.\<close>

fun phase_work :: "phase \<Rightarrow> nat" where
  "phase_work Waiting = 1"
| "phase_work Passing = 2"

definition loops_work :: "custody_threads \<Rightarrow> nat" where
  "loops_work s = sum_list (map (phase_work \<circ> snd) (ct_live s))"

fun is_loop_act :: "thread_act \<Rightarrow> bool" where
  "is_loop_act (WaitOver t) = True"
| "is_loop_act (PassDone t) = True"
| "is_loop_act (LoopEnds t) = True"
| "is_loop_act a = False"

lemma work_dict_set:
  "distinct (map fst d) \<Longrightarrow> map_of d t = Some p \<Longrightarrow>
     sum_list (map (phase_work \<circ> snd) (dict_set t q d)) + phase_work p = sum_list (map (phase_work \<circ> snd) d) + phase_work q"
  by (induction t q d rule: dict_set.induct) (auto split: if_splits)

lemma work_dict_del:
  "map_of d t = Some p \<Longrightarrow> sum_list (map (phase_work \<circ> snd) (dict_del t d)) < sum_list (map (phase_work \<circ> snd) d)"
proof (induction d)
  case (Cons x d)
  have le: "sum_list (map (phase_work \<circ> snd) (dict_del t d)) \<le> sum_list (map (phase_work \<circ> snd) d)"
    unfolding dict_del_def by (induction d) auto
  show ?case
  proof (cases "fst x = t")
    case True
    then have "dict_del t (x # d) = dict_del t d" by (simp add: dict_del_def)
    moreover have "0 < phase_work (snd x)" by (cases "snd x") auto
    ultimately show ?thesis using le by (simp add: comp_def)
  next
    case False
    then have "dict_del t (x # d) = x # dict_del t d" "map_of d t = Some p"
      using Cons.prems by (auto simp: dict_del_def split: if_splits)
    then show ?thesis using Cons.IH by simp
  qed
qed simp

lemma stopping_step:
  "thread_step s a s' \<Longrightarrow> ct_stop s \<Longrightarrow> a \<noteq> Start \<Longrightarrow> distinct (map fst (ct_live s)) \<Longrightarrow>
     ct_stop s' \<and> distinct (map fst (ct_live s')) \<and> loops_work s' + (if is_loop_act a then 1 else 0) \<le> loops_work s"
proof (induction rule: thread_step.induct)
  case (pass_done s t)
  then show ?case using work_dict_set [of "ct_live s" t Passing Waiting] by (simp add: loops_work_def distinct_dict_set)
next
  case (loop_ends s t)
  then show ?case using work_dict_del [of "ct_live s" t Waiting]
    by (auto simp: loops_work_def dict_del_def distinct_map_filter)
qed (auto simp: loops_work_def)

lemma stopping_run:
  "threads_run s acts s' \<Longrightarrow> Start \<notin> set acts \<Longrightarrow> ct_stop s \<Longrightarrow> distinct (map fst (ct_live s)) \<Longrightarrow>
     ct_stop s' \<and> distinct (map fst (ct_live s')) \<and> loops_work s' + length (filter is_loop_act acts) \<le> loops_work s"
proof (induction rule: threads_run.induct)
  case (threads_more s acts s1 a s2)
  then have IH: "ct_stop s1" "distinct (map fst (ct_live s1))" "loops_work s1 + length (filter is_loop_act acts) \<le> loops_work s"
    by auto
  from stopping_step [OF threads_more.hyps(2) IH(1) _ IH(2)] threads_more.prems(1) IH(3) show ?case by auto
qed simp

subsection \<open>Properties\<close>

text \<open>C35: the background loop returns exactly when some wait reports the stop event, at the first
  such wait, having made every pass before it; an exception a pass raises never ends it.\<close>

theorem custody_loop_ends_at_stop:
  "custody_loop stopped ticks 0 m =
     (if \<exists>n. stopped n then Some (passes ticks 0 (LEAST n. stopped n) m) else None)"
proof (cases "\<exists>n. stopped n")
  case True
  then have "stopped (LEAST n. stopped n)" by (rule LeastI_ex)
  then have stop: "custody_loop stopped ticks (LEAST n. stopped n) m' = Some m'" for m'
    by (subst custody_loop_step) simp
  have "\<forall>j. 0 \<le> j \<longrightarrow> j < (LEAST n. stopped n) \<longrightarrow> \<not> stopped j" using not_less_Least by blast
  from custody_loop_runs [OF le0 this] True show ?thesis by (simp only: stop if_True)
next
  case False
  then show ?thesis using custody_loop_returned [of stopped ticks 0 m] by (cases "custody_loop stopped ticks 0 m") auto
qed

text \<open>C33: whatever failed before, one pass with healthy sinks catches up. When the loop is stopped after
  such a pass, it returns, and nothing that was queued is lost: every sink has received, in that
  pass or an earlier one, a sealed commit with the tenant, digest and canonical text of every
  policy commitment queued before the loop or during any of its passes. In the last pass every
  sink received exactly one document for each commitment still queued (those of earlier failures
  first, then the new ones, in order), followed by one anchor of the present length and head of
  every chain that was due, and nothing else; the queue is empty, and by the manager's own count
  no tenant's chain is the anchoring distance or more ahead of its last anchor.\<close>

theorem custody_loop_catches_up:
  assumes "stopped (Suc n)" and "\<forall>i \<le> n. \<not> stopped i"
    and "calm_tick (ticks n)" and "at_chains (ticks n) = Inr cs" and "distinct (map fst cs)"
    and "list_all sink_up (am_sinks m)" and "1 \<le> am_n m"
  shows "\<exists>m' Hs mid ps. custody_loop stopped ticks 0 m = Some m' \<and> sinks_took Hs (am_sinks m) (am_sinks m') \<and>
    (\<forall>H \<in> set Hs. \<forall>q \<in> set (am_queue m) \<union> (\<Union>i \<in> {0..<Suc n}. set (at_queued (ticks i))). delivered q H) \<and>
    mid = passes ticks 0 n m \<and>
    map (\<lambda>p. (pc_tenant p, pc_head p, pc_canonical p)) ps = am_queue mid @ at_queued (ticks n) \<and>
    list_all2 (took (map commit_doc ps @ map anchor_doc (due_anchors (at_now (ticks n)) cs mid))) (am_sinks mid) (am_sinks m') \<and>
    am_queue m' = [] \<and>
    (\<forall>(t, c) \<in> set cs. int (length (ac_records c)) - ta_length (tenant_state t m') < am_n m)"
proof -
  let ?m = "passes ticks 0 n m" and ?k = "ticks n" and ?fin = "passes ticks 0 (Suc n) m"
  have conf: "same_setup m ?m" by (rule passes_setup)
  then have up: "list_all sink_up (am_sinks ?m)" "1 \<le> am_n ?m" "am_n ?m = am_n m"
    using assms(6,7) by (simp_all add: same_setup_def)
  have last: "?fin = fst (anchor_pass ?k ?m)" by (simp add: passes_def)
  have "custody_loop stopped ticks 0 m = custody_loop stopped ticks (Suc n) ?fin"
    by (rule custody_loop_runs) (use assms(2) in auto)
  also have "\<dots> = Some ?fin" using assms(1) by (subst custody_loop_step) simp
  finally have run: "custody_loop stopped ticks 0 m = Some ?fin" .
  note calm = anchor_pass_calm [OF assms(3,4) up(1,2) assms(5), folded last]
  obtain Hs where "sinks_took Hs (am_sinks m) (am_sinks ?fin)"
      "\<forall>H \<in> set Hs. \<forall>q \<in> set (am_queue m) \<union> (\<Union>i \<in> {0..<Suc n}. set (at_queued (ticks i))). delivered q H"
    using passes_keeps [where m = m and i = 0 and n = "Suc n" and ticks = ticks] calm unfolding keeps_commits_def by auto
  with run calm up(3) anchor_pass_took [OF assms(3,4) up(1) assms(5), folded last]
    queue_commits_items [of "at_now ?k" "am_queue ?m @ at_queued ?k" ?m]
  show ?thesis
    by (intro exI [of _ ?fin] exI [of _ Hs] exI [of _ ?m]
      exI [of _ "queue_commits (at_now ?k) (am_queue ?m @ at_queued ?k) ?m"] conjI) simp_all
qed

definition demo_ticks :: "nat \<Rightarrow> anchor_tick" where
  "demo_ticks i = \<lparr>at_queued = [(''t'', ''d'', ''{}'')], at_now = ''2026-01-01T00:00:00Z'',
     at_commits = (\<lambda>_ _. if i = 0 then calm\<lparr>sw_before := Some (OtherError ''git'')\<rparr> else calm), at_worlds = (\<lambda>_ _. calm),
     at_chains = (if i = 0 then Inl (RuntimeError ''dictionary changed size during iteration'') else Inr [(''t'', demo_chain)])\<rparr>"

lemma demo_first_pass:
  "am_queue (passes demo_ticks 0 1 (new_anchor_manager [GitAnchorSink ''repo'' []] 1)) = [(''t'', ''d'', ''{}'')]"
  by (simp add: passes_def anchor_pass_def demo_ticks_def new_anchor_manager_def anchor_policy_commit_def
    drain_policy_commits_def emit_policy_commit_def git_commit_def Let_def)

theorem custody_loop_catches_up_witness:
  "\<exists>m' H (mid :: anchor_manager) (ps :: policy_commit list). custody_loop (\<lambda>i. i = 2) demo_ticks 0 (new_anchor_manager [GitAnchorSink ''repo'' []] 1) = Some m' \<and>
    sinks_took [H] [GitAnchorSink ''repo'' []] (am_sinks m') \<and> delivered (''t'', ''d'', ''{}'') H \<and>
    am_queue mid = [(''t'', ''d'', ''{}'')] \<and> map pc_head ps = [''d'', ''d''] \<and>
    list_all2 (took (map commit_doc ps)) (am_sinks mid) (am_sinks m') \<and> am_queue m' = []"
proof -
  let ?man = "new_anchor_manager [GitAnchorSink ''repo'' []] 1"
  have man: "am_sinks ?man = [GitAnchorSink ''repo'' []]" "am_n ?man = 1" by (simp_all add: new_anchor_manager_def)
  have due: "due_anchors now [(''t'', demo_chain)] m = []" if "am_n m = 1" "tenant_state ''t'' m = tenant_state ''t'' ?man" for now m
    using that by (simp add: due_anchors_def chain_head_def head_of_def demo_chain_def tenant_state_def new_anchor_manager_def)
  have start: "am_n (passes demo_ticks 0 1 ?man) = 1" "tenant_state ''t'' (passes demo_ticks 0 1 ?man) = tenant_state ''t'' ?man"
    by (simp_all add: passes_def anchor_pass_def demo_ticks_def new_anchor_manager_def anchor_policy_commit_def
      drain_policy_commits_def emit_policy_commit_def git_commit_def tenant_state_def Let_def)
  have none: "due_anchors (at_now (demo_ticks 1)) [(''t'', demo_chain)] (passes demo_ticks 0 1 ?man) = []"
    by (rule due) (rule start)+
  have tick: "calm_tick (demo_ticks 1)" "at_chains (demo_ticks 1) = Inr [(''t'', demo_chain)]" "at_queued (demo_ticks 1) = [(''t'', ''d'', ''{}'')]"
    by (simp_all add: demo_ticks_def calm_tick_def calm_world_def calm_def)
  have "(2::nat) = Suc 1" "\<forall>i \<le> (1::nat). i \<noteq> 2" "distinct (map fst [(''t'', demo_chain)])"
      "list_all sink_up (am_sinks ?man)" "1 \<le> am_n ?man" by (auto simp: man)
  from custody_loop_catches_up [of "\<lambda>i. i = 2" 1 demo_ticks, OF _ this(2) tick(1,2) this(3-5)]
  obtain m' Hs mid ps where
    o: "custody_loop (\<lambda>i. i = 2) demo_ticks 0 ?man = Some m'" "sinks_took Hs (am_sinks ?man) (am_sinks m')"
      "\<forall>H \<in> set Hs. \<forall>q \<in> set (am_queue ?man) \<union> (\<Union>i \<in> {0..<Suc 1}. set (at_queued (demo_ticks i))). delivered q H"
      "mid = passes demo_ticks 0 1 ?man"
      "map (\<lambda>p. (pc_tenant p, pc_head p, pc_canonical p)) ps = am_queue mid @ at_queued (demo_ticks 1)"
      "list_all2 (took (map commit_doc ps @ map anchor_doc (due_anchors (at_now (demo_ticks 1)) [(''t'', demo_chain)] mid)))
        (am_sinks mid) (am_sinks m')" "am_queue m' = []"
    by (auto simp del: upt_Suc)
  have "map pc_head ps = [''d'', ''d'']"
    using arg_cong [OF o(5) [unfolded o(4) demo_first_pass tick(3)], of "map (\<lambda>(t, d, c). d)"] by (simp add: comp_def)
  moreover have "list_all2 (took (map commit_doc ps)) (am_sinks mid) (am_sinks m')"
    using o(6) unfolding o(4) none by simp
  moreover have "am_queue mid = [(''t'', ''d'', ''{}'')]" unfolding o(4) by (rule demo_first_pass)
  moreover obtain H where H: "Hs = [H]"
    using o(2) unfolding man by (cases "(Hs, [GitAnchorSink ''repo'' []], am_sinks m')" rule: sinks_took.cases) auto
  moreover have "delivered (''t'', ''d'', ''{}'') H"
    using o(3) tick(3) unfolding H by (intro bspec [OF bspec [OF o(3) [unfolded H]]] UnI2 UN_I [of 1]) simp_all
  moreover have "sinks_took [H] [GitAnchorSink ''repo'' []] (am_sinks m')" using o(2) unfolding H man .
  ultimately show ?thesis using o(1,7) by (intro exI conjI)
qed

text \<open>C36: as long as no \<open>stop\<close> gave up waiting, at most one loop thread exists and none once
  \<open>stop\<close> has returned; and from the moment the stop event is set, the loops take at most two more
  steps (the end of the pass in progress and the exit) before the next \<open>start\<close>.\<close>

theorem one_anchor_loop:
  assumes "threads_run idle_threads acts s" and "JoinTimeout \<notin> set acts"
  shows "length (ct_live s) \<le> 1 \<and> (ct_handle s = None \<longrightarrow> ct_live s = []) \<and>
    (\<forall>acts' s'. ct_stop s \<longrightarrow> threads_run s acts' s' \<longrightarrow> Start \<notin> set acts' \<longrightarrow> length (filter is_loop_act acts') \<le> 2)"
proof -
  have lone: "lone_loop s"
    by (rule threads_run_lone [OF assms]) (simp add: lone_loop_def idle_threads_def)
  have work: "loops_work s \<le> 2"
  proof (cases "ct_live s")
    case (Cons p ps)
    then have "ct_live s = [p]" using lone_loop_live(1) [OF lone] by simp
    then show ?thesis by (cases "snd p") (simp_all add: loops_work_def)
  qed (simp add: loops_work_def)
  have "distinct (map fst (ct_live s))" using lone by (simp add: lone_loop_def)
  then show ?thesis using lone_loop_live [OF lone] stopping_run work by fastforce
qed

lemma demo_stop:
  "threads_run idle_threads [Start, WaitOver 0, StopBegin]
     \<lparr>ct_handle = Some 0, ct_stop = True, ct_joining = Some 0, ct_live = [(0, Passing)], ct_next = 1\<rparr>"
proof -
  have "threads_run idle_threads [] idle_threads" by (rule threads_idle)
  from threads_more [OF this start_new] have
    "threads_run idle_threads [Start] \<lparr>ct_handle = Some 0, ct_stop = False, ct_joining = None, ct_live = [(0, Waiting)], ct_next = 1\<rparr>"
    by (simp add: idle_threads_def)
  from threads_more [OF this wait_over [of _ 0]] have
    "threads_run idle_threads [Start, WaitOver 0] \<lparr>ct_handle = Some 0, ct_stop = False, ct_joining = None, ct_live = [(0, Passing)], ct_next = 1\<rparr>"
    by simp
  from threads_more [OF this stop_begin] show ?thesis by simp
qed

theorem one_anchor_loop_witness:
  "\<exists>s. threads_run idle_threads [Start, WaitOver 0, StopBegin] s \<and> ct_stop s \<and> length (ct_live s) \<le> 1 \<and>
     (\<forall>acts' s'. threads_run s acts' s' \<longrightarrow> Start \<notin> set acts' \<longrightarrow> length (filter is_loop_act acts') \<le> 2)"
  using one_anchor_loop [OF demo_stop] demo_stop by fastforce

text \<open>
  \<open>stop\<close> forgets a thread it waited five seconds for. The next \<open>start\<close> clears the event the
  thread is still to see, and two loops run from then on.
\<close>

lemma timeout_leaves_two_loops:
  "\<exists>s. threads_run idle_threads [Start, WaitOver 0, StopBegin, JoinTimeout, Start, PassDone 0] s \<and>
     ct_live s = [(1, Waiting), (0, Waiting)] \<and> \<not> ct_stop s"
proof -
  from threads_more [OF demo_stop join_timeout] have
    "threads_run idle_threads [Start, WaitOver 0, StopBegin, JoinTimeout]
      \<lparr>ct_handle = None, ct_stop = True, ct_joining = None, ct_live = [(0, Passing)], ct_next = 1\<rparr>" by simp
  from threads_more [OF this start_new] have
    "threads_run idle_threads [Start, WaitOver 0, StopBegin, JoinTimeout, Start]
      \<lparr>ct_handle = Some 1, ct_stop = False, ct_joining = None, ct_live = [(1, Waiting), (0, Passing)], ct_next = 2\<rparr>"
    by (simp add: numeral_2_eq_2)
  from threads_more [OF this pass_done [of _ 0]] show ?thesis by fastforce
qed

text \<open>An exception of the pass leaves no trace in what \<open>health\<close> reports.\<close>

lemma failed_pass_is_silent:
  "at_chains k = Inl e \<Longrightarrow> at_queued k = [] \<Longrightarrow> am_queue m = [] \<Longrightarrow> anchor_pass k m = (m, Inl e)"
  by (simp add: anchor_pass_def drain_policy_commits_def)

end
