(* ===== verification/Audit_Schema.thy ===== *)
theory Audit_Schema
  imports Audit_Store
begin

text \<open>
  The table behind a durable chain, as the SQL backends of \<open>src/custos/audit.py\<close> create and migrate
  it: columns, rows as cells, and the indexes in force. The audit store of the other theories is
  the list of records the rows hold. A store written before the policy citation, the tenant and
  the binding version existed is opened by adding columns with their defaults.
\<close>

subsection \<open>Tables\<close>

datatype cell = SqlNull | SqlText string | SqlReal int | SqlInt int

type_synonym sql_row = "(string \<times> cell) list"

record audit_table =
  at_columns :: "string list"
  at_rows :: "sql_row list"
  at_indexes :: "string list"

definition base_columns :: "string list" where
  "base_columns = [''timestamp'', ''client_id'', ''action'', ''triggered_rule'', ''reason'', ''content_hash'',
     ''record_hash'', ''previous_hash'', ''trace_id'']"

text \<open>The columns introduced after the first release, with the defaults of their declarations.\<close>

definition added_columns :: "(string \<times> cell) list" where
  "added_columns = [(''policy_digest'', SqlNull), (''tenant_id'', SqlNull), (''binding_version'', SqlInt 0),
     (''commitment'', SqlText ''none'')]"

definition OLD_INDEX :: string where "OLD_INDEX = ''idx_audit_previous_hash''"
definition TENANT_INDEX :: string where "TENANT_INDEX = ''idx_audit_tenant_previous_hash''"

lemma index_names [simp]: "OLD_INDEX \<noteq> TENANT_INDEX" "TENANT_INDEX \<noteq> OLD_INDEX"
  by (simp_all add: OLD_INDEX_def TENANT_INDEX_def)

definition cell_of :: "sql_row \<Rightarrow> string \<Rightarrow> cell" where
  "cell_of r k = (case map_of r k of Some c \<Rightarrow> c | None \<Rightarrow> SqlNull)"

fun cell_text :: "cell \<Rightarrow> string option" where
  "cell_text (SqlText s) = Some s"
| "cell_text c = None"

fun cell_int :: "cell \<Rightarrow> int" where
  "cell_int (SqlReal i) = i"
| "cell_int (SqlInt i) = i"
| "cell_int c = 0"

definition text_or :: "string \<Rightarrow> cell \<Rightarrow> string" where
  "text_or d c = (case cell_text c of Some s \<Rightarrow> s | None \<Rightarrow> d)"

text \<open>The record a row holds: \<open>r[11] or 0\<close> makes a missing version 0; \<open>load\_row\<close> names a missing
  commitment.\<close>

definition row_record :: "sql_row \<Rightarrow> audit_record" where
  "row_record r = \<lparr>timestamp = cell_int (cell_of r ''timestamp''), client_id = text_or [] (cell_of r ''client_id''),
     ar_action = text_or [] (cell_of r ''action''), ar_rule = cell_text (cell_of r ''triggered_rule''),
     ar_reason = text_or [] (cell_of r ''reason''), content_hash = text_or [] (cell_of r ''content_hash''),
     record_hash = text_or [] (cell_of r ''record_hash''), previous_hash = text_or [] (cell_of r ''previous_hash''),
     trace_id = cell_text (cell_of r ''trace_id''), ar_policy_digest = cell_text (cell_of r ''policy_digest''),
     tenant_id = cell_text (cell_of r ''tenant_id''), binding_version = cell_int (cell_of r ''binding_version''),
     commitment = text_or [] (cell_of r ''commitment'')\<rparr>"

fun opt_cell :: "string option \<Rightarrow> cell" where
  "opt_cell None = SqlNull"
| "opt_cell (Some s) = SqlText s"

text \<open>The values an insert binds.\<close>

definition record_row :: "audit_record \<Rightarrow> sql_row" where
  "record_row r = [(''timestamp'', SqlReal (timestamp r)), (''client_id'', SqlText (client_id r)),
     (''action'', SqlText (ar_action r)), (''triggered_rule'', opt_cell (ar_rule r)), (''reason'', SqlText (ar_reason r)),
     (''content_hash'', SqlText (content_hash r)), (''record_hash'', SqlText (record_hash r)),
     (''previous_hash'', SqlText (previous_hash r)), (''trace_id'', opt_cell (trace_id r)),
     (''policy_digest'', opt_cell (ar_policy_digest r)), (''tenant_id'', opt_cell (tenant_id r)),
     (''binding_version'', SqlInt (binding_version r)), (''commitment'', SqlText (commitment r))]"

definition row_key :: "sql_row \<Rightarrow> string \<times> string" where
  "row_key r = (text_or [] (cell_of r ''tenant_id''), text_or [] (cell_of r ''previous_hash''))"

definition table_records :: "audit_table \<Rightarrow> audit_store" where
  "table_records t = map row_record (at_rows t)"

subsection \<open>Creation and migration\<close>

definition created_table :: audit_table where
  "created_table = \<lparr>at_columns = base_columns @ map fst added_columns, at_rows = [], at_indexes = []\<rparr>"

definition add_column :: "string \<times> cell \<Rightarrow> audit_table \<Rightarrow> audit_table" where
  "add_column cd t = (if fst cd \<in> set (at_columns t) then t
     else t\<lparr>at_columns := at_columns t @ [fst cd], at_rows := map (\<lambda>r. r @ [cd]) (at_rows t)\<rparr>)"

definition migrate :: "audit_table \<Rightarrow> audit_table" where
  "migrate t = fold add_column added_columns t"

definition drop_index :: "string \<Rightarrow> audit_table \<Rightarrow> audit_table" where
  "drop_index n t = t\<lparr>at_indexes := filter (\<lambda>m. m \<noteq> n) (at_indexes t)\<rparr>"

definition create_tenant_index :: "audit_table \<Rightarrow> audit_table \<times> bool" where
  "create_tenant_index t =
     (if TENANT_INDEX \<in> set (at_indexes t) then (t, True)
      else if distinct (map row_key (at_rows t)) then (t\<lparr>at_indexes := at_indexes t @ [TENANT_INDEX]\<rparr>, True)
      else (t, False))"

text \<open>
  \<open>\_init\<close> of the two backends on the table of the store, if it has one. sqlite3 commits each DDL
  statement on its own, so what was done before a refusal stays; PostgreSQL runs all of it in one
  transaction.
\<close>

definition sqlite_init :: "audit_table option \<Rightarrow> audit_table \<times> unit result" where
  "sqlite_init old =
     (let t = drop_index OLD_INDEX (migrate (case old of None \<Rightarrow> created_table | Some t \<Rightarrow> t)) in
      case create_tenant_index t of
        (t', True) \<Rightarrow> (t', Inr ())
      | (t', False) \<Rightarrow> (t', Inl forked_store_exn))"

definition pg_init :: "audit_table option \<Rightarrow> audit_table option \<times> unit result" where
  "pg_init old =
     (let t = drop_index OLD_INDEX (migrate (case old of None \<Rightarrow> created_table | Some t \<Rightarrow> t)) in
      case create_tenant_index t of
        (t', True) \<Rightarrow> (Some t', Inr ())
      | (t', False) \<Rightarrow> (old, Inl (IntegrityError ''could not create unique index'')))"

definition table_insert :: "audit_record \<Rightarrow> audit_table \<Rightarrow> audit_table \<times> bool" where
  "table_insert r t =
     (if TENANT_INDEX \<in> set (at_indexes t) \<and> row_key (record_row r) \<in> set (map row_key (at_rows t)) then (t, False)
      else (t\<lparr>at_rows := at_rows t @ [record_row r]\<rparr>, True))"

definition table_select :: "string option \<Rightarrow> audit_table \<Rightarrow> audit_record list" where
  "table_select tenant t = map (load_row \<circ> row_record)
     (case tenant of None \<Rightarrow> at_rows t
      | Some u \<Rightarrow> filter (\<lambda>r. text_or [] (cell_of r ''tenant_id'') = u) (at_rows t))"

text \<open>The advisory lock under which PostgreSQL creates the schema.\<close>

definition signed_bytes :: "string \<Rightarrow> int" where
  "signed_bytes bs = (let n = foldl (\<lambda>n c. 256 * n + int (code c)) 0 bs in
     if n \<ge> 2 ^ (8 * length bs - 1) then n - 2 ^ (8 * length bs) else n)"

definition schema_lock_key :: "string \<Rightarrow> int" where
  "schema_lock_key namespace = signed_bytes (take 8 (sha256_digest (utf8 (''custos.schema:'' @ namespace))))"

subsection \<open>Cells and records\<close>

lemma cell_of_simps [simp]:
  "cell_of [] k = SqlNull" "cell_of ((k', c) # r) k = (if k' = k then c else cell_of r k)"
  by (simp_all add: cell_of_def)

lemma cell_text_opt [simp]: "cell_text (opt_cell x) = x"
  by (cases x) simp_all

lemma text_or_simps [simp]: "text_or d (SqlText s) = s" "text_or d (opt_cell None) = d" "text_or d SqlNull = d"
  by (simp_all add: text_or_def)

lemma row_record_row [simp]: "row_record (record_row r) = r"
  by (simp add: row_record_def record_row_def)

lemma text_or_opt: "text_or d (opt_cell x) = (case x of None \<Rightarrow> d | Some s \<Rightarrow> s)"
  by (cases x) simp_all

lemma row_key_index: "row_key r = index_key (row_record r)"
  by (auto simp: row_key_def index_key_def row_record_def scope_of_def text_or_def split: option.split)

lemma row_key_record [simp]: "row_key (record_row r) = index_key r"
  by (simp add: row_key_index)

lemma cell_of_missing: "k \<notin> fst ` set r \<Longrightarrow> cell_of r k = SqlNull"
  by (induction r) auto

lemma cell_of_snoc:
  "k' \<notin> fst ` set r \<Longrightarrow> cell_of (r @ [(k', c)]) k = (if k = k' then c else cell_of r k)"
  by (induction r) (auto simp: cell_of_missing)

subsection \<open>Migration\<close>

abbreviation loaded :: "sql_row \<Rightarrow> audit_record" where "loaded r \<equiv> load_row (row_record r)"

lemma loaded_add_column:
  assumes "cd \<in> set added_columns" and "fst cd \<notin> fst ` set r"
  shows "loaded (r @ [cd]) = loaded r" "row_key (r @ [cd]) = row_key r"
proof -
  obtain k c where cd: "cd = (k, c)" by (cases cd)
  have null: "cell_of r k = SqlNull" using assms(2) by (simp add: cell_of_missing cd)
  have cells: "cell_of (r @ [cd]) k' = (if k' = k then c else cell_of r k')" for k'
    using cell_of_snoc [of k r c k'] assms(2) by (simp add: cd)
  consider "k = ''policy_digest''" "c = SqlNull" | "k = ''tenant_id''" "c = SqlNull"
    | "k = ''binding_version''" "c = SqlInt 0" | "k = ''commitment''" "c = SqlText ''none''"
    using assms(1) by (auto simp: added_columns_def cd)
  then show "loaded (r @ [cd]) = loaded r"
    by cases (use null in \<open>simp_all add: row_record_def cells load_row_def commitment_defs\<close>)
  from \<open>cd \<in> _\<close> have "k = ''tenant_id'' \<longrightarrow> c = SqlNull" "k \<noteq> ''previous_hash''" by (auto simp: added_columns_def cd)
  then show "row_key (r @ [cd]) = row_key r" using null by (auto simp: row_key_def cells)
qed

text \<open>Every cell belongs to a column, and each index in force is respected.\<close>

definition own_cells :: "audit_table \<Rightarrow> bool" where
  "own_cells t = (\<forall>r \<in> set (at_rows t). fst ` set r \<subseteq> set (at_columns t))"

definition valid_table :: "audit_table \<Rightarrow> bool" where
  "valid_table t = (own_cells t \<and> set base_columns \<subseteq> set (at_columns t) \<and>
     (TENANT_INDEX \<in> set (at_indexes t) \<longrightarrow> distinct (map row_key (at_rows t))) \<and>
     (OLD_INDEX \<in> set (at_indexes t) \<longrightarrow> distinct (map (\<lambda>r. snd (row_key r)) (at_rows t))))"

definition same_rows :: "audit_table \<Rightarrow> audit_table \<Rightarrow> bool" where
  "same_rows t t' = (map loaded (at_rows t') = map loaded (at_rows t) \<and> map row_key (at_rows t') = map row_key (at_rows t) \<and>
     at_indexes t' = at_indexes t)"

lemma add_column_table:
  assumes "cd \<in> set added_columns" and "own_cells t"
  shows "own_cells (add_column cd t) \<and>
    same_rows t (add_column cd t) \<and> set (at_columns (add_column cd t)) = insert (fst cd) (set (at_columns t))"
proof (cases "fst cd \<in> set (at_columns t)")
  case False
  have "fst cd \<notin> fst ` set r" if "r \<in> set (at_rows t)" for r
    using that assms(2) False by (auto simp: own_cells_def)
  then have "\<forall>r \<in> set (at_rows t). loaded (r @ [cd]) = loaded r \<and> row_key (r @ [cd]) = row_key r"
    using loaded_add_column [OF assms(1)] by blast
  then show ?thesis using False assms(2) by (auto simp: add_column_def same_rows_def comp_def own_cells_def)
qed (use assms(2) in \<open>auto simp: add_column_def same_rows_def\<close>)

lemma fold_add_column:
  assumes "set cds \<subseteq> set added_columns" and "own_cells t"
  shows "own_cells (fold add_column cds t) \<and>
    same_rows t (fold add_column cds t) \<and> set (at_columns (fold add_column cds t)) = fst ` set cds \<union> set (at_columns t)"
  using assms
proof (induction cds arbitrary: t)
  case (Cons cd cds)
  have one: "own_cells (add_column cd t)"
    "same_rows t (add_column cd t)" "set (at_columns (add_column cd t)) = insert (fst cd) (set (at_columns t))"
    using add_column_table [of cd t] Cons.prems by auto
  show ?case using Cons.IH [OF _ one(1)] Cons.prems(1) one(2,3) by (auto simp: same_rows_def)
qed (simp add: same_rows_def)

lemma migrate_table:
  assumes "valid_table t"
  shows "valid_table (migrate t)" "same_rows t (migrate t)" "fst ` set added_columns \<subseteq> set (at_columns (migrate t))"
proof -
  have m: "own_cells (migrate t)" "same_rows t (migrate t)"
    "set (at_columns (migrate t)) = fst ` set added_columns \<union> set (at_columns t)"
    using fold_add_column [of added_columns t] assms by (auto simp: migrate_def valid_table_def)
  moreover have "map (\<lambda>r. snd (row_key r)) (at_rows (migrate t)) = map (\<lambda>r. snd (row_key r)) (at_rows t)"
  proof -
    have "map snd (map row_key (at_rows (migrate t))) = map snd (map row_key (at_rows t))"
      using m(2) by (simp only: same_rows_def)
    then show ?thesis by (simp add: comp_def)
  qed
  ultimately show "valid_table (migrate t)" "same_rows t (migrate t)" "fst ` set added_columns \<subseteq> set (at_columns (migrate t))"
    using assms by (auto simp: valid_table_def same_rows_def)
qed

text \<open>The index of the first release is stronger than the one that replaces it.\<close>

lemma old_index_stronger: "distinct (map (\<lambda>r. snd (row_key r)) rs) \<Longrightarrow> distinct (map row_key rs)"
  by (auto simp: distinct_map inj_on_def)

subsection \<open>Legacy chains\<close>

text \<open>The preimage before citations, tenants and binding versions.\<close>

definition legacy_hash :: "audit_record \<Rightarrow> string \<Rightarrow> string" where
  "legacy_hash r prev = sha256_text (preimage_text
     [(''timestamp'', JFloat (timestamp r)), (''client_id'', JStr (client_id r)),
      (''action'', JStr (ar_action r)), (''triggered_rule'', opt_json (ar_rule r)),
      (''reason'', JStr (ar_reason r)), (''content_hash'', JStr (content_hash r)),
      (''previous_hash'', JStr prev)])"

fun legacy_linked :: "string \<Rightarrow> audit_record list \<Rightarrow> bool" where
  "legacy_linked prev [] = True"
| "legacy_linked prev (r # rs) =
     (previous_hash r = prev \<and> record_hash r = legacy_hash r prev \<and> legacy_linked (record_hash r) rs)"

definition legacy_columns :: "string list \<Rightarrow> bool" where
  "legacy_columns cols = (''policy_digest'' \<notin> set cols \<and> ''tenant_id'' \<notin> set cols \<and> ''binding_version'' \<notin> set cols)"

lemma legacy_record:
  assumes "legacy_columns (map fst r)"
  shows "ar_policy_digest (row_record r) = None" "tenant_id (row_record r) = None" "binding_version (row_record r) = 0"
  using assms by (auto simp: legacy_columns_def row_record_def cell_of_missing)

lemma legacy_compute:
  assumes "legacy_columns (map fst r)"
  shows "compute_record_hash (loaded r) prev = Inr (legacy_hash (row_record r) prev)"
  using legacy_record [OF assms]
  by (simp add: compute_record_hash_def preimage_fields_def legacy_hash_def load_row_def if_given_def given_def RECORD_BINDING_CURRENT_def)

lemma loaded_hashes: "record_hash (loaded r) = record_hash (row_record r)" "previous_hash (loaded r) = previous_hash (row_record r)"
  by (simp_all add: load_row_def)

lemma legacy_well_linked:
  "\<forall>r \<in> set rs. legacy_columns (map fst r) \<Longrightarrow>
     well_linked prev (map loaded rs) \<longleftrightarrow> legacy_linked prev (map row_record rs)"
  by (induction rs arbitrary: prev) (auto simp: legacy_compute loaded_hashes)

subsection \<open>Opening\<close>

lemma create_tenant_index_cases:
  assumes "valid_table t"
  shows "create_tenant_index t = (if distinct (map row_key (at_rows t))
     then (t\<lparr>at_indexes := at_indexes t @ (if TENANT_INDEX \<in> set (at_indexes t) then [] else [TENANT_INDEX])\<rparr>, True)
     else (t, False))"
  using assms by (auto simp: create_tenant_index_def valid_table_def)

lemma index_keys_rows: "map index_key (table_records t) = map row_key (at_rows t)"
  by (simp add: table_records_def row_key_index)

lemma drop_index_valid: "valid_table t \<Longrightarrow> valid_table (drop_index n t)"
  by (auto simp: valid_table_def drop_index_def own_cells_def)

definition in_force :: "audit_table \<Rightarrow> bool" where
  "in_force t = (valid_table t \<and> TENANT_INDEX \<in> set (at_indexes t) \<and> OLD_INDEX \<notin> set (at_indexes t) \<and>
     fst ` set added_columns \<subseteq> set (at_columns t))"

lemma sqlite_init_table:
  assumes "valid_table t" and "sqlite_init (Some t) = (t', res)"
  shows "map loaded (at_rows t') = map loaded (at_rows t) \<and> valid_table t' \<and>
    (res = Inr () \<longleftrightarrow> distinct (map row_key (at_rows t))) \<and> (res = Inr () \<or> res = Inl forked_store_exn) \<and> (res = Inr () \<longrightarrow> in_force t')"
proof -
  let ?t = "drop_index OLD_INDEX (migrate t)"
  have m: "valid_table ?t" "same_rows t (migrate t)" "fst ` set added_columns \<subseteq> set (at_columns (migrate t))"
    using migrate_table [OF assms(1)] drop_index_valid by auto
  have rows: "at_rows ?t = at_rows (migrate t)" "at_columns ?t = at_columns (migrate t)" by (simp_all add: drop_index_def)
  have keys: "distinct (map row_key (at_rows ?t)) = distinct (map row_key (at_rows t))" using m(2) rows by (simp add: same_rows_def)
  show ?thesis
  proof (cases "distinct (map row_key (at_rows t))")
    case True
    then have "t' = ?t\<lparr>at_indexes := at_indexes ?t @ (if TENANT_INDEX \<in> set (at_indexes ?t) then [] else [TENANT_INDEX])\<rparr>" "res = Inr ()"
      using assms(2) keys by (simp_all add: sqlite_init_def Let_def create_tenant_index_cases [OF m(1)])
    moreover have "OLD_INDEX \<notin> set (at_indexes ?t)" by (simp add: drop_index_def)
    ultimately show ?thesis using True m rows keys by (auto simp: same_rows_def valid_table_def in_force_def own_cells_def)
  next
    case False
    then have "t' = ?t" "res = Inl forked_store_exn"
      using assms(2) keys by (simp_all add: sqlite_init_def Let_def create_tenant_index_cases [OF m(1)])
    then show ?thesis using False m rows by (auto simp: same_rows_def)
  qed
qed

lemma pg_init_sqlite:
  "pg_init old = (case sqlite_init old of (t, Inr u) \<Rightarrow> (Some t, Inr ())
     | (t, Inl e) \<Rightarrow> (old, Inl (IntegrityError ''could not create unique index'')))"
  by (auto simp: pg_init_def sqlite_init_def Let_def split: prod.splits bool.splits)

lemma index_distinct_open:
  "(open_backend (SQLiteBackend u) (table_records t) = Inr ()) = distinct (map row_key (at_rows t))"
  by (simp add: index_keys_rows [symmetric])

lemma in_force_index: "in_force t \<Longrightarrow> row_key r \<in> set (map row_key (at_rows t)) \<longleftrightarrow> row_key r \<in> set (map index_key (table_records t))"
  by (simp only: index_keys_rows)

lemma record_row_columns: "fst ` set (record_row r) = set base_columns \<union> fst ` set added_columns"
  by (auto simp: record_row_def base_columns_def added_columns_def)

lemma foldl_bytes: "0 \<le> n \<Longrightarrow> 0 \<le> foldl (\<lambda>n c. 256 * n + int (code c)) n bs \<and>
    foldl (\<lambda>n c. 256 * n + int (code c)) n bs < (n + 1) * 256 ^ length bs"
proof (induction bs arbitrary: n)
  case (Cons c bs)
  have c: "int (code c) \<le> 255" using code_lt_256 [of c] by linarith
  let ?n = "256 * n + int (code c)"
  have "?n + 1 \<le> (n + 1) * 256" using c by (simp add: algebra_simps)
  then have "(?n + 1) * 256 ^ length bs \<le> (n + 1) * 256 * 256 ^ length bs" by (intro mult_right_mono) auto
  also have "(n + 1) * 256 * 256 ^ length bs = (n + 1) * 256 ^ length (c # bs)" by simp
  finally have "(?n + 1) * 256 ^ length bs \<le> (n + 1) * 256 ^ length (c # bs)" .
  moreover have "0 \<le> ?n" using Cons.prems by simp
  ultimately show ?case using Cons.IH [of ?n] unfolding foldl_Cons by (meson order.strict_trans2)
qed simp

text \<open>The lock key is a \<open>bigint\<close>.\<close>

lemma signed_bytes_range:
  assumes "length bs = 8"
  shows "- (2 ^ 63) \<le> signed_bytes bs" "signed_bytes bs < 2 ^ 63"
  using foldl_bytes [of 0 bs] assms by (simp_all add: signed_bytes_def Let_def)

lemma schema_lock_key_range: "- (2 ^ 63) \<le> schema_lock_key ns" "schema_lock_key ns < 2 ^ 63"
  unfolding schema_lock_key_def
  by (rule signed_bytes_range, simp add: sha256_digest_def split: prod.split)+

subsection \<open>The table as the storage of chains\<close>

text \<open>An insert on a table whose schema is in force provides what a chain needs of its store, so the
  facts of \<open>chain\_storage\<close> hold of the table itself.\<close>

definition table_save :: "unit \<Rightarrow> audit_record \<Rightarrow> audit_table \<Rightarrow> audit_table \<times> unit result" where
  "table_save f r t =
     (if in_force t then (case table_insert r t of (t', ok) \<Rightarrow> (t', if ok then Inr () else Inl fork_exn))
      else (t, Inl (OperationalError ''no such column'')))"

lemma table_select_tenant: "table_select (Some u) t = scoped_rows u (table_records t)"
  by (simp add: table_select_def table_records_def scoped_rows_def filter_map comp_def scope_of_def row_record_def text_or_def
      cong: option.case_cong)

lemma table_save_Inr:
  assumes "snd (table_save f r t) = Inr u"
  shows "table_records (fst (table_save f r t)) = table_records t @ [r]" "index_key r \<notin> set (map index_key (table_records t))"
proof -
  have "in_force t" "index_key r \<notin> set (map row_key (at_rows t))"
    using assms by (auto simp: table_save_def table_insert_def in_force_def split: if_splits)
  then show "table_records (fst (table_save f r t)) = table_records t @ [r]"
    by (simp add: table_save_def table_insert_def table_records_def)
  show "index_key r \<notin> set (map index_key (table_records t))"
    unfolding index_keys_rows by (rule \<open>index_key r \<notin> _\<close>)
qed

interpretation table_chain: chain_storage table_save "\<lambda>u. table_select (Some u)"
proof
  fix f r s t and u :: unit and e
  show "snd (table_save f r s) = Inr u \<Longrightarrow> commitment r \<noteq> [] \<Longrightarrow>
      table_select (Some t) (fst (table_save f r s)) = (if scope_of r = t then table_select (Some t) s @ [r] else table_select (Some t) s)"
    using table_save_Inr(1) [of f r s u] by (auto simp: table_select_tenant scoped_rows_snoc)
  show "snd (table_save f r s) = Inr u \<Longrightarrow> previous_hash r \<notin> previous_hash ` set (table_select (Some (scope_of r)) s)"
    using table_save_Inr(2) [of f r s u] scoped_rows_claimed by (auto simp: table_select_tenant)
  show "snd (table_save f r s) = Inl e \<Longrightarrow> fst (table_save f r s) = s"
    by (auto simp: table_save_def table_insert_def split: if_splits)
qed

subsection \<open>Properties\<close>

text \<open>C18: opening a store keeps the evidence. Whatever columns it lacks, the table is left with the
  same records, in the same order, as they load; the open succeeds exactly when no predecessor is
  claimed twice within a tenant, as the abstract store demands, and always for a store the first
  release kept its unique index on; the index of the current release is then in force; the two
  engines agree, except that PostgreSQL leaves a refused table untouched; and a chain written
  before citations, tenants and binding versions existed verifies exactly when it was linked by
  the hashes of that release.\<close>

theorem opening_keeps_evidence:
  assumes "valid_table t" and "sqlite_init (Some t) = (t', res)"
  shows "map load_row (table_records t') = map load_row (table_records t) \<and>
    (res = Inr () \<longleftrightarrow> open_backend (SQLiteBackend u) (table_records t) = Inr ()) \<and>
    (OLD_INDEX \<in> set (at_indexes t) \<longrightarrow> res = Inr ()) \<and>
    (if res = Inr () then in_force t' \<and> pg_init (Some t) = (Some t', Inr ())
     else pg_init (Some t) = (Some t, Inl (IntegrityError ''could not create unique index''))) \<and>
    (legacy_columns (at_columns t) \<longrightarrow>
      ((\<exists>m. verify_records (table_select None t') = Inr (True, m)) \<longleftrightarrow> legacy_linked GENESIS_HASH (table_records t)))"
proof -
  note opened = sqlite_init_table [OF assms]
  have rows: "map load_row (table_records t') = map load_row (table_records t)"
    using opened by (simp add: table_records_def comp_def)
  have res: "res = Inr () \<longleftrightarrow> open_backend (SQLiteBackend u) (table_records t) = Inr ()"
    unfolding index_distinct_open using opened by simp
  have old: "OLD_INDEX \<in> set (at_indexes t) \<longrightarrow> res = Inr ()"
    using opened assms(1) old_index_stronger by (simp add: valid_table_def)
  have "\<forall>r \<in> set (at_rows t). legacy_columns (map fst r)" if "legacy_columns (at_columns t)"
    using that assms(1) by (auto simp: legacy_columns_def valid_table_def own_cells_def)
  then have legacy: "legacy_columns (at_columns t) \<longrightarrow>
      ((\<exists>m. verify_records (table_select None t') = Inr (True, m)) \<longleftrightarrow> legacy_linked GENESIS_HASH (table_records t))"
    using opened legacy_well_linked [of "at_rows t" GENESIS_HASH]
    by (simp add: verify_records_ok table_select_def table_records_def comp_def)
  show ?thesis using rows res old legacy opened by (auto simp: pg_init_sqlite assms(2))
qed

definition demo_legacy :: audit_table where
  "demo_legacy = \<lparr>at_columns = base_columns,
     at_rows = [zip base_columns [SqlReal 1, SqlText ''c'', SqlText ''ALLOW'', SqlNull, SqlText ''ok'', SqlText ''ch'', SqlText ''rh'',
       SqlText ''ph'', SqlNull]],
     at_indexes = [OLD_INDEX]\<rparr>"

theorem opening_keeps_evidence_witness:
  "snd (sqlite_init (Some demo_legacy)) = Inr () \<and> in_force (fst (sqlite_init (Some demo_legacy))) \<and>
   map load_row (table_records (fst (sqlite_init (Some demo_legacy)))) = map load_row (table_records demo_legacy)"
proof -
  have "valid_table demo_legacy"
    by (auto simp: valid_table_def own_cells_def demo_legacy_def base_columns_def)
  from opening_keeps_evidence [OF this prod.collapse [symmetric]] show ?thesis
    by (auto simp: demo_legacy_def split: if_splits)
qed

text \<open>C37: the abstract store is the table. On a table whose schema is in force, both engines' loads are
  the select, an insert is the store's save (the unique index is the refusal of a fork), and the
  schema stays in force.\<close>

theorem table_refines_store:
  assumes "in_force t"
  shows "load_all (SQLiteBackend u) (table_records t) = table_select u t \<and>
    load_all (PostgreSQLBackend u) (table_records t) = table_select u t \<and>
    backend_save (SQLiteBackend u) None r (table_records t) =
      (table_records (fst (table_insert r t)), if snd (table_insert r t) then Inr () else Inl fork_exn) \<and>
    backend_save (PostgreSQLBackend u) None r (table_records t) =
      (table_records (fst (table_insert r t)), if snd (table_insert r t) then Inr () else Inl fork_exn) \<and>
    in_force (fst (table_insert r t))"
proof -
  have load: "table_select u t = (case u of Some v \<Rightarrow> scoped_rows v (table_records t) | None \<Rightarrow> map load_row (table_records t))"
    by (auto simp: table_select_def table_records_def scoped_rows_def filter_map comp_def scope_of_def row_record_def text_or_def
        split: option.splits intro!: filter_cong)
  have claimed: "index_key r \<in> set (map index_key (table_records t)) \<longleftrightarrow> index_key r \<in> set (map row_key (at_rows t))"
    by (simp only: index_keys_rows)
  have tenant: "TENANT_INDEX \<in> set (at_indexes t)" using assms by (simp add: in_force_def)
  show ?thesis
  proof (cases "index_key r \<in> set (map row_key (at_rows t))")
    case True
    then have "table_insert r t = (t, False)" using tenant by (simp add: table_insert_def)
    then show ?thesis using True claimed load assms by (auto simp: sqlite_save_error_def pg_save_error_def)
  next
    case False
    then have ins: "table_insert r t = (t\<lparr>at_rows := at_rows t @ [record_row r]\<rparr>, True)" by (simp add: table_insert_def)
    have "in_force (t\<lparr>at_rows := at_rows t @ [record_row r]\<rparr>)"
      using False assms record_row_columns [of r]
      by (auto simp: in_force_def valid_table_def own_cells_def)
    moreover have "table_records (fst (table_insert r t)) = table_records t @ [r]" by (simp add: ins table_records_def)
    ultimately show ?thesis using False claimed load ins by auto
  qed
qed

lemma fresh_in_force: "in_force (fst (sqlite_init None))"
proof -
  have "sqlite_init None = (created_table\<lparr>at_indexes := [TENANT_INDEX]\<rparr>, Inr ())"
    by (simp add: sqlite_init_def created_table_def migrate_def added_columns_def add_column_def drop_index_def create_tenant_index_def)
  then show ?thesis
    by (auto simp: in_force_def valid_table_def own_cells_def created_table_def)
qed

theorem table_refines_store_witness:
  "load_all (SQLiteBackend None) (table_records (fst (sqlite_init None))) = table_select None (fst (sqlite_init None)) \<and>
   in_force (fst (table_insert demo_record (fst (sqlite_init None))))"
  using table_refines_store [OF fresh_in_force] by blast

end
