(* ===== verification/Mcp_Session.thy ===== *)
theory Mcp_Session
  imports Mcp_Proxy
begin

text \<open>
  \<open>mediated\_session\<close> and \<open>MediatedUpstream\<close> of \<open>src/custos/mcp\_stdio.py\<close>: the session of the
  \<open>mcp\<close> SDK, whose operations are functions on the world, behind the proxy. The SDK's process and
  its two ends are opened by \<open>spawn\<close> and answered by \<open>initialize\<close>.
\<close>

record 'w mcp_session =
  ms_list :: "'w \<Rightarrow> 'w \<times> string list result"
  ms_call :: "string \<Rightarrow> dict \<Rightarrow> 'w \<Rightarrow> 'w \<times> unit result"

definition mediated_session ::
  "bool \<Rightarrow> (server_params \<Rightarrow> 'w \<Rightarrow> 'w \<times> 'w mcp_session result) \<Rightarrow> ('w mcp_session \<Rightarrow> 'w \<Rightarrow> 'w \<times> unit result) \<Rightarrow>
   server_params \<Rightarrow> 'w \<Rightarrow> 'w \<times> 'w mcp_session result" where
  "mediated_session sdk spawn initialize params w =
     (if \<not> sdk then (w, Inl (RuntimeError ''the mcp SDK is required for the stdio binding''))
      else (case spawn params w of
        (w1, Inl e) \<Rightarrow> (w1, Inl e)
      | (w1, Inr s) \<Rightarrow> (case initialize s w1 of
          (w2, Inl e) \<Rightarrow> (w2, Inl e)
        | (w2, Inr _) \<Rightarrow> (w2, Inr s))))"

definition upstream_list_tools :: "'w mcp_session \<Rightarrow> 'w \<Rightarrow> 'w \<times> string list result" where
  "upstream_list_tools s w = ms_list s w"

text \<open>\<open>arguments\<close> left out is the empty dictionary. The gate and the hook are those of the proxy, for the
  tool and its arguments.\<close>

definition upstream_call_tool ::
  "rat \<Rightarrow> rat \<Rightarrow> string option \<Rightarrow> (string \<Rightarrow> dict \<Rightarrow> string \<Rightarrow> 'w \<Rightarrow> 'w \<times> gate_answer) \<Rightarrow>
   (string \<Rightarrow> dict \<Rightarrow> string \<Rightarrow> string \<Rightarrow> string \<Rightarrow> 'w \<Rightarrow> 'w \<times> hook_result) option \<Rightarrow> 'w mcp_session \<Rightarrow>
   string \<Rightarrow> dict option \<Rightarrow> mcp_proxy \<times> 'w \<Rightarrow> (mcp_proxy \<times> 'w) \<times> proxy_outcome result" where
  "upstream_call_tool now later minted gate hook s nm arguments pw =
     (let args = (case arguments of None \<Rightarrow> [] | Some a \<Rightarrow> a) in
      call_tool now later minted (gate nm args) (map_option (\<lambda>h. h nm args) hook) (Some (ms_call s nm args)) pw)"

text \<open>The session takes part in a call only when the gate's verdict is no refusal; every other
  outcome is the one a proxy without a session gives, in the same world.\<close>

lemma session_untouched:
  assumes "call_tool now later minted gate hook None (p, w) = (pw', Inr out)" and "\<not> po_forwarded out"
  shows "call_tool now later minted gate hook (Some f) (p, w) = (pw', Inr out)"
  using assms by (auto simp: call_tool_def Let_def split: sum.splits prod.splits gate_answer.splits option.splits if_splits)

lemma upstream_call_refused:
  assumes "call_tool now later minted (gate nm []) None None (p, w) = (pw', Inr out)" and "\<not> po_forwarded out"
  shows "upstream_call_tool now later minted gate None s nm None (p, w) = (pw', Inr out)"
  using session_untouched [OF assms] by (simp add: upstream_call_tool_def)

end
