(* ===== verification/Observability.thy ===== *)
theory Observability
  imports Json
begin

text \<open>
  \<open>src/custos/tracing.py\<close> and \<open>src/custos/logging.py\<close>: spans with their exporters, and the log lines.
  Times are in microseconds. What leaves the process is a list of lines and of spans handed to the
  OpenTelemetry SDK; whether the SDK is installed is an input. The time of a log line is given as
  the stamp \<open>strftime\<close> writes for it, and the text of a traceback as the library formats it.
\<close>

subsection \<open>Spans\<close>

record span =
  tr_name :: string
  tr_trace :: string
  tr_id :: string
  tr_start :: int
  tr_end :: "int option"
  tr_attrs :: dict
  tr_status :: string

definition start_span :: "string \<Rightarrow> string \<Rightarrow> int \<Rightarrow> string \<Rightarrow> span" where
  "start_span trace uuid now nm = \<lparr>tr_name = nm, tr_trace = trace, tr_id = take 16 uuid, tr_start = now, tr_end = None,
     tr_attrs = [], tr_status = ''OK''\<rparr>"

definition set_attribute :: "string \<Rightarrow> json \<Rightarrow> span \<Rightarrow> span" where
  "set_attribute k v s = s\<lparr>tr_attrs := dict_set k v (tr_attrs s)\<rparr>"

definition set_status :: "string \<Rightarrow> span \<Rightarrow> span" where
  "set_status st s = s\<lparr>tr_status := st\<rparr>"

definition end_span :: "int \<Rightarrow> span \<Rightarrow> span" where
  "end_span now s = s\<lparr>tr_end := Some now\<rparr>"

text \<open>\<open>round(x, 2)\<close> of milliseconds: hundredths of a millisecond, ties to even.\<close>

definition round_even :: "int \<Rightarrow> int \<Rightarrow> int" where
  "round_even n d = (let q = n div d; r = n mod d in
     if 2 * r < d then q else if 2 * r > d then q + 1 else if even q then q else q + 1)"

definition duration_ms :: "span \<Rightarrow> int" where
  "duration_ms s = (case tr_end s of None \<Rightarrow> 0 | Some e \<Rightarrow> 10000 * round_even (e - tr_start s) 10)"

definition span_to_dict :: "span \<Rightarrow> dict" where
  "span_to_dict s = [(''trace_id'', JStr (tr_trace s)), (''span_id'', JStr (tr_id s)), (''name'', JStr (tr_name s)),
     (''start_time'', JFloat (tr_start s)), (''end_time'', case tr_end s of None \<Rightarrow> JNull | Some e \<Rightarrow> JFloat e),
     (''duration_ms'', JFloat (duration_ms s)), (''status'', JStr (tr_status s)), (''attributes'', JObj (tr_attrs s))]"

subsection \<open>Exporters\<close>

datatype exporter = ConsoleExporter | OTLPExporter string bool | NoOpExporter

datatype emitted =
    Printed string
  | SentSpan string "(string \<times> string) list" "string option"

definition console_export :: "span \<Rightarrow> emitted" where
  "console_export s = Printed (dump default_fmt (JObj [(''otel.span'', JObj (span_to_dict s))]))"

definition attr_text :: "json \<Rightarrow> string" where
  "attr_text v = (case v of JNull \<Rightarrow> [] | JStr s \<Rightarrow> s | _ \<Rightarrow> json_repr v)"

definition otlp_export :: "span \<Rightarrow> emitted" where
  "otlp_export s = SentSpan (tr_name s) (map (\<lambda>(k, v). (k, attr_text v)) (tr_attrs s))
     (if tr_status s \<noteq> ''OK'' then Some (tr_status s) else None)"

fun export_span :: "exporter \<Rightarrow> span \<Rightarrow> emitted list" where
  "export_span ConsoleExporter s = [console_export s]"
| "export_span (OTLPExporter endpoint available) s = [if available then otlp_export s else console_export s]"
| "export_span NoOpExporter s = []"

definition build_exporter :: "environment \<Rightarrow> bool \<Rightarrow> exporter" where
  "build_exporter env sdk =
     (if lower (getenv env ''CUSTOS_TRACING'' ''console'') = ''disabled'' then NoOpExporter
      else case env ''OTEL_EXPORTER_OTLP_ENDPOINT'' of
        Some e \<Rightarrow> if e \<noteq> [] then OTLPExporter e sdk else ConsoleExporter
      | None \<Rightarrow> ConsoleExporter)"

definition finish_span :: "exporter \<Rightarrow> int \<Rightarrow> span \<Rightarrow> span \<times> emitted list" where
  "finish_span x now s = (let s' = end_span now s in (s', export_span x s'))"

subsection \<open>Log lines\<close>

record log_record =
  lr_stamp :: string
  lr_level :: int
  lr_logger :: string
  lr_message :: string
  lr_dict :: dict
  lr_exception :: "string option"

definition level_name :: "int \<Rightarrow> string" where
  "level_name n = (case map_of [(10, ''debug''), (20, ''info''), (30, ''warning''), (40, ''error''), (50, ''critical'')] n of
     Some s \<Rightarrow> s | None \<Rightarrow> ''info'')"

text \<open>The attributes of a log record that are not extras.\<close>

definition LOG_ATTRIBUTES :: "string list" where
  "LOG_ATTRIBUTES = [''args'', ''asctime'', ''created'', ''exc_info'', ''exc_text'', ''filename'', ''funcName'', ''id'',
     ''levelname'', ''levelno'', ''lineno'', ''module'', ''msecs'', ''message'', ''msg'', ''name'', ''pathname'', ''process'',
     ''processName'', ''relativeCreated'', ''stack_info'', ''thread'', ''threadName'', ''taskName'']"

definition log_payload :: "log_record \<Rightarrow> dict" where
  "log_payload r =
     (let base = [(''timestamp'', JStr (lr_stamp r)), (''level'', JStr (level_name (lr_level r))),
          (''logger'', JStr (lr_logger r)), (''message'', JStr (lr_message r))];
          extras = filter (\<lambda>(k, v). k \<notin> set LOG_ATTRIBUTES) (lr_dict r);
          payload = fold (\<lambda>(k, v). dict_set k v) extras base in
      case lr_exception r of None \<Rightarrow> payload | Some e \<Rightarrow> dict_set ''exception'' (JStr e) payload)"

definition format_log :: "log_record \<Rightarrow> string" where
  "format_log r = dump default_fmt (JObj (log_payload r))"

definition get_logger :: "string \<Rightarrow> string" where
  "get_logger nm = (if startswith nm ''custos'' then nm else ''custos.'' @ nm)"

record log_config =
  lc_level :: int
  lc_handlers :: nat
  lc_propagate :: bool

definition LEVELS :: "(string \<times> int) list" where
  "LEVELS = [(''DEBUG'', 10), (''INFO'', 20), (''WARNING'', 30), (''WARN'', 30), (''ERROR'', 40), (''CRITICAL'', 50),
     (''FATAL'', 50), (''NOTSET'', 0)]"

definition configure_logging :: "string \<Rightarrow> log_config \<Rightarrow> log_config" where
  "configure_logging level c = \<lparr>lc_level = (case map_of LEVELS (map upper_char level) of Some n \<Rightarrow> n | None \<Rightarrow> 20),
     lc_handlers = 1, lc_propagate = False\<rparr>"

subsection \<open>What reaches the outside\<close>

text \<open>A finished span is exported once, and never when tracing is disabled; a missing SDK prints it
  instead of losing it.\<close>

lemma finished_span_exported:
  "length (snd (finish_span (build_exporter env sdk) now s)) =
     (if lower (getenv env ''CUSTOS_TRACING'' ''console'') = ''disabled'' then 0 else 1)"
  by (simp add: finish_span_def build_exporter_def Let_def split: option.split)

lemma missing_sdk_prints: "export_span (OTLPExporter e False) s = export_span ConsoleExporter s"
  by simp

text \<open>What the OpenTelemetry SDK receives does not depend on the identifiers and the times of the span,
  so the exported span cannot be found by the trace an audit record is bound to.\<close>

lemma otlp_drops_identity:
  "otlp_export (s\<lparr>tr_trace := t, tr_id := i, tr_start := a, tr_end := b\<rparr>) = otlp_export s"
  by (simp add: otlp_export_def)

lemma round_even_close:
  assumes "0 < d"
  shows "\<bar>2 * (d * round_even n d - n)\<bar> \<le> d"
proof -
  define q r where "q = n div d" and "r = n mod d"
  have n: "n = d * q + r" by (simp add: q_def r_def)
  have r: "0 \<le> r" "r < d" using assms by (simp_all add: r_def)
  have down: "2 * (d * q - n) = - (2 * r)" and up: "2 * (d * (q + 1) - n) = 2 * (d - r)"
    by (simp_all add: n algebra_simps)
  have "round_even n d = (if 2 * r < d then q else if 2 * r > d then q + 1 else if even q then q else q + 1)"
    by (simp add: round_even_def Let_def q_def r_def)
  then show ?thesis using down up r by (simp split: if_splits)
qed

lemma fold_dict_set_other: "k \<notin> fst ` set es \<Longrightarrow> map_of (fold (\<lambda>(k, v). dict_set k v) es d) k = map_of d k"
  by (induction es arbitrary: d) auto

text \<open>An extra cannot change the message of a line. It can change the stamp, the level and the logger,
  which the formatter does not reserve, and an extra named \<open>id\<close> is dropped.\<close>

lemma message_kept:
  "lr_exception r = None \<Longrightarrow> map_of (log_payload r) ''message'' = Some (JStr (lr_message r))"
proof -
  assume "lr_exception r = None"
  moreover have "''message'' \<notin> fst ` set (filter (\<lambda>(k, v). k \<notin> set LOG_ATTRIBUTES) (lr_dict r))"
    by (auto simp: LOG_ATTRIBUTES_def)
  ultimately show ?thesis by (simp add: log_payload_def Let_def fold_dict_set_other)
qed

definition demo_line :: log_record where
  "demo_line = \<lparr>lr_stamp = ''s'', lr_level = 40, lr_logger = ''custos'', lr_message = ''m'',
     lr_dict = [(''level'', JStr ''debug''), (''id'', JStr ''x'')], lr_exception = None\<rparr>"

lemma extra_overwrites_level:
  "map_of (log_payload demo_line) ''level'' = Some (JStr ''debug'')" "map_of (log_payload demo_line) ''id'' = None"
  by code_simp+

end
