(* ===== verification/Doc_Citations.thy ===== *)
theory Doc_Citations
  imports Regex Json
begin

text \<open>
  \<open>src/scripts/check\_doc\_citations.py\<close>: the check that a design document's \<open>file:line\<close> citations
  sit next to a fragment the cited lines contain. The repository is an argument: which paths are
  files, what \<open>glob\<close> finds for a file name (without \<open>.git\<close>), and the text of a file. The named
  groups of the patterns are numbered in order (path, start, end).
\<close>

subsection \<open>Lines and fragments\<close>

definition line_break :: "char \<Rightarrow> bool" where
  "line_break c = (code c \<in> {10, 11, 12, 13, 28, 29, 30, 133 :: nat})"

fun splitlines :: "string \<Rightarrow> string \<Rightarrow> string list" where
  "splitlines acc [] = (if acc = [] then [] else [acc])"
| "splitlines acc (c # s) =
     (if line_break c then acc # splitlines [] (if code c = (13::nat) \<and> take 1 s = [CHR 0x0A] then tl s else s)
      else splitlines (acc @ [c]) s)"

definition MARKER :: string where "MARKER = ''<!-- citation-check: on -->''"

definition backtick :: char where "backtick = CHR 0x60"

definition CITATION :: string where
  "CITATION = rx ''(?P<path>[A-Za-z0-9_./-]+~.(?:py|md|ya?ml|json)):(?P<start>~d+)(?:-(?P<end>~d+))?''"

definition SHORTHAND :: string where
  "SHORTHAND = rx ''(?<![~w./:-]):(?P<start>~d+)(?:-(?P<end>~d+))?''"

definition TICKED :: string where
  "TICKED = backtick # ''([^'' @ [backtick] @ '']+)'' @ [backtick]"

definition QUOTED :: string where
  "QUOTED = dquote # ''([^'' @ [dquote] @ '']{8,})'' @ [dquote]"

definition MIN_ANCHOR_CHARS :: nat where "MIN_ANCHOR_CHARS = 8"

text \<open>The patterns are compiled when the module is imported.\<close>

definition find_all :: "string \<Rightarrow> string \<Rightarrow> rmatch list" where
  "find_all pat s = (case finditer pat s of Inr ms \<Rightarrow> ms | Inl _ \<Rightarrow> [])"

definition group_text :: "nat \<Rightarrow> rmatch \<Rightarrow> string" where
  "group_text n m = (case map_of (m_groups m) n of Some s \<Rightarrow> s | None \<Rightarrow> [])"

definition fullmatch :: "string \<Rightarrow> string \<Rightarrow> bool" where
  "fullmatch pat s = (case re_compile pat of Inr (ic, r) \<Rightarrow> list_ex (\<lambda>q. rest q = []) (matches ic r (start_pos None 0 s))
     | Inl _ \<Rightarrow> False)"

definition squash :: "string \<Rightarrow> string" where
  "squash s = strip (squeeze s)"

definition anchor_variants :: "string \<Rightarrow> string list" where
  "anchor_variants a = (let base = squash a in
     filter (\<lambda>v. length v \<ge> MIN_ANCHOR_CHARS)
       [base, rstrip_chars ''.,:;'' base, rstrip_chars (''.,:;)'' @ [dquote, CHR 0x27]) base])"

definition looks_like_citation :: "string \<Rightarrow> bool" where
  "looks_like_citation s = (fullmatch CITATION (strip s) \<or> fullmatch SHORTHAND (strip s))"

definition anchors_in :: "string \<Rightarrow> string list" where
  "anchors_in s = filter (\<lambda>a. \<not> looks_like_citation a \<and> length a \<ge> MIN_ANCHOR_CHARS)
     (map (\<lambda>m. strip (group_text 1 m)) (find_all TICKED s) @ map (\<lambda>m. strip (group_text 1 m)) (find_all QUOTED s))"

subsection \<open>Citations\<close>

record cite_span =
  cs_from :: nat
  cs_to :: nat
  cs_path :: string
  cs_start :: nat
  cs_end :: nat

definition span_at :: "rmatch \<Rightarrow> string \<Rightarrow> nat \<Rightarrow> cite_span" where
  "span_at m path g = \<lparr>cs_from = m_start m, cs_to = m_end m, cs_path = path, cs_start = digits_val 0 (group_text g m),
     cs_end = digits_val 0 (if group_text (Suc g) m = [] then group_text g m else group_text (Suc g) m)\<rparr>"

text \<open>A shorthand takes the last path of its line, wherever it stands.\<close>

fun add_shorthands :: "string \<Rightarrow> rmatch list \<Rightarrow> cite_span list \<Rightarrow> cite_span list" where
  "add_shorthands path [] spans = spans"
| "add_shorthands path (m # ms) spans =
     (if list_ex (\<lambda>s. cs_from s \<le> m_start m \<and> m_start m < cs_to s) spans \<or> path = [] then add_shorthands path ms spans
      else add_shorthands path ms (spans @ [span_at m path 1]))"

definition widen_span :: "string \<Rightarrow> cite_span \<Rightarrow> cite_span" where
  "widen_span line s =
     (if cs_from s > 0 \<and> cs_to s < length line \<and> line ! (cs_from s - 1) = backtick \<and> line ! cs_to s = backtick
      then s\<lparr>cs_from := cs_from s - 1, cs_to := cs_to s + 1\<rparr> else s)"

text \<open>Two spans of a line start at different characters, so their order is that of the starts.\<close>

definition spans_of :: "string \<Rightarrow> cite_span list" where
  "spans_of line =
     (let cs = find_all CITATION line; file_at = (if cs = [] then [] else group_text 1 (last cs));
          spans = add_shorthands file_at (find_all SHORTHAND line) (map (\<lambda>m. span_at m (group_text 1 m) 2) cs) in
      sort_key cs_from (map (widen_span line) spans))"

record citation =
  ci_path :: string
  ci_start :: nat
  ci_end :: nat
  ci_line :: nat
  ci_anchors :: "string list"

definition slice :: "nat \<Rightarrow> nat \<Rightarrow> 'a list \<Rightarrow> 'a list" where
  "slice a b xs = take (b - a) (drop a xs)"

definition anchors_of :: "string \<Rightarrow> cite_span list \<Rightarrow> nat \<Rightarrow> string list" where
  "anchors_of line spans i =
     (let s = spans ! i; next_at = (if Suc i < length spans then cs_from (spans ! Suc i) else length line);
          after = anchors_in (slice (cs_to s) next_at line) in
      if after = [] \<and> Suc i = length spans
      then anchors_in (slice (if i > 0 then cs_to (spans ! (i - 1)) else 0) (cs_from s) line) else after)"

definition line_citations :: "nat \<Rightarrow> string \<Rightarrow> citation list" where
  "line_citations lineno line = (let spans = spans_of line in
     map (\<lambda>i. \<lparr>ci_path = cs_path (spans ! i), ci_start = cs_start (spans ! i), ci_end = cs_end (spans ! i),
        ci_line = lineno, ci_anchors = anchors_of line spans i\<rparr>) [0..<length spans])"

definition citations_in :: "string \<Rightarrow> citation list" where
  "citations_in markdown = (let ls = splitlines [] markdown in
     concat (map (\<lambda>i. line_citations (Suc i) (ls ! i)) [0..<length ls]))"

subsection \<open>Checking a document\<close>

record repo =
  rp_file :: "string \<Rightarrow> bool"
  rp_glob :: "string \<Rightarrow> string list"
  rp_text :: "string \<Rightarrow> string"

definition path_name :: "string \<Rightarrow> string" where
  "path_name p = (case filter (\<lambda>c. c \<noteq> [] \<and> c \<noteq> ''.'') (split_on (CHR ''/'') p) of [] \<Rightarrow> [] | cs \<Rightarrow> last cs)"

definition resolve :: "repo \<Rightarrow> string \<Rightarrow> string + string" where
  "resolve rp p =
     (if rp_file rp p then Inr p
      else if rp_file rp (path_join ''custos'' p) then Inr (path_join ''custos'' p)
      else case rp_glob rp (path_name p) of
        [m] \<Rightarrow> Inr m
      | [] \<Rightarrow> Inl (p @ '' does not exist'')
      | ms \<Rightarrow> Inl (p @ '' is ambiguous: '' @ join '', '' (take 4 ms)))"

definition cited_text :: "string list \<Rightarrow> citation \<Rightarrow> string" where
  "cited_text source c = squash (join [CHR 0x0A] (slice (ci_start c - 1) (ci_end c) source))"

definition grounded :: "string list \<Rightarrow> citation \<Rightarrow> bool" where
  "grounded source c = list_ex (\<lambda>a. list_ex (contains (cited_text source c)) (anchor_variants a)) (ci_anchors c)"

definition cite_ref :: "citation \<Rightarrow> string" where
  "cite_ref c = ci_path c @ '':'' @ nat_repr (ci_start c)"

definition cite_range :: "citation \<Rightarrow> string" where
  "cite_range c = cite_ref c @ ''-'' @ nat_repr (ci_end c)"

definition cite_problem :: "repo \<Rightarrow> citation \<Rightarrow> string option" where
  "cite_problem rp c = (case resolve rp (ci_path c) of
     Inl e \<Rightarrow> Some e
   | Inr target \<Rightarrow> (let source = splitlines [] (rp_text rp target) in
       if ci_start c < 1 \<or> ci_end c > length source \<or> ci_end c < ci_start c then
         Some (cite_range c @ '' is outside the file ('' @ nat_repr (length source) @ '' lines)'')
       else if ci_anchors c = [] then Some (cite_ref c @ '' has no quoted fragment, so the claim is not checkable'')
       else if \<not> grounded source c then
         Some (cite_range c @ '' does not contain its fragment ('' @ join '', '' (map py_repr (take 2 (ci_anchors c))) @ '')'')
       else None))"

definition check_document :: "repo \<Rightarrow> string \<Rightarrow> (nat \<times> string) list" where
  "check_document rp markdown =
     List.map_filter (\<lambda>c. map_option (Pair (ci_line c)) (cite_problem rp c)) (citations_in markdown)"

text \<open>\<open>opted\_in\<close>, \<open>run\<close> and \<open>main\<close>: the exit code. \<open>designs\<close> are the paths of the design documents, sorted.\<close>

definition opted_in :: "repo \<Rightarrow> string list \<Rightarrow> string list" where
  "opted_in rp designs = filter (\<lambda>p. contains (rp_text rp p) MARKER) designs"

definition run_checks :: "repo \<Rightarrow> string list \<Rightarrow> nat" where
  "run_checks rp paths = sum_list (map (\<lambda>p. length (check_document rp (rp_text rp p))) paths)"

subsection \<open>The self test\<close>

fun find_sub :: "nat \<Rightarrow> string \<Rightarrow> string \<Rightarrow> nat option" where
  "find_sub i p [] = (if p = [] then Some i else None)"
| "find_sub i p (c # s) = (if startswith (c # s) p then Some i else find_sub (Suc i) p s)"

text \<open>\<open>s.replace(p, r, 1)\<close>.\<close>

definition replace_first :: "string \<Rightarrow> string \<Rightarrow> string \<Rightarrow> string" where
  "replace_first p r s = (case find_sub 0 p s of None \<Rightarrow> s | Some i \<Rightarrow> take i s @ r @ drop (i + length p) s)"

definition first_citation_span :: "string \<Rightarrow> cite_span option" where
  "first_citation_span markdown =
     find_map (\<lambda>line. case spans_of line of [] \<Rightarrow> None | s # _ \<Rightarrow> Some s) (splitlines [] markdown)"

definition line_mutations :: "string \<Rightarrow> (string \<times> string) list result" where
  "line_mutations markdown = (case first_citation_span markdown of
     None \<Rightarrow> Inr []
   | Some s \<Rightarrow> let start = nat_repr (cs_start s); needle = cs_path s @ '':'' @ start in
       (case find_sub 0 needle markdown of
          None \<Rightarrow> Inl (ValueError ''substring not found'')
        | Some i \<Rightarrow> let before = take i markdown; after = drop (i + length needle) markdown in
            Inr [(''line number past the end of the file'', before @ cs_path s @ '':99999'' @ after),
                 (''file that does not exist'', before @ ''custos/nonexistent.py:'' @ start @ after),
                 (''line number on a line that does not hold the fragment'', before @ cs_path s @ '':1'' @ after)]))"

definition ANCHORED :: string where
  "ANCHORED = rx (''('' @ [backtick] @ ''[A-Za-z0-9_./-]+~.py:~d+(?:-~d+)?'' @ [backtick] @ '')~s+('' @ [backtick] @ ''[^'' @ [backtick] @ '']{8,}''
     @ [backtick] @ ''|'' @ [dquote] @ ''[^'' @ [dquote] @ '']{8,}'' @ [dquote] @ '')'')"

definition fragment_mutation :: "string \<Rightarrow> (string \<times> string) list" where
  "fragment_mutation markdown = (case py_search ANCHORED markdown of
     Inr (Some m) \<Rightarrow> [(''citation with no quoted fragment'',
       take (m_start m) markdown @ group_text 1 m @ drop (m_end m) markdown)]
   | _ \<Rightarrow> [])"

definition stale_mutation :: "string \<Rightarrow> (string \<times> string) list" where
  "stale_mutation markdown = (case List.find (\<lambda>c. ci_anchors c \<noteq> [] \<and> ci_start c = ci_end c \<and> ci_start c + 1 \<le> 4000 \<and>
        contains markdown (cite_ref c)) (citations_in markdown) of
     None \<Rightarrow> []
   | Some c \<Rightarrow> [(''wrong line whose fragment exists elsewhere'',
       replace_first (cite_ref c) (ci_path c @ '':'' @ nat_repr (ci_start c + 1)) markdown)])"

definition mutations :: "string \<Rightarrow> (string \<times> string) list result" where
  "mutations markdown = try_bind (line_mutations markdown) (\<lambda>ls. Inr (ls @ fragment_mutation markdown @ stale_mutation markdown))"

definition mutation_failures :: "repo \<Rightarrow> string \<Rightarrow> string \<times> string \<Rightarrow> nat" where
  "mutation_failures rp original nm = (case nm of (name, mutated) \<Rightarrow>
     if mutated = original then 1
     else let problems = check_document rp mutated in
       of_bool (problems = []) +
       of_bool (name = ''citation with no quoted fragment'' \<and> \<not> list_ex (\<lambda>(l, msg). contains msg ''no quoted fragment'') problems))"

text \<open>\<open>selftest\<close>: the number of failures, on the text of the document it uses.\<close>

definition selftest :: "repo \<Rightarrow> string \<Rightarrow> nat result" where
  "selftest rp original =
     (let failures = of_bool (check_document rp original \<noteq> []) in
      try_bind (mutations original) (\<lambda>ms.
        if length ms < 4 then Inr (failures + 1)
        else Inr (failures + sum_list (map (mutation_failures rp original) ms))))"

definition SELFTEST_DOC :: string where
  "SELFTEST_DOC = ''docs/design/pre-execution-boundary-accurate.md''"

definition main_exit :: "repo \<Rightarrow> string list \<Rightarrow> string list \<Rightarrow> nat result" where
  "main_exit rp designs argv =
     (if ''--selftest'' \<in> set argv then
        try_bind (selftest rp (rp_text rp SELFTEST_DOC)) (\<lambda>n. Inr (if n \<noteq> 0 then 1 else 0))
      else let given_paths = filter (\<lambda>a. \<not> startswith a ''-'') argv;
               targets = (if given_paths = [] then opted_in rp designs else given_paths) in
        Inr (if targets = [] then 0 else if run_checks rp targets \<noteq> 0 then 1 else 0))"

subsection \<open>What a passing document has\<close>

lemma cite_problem_None:
  "cite_problem rp c = None \<longleftrightarrow> (\<exists>target. resolve rp (ci_path c) = Inr target \<and>
     1 \<le> ci_start c \<and> ci_start c \<le> ci_end c \<and> ci_end c \<le> length (splitlines [] (rp_text rp target)) \<and>
     grounded (splitlines [] (rp_text rp target)) c)"
  by (auto simp: cite_problem_def grounded_def Let_def split: sum.splits)

lemma map_filter_Nil: "List.map_filter f xs = [] \<longleftrightarrow> (\<forall>x \<in> set xs. f x = None)"
  by (induction xs) (auto simp: List.map_filter_simps split: option.splits)

lemma passing_document:
  "check_document rp md = [] \<longleftrightarrow> (\<forall>c \<in> set (citations_in md). cite_problem rp c = None)"
  by (simp add: check_document_def map_filter_Nil)

lemma anchor_long: "v \<in> set (anchor_variants a) \<Longrightarrow> 8 \<le> length v"
  by (auto simp: anchor_variants_def MIN_ANCHOR_CHARS_def Let_def split: if_splits)

lemma add_shorthands_prefix: "set spans \<subseteq> set (add_shorthands path ms spans)"
proof (induction path ms spans rule: add_shorthands.induct)
  case (2 path m ms spans)
  then show ?case by (cases "list_ex (\<lambda>s. cs_from s \<le> m_start m \<and> m_start m < cs_to s) spans \<or> path = []") auto
qed simp

lemma widen_span_keeps [simp]: "cs_path (widen_span l s) = cs_path s" "cs_start (widen_span l s) = cs_start s"
  "cs_end (widen_span l s) = cs_end s"
  by (simp_all add: widen_span_def)

lemma path_citation_span:
  assumes "m \<in> set (find_all CITATION line)"
  shows "\<exists>s \<in> set (spans_of line). cs_path s = group_text 1 m \<and> cs_start s = digits_val 0 (group_text 2 m)"
proof -
  let ?cs = "find_all CITATION line"
  define spans where "spans = add_shorthands (if ?cs = [] then [] else group_text 1 (last ?cs)) (find_all SHORTHAND line)
    (map (\<lambda>m. span_at m (group_text 1 m) 2) ?cs)"
  have all: "set (spans_of line) = widen_span line ` set spans" by (simp add: spans_of_def spans_def Let_def)
  have "span_at m (group_text 1 m) 2 \<in> set spans"
    using add_shorthands_prefix assms unfolding spans_def by fastforce
  then show ?thesis unfolding all by (intro bexI [of _ "widen_span line (span_at m (group_text 1 m) 2)"]) (auto simp: span_at_def)
qed

lemma line_citation:
  assumes "s \<in> set (spans_of line)"
  shows "\<exists>c \<in> set (line_citations n line). ci_path c = cs_path s \<and> ci_start c = cs_start s \<and> ci_line c = n"
proof -
  obtain i where "i < length (spans_of line)" "spans_of line ! i = s" using assms by (auto simp: in_set_conv_nth)
  then show ?thesis by (auto simp: line_citations_def Let_def intro!: bexI [of _ i])
qed

text \<open>In a document that passes, every \<open>file:line\<close> the pattern finds names a file of the repository
  that has the line, and its lines contain a fragment of at least eight characters bound to it.\<close>

lemma passing_document_is_grounded:
  assumes "check_document rp md = []" and "i < length (splitlines [] md)"
    and "m \<in> set (find_all CITATION (splitlines [] md ! i))"
  shows "\<exists>c target v. c \<in> set (citations_in md) \<and> ci_path c = group_text 1 m \<and> ci_start c = digits_val 0 (group_text 2 m) \<and>
    ci_line c = Suc i \<and> resolve rp (group_text 1 m) = Inr target \<and> 1 \<le> ci_start c \<and>
    ci_end c \<le> length (splitlines [] (rp_text rp target)) \<and> 8 \<le> length v \<and>
    contains (cited_text (splitlines [] (rp_text rp target)) c) v"
proof -
  obtain c where c: "c \<in> set (line_citations (Suc i) (splitlines [] md ! i))" "ci_path c = group_text 1 m"
    "ci_start c = digits_val 0 (group_text 2 m)" "ci_line c = Suc i"
    using path_citation_span [OF assms(3)] line_citation [of _ "splitlines [] md ! i" "Suc i"] by metis
  then have mem: "c \<in> set (citations_in md)" using assms(2) by (auto simp: citations_in_def Let_def)
  then have ok: "cite_problem rp c = None" using assms(1) by (simp add: passing_document)
  obtain target where t: "resolve rp (ci_path c) = Inr target" "1 \<le> ci_start c"
    "ci_end c \<le> length (splitlines [] (rp_text rp target))" "grounded (splitlines [] (rp_text rp target)) c"
    using iffD1 [OF cite_problem_None ok] by blast
  obtain v where "8 \<le> length v" "contains (cited_text (splitlines [] (rp_text rp target)) c) v"
    using t(4) anchor_long by (auto simp: grounded_def list_ex_iff)
  then show ?thesis using mem c t by metis
qed

end
