(* ===== verification/Wiring.thy ===== *)
theory Wiring
  imports Execution Custody_Loop Observability
begin

text \<open>
  What \<open>src/main.py\<close> builds besides the state of the routes: the execution adapter of the
  enterprise routes from the environment, the logging configuration, the version header of
  every response, and what the end of the lifespan does. \<open>to\_float\<close> is \<open>float()\<close>, in the unit the
  adapter counts in.
\<close>

definition VERSION :: string where "VERSION = ''1.4.0''"

definition target_allowlist :: "environment \<Rightarrow> string list option" where
  "target_allowlist env = (let raw = env_or_empty env ''CUSTOS_TARGET_ALLOWLIST'' in
     if raw \<noteq> [] then Some (remdups (map strip (filter (\<lambda>h. strip h \<noteq> []) (split_on (CHR '','') raw)))) else None)"

definition execution_adapter :: "environment \<Rightarrow> (string \<Rightarrow> int result) \<Rightarrow> http_adapter result" where
  "execution_adapter env to_float =
     try_bind (to_float (getenv env ''CUSTOS_EXECUTION_TIMEOUT'' ''10.0'')) (\<lambda>timeout.
     try_bind (py_int (getenv env ''CUSTOS_CIRCUIT_THRESHOLD'' ''5'')) (\<lambda>threshold.
     try_bind (to_float (getenv env ''CUSTOS_CIRCUIT_RESET'' ''30.0'')) (\<lambda>reset.
     Inr (new_adapter (target_allowlist env) timeout threshold reset))))"

definition main_logging :: "environment \<Rightarrow> log_config \<Rightarrow> log_config" where
  "main_logging env = configure_logging (getenv env ''LOG_LEVEL'' ''INFO'')"

definition add_version_header :: "(string \<times> string) list \<Rightarrow> (string \<times> string) list" where
  "add_version_header headers = dict_set ''X-CUSTOS-Version'' VERSION headers"

text \<open>The end of the lifespan stops the loop, when custody is on.\<close>

definition shutdown_acts :: "bool \<Rightarrow> thread_act list" where
  "shutdown_acts custody = (if custody then [StopBegin] else [])"

subsection \<open>Facts\<close>

lemma versioned: "map_of (add_version_header hs) ''X-CUSTOS-Version'' = Some VERSION"
  by (simp add: add_version_header_def)

text \<open>An allowlist of blanks is no allowlist: with \<open>CUSTOS\_TARGET\_ALLOWLIST=","\<close> every public host is
  reachable, as with none.\<close>

lemma blank_allowlist_allows_any:
  assumes "env ''CUSTOS_TARGET_ALLOWLIST'' = Some '',''"
  shows "target_allowlist env = Some []" "validate_target resolve url (Some []) = validate_target resolve url None"
proof -
  show "target_allowlist env = Some []"
    using assms by (simp add: target_allowlist_def env_or_empty_def getenv_def strip_def lstrip_def rstrip_def)
  show "validate_target resolve url (Some []) = validate_target resolve url None"
    by (cases "urlparse url") (simp_all add: validate_target_def split: option.split)
qed

text \<open>The names of the list are compared with the host of the URL, which \<open>urlparse\<close> lowers: a name
  written with a capital letter admits nothing.\<close>

lemma capital_host_blocked:
  assumes "urlparse url = Inr u" and "u_scheme u = ''https''" and "url_hostname u = Some host" and "lower host = host"
    and "hs \<noteq> []" and "\<forall>h \<in> set hs. lower h \<noteq> h"
  shows "validate_target resolve url (Some hs) = Inl (SSRFError (''Target host '' @ quoted host @ '' not in allowlist''))"
  using assms by (auto simp: validate_target_def)

end
