(* ===== verification/Spec2Isabelle.thy ===== *)
theory Spec2Isabelle
  imports Prelude PyText Json Sha256 Regex Policy_Engine Policy_Store Policy_Citation
    Opa_Engine Hybrid_Engine Policy_Factory Validation Rate_Limiter Audit_Chain Audit_Store
    Retention Content_Retention Custody Custody_Verify Tenant Action_Gate Mcp_Proxy
    Url Execution Firewall Review Deployment_Binding Auth Startup Models Service Service_Admin Service_State Status
    Surplus_Pack Custody_Loop Audit_Schema Mcp_Session Observability
    Doc_Citations Wiring
begin

text \<open>
  CUSTOS is a policy gate in front of AI agents and models, with a tamper-evident audit trail.
  A request is authenticated, validated, rate limited and judged by the policy engine of its
  tenant; the decision is recorded in the tenant's hash chain before it is served. Around that
  core stand the gate that judges tool actions, the proxy that puts the gate before an MCP
  server, the adapter that forwards allowed requests, the side store that keeps and erases the
  content of decisions, and custody, which anchors the heads of the chains outside. This
  development models the implementation under \<open>src/custos\<close>, \<open>src/main.py\<close>, the policy pack of
  \<open>src/packs\<close> and the citation check of \<open>src/scripts\<close>, one theory per part.

  \<^bold>\<open>How the parts interact.\<close> \<open>main.py\<close> builds the singletons (\<open>Startup\<close>: the record \<open>service\<close>) and
  refuses to start on a configuration it cannot back. Its routes call the tenant registry
  (\<open>Tenant\<close>), which owns for each tenant a policy engine (\<open>Policy\_Factory\<close> over
  \<open>Policy\_Engine\<close>, \<open>Opa\_Engine\<close>, \<open>Hybrid\_Engine\<close>), a rate limiter (\<open>Rate\_Limiter\<close>) and an audit
  chain (\<open>Audit\_Store\<close> over \<open>Audit\_Chain\<close>), and keeps custom rules in the policy store
  (\<open>Policy\_Store\<close>). The action gate (\<open>Action\_Gate\<close>) reads and writes the same tenants; the
  proxy (\<open>Mcp\_Proxy\<close>, \<open>Mcp\_Session\<close>) and the firewall (\<open>Firewall\<close> over \<open>Execution\<close>) ask it or the
  engines before anything leaves. Recording with retention goes through \<open>Retention\<close> and
  \<open>Content\_Retention\<close>. Custody (\<open>Custody\<close>, \<open>Custody\_Loop\<close>) reads the heads of the chains and
  the policy commitments the gate queues; \<open>Custody\_Verify\<close> is the external check.

  \<^bold>\<open>Theories and sources.\<close>
  \<^item> Shared: \<open>Prelude\<close> (exceptions as the datatype \<open>exn\<close>, the result type, \<open>try\_bind\<close>, dictionaries
    in insertion order), \<open>PyText\<close> (Python's text operations), \<open>Json\<close> (\<open>json.dumps\<close>), \<open>Sha256\<close>,
    \<open>Regex\<close> (the part of \<open>re\<close> the program uses), \<open>Url\<close> (\<open>urllib.parse\<close>, \<open>ipaddress\<close>).
  \<^item> Policy: \<open>Policy\_Engine\<close> (\<open>policy\_engine.py\<close>), \<open>Opa\_Engine\<close>, \<open>Hybrid\_Engine\<close>, \<open>Policy\_Factory\<close>,
    \<open>Policy\_Store\<close>, \<open>Policy\_Citation\<close>, and \<open>Surplus\_Pack\<close> (\<open>packs/surplus\_recovery.py\<close>).
  \<^item> Input: \<open>Validation\<close> (\<open>validation.py\<close>), \<open>Rate\_Limiter\<close>, \<open>Models\<close> (\<open>models.py\<close>).
  \<^item> Audit: \<open>Audit\_Chain\<close> (records, preimages, verification), \<open>Audit\_Store\<close> (backends and chains of
    \<open>audit.py\<close>, \<open>audit\_persistence.py\<close>), \<open>Audit\_Schema\<close> (the SQL table, its creation and migration).
  \<^item> Retention: \<open>Retention\<close> (\<open>retention.py\<close>), \<open>Content\_Retention\<close> (\<open>content\_retention.py\<close> and the
    recording calls of \<open>main.py\<close>).
  \<^item> Custody: \<open>Custody\<close>, \<open>Custody\_Loop\<close>, \<open>Custody\_Verify\<close> (\<open>custody.py\<close>).
  \<^item> Gate and execution: \<open>Action\_Gate\<close>, \<open>Mcp\_Proxy\<close> (\<open>mcp\_proxy.py\<close>, \<open>mcp\_gate\_adapter.py\<close>,
    \<open>mcp\_stdio.py\<close>), \<open>Mcp\_Session\<close>, \<open>Execution\<close>, \<open>Firewall\<close>.
  \<^item> Review and binding: \<open>Review\<close> (\<open>replay.py\<close>, \<open>snapshot.py\<close>, \<open>policy\_diff.py\<close>),
    \<open>Deployment\_Binding\<close>, \<open>Auth\<close> (\<open>auth.py\<close>, \<open>jwks.py\<close>).
  \<^item> Service: \<open>Tenant\<close>, \<open>Startup\<close> (\<open>scaling.py\<close> and the lifespan), \<open>Service\<close> (the evaluation routes),
    \<open>Service\_Admin\<close> (the administrative routes), \<open>Service\_State\<close> (the invariant of the whole
    service), \<open>Status\<close> (\<open>/health\<close>, \<open>/ready\<close>, \<open>/metrics\<close>, \<open>/v1/info\<close>), \<open>Observability\<close> (\<open>tracing.py\<close>,
    \<open>logging.py\<close>), \<open>Wiring\<close> (what else \<open>main.py\<close> builds).
  \<^item> Tooling: \<open>Doc\_Citations\<close> (\<open>scripts/check\_doc\_citations.py\<close>).
  The definitions follow the order of their source and keep its names where the logic allows it;
  a class is a record of its attributes, a method a function that returns the updated record,
  and every raise, early return and fallback is a branch.

  \<^bold>\<open>What the lemmas show.\<close>
  \<^item> Chains: a head determines the history below it up to a hash collision; an edit in place is
    detected; any interleaving of writers on one store leaves every tenant's rows a verified
    chain; recording is all or nothing; reopening returns what was recorded; opening an older
    store keeps its evidence; the SQL table refines the abstract store.
  \<^item> Decisions: what the regex engine answers on every input; the engines behind one interface
    (locale \<open>decision\_engine\<close>); rules kept by every backend of the policy store (locale
    \<open>rule\_storage\<close>); the bound of the rate limiter (locale \<open>fixed\_window\<close>, for both windows).
  \<^item> Gate: no allowed action without its checks and its record; in every run of a gate from its
    construction (\<open>gate\_run\<close>) a record cites the policy in force, or the tenant's engine held
    a colliding rule set earlier in that run; a forwarded tool call was allowed and recorded; a dead gate is asked a bounded number
    of times and recovers; an outgoing request goes to an address that was checked.
  \<^item> Tenants: custom rules survive a restart, one tenant's operations leave the others alone, both
    over every operation the registry accepts: a rule added for an unregistered tenant goes to the
    engine of the default tenant, and the statements say where it ends up (\<open>rules\_in\_force\<close>,
    \<open>written\_tenant\<close>).
  \<^item> Retention: the records and the store agree in every reachable world; a purge deletes and
    attests, and the body stays unreadable (\<open>after\_purge\<close>) unless the legacy import stores the
    same body again; a decision is recorded with the form its content is really kept in.
  \<^item> Custody: an anchored history cannot be rewritten without contradiction; the anchors of one
    process, for a tenant with a directory of its own whose policies are not committed, are
    established among any number of other tenants and their commitments (\<open>custody\_reachable\<close>; a
    restart, a commitment of the tenant itself, a forced anchor of its empty chain and a verifier
    fed the anchors of several tenants break it, as the lemmas of \<open>Custody\_Verify\<close> show); cited policies are anchored; the background loop ends at
    the stop event and nowhere else, is alone, and one healthy pass puts every queued commitment
    and every due anchor into every sink (\<open>sinks\_took\<close>, \<open>delivered\<close>). The nonce of a timestamp
    request is read back as the signed number a DER integer is (\<open>der\_int\<close>).
  \<^item> Service: allowed evaluations are recorded, unverified callers refused, purges authorised,
    requests accounted for; every chain the service holds verifies whatever it has served.
  Each component ends with its properties; behaviours that differ from what the code or its
  documentation means to do are lemmas too, at the end of their theories.

  \<^bold>\<open>Interfaces.\<close> \<open>json\_escape\<close> (what makes a dump injective), \<open>rule\_storage\<close>, \<open>decision\_engine\<close>,
  \<open>fixed\_window\<close> and \<open>chain\_storage\<close> are locales interpreted on the model's own operations in the
  theories that provide them; \<open>chain\_storage\<close> both on the abstract store and on the SQL table.

  \<^bold>\<open>Loops, fuel and bounds.\<close> Recursion is structural or has a termination proof. The regex parser
  takes \<open>4 * length + 4\<close> steps of fuel, more than one per call of its three functions, which
  consume a character at least every third call; quantifiers iterate at most as often as there
  are characters left. The custody loop may run for ever and is a \<open>partial\_function\<close>. SHA-256
  computes on 32 bit words; the advisory lock key is the signed value of eight bytes.

  \<^bold>\<open>Conventions.\<close> A \<open>str\<close> is a list of Latin-1 characters; the em dash of messages is written \<open>-\<close>,
  the arrow \<open>->\<close> and the ellipsis \<open>...\<close>. Times are integers in microseconds, read from the clock as
  arguments; the proxy's intervals are rationals in place of floats; stamps written by \<open>strftime\<close>
  have fixed width. A dictionary is an association list in insertion order. What a database, a
  file system, a git repository, a resolver, an HTTP client or an OPA server answers or raises is
  an argument (\<open>store\_fault\<close>, \<open>sink\_world\<close>, \<open>resolver\<close>, \<open>opa\_server\<close> and the like), as are the random
  identifiers, the environment (\<open>string \<Rightarrow> string option\<close>), \<open>json.loads\<close> and \<open>float()\<close> of
  configured values, and PyJWT with its cryptography (the record \<open>crypto\<close>). \<open>urllib.parse\<close> and
  \<open>ipaddress\<close> are those of Python 3.12.

  \<^bold>\<open>Simplifications that lose no behaviour claimed.\<close> The cache of open content stores is
  transparent. The memory sink of custody keeps a snapshot of each anchor, where the code shares
  the gap dictionary. \<open>os.walk\<close> and sets are visited in a fixed order. Iteration over matches is
  for patterns that match no empty text, as all of the program's do. Requests are typed before
  the model, as Pydantic does; a late answer of a gate call is an evaluation of its own.

  \<^bold>\<open>Not modelled.\<close> Threads inside one operation (each runs under its lock; the interleavings that
  matter, of writers on a store and of \<open>start\<close>, \<open>stop\<close> and the anchor loop, are step relations).
  Faults of the side store's own database. JSON values of the wrong type in anchor files, which
  raise in the model. The spans and log lines the routes emit, and the \<open>WWW-Authenticate\<close> header
  of a 401. The application object and routing of FastAPI. The enterprise routes, which are in a
  package that is not in the repository. The drills, red-proof attacks and benchmark under
  \<open>scripts\<close>, and the tests, which exercise the modelled code from outside; the one-off patch script.
\<close>

end
